(* ===== verification/Prelude.thy ===== *)
theory Prelude
  imports Main "HOL-Library.Word" "HOL-Library.AList" "HOL-Library.Multiset"
begin

text \<open>
  Shared vocabulary of the development: Rust strings as UTF-8 byte strings with the
  standard-library operations the gateway uses (trim, ASCII case folding, substring and
  prefix tests, decimal printing and parsing), the saturating and wrapping integer
  operations of the fixed-width types, and the operations on maps and slices (retain,
  entry update, rotation, position, swap) the components are written with, each with the
  lemmas the component theories rewrite by.
\<close>

named_theorems step_defs \<open>definitions of the operations, unfolded in preservation proofs\<close>
named_theorems frame_rules \<open>fields an operation leaves alone\<close>

section \<open>Machine integers\<close>

text \<open>
  Signed 64-bit quantities (time stamps, epochs) are integers; the saturating operations
  of the source are written out. Unsigned counters are naturals with the bound of their
  width written out, or words where the wrap-around is observable.
\<close>

definition i64_max :: int where "i64_max = 2 ^ 63 - 1"
definition i64_min :: int where "i64_min = - (2 ^ 63)"
definition u32_max :: nat where "u32_max = 2 ^ 32 - 1"
definition u64_max :: nat where "u64_max = 2 ^ 64 - 1"

definition in_i64 :: "int \<Rightarrow> bool" where
  "in_i64 x \<longleftrightarrow> i64_min \<le> x \<and> x \<le> i64_max"

definition i64_saturating_sub :: "int \<Rightarrow> int \<Rightarrow> int" where
  "i64_saturating_sub a b = max i64_min (min i64_max (a - b))"

definition i64_saturating_mul :: "int \<Rightarrow> int \<Rightarrow> int" where
  "i64_saturating_mul a b = max i64_min (min i64_max (a * b))"

definition u32_saturating_add :: "nat \<Rightarrow> nat \<Rightarrow> nat" where
  "u32_saturating_add a b = min u32_max (a + b)"

definition u64_saturating_add :: "nat \<Rightarrow> nat \<Rightarrow> nat" where
  "u64_saturating_add a b = min u64_max (a + b)"

definition u64_wrapping_add :: "nat \<Rightarrow> nat \<Rightarrow> nat" where
  "u64_wrapping_add a b = (a + b) mod 2 ^ 64"

lemma i64_saturating_sub_less_iff:
  "in_i64 c \<Longrightarrow> c < i64_max \<Longrightarrow> c < i64_saturating_sub a b \<longleftrightarrow> c < a - b"
  by (auto simp: i64_saturating_sub_def in_i64_def)

lemma i64_saturating_sub_mono: "a \<le> a' \<Longrightarrow> i64_saturating_sub a b \<le> i64_saturating_sub a' b"
  by (auto simp: i64_saturating_sub_def)

lemma u32_saturating_add_le [simp]: "u32_saturating_add a b \<le> u32_max"
  by (simp add: u32_saturating_add_def)

lemma u32_saturating_add_exact: "a + b \<le> u32_max \<Longrightarrow> u32_saturating_add a b = a + b"
  by (simp add: u32_saturating_add_def)

lemma u64_saturating_add_le_iff:
  "c < u64_max \<Longrightarrow> u64_saturating_add a b \<le> c \<longleftrightarrow> a + b \<le> c"
  by (auto simp: u64_saturating_add_def)

lemma u64_wrapping_add_exact: "a + b \<le> u64_max \<Longrightarrow> u64_wrapping_add a b = a + b"
  by (simp add: u64_wrapping_add_def u64_max_def)

section \<open>Strings\<close>

text \<open>
  A Rust \<open>&str\<close> is its UTF-8 byte string (a \<open>char\<close> of HOL is a byte). \<open>str::trim\<close>
  removes the code points of the Unicode property White_Space at both ends; their UTF-8
  encodings are one, two or three bytes long and are recognised here byte by byte.
\<close>

definition ws1 :: "char \<Rightarrow> bool" where
  "ws1 a \<longleftrightarrow> (9 \<le> (of_char a :: nat) \<and> (of_char a :: nat) \<le> 13) \<or> (of_char a :: nat) = 32"

definition ws2 :: "char \<Rightarrow> char \<Rightarrow> bool" where
  "ws2 a b \<longleftrightarrow> (of_char a :: nat) = 0xC2 \<and> ((of_char b :: nat) = 0x85 \<or> (of_char b :: nat) = 0xA0)"

definition ws3 :: "char \<Rightarrow> char \<Rightarrow> char \<Rightarrow> bool" where
  "ws3 a b c \<longleftrightarrow>
     (let x = (of_char a :: nat); y = (of_char b :: nat); z = (of_char c :: nat) in
       (x = 0xE1 \<and> y = 0x9A \<and> z = 0x80) \<or>
       (x = 0xE2 \<and> y = 0x80 \<and> (0x80 \<le> z \<and> z \<le> 0x8A \<or> z = 0xA8 \<or> z = 0xA9 \<or> z = 0xAF)) \<or>
       (x = 0xE2 \<and> y = 0x81 \<and> z = 0x9F) \<or>
       (x = 0xE3 \<and> y = 0x80 \<and> z = 0x80))"

fun strip_ws :: "(char \<Rightarrow> char \<Rightarrow> bool) \<Rightarrow> (char \<Rightarrow> char \<Rightarrow> char \<Rightarrow> bool) \<Rightarrow> string \<Rightarrow> string" where
  "strip_ws p2 p3 [] = []"
| "strip_ws p2 p3 [a] = (if ws1 a then [] else [a])"
| "strip_ws p2 p3 [a, b] =
     (if ws1 a then strip_ws p2 p3 [b] else if p2 a b then [] else [a, b])"
| "strip_ws p2 p3 (a # b # c # r) =
     (if ws1 a then strip_ws p2 p3 (b # c # r)
      else if p2 a b then strip_ws p2 p3 (c # r)
      else if p3 a b c then strip_ws p2 p3 r
      else a # b # c # r)"

definition trim_start :: "string \<Rightarrow> string" where
  "trim_start s = strip_ws ws2 ws3 s"

definition trim_end :: "string \<Rightarrow> string" where
  "trim_end s = rev (strip_ws (\<lambda>a b. ws2 b a) (\<lambda>a b c. ws3 c b a) (rev s))"

definition trim :: "string \<Rightarrow> string" where
  "trim s = trim_end (trim_start s)"

definition lower_char :: "char \<Rightarrow> char" where
  "lower_char c = (let n = (of_char c :: nat) in if 65 \<le> n \<and> n \<le> 90 then char_of (n + 32) else c)"

definition to_ascii_lowercase :: "string \<Rightarrow> string" where
  "to_ascii_lowercase s = map lower_char s"

definition eq_ignore_ascii_case :: "string \<Rightarrow> string \<Rightarrow> bool" where
  "eq_ignore_ascii_case a b \<longleftrightarrow> to_ascii_lowercase a = to_ascii_lowercase b"

definition starts_with :: "string \<Rightarrow> string \<Rightarrow> bool" where
  "starts_with s p \<longleftrightarrow> take (length p) s = p"

definition ends_with :: "string \<Rightarrow> string \<Rightarrow> bool" where
  "ends_with s p \<longleftrightarrow> starts_with (rev s) (rev p)"

fun contains :: "string \<Rightarrow> string \<Rightarrow> bool" where
  "contains [] p \<longleftrightarrow> p = []"
| "contains (c # s) p \<longleftrightarrow> starts_with (c # s) p \<or> contains s p"

text \<open>The idiom \<open>opt.map(str::trim).filter(|v| !v.is_empty())\<close>.\<close>

definition trimmed_nonempty :: "string option \<Rightarrow> string option" where
  "trimmed_nonempty o_s =
     (case o_s of None \<Rightarrow> None | Some s \<Rightarrow> if trim s = [] then None else Some (trim s))"

definition is_ascii_digit :: "char \<Rightarrow> bool" where
  "is_ascii_digit c \<longleftrightarrow> 48 \<le> (of_char c :: nat) \<and> (of_char c :: nat) \<le> 57"

text \<open>Decimal printing of an unsigned integer (\<open>format!("{n}")\<close>).\<close>

fun show_nat :: "nat \<Rightarrow> string" where
  "show_nat n = (if n < 10 then [char_of (48 + n)] else show_nat (n div 10) @ [char_of (48 + n mod 10)])"

declare show_nat.simps [simp del]

text \<open>
  \<open>str::parse\<close> for an unsigned type with maximum \<open>mx\<close>: an optional plus sign, at least one
  digit, digits only, and no overflow.
\<close>

definition digits_value :: "string \<Rightarrow> nat" where
  "digits_value s = foldl (\<lambda>acc c. 10 * acc + ((of_char c :: nat) - 48)) 0 s"

definition parse_unsigned :: "nat \<Rightarrow> string \<Rightarrow> nat option" where
  "parse_unsigned mx s =
     (let d = (case s of c # r \<Rightarrow> if c = CHR ''+'' then r else s | [] \<Rightarrow> [])
      in if d = [] \<or> \<not> list_all is_ascii_digit d then None
         else if digits_value d \<le> mx then Some (digits_value d) else None)"

lemma trimmed_nonempty_Some: "trimmed_nonempty x = Some y \<Longrightarrow> y \<noteq> []"
  by (auto simp: trimmed_nonempty_def split: option.splits if_splits)

lemma starts_with_refl [simp]: "starts_with s s"
  by (simp add: starts_with_def)

lemma starts_with_append [simp]: "starts_with (p @ s) p"
  by (simp add: starts_with_def)

lemma contains_iff: "contains s p \<longleftrightarrow> (\<exists>a b. s = a @ p @ b)"
proof (induction s)
  case Nil
  show ?case by simp
next
  case (Cons c s)
  have "starts_with (c # s) p \<longleftrightarrow> (\<exists>b. c # s = p @ b)"
    by (metis append_eq_conv_conj append_take_drop_id starts_with_def)
  moreover have "(\<exists>a b. c # s = a @ p @ b) \<longleftrightarrow> (\<exists>b. c # s = p @ b) \<or> (\<exists>a b. s = a @ p @ b)"
    by (metis append_Cons append_Nil list.sel(3) neq_Nil_conv)
  ultimately show ?case using Cons by simp
qed

subsection \<open>Trimming is idempotent\<close>

lemma strip_ws_idem [simp]: "strip_ws p2 p3 (strip_ws p2 p3 s) = strip_ws p2 p3 s"
  by (induction p2 p3 s rule: strip_ws.induct) auto

lemma length_strip_ws: "length (strip_ws p2 p3 s) \<le> length s"
  by (induction p2 p3 s rule: strip_ws.induct) auto

lemma strip_ws_drop: "\<exists>k. strip_ws p2 p3 s = drop k s"
proof (induction p2 p3 s rule: strip_ws.induct)
  case (4 p2 p3 a b c r)
  then obtain i j k where "strip_ws p2 p3 (b # c # r) = drop (Suc i) (a # b # c # r) \<or> ws1 a = False"
    and "\<not> ws1 a \<Longrightarrow> p2 a b \<Longrightarrow> strip_ws p2 p3 (c # r) = drop (Suc (Suc j)) (a # b # c # r)"
    and "\<not> ws1 a \<Longrightarrow> \<not> p2 a b \<Longrightarrow> p3 a b c \<Longrightarrow>
      strip_ws p2 p3 r = drop (Suc (Suc (Suc k))) (a # b # c # r)"
    by (metis drop_Suc_Cons)
  moreover have "a # b # c # r = drop 0 (a # b # c # r)" by simp
  ultimately show ?case by (metis strip_ws.simps(4))
next
  case (3 p2 p3 a b)
  moreover have "[a, b] = drop 0 [a, b]" "[] = drop 2 [a, b]" "[b] = drop 1 [a, b]" by simp_all
  ultimately show ?case by (metis drop_drop strip_ws.simps(3))
next
  case (2 p2 p3 a)
  have "[] = drop 1 [a]" "[a] = drop 0 [a]" by simp_all
  then show ?case by (metis strip_ws.simps(2))
qed simp

text \<open>A string that starts with no white space still does when it is cut short.\<close>

lemma strip_ws_fixed_Cons:
  assumes "strip_ws p2 p3 (a # b # c # r) = a # b # c # r"
  shows "\<not> ws1 a \<and> \<not> p2 a b \<and> \<not> p3 a b c"
proof -
  have "length (strip_ws p2 p3 t) \<le> length t" for t
    by (rule length_strip_ws)
  from this [of "b # c # r"] this [of "c # r"] this [of r] assms show ?thesis
    by (auto split: if_splits dest!: arg_cong [where f = length])
qed

lemma strip_ws_fixed_take:
  assumes "strip_ws p2 p3 s = s"
  shows "strip_ws p2 p3 (take n s) = take n s"
proof -
  consider "length s < 3" | a b c r where "s = a # b # c # r"
    by (metis One_nat_def length_0_conv length_Cons less_Suc_eq less_one list.exhaust
        numeral_3_eq_3 not_less_eq)
  then show ?thesis
  proof cases
    case 1
    then show ?thesis using assms
      by (cases s; cases "tl s"; cases n; cases "n - 1")
        (auto split: if_splits simp: take_Cons')
  next
    case (2 a b c r)
    then have no_ws: "\<not> ws1 a" "\<not> p2 a b" "\<not> p3 a b c"
      using assms strip_ws_fixed_Cons by metis+
    consider "n = 0" | "n = 1" | "n = 2" | m where "n = Suc (Suc (Suc m))"
      by (metis One_nat_def Suc_1 not0_implies_Suc)
    then show ?thesis
      by cases (use 2 no_ws in \<open>auto simp: numeral_2_eq_2\<close>)
  qed
qed

lemma trim_idem [simp]: "trim (trim s) = trim s"
proof -
  let ?t = "trim_start s"
  have "strip_ws ws2 ws3 ?t = ?t"
    by (simp add: trim_start_def)
  moreover have "\<exists>n. trim_end ?t = take n ?t"
    unfolding trim_end_def using strip_ws_drop [of _ _ "rev ?t"]
    by (metis rev_drop rev_rev_ident)
  ultimately have "trim_start (trim s) = trim s"
    unfolding trim_def trim_start_def by (metis strip_ws_fixed_take)
  then show ?thesis
    by (simp add: trim_def trim_end_def)
qed

lemma trimmed_nonempty_trim [simp]:
  "trimmed_nonempty (map_option trim x) = trimmed_nonempty x"
  by (simp add: trimmed_nonempty_def split: option.splits)

section \<open>Hash maps\<close>

text \<open>
  A hash map that is only looked up, written and filtered is a partial function;
  \<open>retain\<close> keeps the entries that satisfy a predicate. A hash map whose size or whose
  least entry matters is an association list with distinct keys; the results of the
  operations on it do not depend on the order of the list.
\<close>

definition retain_map :: "('k \<Rightarrow> 'v \<Rightarrow> bool) \<Rightarrow> ('k \<rightharpoonup> 'v) \<Rightarrow> ('k \<rightharpoonup> 'v)" where
  "retain_map P m =
     (\<lambda>k. case m k of None \<Rightarrow> None | Some v \<Rightarrow> if P k v then Some v else None)"

definition map_remove :: "'k \<Rightarrow> ('k \<rightharpoonup> 'v) \<Rightarrow> ('k \<rightharpoonup> 'v)" where
  "map_remove k m = m(k := None)"

lemma retain_map_Some [simp]: "retain_map P m k = Some v \<longleftrightarrow> m k = Some v \<and> P k v"
  by (auto simp: retain_map_def split: option.splits)

lemma retain_map_None [simp]: "retain_map P m k = None \<longleftrightarrow> (\<forall>v. m k = Some v \<longrightarrow> \<not> P k v)"
  by (auto simp: retain_map_def split: option.splits)

lemma retain_map_apply: "m k = Some v \<Longrightarrow> P k v \<Longrightarrow> retain_map P m k = Some v"
  by simp

lemma retain_map_empty [simp]: "retain_map P (\<lambda>x. None) = (\<lambda>x. None)"
  by (rule ext) (simp add: retain_map_def)

lemma dom_retain_map: "dom (retain_map P m) \<subseteq> dom m"
  by auto

lemma retain_map_retain_map:
  "retain_map P (retain_map Q m) = retain_map (\<lambda>k v. P k v \<and> Q k v) m"
  by (rule ext) (auto simp: retain_map_def split: option.splits)

lemma map_remove_apply [simp]: "map_remove k m x = (if x = k then None else m x)"
  by (simp add: map_remove_def)

section \<open>Slices\<close>

text \<open>\<open>iter().position(p)\<close>: the index of the first element that satisfies \<open>p\<close>.\<close>

fun position :: "('a \<Rightarrow> bool) \<Rightarrow> 'a list \<Rightarrow> nat option" where
  "position p [] = None"
| "position p (x # xs) = (if p x then Some 0 else map_option Suc (position p xs))"

text \<open>
  \<open>slice::rotate_left(k)\<close> panics when \<open>k\<close> exceeds the length; every caller in the model
  passes an index below the length.
\<close>

definition rotate_left :: "nat \<Rightarrow> 'a list \<Rightarrow> 'a list" where
  "rotate_left k xs = drop k xs @ take k xs"

definition swap_idx :: "nat \<Rightarrow> nat \<Rightarrow> 'a list \<Rightarrow> 'a list" where
  "swap_idx i j xs = xs[i := xs ! j, j := xs ! i]"

lemma position_Some:
  "position p xs = Some i \<longleftrightarrow> i < length xs \<and> p (xs ! i) \<and> (\<forall>j<i. \<not> p (xs ! j))"
proof (induction xs arbitrary: i)
  case Nil
  show ?case by simp
next
  case (Cons x xs)
  show ?case
  proof (cases i)
    case 0
    then show ?thesis by auto
  next
    case (Suc k)
    then show ?thesis
      using Cons.IH [of k] by (auto simp: less_Suc_eq_0_disj)
  qed
qed

lemma position_None: "position p xs = None \<longleftrightarrow> (\<forall>x\<in>set xs. \<not> p x)"
  by (induction xs) auto

lemma position_lt: "position p xs = Some i \<Longrightarrow> i < length xs"
  by (simp add: position_Some)

lemma mset_rotate_left [simp]: "mset (rotate_left k xs) = mset xs"
  by (simp add: rotate_left_def flip: mset_append) (metis append_take_drop_id mset_append union_commute)

lemma set_rotate_left [simp]: "set (rotate_left k xs) = set xs"
  by (metis mset_rotate_left set_mset_mset)

lemma length_rotate_left [simp]: "length (rotate_left k xs) = length xs"
  by (metis mset_rotate_left size_mset)

lemma rotate_left_0 [simp]: "rotate_left 0 xs = xs"
  by (simp add: rotate_left_def)

lemma rotate_left_nth:
  "k < length xs \<Longrightarrow> i < length xs \<Longrightarrow> rotate_left k xs ! i = xs ! ((k + i) mod length xs)"
proof -
  assume k: "k < length xs" and i: "i < length xs"
  show "rotate_left k xs ! i = xs ! ((k + i) mod length xs)"
  proof (cases "k + i < length xs")
    case True
    then have "i < length xs - k" by arith
    then show ?thesis using True k by (simp add: rotate_left_def nth_append)
  next
    case False
    with k i have "(k + i) mod length xs = k + i - length xs"
      by (simp add: mod_if)
    moreover have "\<not> i < length xs - k" "i - (length xs - k) = k + i - length xs"
      using False k by arith+
    moreover have "k + i - length xs < k" using False k i by arith
    ultimately show ?thesis using k by (simp add: rotate_left_def nth_append)
  qed
qed

lemma hd_rotate_left: "k < length xs \<Longrightarrow> hd (rotate_left k xs) = xs ! k"
  by (simp add: rotate_left_def hd_append hd_drop_conv_nth)

lemma mset_swap_idx [simp]:
  "i < length xs \<Longrightarrow> j < length xs \<Longrightarrow> mset (swap_idx i j xs) = mset xs"
  by (simp add: swap_idx_def mset_swap)

lemma length_swap_idx [simp]: "length (swap_idx i j xs) = length xs"
  by (simp add: swap_idx_def)

end
