(* ===== verification/RequestGate.thy ===== *)
theory RequestGate
  imports Prelude
begin

text \<open>
  The request gate, \<open>gateway/routing/request_gate.rs\<close>: requests of one platform key, path and
  model run one at a time. The locks are shared objects: a store maps addresses to locks, the
  table maps gate keys to addresses, and every request in flight holds a counted reference
  (an \<open>Arc\<close>) to its lock, either while it waits or in the guard it was given. The steps of
  concurrent requests interleave in any order; each step runs under the table's or the
  lock's mutex, so it is atomic.
\<close>

section \<open>Locks\<close>

datatype gate_error = Poisoned

record gate_lock =
  gl_held :: bool
  gl_poisoned :: bool

type_synonym gate_locks = "nat \<Rightarrow> gate_lock"

definition gate_lock_new :: gate_lock where
  "gate_lock_new = \<lparr>gl_held = False, gl_poisoned = False\<rparr>"

text \<open>\<open>try_acquire\<close>: an error, nothing (\<open>Inr False\<close>) or a guard (\<open>Inr True\<close>).\<close>

definition try_acquire :: "nat \<Rightarrow> gate_locks \<Rightarrow> (gate_error + bool) \<times> gate_locks" where
  "try_acquire a locks =
     (if gl_poisoned (locks a) then (Inl Poisoned, locks)
      else if gl_held (locks a) then (Inr False, locks)
      else (Inr True, locks(a := (locks a)\<lparr>gl_held := True\<rparr>)))"

text \<open>Dropping the guard: the state is recovered from a poisoned mutex.\<close>

definition drop_guard :: "nat \<Rightarrow> gate_locks \<Rightarrow> gate_locks" where
  "drop_guard a locks = locks(a := (locks a)\<lparr>gl_held := False\<rparr>)"

section \<open>The table of locks\<close>

record gate_entry =
  ge_lock :: nat
  ge_last_seen_at :: int

datatype gate_task = Waiting string nat | Holding string nat

fun task_lock :: "gate_task \<Rightarrow> nat" where
  "task_lock (Waiting k a) = a"
| "task_lock (Holding k a) = a"

fun task_key :: "gate_task \<Rightarrow> string" where
  "task_key (Waiting k a) = k"
| "task_key (Holding k a) = k"

record gate_world =
  gw_entries :: "string \<rightharpoonup> gate_entry"
  gw_last_cleanup_at :: int
  gw_locks :: gate_locks
  gw_next_addr :: nat
  gw_tasks :: "(nat \<times> gate_task) list"

definition gate_world_init :: gate_world where
  "gate_world_init =
     \<lparr>gw_entries = Map.empty, gw_last_cleanup_at = 0, gw_locks = (\<lambda>_. gate_lock_new),
      gw_next_addr = 0, gw_tasks = []\<rparr>"

definition request_gate_lock_ttl :: int where "request_gate_lock_ttl = 30 * 60"
definition request_gate_cleanup_interval :: int where "request_gate_cleanup_interval = 60"

definition gate_key :: "string \<Rightarrow> string \<Rightarrow> string option \<Rightarrow> string" where
  "gate_key key_id path model =
     trim key_id @ ''|'' @ trim path @ ''|''
       @ (case trimmed_nonempty model of Some m \<Rightarrow> m | None \<Rightarrow> ''-'')"

text \<open>\<open>Arc::strong_count\<close> of a lock in the table: the table's reference and one per request.\<close>

definition strong_count :: "(nat \<times> gate_task) list \<Rightarrow> nat \<Rightarrow> nat" where
  "strong_count tasks a = 1 + length (filter (\<lambda>(_, t). task_lock t = a) tasks)"

definition maybe_cleanup_request_gate_locks :: "int \<Rightarrow> gate_world \<Rightarrow> gate_world" where
  "maybe_cleanup_request_gate_locks now w =
     (if gw_last_cleanup_at w \<noteq> 0
         \<and> i64_saturating_sub now (gw_last_cleanup_at w) < request_gate_cleanup_interval
      then w
      else w\<lparr>gw_last_cleanup_at := now,
             gw_entries := retain_map
               (\<lambda>_ e. let stale = request_gate_lock_ttl < i64_saturating_sub now (ge_last_seen_at e)
                      in \<not> stale \<or> 1 < strong_count (gw_tasks w) (ge_lock e))
               (gw_entries w)\<rparr>)"

definition request_gate_lock ::
  "string \<Rightarrow> string \<Rightarrow> string option \<Rightarrow> int \<Rightarrow> gate_world \<Rightarrow> nat \<times> gate_world" where
  "request_gate_lock key_id path model now w =
     (let w1 = maybe_cleanup_request_gate_locks now w;
          k = gate_key key_id path model
      in case gw_entries w1 k of
           Some e \<Rightarrow>
             (ge_lock e, w1\<lparr>gw_entries := (gw_entries w1)(k \<mapsto> e\<lparr>ge_last_seen_at := now\<rparr>)\<rparr>)
         | None \<Rightarrow>
             (gw_next_addr w1,
              w1\<lparr>gw_entries :=
                   (gw_entries w1)(k \<mapsto> \<lparr>ge_lock = gw_next_addr w1, ge_last_seen_at = now\<rparr>),
                 gw_locks := (gw_locks w1)(gw_next_addr w1 := gate_lock_new),
                 gw_next_addr := gw_next_addr w1 + 1\<rparr>))"

definition request_gate_clear_runtime_state :: "gate_world \<Rightarrow> gate_world" where
  "request_gate_clear_runtime_state w = w\<lparr>gw_entries := Map.empty, gw_last_cleanup_at := 0\<rparr>"

section \<open>Concurrent requests\<close>

inductive gate_step :: "gate_world \<Rightarrow> gate_world \<Rightarrow> bool" where
  Lookup: "\<lbrakk>p \<notin> fst ` set (gw_tasks w); request_gate_lock key_id path model now w = (a, w1)\<rbrakk>
    \<Longrightarrow> gate_step w (w1\<lparr>gw_tasks := (p, Waiting (gate_key key_id path model) a) # gw_tasks w1\<rparr>)"
| Acquire: "\<lbrakk>map_of (gw_tasks w) p = Some (Waiting k a); try_acquire a (gw_locks w) = (Inr True, locks)\<rbrakk>
    \<Longrightarrow> gate_step w (w\<lparr>gw_locks := locks, gw_tasks := AList.update p (Holding k a) (gw_tasks w)\<rparr>)"
| GiveUp: "map_of (gw_tasks w) p = Some (Waiting k a)
    \<Longrightarrow> gate_step w (w\<lparr>gw_tasks := AList.delete p (gw_tasks w)\<rparr>)"
| Release: "map_of (gw_tasks w) p = Some (Holding k a)
    \<Longrightarrow> gate_step w (w\<lparr>gw_locks := drop_guard a (gw_locks w), gw_tasks := AList.delete p (gw_tasks w)\<rparr>)"
| Poison: "gate_step w (w\<lparr>gw_locks := (gw_locks w)(a := (gw_locks w a)\<lparr>gl_poisoned := True\<rparr>)\<rparr>)"

inductive gate_reachable :: "gate_world \<Rightarrow> bool" where
  Start: "gate_reachable gate_world_init"
| Step: "\<lbrakk>gate_reachable w; gate_step w w'\<rbrakk> \<Longrightarrow> gate_reachable w'"

inductive_cases gate_stepE: "gate_step w w'"

section \<open>Invariant\<close>

text \<open>
  The reference of a request is the lock its key names in the table: a lock in use is never
  swept. A lock is held iff exactly one request has its guard.
\<close>

definition holders :: "(nat \<rightharpoonup> gate_task) \<Rightarrow> nat \<Rightarrow> nat set" where
  "holders T a = {p. \<exists>k. T p = Some (Holding k a)}"

definition lock_of :: "(string \<rightharpoonup> gate_entry) \<Rightarrow> string \<Rightarrow> nat option" where
  "lock_of entries k = map_option ge_lock (entries k)"

definition references_ok :: "(string \<rightharpoonup> gate_entry) \<Rightarrow> nat \<Rightarrow> (nat \<rightharpoonup> gate_task) \<Rightarrow> bool" where
  "references_ok entries n T \<longleftrightarrow>
     (\<forall>p t. T p = Some t \<longrightarrow> (\<exists>e. entries (task_key t) = Some e \<and> ge_lock e = task_lock t)) \<and>
     (\<forall>k e. entries k = Some e \<longrightarrow> ge_lock e < n) \<and>
     inj_on (lock_of entries) (dom entries)"

definition holders_ok :: "gate_locks \<Rightarrow> (nat \<rightharpoonup> gate_task) \<Rightarrow> bool" where
  "holders_ok locks T \<longleftrightarrow>
     (\<forall>a. if gl_held (locks a) then \<exists>p. holders T a = {p} else holders T a = {})"

definition gate_inv :: "gate_world \<Rightarrow> bool" where
  "gate_inv w \<longleftrightarrow>
     distinct (map fst (gw_tasks w)) \<and>
     references_ok (gw_entries w) (gw_next_addr w) (map_of (gw_tasks w)) \<and>
     holders_ok (gw_locks w) (map_of (gw_tasks w))"

lemma gate_inv_init: "gate_inv gate_world_init"
  by (simp add: gate_inv_def gate_world_init_def gate_lock_new_def references_ok_def holders_ok_def
      holders_def)

lemma references_okE:
  assumes "references_ok entries n T" and "T p = Some t"
  obtains e where "entries (task_key t) = Some e" and "ge_lock e = task_lock t"
  using assms by (auto simp: references_ok_def) blast

lemma holders_waiting [simp]: "holders (T(p \<mapsto> Waiting k a)) b = holders T b - {p}"
  by (auto simp: holders_def)

lemma holders_holding [simp]:
  "holders (T(p \<mapsto> Holding k a)) b = (if a = b then insert p (holders T b) else holders T b - {p})"
  by (auto simp: holders_def)

lemma holders_removed [simp]: "holders (T(p := None)) b = holders T b - {p}"
  by (auto simp: holders_def)

lemma not_holder: "T p = None \<Longrightarrow> p \<notin> holders T b" "T p = Some (Waiting k a) \<Longrightarrow> p \<notin> holders T b"
  by (simp_all add: holders_def)

lemma holders_other: "T p = Some (Holding k a) \<Longrightarrow> b \<noteq> a \<Longrightarrow> p \<notin> holders T b"
  by (simp add: holders_def)

lemma cleanup_fields [simp]:
  "gw_tasks (maybe_cleanup_request_gate_locks now w) = gw_tasks w"
  "gw_locks (maybe_cleanup_request_gate_locks now w) = gw_locks w"
  "gw_next_addr (maybe_cleanup_request_gate_locks now w) = gw_next_addr w"
  by (simp_all add: maybe_cleanup_request_gate_locks_def)

lemma strong_count_referenced:
  assumes "map_of tasks p = Some t" and "task_lock t = a"
  shows "1 < strong_count tasks a"
proof -
  have "(p, t) \<in> set (filter (\<lambda>(_, t). task_lock t = a) tasks)"
    using assms by (auto dest: map_of_SomeD)
  then have "filter (\<lambda>(_, t). task_lock t = a) tasks \<noteq> []" by force
  then show ?thesis by (simp add: strong_count_def)
qed

lemma cleanup_keeps_used:
  assumes "map_of (gw_tasks w) p = Some t" and "gw_entries w (task_key t) = Some e"
    and "ge_lock e = task_lock t"
  shows "gw_entries (maybe_cleanup_request_gate_locks now w) (task_key t) = Some e"
  using strong_count_referenced [OF assms(1)] assms
  by (auto simp: maybe_cleanup_request_gate_locks_def Let_def)

lemma cleanup_subset:
  "gw_entries (maybe_cleanup_request_gate_locks now w) k = Some e \<Longrightarrow> gw_entries w k = Some e"
  by (auto simp: maybe_cleanup_request_gate_locks_def split: if_splits)

lemma gate_inv_cleanup:
  assumes "gate_inv w"
  shows "gate_inv (maybe_cleanup_request_gate_locks now w)"
proof -
  have "references_ok (gw_entries (maybe_cleanup_request_gate_locks now w)) (gw_next_addr w)
      (map_of (gw_tasks w))"
    unfolding references_ok_def
  proof (intro conjI allI impI)
    fix p t assume t: "map_of (gw_tasks w) p = Some t"
    have "references_ok (gw_entries w) (gw_next_addr w) (map_of (gw_tasks w))"
      using assms by (simp add: gate_inv_def)
    then obtain e where "gw_entries w (task_key t) = Some e" "ge_lock e = task_lock t"
      using t by (rule references_okE)
    with cleanup_keeps_used [OF t this]
    show "\<exists>e. gw_entries (maybe_cleanup_request_gate_locks now w) (task_key t) = Some e
        \<and> ge_lock e = task_lock t" by blast
  next
    fix k e assume "gw_entries (maybe_cleanup_request_gate_locks now w) k = Some e"
    then have "gw_entries w k = Some e" by (rule cleanup_subset)
    then show "ge_lock e < gw_next_addr w" using assms by (auto simp: gate_inv_def references_ok_def)
  next
    let ?E = "gw_entries (maybe_cleanup_request_gate_locks now w)"
    have "inj_on (lock_of (gw_entries w)) (dom ?E)"
    proof (rule inj_on_subset)
      show "inj_on (lock_of (gw_entries w)) (dom (gw_entries w))"
        using assms by (simp add: gate_inv_def references_ok_def)
      show "dom ?E \<subseteq> dom (gw_entries w)"
        using cleanup_subset by (meson domD domI subsetI)
    qed
    moreover have "lock_of (gw_entries w) k = lock_of ?E k" if "k \<in> dom ?E" for k
    proof -
      from that obtain e where "?E k = Some e" by blast
      with cleanup_subset [OF this] show ?thesis by (simp add: lock_of_def)
    qed
    ultimately show "inj_on (lock_of ?E) (dom ?E)" by (simp cong: inj_on_cong)
  qed
  then show ?thesis using assms by (simp add: gate_inv_def)
qed

text \<open>A lock nobody refers to is not held.\<close>

lemma holders_unreferenced:
  assumes "references_ok entries n T" and "holders_ok locks T" and "n \<le> a"
  shows "holders T a = {}"
proof -
  have False if "p \<in> holders T a" for p
  proof -
    from that obtain k where "T p = Some (Holding k a)" by (auto simp: holders_def)
    then obtain e where "entries k = Some e" "ge_lock e = a"
      using assms(1) by (fastforce simp: references_ok_def)
    then show False using assms(1,3) by (force simp: references_ok_def)
  qed
  then show ?thesis by blast
qed

lemma holders_ok_fresh:
  assumes "references_ok entries n T" and "holders_ok locks T"
  shows "holders_ok (locks(n := gate_lock_new)) T"
  using assms holders_unreferenced [OF assms, of n]
  by (simp add: holders_ok_def gate_lock_new_def)

lemma references_ok_add:
  assumes "references_ok entries n T" and "entries k = Some e"
  shows "references_ok entries n (T(p \<mapsto> Waiting k (ge_lock e)))"
  using assms by (auto simp: references_ok_def)

lemma references_ok_touch:
  assumes "references_ok entries n T" and "entries k = Some e" and "ge_lock e' = ge_lock e"
  shows "references_ok (entries(k \<mapsto> e')) n T"
  unfolding references_ok_def
proof (intro conjI allI impI)
  fix p t assume "T p = Some t"
  with assms(1) obtain d where "entries (task_key t) = Some d" "ge_lock d = task_lock t"
    by (rule references_okE)
  then show "\<exists>d. (entries(k \<mapsto> e')) (task_key t) = Some d \<and> ge_lock d = task_lock t"
    using assms(2,3) by (cases "task_key t = k") auto
next
  fix k1 e1 assume "(entries(k \<mapsto> e')) k1 = Some e1"
  then show "ge_lock e1 < n" using assms by (auto simp: references_ok_def split: if_splits)
next
  have "lock_of (entries(k \<mapsto> e')) = lock_of entries" "dom (entries(k \<mapsto> e')) = dom entries"
    using assms(2,3) by (auto simp: lock_of_def fun_eq_iff)
  then show "inj_on (lock_of (entries(k \<mapsto> e'))) (dom (entries(k \<mapsto> e')))"
    using assms(1) by (simp add: references_ok_def)
qed

lemma references_ok_insert:
  assumes "references_ok entries n T" and "entries k = None"
  shows "references_ok (entries(k \<mapsto> \<lparr>ge_lock = n, ge_last_seen_at = t\<rparr>)) (n + 1) T"
  unfolding references_ok_def
proof (intro conjI allI impI)
  fix p u assume "T p = Some u"
  with assms(1) obtain d where "entries (task_key u) = Some d" "ge_lock d = task_lock u"
    by (rule references_okE)
  then show "\<exists>d. (entries(k \<mapsto> \<lparr>ge_lock = n, ge_last_seen_at = t\<rparr>)) (task_key u) = Some d \<and>
      ge_lock d = task_lock u"
    using assms(2) by (cases "task_key u = k") auto
next
  fix k' e assume "(entries(k \<mapsto> \<lparr>ge_lock = n, ge_last_seen_at = t\<rparr>)) k' = Some e"
  then show "ge_lock e < n + 1"
    using assms(1) by (auto simp: references_ok_def less_Suc_eq split: if_splits)
next
  let ?E = "entries(k \<mapsto> \<lparr>ge_lock = n, ge_last_seen_at = t\<rparr>)"
  have old: "lock_of ?E k' = lock_of entries k'" if "k' \<in> dom entries" for k'
    using that assms(2) by (auto simp: lock_of_def)
  then have "inj_on (lock_of ?E) (dom entries)"
    using assms(1) by (simp add: references_ok_def cong: inj_on_cong)
  moreover have "lock_of ?E k \<notin> lock_of ?E ` (dom entries - {k})"
  proof
    assume "lock_of ?E k \<in> lock_of ?E ` (dom entries - {k})"
    then obtain k' where k': "k' \<in> dom entries" "lock_of ?E k' = lock_of ?E k"
      by (metis (no_types, lifting) DiffE imageE)
    then obtain e where e: "entries k' = Some e" by blast
    then have "k' \<noteq> k" using assms(2) by auto
    with k' e have "ge_lock e = n" by (simp add: lock_of_def)
    with e have "\<exists>e. entries k' = Some e \<and> ge_lock e = n" by blast
    then show False using assms(1) unfolding references_ok_def by (meson less_irrefl_nat less_not_refl2)
  qed
  ultimately show "inj_on (lock_of ?E) (dom ?E)" by simp
qed

lemma gate_inv_lookup:
  assumes "gate_inv w" and "p \<notin> fst ` set (gw_tasks w)"
    and "request_gate_lock key_id path model now w = (a, w1)"
  shows "gate_inv (w1\<lparr>gw_tasks := (p, Waiting (gate_key key_id path model) a) # gw_tasks w1\<rparr>)"
proof -
  let ?w = "maybe_cleanup_request_gate_locks now w"
  let ?k = "gate_key key_id path model"
  let ?T = "map_of (gw_tasks w)"
  have refs: "references_ok (gw_entries ?w) (gw_next_addr w) ?T" and holds: "holders_ok (gw_locks w) ?T"
    and dist: "distinct (map fst (gw_tasks w))"
    using gate_inv_cleanup [OF assms(1), of now] by (simp_all add: gate_inv_def)
  have fresh: "?T p = None" using assms(2) by (simp add: map_of_eq_None_iff)
  have holds': "holders_ok locks (?T(p \<mapsto> Waiting k b))" if "holders_ok locks ?T" for locks k b
    using that not_holder(1) [of ?T, OF fresh] by (simp add: holders_ok_def)
  show ?thesis
  proof (cases "gw_entries ?w ?k")
    case None
    let ?E = "(gw_entries ?w)(?k \<mapsto> \<lparr>ge_lock = gw_next_addr w, ge_last_seen_at = now\<rparr>)"
    have "references_ok ?E (gw_next_addr w + 1) (?T(p \<mapsto> Waiting ?k (gw_next_addr w)))"
      using references_ok_add [OF references_ok_insert [OF refs None, of now], of ?k
          "\<lparr>ge_lock = gw_next_addr w, ge_last_seen_at = now\<rparr>" p] by simp
    moreover have "holders_ok ((gw_locks w)(gw_next_addr w := gate_lock_new))
        (?T(p \<mapsto> Waiting ?k (gw_next_addr w)))"
      by (rule holds') (rule holders_ok_fresh [OF refs holds])
    ultimately show ?thesis
      using assms(2,3) None dist by (auto simp: gate_inv_def request_gate_lock_def Let_def)
  next
    case (Some e)
    let ?e = "e\<lparr>ge_last_seen_at := now\<rparr>"
    have "references_ok ((gw_entries ?w)(?k \<mapsto> ?e)) (gw_next_addr w) (?T(p \<mapsto> Waiting ?k (ge_lock e)))"
      using references_ok_add [OF references_ok_touch [OF refs Some, of ?e], of ?k ?e p] by simp
    then show ?thesis
      using assms(2,3) Some dist holds' [OF holds]
      by (auto simp: gate_inv_def request_gate_lock_def Let_def)
  qed
qed

lemma gate_inv_acquire:
  assumes "gate_inv w" and "map_of (gw_tasks w) p = Some (Waiting k a)"
    and "try_acquire a (gw_locks w) = (Inr True, locks)"
  shows "gate_inv (w\<lparr>gw_locks := locks, gw_tasks := AList.update p (Holding k a) (gw_tasks w)\<rparr>)"
proof -
  let ?T = "map_of (gw_tasks w)"
  have free: "\<not> gl_held (gw_locks w a)" and locks: "locks = (gw_locks w)(a := (gw_locks w a)\<lparr>gl_held := True\<rparr>)"
    using assms(3) by (auto simp: try_acquire_def split: if_splits)
  have refs: "references_ok (gw_entries w) (gw_next_addr w) ?T" and holds: "holders_ok (gw_locks w) ?T"
    using assms(1) by (simp_all add: gate_inv_def)
  have "references_ok (gw_entries w) (gw_next_addr w) (?T(p \<mapsto> Holding k a))"
    using refs assms(2) by (fastforce simp: references_ok_def)
  moreover have "holders ?T a = {}" using holds free by (auto simp: holders_ok_def)
  then have "holders_ok locks (?T(p \<mapsto> Holding k a))"
    using holds not_holder(2) [of ?T, OF assms(2)] by (simp add: holders_ok_def locks)
  ultimately show ?thesis
    using assms(1) by (simp add: gate_inv_def AList.update_conv' AList.distinct_update)
qed

lemma references_ok_remove:
  "references_ok entries n T \<Longrightarrow> references_ok entries n (T(p := None))"
  by (auto simp: references_ok_def)

lemma gate_inv_give_up:
  assumes "gate_inv w" and "map_of (gw_tasks w) p = Some (Waiting k a)"
  shows "gate_inv (w\<lparr>gw_tasks := AList.delete p (gw_tasks w)\<rparr>)"
  using assms not_holder(2) [of "map_of (gw_tasks w)", OF assms(2)]
  by (auto simp: gate_inv_def AList.delete_conv' AList.distinct_delete references_ok_remove holders_ok_def)

lemma gate_inv_release:
  assumes "gate_inv w" and "map_of (gw_tasks w) p = Some (Holding k a)"
  shows "gate_inv (w\<lparr>gw_locks := drop_guard a (gw_locks w), gw_tasks := AList.delete p (gw_tasks w)\<rparr>)"
proof -
  let ?T = "map_of (gw_tasks w)"
  have holds: "holders_ok (gw_locks w) ?T" using assms(1) by (simp add: gate_inv_def)
  have p: "p \<in> holders ?T a" using assms(2) by (auto simp: holders_def)
  then have "holders ?T a = {p}" using holds by (auto simp: holders_ok_def split: if_splits dest!: spec [of _ a])
  then have "holders_ok (drop_guard a (gw_locks w)) (?T(p := None))"
    using holds holders_other [of ?T, OF assms(2)]
    by (simp add: holders_ok_def drop_guard_def)
  then show ?thesis
    using assms(1) by (simp add: gate_inv_def AList.delete_conv' AList.distinct_delete references_ok_remove)
qed

lemma gate_inv_step: "gate_step w w' \<Longrightarrow> gate_inv w \<Longrightarrow> gate_inv w'"
proof (induction rule: gate_step.induct)
  case (Poison w a)
  then show ?case by (simp add: gate_inv_def holders_ok_def)
qed (blast intro: gate_inv_lookup gate_inv_acquire gate_inv_give_up gate_inv_release)+

lemma gate_inv_reachable: "gate_reachable w \<Longrightarrow> gate_inv w"
  by (induction rule: gate_reachable.induct) (auto intro: gate_inv_init gate_inv_step)

lemma holding_key_lock:
  assumes "gate_reachable w" and "map_of (gw_tasks w) p = Some t" and "map_of (gw_tasks w) q = Some u"
    and "task_key t = task_key u"
  shows "task_lock t = task_lock u"
proof -
  have refs: "references_ok (gw_entries w) (gw_next_addr w) (map_of (gw_tasks w))"
    using gate_inv_reachable [OF assms(1)] by (simp add: gate_inv_def)
  obtain e where e: "gw_entries w (task_key t) = Some e" "ge_lock e = task_lock t"
    using refs assms(2) by (rule references_okE)
  obtain e' where "gw_entries w (task_key u) = Some e'" "ge_lock e' = task_lock u"
    using refs assms(3) by (rule references_okE)
  with e assms(4) show ?thesis by simp
qed

lemma gate_key_injective:
  assumes "gate_reachable w" and "map_of (gw_tasks w) p = Some t" and "map_of (gw_tasks w) q = Some u"
    and "task_lock t = task_lock u"
  shows "task_key t = task_key u"
proof -
  have refs: "references_ok (gw_entries w) (gw_next_addr w) (map_of (gw_tasks w))"
    using gate_inv_reachable [OF assms(1)] by (simp add: gate_inv_def)
  obtain e where e: "gw_entries w (task_key t) = Some e" "ge_lock e = task_lock t"
    using refs assms(2) by (rule references_okE)
  obtain e' where "gw_entries w (task_key u) = Some e'" "ge_lock e' = task_lock u"
    using refs assms(3) by (rule references_okE)
  with e assms(4) have "lock_of (gw_entries w) (task_key t) = lock_of (gw_entries w) (task_key u)"
    "task_key t \<in> dom (gw_entries w)" "task_key u \<in> dom (gw_entries w)"
    by (auto simp: lock_of_def)
  then show ?thesis using refs by (auto simp: references_ok_def dest: inj_onD)
qed

section \<open>A request that holds its gate\<close>

definition gate_example :: gate_world where
  "gate_example =
     (let w = snd (request_gate_lock ''k'' ''/v1'' None 7 gate_world_init)
      in w\<lparr>gw_locks := snd (try_acquire 0 (gw_locks w)),
           gw_tasks := [(1, Holding ''k|/v1|-'' 0)]\<rparr>)"

definition gate_example2 :: gate_world where
  "gate_example2 =
     (let w = snd (request_gate_lock ''k'' ''/v1'' None 7 gate_world_init)
      in w\<lparr>gw_tasks := [(1, Waiting ''k|/v1|-'' 0)]\<rparr>)"

lemma gate_key_example: "gate_key ''k'' ''/v1'' None = ''k|/v1|-''"
  by (simp add: gate_key_def trim_def trim_start_def trim_end_def ws1_def ws2_def ws3_def
      trimmed_nonempty_def)

lemma gate_example2_reachable: "gate_reachable gate_example2"
proof -
  obtain w1 where l: "request_gate_lock ''k'' ''/v1'' None 7 gate_world_init = (0, w1)"
    and t: "gw_tasks w1 = []"
    by (simp add: request_gate_lock_def Let_def gate_world_init_def maybe_cleanup_request_gate_locks_def)
  have "gate_step gate_world_init (w1\<lparr>gw_tasks := (1, Waiting ''k|/v1|-'' 0) # gw_tasks w1\<rparr>)"
    using Lookup [OF _ l, of 1] by (simp add: gate_key_example gate_world_init_def)
  then show ?thesis
    using Step [OF Start] by (simp add: gate_example2_def l t)
qed

lemma gate_example_reachable: "gate_reachable gate_example"
proof -
  have m: "map_of (gw_tasks gate_example2) 1 = Some (Waiting ''k|/v1|-'' 0)"
    by (simp add: gate_example2_def Let_def)
  have free: "\<not> gl_poisoned (gw_locks gate_example2 0)" "\<not> gl_held (gw_locks gate_example2 0)"
    by (simp_all add: gate_example2_def Let_def request_gate_lock_def gate_world_init_def
        maybe_cleanup_request_gate_locks_def gate_lock_new_def)
  then have "try_acquire 0 (gw_locks gate_example2) = (Inr True, snd (try_acquire 0 (gw_locks gate_example2)))"
    by (simp add: try_acquire_def)
  from Step [OF gate_example2_reachable Acquire [OF m this]] show ?thesis
    by (simp add: gate_example_def gate_example2_def Let_def)
qed

section \<open>Properties\<close>





end
