(* ===== verification/Json.thy ===== *)
theory Json
  imports Complex_Main Prelude "HOL-Library.Char_ord" "HOL-Library.List_Lexorder"
begin

text \<open>
  Data of the standard library and of \<open>serde_json\<close> the program computes with: \<open>f64\<close> numbers and
  JSON values with the accessors the source calls. A float is an exact rational, an infinity or
  not a number; the few subtractions of the source are exact here. An object is its list of
  entries in key order, as the ordered map of \<open>serde_json\<close> keeps them. Parsing and printing
  JSON text is the library's and stays a parameter.
\<close>

section \<open>Floats\<close>

datatype f64 = Fin rat | PInf | NInf | NaN

fun f64_le :: "f64 \<Rightarrow> f64 \<Rightarrow> bool" where
  "f64_le (Fin a) (Fin b) \<longleftrightarrow> a \<le> b"
| "f64_le NaN _ \<longleftrightarrow> False"
| "f64_le _ NaN \<longleftrightarrow> False"
| "f64_le NInf _ \<longleftrightarrow> True"
| "f64_le _ PInf \<longleftrightarrow> True"
| "f64_le _ _ \<longleftrightarrow> False"

definition f64_lt :: "f64 \<Rightarrow> f64 \<Rightarrow> bool" where
  "f64_lt a b \<longleftrightarrow> f64_le a b \<and> \<not> f64_le b a"

definition f64_is_finite :: "f64 \<Rightarrow> bool" where
  "f64_is_finite x \<longleftrightarrow> (case x of Fin _ \<Rightarrow> True | _ \<Rightarrow> False)"

text \<open>\<open>x.clamp(lo, hi)\<close>, for \<open>lo \<le> hi\<close>; not a number stays not a number.\<close>

definition f64_clamp :: "rat \<Rightarrow> rat \<Rightarrow> f64 \<Rightarrow> f64" where
  "f64_clamp lo hi x =
     (case x of Fin a \<Rightarrow> Fin (max lo (min hi a)) | PInf \<Rightarrow> Fin hi | NInf \<Rightarrow> Fin lo | NaN \<Rightarrow> NaN)"

text \<open>\<open>c - x\<close> for a finite constant \<open>c\<close>.\<close>

definition f64_const_minus :: "rat \<Rightarrow> f64 \<Rightarrow> f64" where
  "f64_const_minus c x =
     (case x of Fin a \<Rightarrow> Fin (c - a) | PInf \<Rightarrow> NInf | NInf \<Rightarrow> PInf | NaN \<Rightarrow> NaN)"

lemma f64_lt_Fin [simp]: "f64_lt (Fin a) (Fin b) \<longleftrightarrow> a < b"
  by (auto simp: f64_lt_def)

section \<open>JSON values\<close>

datatype json =
    JNull
  | JBool bool
  | JInt int
  | JFloat f64
  | JString string
  | JArray "json list"
  | JObject "(string \<times> json) list"

type_synonym json_object = "(string \<times> json) list"

definition as_object :: "json \<Rightarrow> json_object option" where
  "as_object v = (case v of JObject m \<Rightarrow> Some m | _ \<Rightarrow> None)"

definition as_str :: "json \<Rightarrow> string option" where
  "as_str v = (case v of JString s \<Rightarrow> Some s | _ \<Rightarrow> None)"

definition as_bool :: "json \<Rightarrow> bool option" where
  "as_bool v = (case v of JBool b \<Rightarrow> Some b | _ \<Rightarrow> None)"

definition as_i64 :: "json \<Rightarrow> int option" where
  "as_i64 v = (case v of JInt n \<Rightarrow> if in_i64 n then Some n else None | _ \<Rightarrow> None)"

definition as_f64 :: "json \<Rightarrow> f64 option" where
  "as_f64 v = (case v of JInt n \<Rightarrow> Some (Fin (of_int n)) | JFloat x \<Rightarrow> Some x | _ \<Rightarrow> None)"

definition is_null :: "json \<Rightarrow> bool" where
  "is_null v \<longleftrightarrow> v = JNull"

text \<open>\<open>Value::get\<close> with a string: the entry of an object, nothing for other values.\<close>

definition json_get :: "json \<Rightarrow> string \<Rightarrow> json option" where
  "json_get v k = (case as_object v of Some m \<Rightarrow> map_of m k | None \<Rightarrow> None)"

text \<open>Insertion keeps the keys of an object sorted and replaces an entry with the same key.\<close>

fun obj_insert :: "string \<Rightarrow> json \<Rightarrow> json_object \<Rightarrow> json_object" where
  "obj_insert k v [] = [(k, v)]"
| "obj_insert k v ((k', v') # m) =
     (if k < k' then (k, v) # (k', v') # m
      else if k = k' then (k, v) # m
      else (k', v') # obj_insert k v m)"

definition obj_wf :: "json_object \<Rightarrow> bool" where
  "obj_wf m \<longleftrightarrow> sorted_wrt (<) (map fst m)"

lemma obj_wf_Nil [simp]: "obj_wf []"
  by (simp add: obj_wf_def)

lemma obj_insert_keys: "set (map fst (obj_insert k v m)) = insert k (set (map fst m))"
  by (induction k v m rule: obj_insert.induct) auto

lemma obj_wf_insert [simp]: "obj_wf m \<Longrightarrow> obj_wf (obj_insert k v m)"
proof (induction k v m rule: obj_insert.induct)
  case (2 k v k' v' m)
  have "k' < x" if "x \<in> set (map fst (obj_insert k v m))" "k' < k" for x
    using that 2(2) obj_insert_keys [of k v m] by (auto simp: obj_wf_def)
  with 2 show ?case by (fastforce simp: obj_wf_def)
qed (simp add: obj_wf_def)

lemma map_of_below: "\<forall>y\<in>set (map fst m). k < y \<Longrightarrow> map_of m k = None" for k :: string
  by (induction m) auto

lemma map_of_obj_insert:
  "obj_wf m \<Longrightarrow> map_of (obj_insert k v m) x = (if x = k then Some v else map_of m x)"
proof (induction k v m rule: obj_insert.induct)
  case (2 k v k' v' m)
  then have IH: "map_of (obj_insert k v m) x = (if x = k then Some v else map_of m x)"
    if "\<not> k < k'" "k \<noteq> k'"
    using that by (simp add: obj_wf_def)
  show ?case
    using IH by auto
qed simp

text \<open>Sorted objects with the same entries are equal.\<close>

lemma obj_eqI:
  assumes "obj_wf m" and "obj_wf n" and "\<And>k. map_of m k = map_of n k"
  shows "m = n"
  using assms
proof (induction m arbitrary: n)
  case Nil
  then have none: "map_of n k = None" for k by simp
  show ?case
  proof (cases n)
    case (Cons b n')
    then show ?thesis using none [of "fst b"] by simp
  qed simp
next
  case (Cons a m)
  obtain k v where a: "a = (k, v)" by fastforce
  show ?case
  proof (cases n)
    case Nil
    then show ?thesis using Cons.prems(3) [of k] a by simp
  next
    case (Cons b n')
    obtain k' v' where b: "b = (k', v')" by fastforce
    have below: "map_of m x = None" if "x \<le> k" for x
      using that Cons.prems(1) a by (intro map_of_below) (auto simp: obj_wf_def)
    have below': "map_of n' x = None" if "x \<le> k'" for x
      using that Cons.prems(2) Cons b by (intro map_of_below) (auto simp: obj_wf_def)
    have kk: "k = k'"
    proof (rule linorder_cases [of k k'])
      assume lt: "k < k'"
      then have "map_of n' k = None" by (intro below') simp
      then show ?thesis using Cons.prems(3) [of k] a b Cons lt by (auto split: if_splits)
    next
      assume lt: "k' < k"
      then have "map_of m k' = None" by (intro below) simp
      then show ?thesis using Cons.prems(3) [of k'] a b Cons lt by (auto split: if_splits)
    qed simp
    moreover have "v = v'" using Cons.prems(3) [of k] a b Cons kk by simp
    moreover have "m = n'"
    proof (rule Cons.IH)
      show "obj_wf m" using Cons.prems(1) by (simp add: obj_wf_def)
      show "obj_wf n'" using Cons.prems(2) Cons by (simp add: obj_wf_def)
      fix x show "map_of m x = map_of n' x"
        using Cons.prems(3) [of x] a b Cons kk below [of k] below' [of k'] by (cases "x = k") auto
    qed
    ultimately show ?thesis using a b Cons by simp
  qed
qed

lemma size_map_of: "map_of m k = Some v \<Longrightarrow> size v < size (JObject m)"
  by (induction m) (auto split: if_splits)

section \<open>Parsing integers\<close>

text \<open>\<open>str::parse::<i64>\<close>: an optional sign, at least one digit, no overflow.\<close>

definition parse_i64 :: "string \<Rightarrow> int option" where
  "parse_i64 s =
     (let (neg, d) = (case s of c # r \<Rightarrow>
              if c = CHR ''-'' then (True, r) else if c = CHR ''+'' then (False, r) else (False, s)
            | [] \<Rightarrow> (False, []));
          n = (if neg then - int (digits_value d) else int (digits_value d))
      in if d = [] \<or> \<not> list_all is_ascii_digit d then None
         else if in_i64 n then Some n else None)"

end
