(* ===== verification/StorageData.thy ===== *)
theory StorageData
  imports Prelude
begin

text \<open>
  The rows the service works on, \<open>core/src/storage/mod.rs\<close>: accounts, their tokens and the
  binding of a conversation to an account. Columns of type \<open>i64\<close> are integers.
\<close>

record account =
  acc_id :: string
  acc_label :: string
  acc_issuer :: string
  acc_chatgpt_account_id :: "string option"
  acc_workspace_id :: "string option"
  acc_group_name :: "string option"
  acc_sort :: int
  acc_status :: string
  acc_created_at :: int
  acc_updated_at :: int

record token =
  tok_account_id :: string
  tok_id_token :: string
  tok_access_token :: string
  tok_refresh_token :: string
  tok_api_key_access_token :: "string option"
  tok_last_refresh :: int

type_synonym candidate = "account \<times> token"

abbreviation cand_id :: "candidate \<Rightarrow> string" where
  "cand_id c \<equiv> acc_id (fst c)"

text \<open>An account and a candidate of which only the id matters, for concrete instances.\<close>

definition account_named :: "string \<Rightarrow> account" where
  "account_named i =
     \<lparr>acc_id = i, acc_label = i, acc_issuer = ''chatgpt'', acc_chatgpt_account_id = None,
      acc_workspace_id = None, acc_group_name = None, acc_sort = 0, acc_status = ''active'',
      acc_created_at = 0, acc_updated_at = 0\<rparr>"

definition candidate_named :: "string \<Rightarrow> candidate" where
  "candidate_named i =
     (account_named i,
      \<lparr>tok_account_id = i, tok_id_token = [], tok_access_token = [], tok_refresh_token = [],
       tok_api_key_access_token = None, tok_last_refresh = 0\<rparr>)"

lemma cand_id_named [simp]: "acc_id (account_named i) = i" "acc_id (fst (candidate_named i)) = i"
  by (simp_all add: candidate_named_def account_named_def)

record conversation_binding =
  cb_platform_key_hash :: string
  cb_conversation_id :: string
  cb_account_id :: string
  cb_thread_epoch :: int
  cb_thread_anchor :: string
  cb_status :: string
  cb_last_model :: "string option"
  cb_last_switch_reason :: "string option"
  cb_created_at :: int
  cb_updated_at :: int
  cb_last_used_at :: int

end
