(* ===== verification/BindingStore.thy ===== *)
theory BindingStore
  imports StorageData
begin

text \<open>
  The table of conversation bindings (\<open>core/src/storage/conversation_bindings.rs\<close>): the rows in
  the order of insertion, unique by platform key and conversation, with the statements of the
  file as operations; and the contract its clients rely on, a locale interpreted on them.
\<close>

section \<open>The table\<close>

type_synonym binding_table = "conversation_binding list"

definition binding_key :: "conversation_binding \<Rightarrow> string \<times> string" where
  "binding_key b = (cb_platform_key_hash b, cb_conversation_id b)"

definition get_conversation_binding :: "string \<times> string \<Rightarrow> binding_table \<Rightarrow> conversation_binding option" where
  "get_conversation_binding key t = find (\<lambda>b. binding_key b = key) t"

text \<open>\<open>ON CONFLICT DO UPDATE\<close>: the creation time of the row stays.\<close>

definition upsert_conversation_binding :: "conversation_binding \<Rightarrow> binding_table \<Rightarrow> binding_table" where
  "upsert_conversation_binding b t =
     (if get_conversation_binding (binding_key b) t = None then t @ [b]
      else map (\<lambda>r. if binding_key r = binding_key b then b\<lparr>cb_created_at := cb_created_at r\<rparr> else r) t)"

text \<open>\<open>INSERT OR IGNORE\<close>, then the row that is there.\<close>

definition claim_conversation_binding ::
  "conversation_binding \<Rightarrow> binding_table \<Rightarrow> (conversation_binding \<times> bool) \<times> binding_table" where
  "claim_conversation_binding b t =
     (case get_conversation_binding (binding_key b) t of
        Some e \<Rightarrow> ((e, False), t)
      | None \<Rightarrow> ((b, True), t @ [b]))"

definition touched :: "string option \<Rightarrow> int \<Rightarrow> conversation_binding \<Rightarrow> conversation_binding" where
  "touched model at_ts b = b\<lparr>cb_last_model := model, cb_last_used_at := at_ts, cb_updated_at := at_ts\<rparr>"

definition touch_conversation_binding ::
  "string \<times> string \<Rightarrow> string \<Rightarrow> string option \<Rightarrow> int \<Rightarrow> binding_table \<Rightarrow> bool \<times> binding_table" where
  "touch_conversation_binding key account_id model touched_at t =
     (let hit = (\<lambda>r. binding_key r = key \<and> cb_account_id r = account_id)
      in (list_ex hit t, map (\<lambda>r. if hit r then touched model touched_at r else r) t))"

definition delete_conversation_binding :: "string \<times> string \<Rightarrow> binding_table \<Rightarrow> binding_table" where
  "delete_conversation_binding key t = filter (\<lambda>r. binding_key r \<noteq> key) t"

definition delete_conversation_bindings_for_account :: "string \<Rightarrow> binding_table \<Rightarrow> binding_table" where
  "delete_conversation_bindings_for_account account_id t = filter (\<lambda>r. cb_account_id r \<noteq> account_id) t"

definition delete_stale_conversation_bindings :: "int \<Rightarrow> binding_table \<Rightarrow> nat \<times> binding_table" where
  "delete_stale_conversation_bindings older_than t =
     (length (filter (\<lambda>r. cb_last_used_at r < older_than) t),
      filter (\<lambda>r. \<not> cb_last_used_at r < older_than) t)"

definition active_conversation_binding_account_counts :: "string \<Rightarrow> binding_table \<Rightarrow> string \<Rightarrow> nat option" where
  "active_conversation_binding_account_counts platform_key_hash t account_id =
     (let n = length (filter (\<lambda>r. cb_platform_key_hash r = platform_key_hash
                \<and> cb_status r = ''active'' \<and> cb_account_id r = account_id) t)
      in if n = 0 then None else Some n)"

definition table_wf :: "binding_table \<Rightarrow> bool" where
  "table_wf t \<longleftrightarrow> distinct (map binding_key t)"

section \<open>Lemmas on the table\<close>

lemma binding_key_created [simp]: "binding_key (b\<lparr>cb_created_at := x\<rparr>) = binding_key b"
  by (simp add: binding_key_def)

lemma binding_key_touched [simp]: "binding_key (touched m n b) = binding_key b"
  by (simp add: binding_key_def touched_def)

lemma get_key: "get_conversation_binding key t = Some b \<Longrightarrow> binding_key b = key \<and> b \<in> set t"
  by (auto simp: get_conversation_binding_def find_Some_iff)

lemma get_None_iff: "get_conversation_binding key t = None \<longleftrightarrow> key \<notin> binding_key ` set t"
  by (auto simp: get_conversation_binding_def find_None_iff)

lemma get_append:
  "get_conversation_binding key (t @ [b]) =
     (case get_conversation_binding key t of
        Some e \<Rightarrow> Some e | None \<Rightarrow> if binding_key b = key then Some b else None)"
  by (induction t) (auto simp: get_conversation_binding_def)

lemma get_map:
  assumes "\<And>r. binding_key (f r) = binding_key r"
  shows "get_conversation_binding key (map f t) = map_option f (get_conversation_binding key t)"
  by (induction t) (auto simp: get_conversation_binding_def assms)

lemma get_delete:
  "get_conversation_binding key (delete_conversation_binding key' t) =
     (if key = key' then None else get_conversation_binding key t)"
  by (induction t) (auto simp: get_conversation_binding_def delete_conversation_binding_def)

lemma get_upsert:
  "get_conversation_binding key (upsert_conversation_binding b t) =
     (if binding_key b = key
      then Some (b\<lparr>cb_created_at :=
        (case get_conversation_binding key t of Some e \<Rightarrow> cb_created_at e | None \<Rightarrow> cb_created_at b)\<rparr>)
      else get_conversation_binding key t)"
proof (cases "get_conversation_binding (binding_key b) t")
  case None
  then show ?thesis
    by (auto simp: upsert_conversation_binding_def get_append split: option.splits)
next
  case (Some e)
  then show ?thesis
    by (auto simp: upsert_conversation_binding_def get_map dest: get_key split: option.splits)
qed

lemma get_claim:
  "get_conversation_binding key (snd (claim_conversation_binding b t)) =
     (case get_conversation_binding key t of
        Some e \<Rightarrow> Some e | None \<Rightarrow> if binding_key b = key then Some b else None)"
  by (auto simp: claim_conversation_binding_def get_append split: option.splits)

lemma get_touch:
  "get_conversation_binding key (snd (touch_conversation_binding key' a m n t)) =
     map_option (\<lambda>r. if key = key' \<and> cb_account_id r = a then touched m n r else r)
       (get_conversation_binding key t)"
proof -
  have "get_conversation_binding key (snd (touch_conversation_binding key' a m n t)) =
      map_option (\<lambda>r. if binding_key r = key' \<and> cb_account_id r = a then touched m n r else r)
        (get_conversation_binding key t)"
    by (simp add: touch_conversation_binding_def get_map)
  then show ?thesis
    using get_key [of key t] by (cases "get_conversation_binding key t") auto
qed

subsection \<open>Uniqueness\<close>

lemma wf_upsert: "table_wf t \<Longrightarrow> table_wf (upsert_conversation_binding b t)"
proof -
  assume w: "table_wf t"
  let ?u = "\<lambda>r. if binding_key r = binding_key b then b\<lparr>cb_created_at := cb_created_at r\<rparr> else r"
  have m: "map binding_key (map ?u t) = map binding_key t" by auto
  show ?thesis
  proof (cases "get_conversation_binding (binding_key b) t")
    case None
    with w show ?thesis by (auto simp: upsert_conversation_binding_def table_wf_def get_None_iff)
  next
    case (Some e)
    then have "upsert_conversation_binding b t = map ?u t" by (simp add: upsert_conversation_binding_def)
    with w m show ?thesis by (simp only: table_wf_def)
  qed
qed

lemma wf_claim: "table_wf t \<Longrightarrow> table_wf (snd (claim_conversation_binding b t))"
  by (auto simp: claim_conversation_binding_def table_wf_def get_None_iff split: option.splits)

lemma wf_touch: "table_wf t \<Longrightarrow> table_wf (snd (touch_conversation_binding key a m n t))"
proof -
  have "map binding_key (snd (touch_conversation_binding key a m n t)) = map binding_key t"
    by (auto simp: touch_conversation_binding_def)
  then show "table_wf t \<Longrightarrow> ?thesis" by (simp add: table_wf_def)
qed

lemma wf_filter: "table_wf t \<Longrightarrow> table_wf (filter P t)"
  by (simp add: table_wf_def distinct_map_filter)

section \<open>The contract\<close>

text \<open>
  What a client of the table may rely on, stated over lookups only. The clients' lemmas are
  proved here once.
\<close>

locale binding_store =
  fixes lookup :: "string \<times> string \<Rightarrow> 's \<Rightarrow> conversation_binding option"
    and claim :: "conversation_binding \<Rightarrow> 's \<Rightarrow> (conversation_binding \<times> bool) \<times> 's"
    and upsert :: "conversation_binding \<Rightarrow> 's \<Rightarrow> 's"
    and touch :: "string \<times> string \<Rightarrow> string \<Rightarrow> string option \<Rightarrow> int \<Rightarrow> 's \<Rightarrow> bool \<times> 's"
    and remove :: "string \<times> string \<Rightarrow> 's \<Rightarrow> 's"
  assumes lookup_key: "lookup key s = Some b \<Longrightarrow> binding_key b = key"
    and claim_result: "fst (claim b s) =
      (case lookup (binding_key b) s of Some e \<Rightarrow> (e, False) | None \<Rightarrow> (b, True))"
    and lookup_claim: "lookup key (snd (claim b s)) =
      (case lookup key s of Some e \<Rightarrow> Some e | None \<Rightarrow> if binding_key b = key then Some b else None)"
    and lookup_upsert: "lookup key (upsert b s) =
      (if binding_key b = key
       then Some (b\<lparr>cb_created_at :=
         (case lookup key s of Some e \<Rightarrow> cb_created_at e | None \<Rightarrow> cb_created_at b)\<rparr>)
       else lookup key s)"
    and lookup_touch: "lookup key (snd (touch key' a m n s)) =
      map_option (\<lambda>r. if key = key' \<and> cb_account_id r = a then touched m n r else r) (lookup key s)"
    and lookup_remove: "lookup key (remove key' s) = (if key = key' then None else lookup key s)"
begin

text \<open>The part of a binding that decides where a conversation goes.\<close>

definition route :: "conversation_binding \<Rightarrow> string \<times> int \<times> string" where
  "route b = (cb_account_id b, cb_thread_epoch b, cb_thread_anchor b)"

lemma route_touched [simp]: "route (touched m n b) = route b"
  by (simp add: route_def touched_def)

lemma claim_answer: "lookup (binding_key b) (snd (claim b s)) = Some (fst (fst (claim b s)))"
  by (simp add: claim_result lookup_claim split: option.splits)

lemma claim_keeps_route:
  "map_option route (lookup key s) = Some r \<Longrightarrow> map_option route (lookup key (snd (claim b s))) = Some r"
  by (auto simp: lookup_claim)

lemma touch_keeps_route:
  "map_option route (lookup key (snd (touch key' a m n s))) = map_option route (lookup key s)"
  by (cases "lookup key s") (auto simp: lookup_touch)

text \<open>Whoever claims a conversation first decides: later claims get the same route.\<close>

lemma claims_agree:
  assumes "map_option route (lookup (binding_key b) s') = map_option route (lookup (binding_key b) (snd (claim b s)))"
    and "binding_key b' = binding_key b"
  shows "route (fst (fst (claim b' s'))) = route (fst (fst (claim b s))) \<and> \<not> snd (fst (claim b' s'))"
proof -
  from assms(1) claim_answer [of b s] obtain e where
    e: "lookup (binding_key b) s' = Some e" "route e = route (fst (fst (claim b s)))" by auto
  then show ?thesis by (simp add: claim_result assms(2))
qed

text \<open>A property of bindings that every writer respects holds of every stored binding.\<close>

definition all_stored :: "(conversation_binding \<Rightarrow> bool) \<Rightarrow> 's \<Rightarrow> bool" where
  "all_stored P s \<longleftrightarrow> (\<forall>key b. lookup key s = Some b \<longrightarrow> P b)"

lemma all_stored_claim:
  assumes "all_stored P s" and "P b"
  shows "all_stored P (snd (claim b s)) \<and> P (fst (fst (claim b s)))"
proof -
  have "P e" if "lookup (binding_key b) s = Some e" for e
    using assms(1) that unfolding all_stored_def by blast
  with assms show ?thesis
    by (auto simp: all_stored_def lookup_claim claim_result split: option.splits if_splits)
qed

lemma all_stored_upsert:
  "all_stored P s \<Longrightarrow> (\<And>x. P (b\<lparr>cb_created_at := x\<rparr>)) \<Longrightarrow> all_stored P (upsert b s)"
  by (auto simp: all_stored_def lookup_upsert split: if_splits)

lemma all_stored_touch:
  "all_stored P s \<Longrightarrow> (\<And>m n b. P b \<Longrightarrow> P (touched m n b)) \<Longrightarrow> all_stored P (snd (touch key a m n s))"
  by (auto simp: all_stored_def lookup_touch)

lemma all_stored_remove: "all_stored P s \<Longrightarrow> all_stored P (remove key s)"
  by (auto simp: all_stored_def lookup_remove split: if_splits)

end

interpretation bindings: binding_store get_conversation_binding claim_conversation_binding
    upsert_conversation_binding touch_conversation_binding delete_conversation_binding
proof unfold_locales
  show "fst (claim_conversation_binding b s) =
      (case get_conversation_binding (binding_key b) s of Some e \<Rightarrow> (e, False) | None \<Rightarrow> (b, True))" for b s
    by (simp add: claim_conversation_binding_def split: option.splits)
qed (simp_all add: get_key get_claim get_upsert get_touch get_delete)

end
