(* ===== verification/RouteState.thy ===== *)
theory RouteState
  imports Prelude "HOL-Library.Char_ord" "HOL-Library.List_Lexorder" "HOL-Library.Product_Lexorder"
begin

text \<open>
  The expiring tables of \<open>gateway/routing/route_hint.rs\<close>: entries with the time they were
  last seen, dropped after a time to live and, above a capacity, least recently seen first.
  The size and the least entry of these hash maps matter, so they are association lists
  with distinct keys. An \<open>Instant\<close> is a number of nanoseconds.
\<close>

section \<open>Entries\<close>

record 'v route_state_entry =
  rse_value :: 'v
  rse_last_seen :: nat

type_synonym 'v route_entries = "(string \<times> 'v route_state_entry) list"

definition route_state_entry_new :: "'v \<Rightarrow> nat \<Rightarrow> 'v route_state_entry" where
  "route_state_entry_new v now = \<lparr>rse_value = v, rse_last_seen = now\<rparr>"

definition is_entry_expired :: "nat \<Rightarrow> nat \<Rightarrow> nat \<Rightarrow> bool" where
  "is_entry_expired last_seen now ttl \<longleftrightarrow>
     (if ttl = 0 then False else last_seen \<le> now \<and> ttl < now - last_seen)"

definition remove_entry_if_expired :: "string \<Rightarrow> nat \<Rightarrow> nat \<Rightarrow> 'v route_entries \<Rightarrow> 'v route_entries" where
  "remove_entry_if_expired key now ttl m =
     (if ttl = 0 then m
      else case map_of m key of
             None \<Rightarrow> m
           | Some e \<Rightarrow> if is_entry_expired (rse_last_seen e) now ttl then AList.delete key m else m)"

definition prune_expired_entries :: "nat \<Rightarrow> nat \<Rightarrow> 'v route_entries \<Rightarrow> 'v route_entries" where
  "prune_expired_entries now ttl m =
     (if ttl = 0 then m else filter (\<lambda>(_, e). \<not> is_entry_expired (rse_last_seen e) now ttl) m)"

definition entry_age_order :: "string \<times> 'v route_state_entry \<Rightarrow> nat \<times> string" where
  "entry_age_order ke = (rse_last_seen (snd ke), fst ke)"

definition find_oldest_key :: "'v route_entries \<Rightarrow> string option" where
  "find_oldest_key m = (if m = [] then None else Some (snd (Min (entry_age_order ` set m))))"

lemma find_oldest_key_in:
  assumes "find_oldest_key m = Some k"
  obtains e where "(k, e) \<in> set m" and "\<forall>ke\<in>set m. (rse_last_seen e, k) \<le> entry_age_order ke"
proof -
  have ne: "entry_age_order ` set m \<noteq> {}" and k: "k = snd (Min (entry_age_order ` set m))"
    using assms by (auto simp: find_oldest_key_def split: if_splits)
  have "Min (entry_age_order ` set m) \<in> entry_age_order ` set m"
    by (rule Min_in) (use ne in auto)
  then obtain e where e: "(k, e) \<in> set m" "Min (entry_age_order ` set m) = (rse_last_seen e, k)"
    using k by (auto simp: entry_age_order_def)
  have "Min (entry_age_order ` set m) \<le> entry_age_order ke" if "ke \<in> set m" for ke
    using that by (auto intro: Min_le)
  then show thesis using e that by auto
qed

lemma find_oldest_key_None [simp]: "find_oldest_key m = None \<longleftrightarrow> m = []"
  by (simp add: find_oldest_key_def)

lemma length_delete_oldest:
  assumes "find_oldest_key m = Some k"
  shows "length (AList.delete k m) < length m"
proof -
  obtain e where "(k, e) \<in> set m" by (rule find_oldest_key_in [OF assms])
  then show ?thesis
    by (auto simp: AList.delete_eq intro!: length_filter_less)
qed

function enforce_capacity :: "nat \<Rightarrow> 'v route_entries \<Rightarrow> 'v route_entries" where
  "enforce_capacity capacity m =
     (if capacity = 0 then m
      else if capacity < length m
      then (case find_oldest_key m of
              None \<Rightarrow> m
            | Some k \<Rightarrow> enforce_capacity capacity (AList.delete k m))
      else m)"
  by auto
termination by (relation "measure (\<lambda>(c, m). length m)") (auto intro: length_delete_oldest)

function enforce_capacity_pair ::
  "nat \<Rightarrow> 'v route_entries \<Rightarrow> 'w route_entries \<Rightarrow> 'v route_entries \<times> 'w route_entries" where
  "enforce_capacity_pair capacity m other =
     (if capacity = 0 then (m, other)
      else if capacity < length m
      then (case find_oldest_key m of
              None \<Rightarrow> (m, other)
            | Some k \<Rightarrow> enforce_capacity_pair capacity (AList.delete k m) (AList.delete k other))
      else (m, other))"
  by auto
termination by (relation "measure (\<lambda>(c, m, other). length m)") (auto intro: length_delete_oldest)

declare enforce_capacity.simps [simp del] enforce_capacity_pair.simps [simp del]

section \<open>Well-formed tables\<close>

definition entries_wf :: "nat \<Rightarrow> 'v route_entries \<Rightarrow> bool" where
  "entries_wf capacity m \<longleftrightarrow>
     distinct (map fst m) \<and> (capacity \<noteq> 0 \<longrightarrow> length m \<le> capacity)"

lemma entries_wf_Nil [simp]: "entries_wf c []"
  by (simp add: entries_wf_def)

lemma entries_wf_delete: "entries_wf c m \<Longrightarrow> entries_wf c (AList.delete k m)"
  using AList.length_delete_le [of k m]
  by (auto simp: entries_wf_def AList.distinct_delete)

lemma entries_wf_remove_expired:
  "entries_wf c m \<Longrightarrow> entries_wf c (remove_entry_if_expired k now ttl m)"
  by (auto simp: remove_entry_if_expired_def entries_wf_delete split: option.splits)

lemma entries_wf_prune: "entries_wf c m \<Longrightarrow> entries_wf c (prune_expired_entries now ttl m)"
  by (auto simp: entries_wf_def prune_expired_entries_def distinct_map intro: inj_on_subset
      order_trans [OF length_filter_le])

lemma enforce_capacity_noop: "length m \<le> c \<or> c = 0 \<Longrightarrow> enforce_capacity c m = m"
  by (subst enforce_capacity.simps) auto

lemma enforce_capacity_step:
  assumes "c \<noteq> 0" and "c < length m" and "find_oldest_key m = Some k"
  shows "enforce_capacity c m = enforce_capacity c (AList.delete k m)"
  using assms by (subst enforce_capacity.simps) simp

lemma find_oldest_key_exists: "c < length m \<Longrightarrow> \<exists>k. find_oldest_key m = Some k"
  by (cases m) (auto simp: find_oldest_key_def)

lemma entries_wf_enforce:
  "distinct (map fst m) \<Longrightarrow> entries_wf c (enforce_capacity c m)"
proof (induction c m rule: enforce_capacity.induct)
  case (1 c m)
  show ?case
  proof (cases "c \<noteq> 0 \<and> c < length m")
    case True
    then obtain k where k: "find_oldest_key m = Some k" using find_oldest_key_exists by blast
    then show ?thesis using 1 True
      by (simp add: enforce_capacity_step [OF _ _ k] AList.distinct_delete)
  next
    case False
    then show ?thesis using 1(2) by (auto simp: enforce_capacity_noop entries_wf_def)
  qed
qed

lemma enforce_capacity_pair_fst: "fst (enforce_capacity_pair c m n) = enforce_capacity c m"
proof (induction c m n rule: enforce_capacity_pair.induct)
  case (1 c m n)
  then show ?case
    by (subst enforce_capacity_pair.simps, subst enforce_capacity.simps)
      (simp split: option.split)
qed

lemma entries_wf_enforce_pair_snd:
  "entries_wf c' n \<Longrightarrow> entries_wf c' (snd (enforce_capacity_pair c m n))"
proof (induction c m n rule: enforce_capacity_pair.induct)
  case (1 c m n)
  then show ?case
    by (subst enforce_capacity_pair.simps) (simp add: entries_wf_delete split: option.split)
qed

lemma enforce_capacity_pair_noop: "length m \<le> c \<or> c = 0 \<Longrightarrow> enforce_capacity_pair c m n = (m, n)"
  by (subst enforce_capacity_pair.simps) auto

text \<open>Eviction only removes, and it removes the least recently seen entries.\<close>

lemma enforce_capacity_lru:
  assumes "distinct (map fst m)"
  shows "set (enforce_capacity c m) \<subseteq> set m
    \<and> (\<forall>x\<in>set m - set (enforce_capacity c m). \<forall>y\<in>set (enforce_capacity c m).
          rse_last_seen (snd x) \<le> rse_last_seen (snd y))"
  using assms
proof (induction c m rule: enforce_capacity.induct)
  case (1 c m)
  show ?case
  proof (cases "c \<noteq> 0 \<and> c < length m")
    case True
    then obtain k where k: "find_oldest_key m = Some k" using find_oldest_key_exists by blast
    let ?m = "AList.delete k m"
    from k obtain e where e: "(k, e) \<in> set m"
      "\<forall>ke\<in>set m. (rse_last_seen e, k) \<le> entry_age_order ke" by (rule find_oldest_key_in)
    have sub: "set ?m \<subseteq> set m" by (auto simp: AList.delete_eq)
    have gone: "x = (k, e)" if "x \<in> set m" "x \<notin> set ?m" for x
      using that e(1) 1(2) by (auto simp: AList.delete_eq eq_key_imp_eq_value)
    have le: "rse_last_seen e \<le> rse_last_seen (snd y)" if "y \<in> set m" for y
      using e(2) that by (fastforce simp: entry_age_order_def less_eq_prod_def)
    have IH: "set (enforce_capacity c ?m) \<subseteq> set ?m"
      "\<forall>x\<in>set ?m - set (enforce_capacity c ?m). \<forall>y\<in>set (enforce_capacity c ?m).
          rse_last_seen (snd x) \<le> rse_last_seen (snd y)"
      using 1 True k by (auto simp: AList.distinct_delete)
    have step: "enforce_capacity c m = enforce_capacity c ?m"
      using True k by (simp add: enforce_capacity_step)
    show ?thesis unfolding step
    proof (intro conjI ballI)
      fix x y assume x: "x \<in> set m - set (enforce_capacity c ?m)" and y: "y \<in> set (enforce_capacity c ?m)"
      show "rse_last_seen (snd x) \<le> rse_last_seen (snd y)"
      proof (cases "x \<in> set ?m")
        case True
        with x y IH(2) show ?thesis by blast
      next
        case False
        with x gone have "x = (k, e)" by blast
        moreover have "y \<in> set m" using y IH(1) sub by blast
        ultimately show ?thesis using le [of y] by simp
      qed
    qed (use IH(1) sub in auto)
  qed (use 1(2) in \<open>auto simp: enforce_capacity_noop\<close>)
qed

end
