(* ===== verification/SweptStore.thy ===== *)
theory SweptStore
  imports Prelude
begin

text \<open>
  The interface shared by the gateway's process-wide tables: a store that drops expired
  entries whenever an operation happens to run (the \<open>maybe_cleanup_*\<close> functions) and that
  is written one key at a time. \<open>swept_store\<close> says that a sweep cannot be observed from
  that moment on; \<open>keyed_store\<close> adds that an operation on one key cannot be observed at
  another. The lemmas say the same of whole schedules of sweeps and operations.
\<close>

text \<open>A schedule: operations \<open>(key, operation, time)\<close> run in order.\<close>

fun run_schedule :: "('k \<Rightarrow> 'op \<Rightarrow> int \<Rightarrow> 's \<Rightarrow> 's) \<Rightarrow> ('k \<times> 'op \<times> int) list \<Rightarrow> 's \<Rightarrow> 's" where
  "run_schedule f [] s = s"
| "run_schedule f ((k, x, now) # es) s = run_schedule f es (f k x now s)"

lemma run_schedule_append:
  "run_schedule f (xs @ ys) s = run_schedule f ys (run_schedule f xs s)"
  by (induction f xs s rule: run_schedule.induct) auto

lemma run_schedule_invariant:
  assumes "\<And>k x now s. I s \<Longrightarrow> I (f k x now s)" and "I s"
  shows "I (run_schedule f es s)"
  using assms(2) by (induction es arbitrary: s) (auto simp: assms(1))

locale swept_store =
  fixes sweep :: "int \<Rightarrow> 's \<Rightarrow> 's"
    and observe :: "'s \<Rightarrow> int \<Rightarrow> 'k \<Rightarrow> 'v"
  assumes observe_sweep: "now \<le> t \<Longrightarrow> observe (sweep now s) t k = observe s t k"
begin

lemma observe_sweeps:
  "\<forall>now\<in>set nows. now \<le> t \<Longrightarrow> observe (fold sweep nows s) t k = observe s t k"
  by (induction nows arbitrary: s) (auto simp: observe_sweep)

end

locale keyed_store = swept_store +
  fixes apply_op :: "'c \<Rightarrow> 'op \<Rightarrow> int \<Rightarrow> 'a \<Rightarrow> 'a"
  assumes observe_other: "k' \<noteq> k \<Longrightarrow> now \<le> t \<Longrightarrow> observe (apply_op k' x now s) t k = observe s t k"
begin

lemma observe_schedule_others:
  assumes "\<forall>(k', x, now)\<in>set es. k' \<noteq> k \<and> now \<le> t"
  shows "observe (run_schedule apply_op es s) t k = observe s t k"
  using assms by (induction es arbitrary: s) (auto simp: observe_other)

end

end
