(* ===== verification/RouteQuality.thy ===== *)
theory RouteQuality
  imports SweptStore
begin

text \<open>
  The route quality table, \<open>gateway/routing/route_quality.rs\<close>: per account a health score in
  0..200, moved by every response of the upstream, and saturating counters of the kinds of
  response; a record is forgotten a day after its last update. The table implements a plain
  per-account fold of the responses (\<open>score_spec\<close>), independent of the other accounts.
\<close>

section \<open>State and operations\<close>

record route_quality_record =
  rq_success_2xx :: nat
  rq_challenge_403 :: nat
  rq_throttle_429 :: nat
  rq_upstream_5xx :: nat
  rq_upstream_4xx :: nat
  rq_health_score :: int
  rq_updated_at :: int

record route_quality_state =
  rq_entries :: "string \<rightharpoonup> route_quality_record"
  rq_last_cleanup_at :: int

definition route_quality_record_default :: route_quality_record where
  "route_quality_record_default =
     \<lparr>rq_success_2xx = 0, rq_challenge_403 = 0, rq_throttle_429 = 0, rq_upstream_5xx = 0,
      rq_upstream_4xx = 0, rq_health_score = 0, rq_updated_at = 0\<rparr>"

definition route_quality_default :: route_quality_state where
  "route_quality_default = \<lparr>rq_entries = Map.empty, rq_last_cleanup_at = 0\<rparr>"

definition default_route_health_score :: int where "default_route_health_score = 100"
definition min_route_health_score :: int where "min_route_health_score = 0"
definition max_route_health_score :: int where "max_route_health_score = 200"
definition route_quality_ttl :: int where "route_quality_ttl = 24 * 60 * 60"
definition route_quality_cleanup_interval :: int where "route_quality_cleanup_interval = 60"

definition clamp_score :: "int \<Rightarrow> int" where
  "clamp_score x = max min_route_health_score (min max_route_health_score x)"

definition route_health_delta :: "nat \<Rightarrow> int" where
  "route_health_delta status_code =
     (if 200 \<le> status_code \<and> status_code \<le> 299 then 4
      else if status_code = 429 then - 15
      else if 500 \<le> status_code \<and> status_code \<le> 599 then - 10
      else if status_code = 401 \<or> status_code = 403 then - 18
      else if 400 \<le> status_code \<and> status_code \<le> 499 then - 8
      else - 2)"

definition route_quality_record_expired :: "route_quality_record \<Rightarrow> int \<Rightarrow> bool" where
  "route_quality_record_expired r now \<longleftrightarrow> rq_updated_at r + route_quality_ttl \<le> now"

definition maybe_cleanup_route_quality :: "int \<Rightarrow> route_quality_state \<Rightarrow> route_quality_state" where
  "maybe_cleanup_route_quality now s =
     (if rq_last_cleanup_at s \<noteq> 0
         \<and> i64_saturating_sub now (rq_last_cleanup_at s) < route_quality_cleanup_interval
      then s
      else s\<lparr>rq_last_cleanup_at := now,
             rq_entries := retain_map (\<lambda>_ r. \<not> route_quality_record_expired r now) (rq_entries s)\<rparr>)"

definition count_status :: "nat \<Rightarrow> route_quality_record \<Rightarrow> route_quality_record" where
  "count_status status_code r =
     (if 200 \<le> status_code \<and> status_code \<le> 299
      then r\<lparr>rq_success_2xx := u32_saturating_add (rq_success_2xx r) 1\<rparr>
      else if status_code = 403
      then r\<lparr>rq_challenge_403 := u32_saturating_add (rq_challenge_403 r) 1\<rparr>
      else if status_code = 429
      then r\<lparr>rq_throttle_429 := u32_saturating_add (rq_throttle_429 r) 1\<rparr>
      else if 500 \<le> status_code \<and> status_code \<le> 599
      then r\<lparr>rq_upstream_5xx := u32_saturating_add (rq_upstream_5xx r) 1\<rparr>
      else if 400 \<le> status_code \<and> status_code \<le> 499
      then r\<lparr>rq_upstream_4xx := u32_saturating_add (rq_upstream_4xx r) 1\<rparr>
      else r)"

text \<open>The closure \<open>record_route_quality\<close> runs on the entry of the account.\<close>

definition update_record :: "nat \<Rightarrow> int \<Rightarrow> route_quality_record \<Rightarrow> route_quality_record" where
  "update_record status_code now r =
     (let r1 = (if rq_updated_at r = 0 then r\<lparr>rq_health_score := default_route_health_score\<rparr> else r);
          r2 = r1\<lparr>rq_updated_at := now,
                  rq_health_score := clamp_score (rq_health_score r1 + route_health_delta status_code)\<rparr>
      in count_status status_code r2)"

definition with_map_mut ::
  "((string \<rightharpoonup> route_quality_record) \<Rightarrow> int \<Rightarrow> (string \<rightharpoonup> route_quality_record)) \<Rightarrow>
   int \<Rightarrow> route_quality_state \<Rightarrow> route_quality_state" where
  "with_map_mut mutator now s =
     (let s1 = maybe_cleanup_route_quality now s in s1\<lparr>rq_entries := mutator (rq_entries s1) now\<rparr>)"

definition record_route_quality :: "string \<Rightarrow> nat \<Rightarrow> int \<Rightarrow> route_quality_state \<Rightarrow> route_quality_state" where
  "record_route_quality account_id status_code now s =
     with_map_mut
       (\<lambda>m now'. m(account_id \<mapsto> update_record status_code now'
          (case m account_id of None \<Rightarrow> route_quality_record_default | Some r \<Rightarrow> r))) now s"

definition route_health_score :: "string \<Rightarrow> int \<Rightarrow> route_quality_state \<Rightarrow> int \<times> route_quality_state" where
  "route_health_score account_id now s =
     (case rq_entries s account_id of
        None \<Rightarrow> (default_route_health_score, s)
      | Some r \<Rightarrow>
          if route_quality_record_expired r now
          then (default_route_health_score, s\<lparr>rq_entries := map_remove account_id (rq_entries s)\<rparr>)
          else (clamp_score (rq_health_score r), s))"

definition route_quality_penalty :: "string \<Rightarrow> int \<Rightarrow> route_quality_state \<Rightarrow> int \<times> route_quality_state" where
  "route_quality_penalty account_id now s =
     (case rq_entries s account_id of
        None \<Rightarrow> (0, s)
      | Some r \<Rightarrow>
          if route_quality_record_expired r now
          then (0, s\<lparr>rq_entries := map_remove account_id (rq_entries s)\<rparr>)
          else (int (rq_challenge_403 r) * 6 + int (rq_throttle_429 r) * 3
                  - int (rq_success_2xx r) * 2, s))"

definition route_quality_clear_runtime_state :: "route_quality_state \<Rightarrow> route_quality_state" where
  "route_quality_clear_runtime_state s = s\<lparr>rq_entries := Map.empty, rq_last_cleanup_at := 0\<rparr>"

section \<open>Lemmas\<close>

abbreviation health :: "route_quality_state \<Rightarrow> int \<Rightarrow> string \<Rightarrow> int" where
  "health s t a \<equiv> fst (route_health_score a t s)"

lemma clamp_score_range [simp]: "0 \<le> clamp_score x" "clamp_score x \<le> 200"
  by (simp_all add: clamp_score_def min_route_health_score_def max_route_health_score_def)

lemma clamp_score_idem [simp]: "clamp_score (clamp_score x) = clamp_score x"
  by (simp add: clamp_score_def min_route_health_score_def max_route_health_score_def)

lemma count_status_simps [simp]:
  "rq_health_score (count_status st r) = rq_health_score r"
  "rq_updated_at (count_status st r) = rq_updated_at r"
  by (simp_all add: count_status_def)

lemma update_record_simps [simp]:
  "rq_updated_at (update_record st now r) = now"
  "rq_health_score (update_record st now r) =
     clamp_score ((if rq_updated_at r = 0 then default_route_health_score else rq_health_score r)
       + route_health_delta st)"
  by (simp_all add: update_record_def Let_def)

lemma expired_mono:
  "route_quality_record_expired r now \<Longrightarrow> now \<le> t \<Longrightarrow> route_quality_record_expired r t"
  by (simp add: route_quality_record_expired_def)

lemma health_cleanup: "now \<le> t \<Longrightarrow> health (maybe_cleanup_route_quality now s) t k = health s t k"
  by (auto simp: route_health_score_def maybe_cleanup_route_quality_def retain_map_def
      dest: expired_mono split: option.splits)

lemma health_record_other:
  assumes "a \<noteq> k" and "now \<le> t"
  shows "health (record_route_quality a st now s) t k = health s t k"
proof -
  have "health (record_route_quality a st now s) t k = health (maybe_cleanup_route_quality now s) t k"
    using assms(1) by (simp add: record_route_quality_def with_map_mut_def Let_def route_health_score_def split: option.splits)
  then show ?thesis using assms(2) by (simp add: health_cleanup)
qed

lemma health_ask_other:
  "a \<noteq> k \<Longrightarrow> health (snd (route_health_score a now s)) t k = health s t k"
  by (simp add: route_health_score_def split: option.splits)

lemma health_penalty_other:
  "a \<noteq> k \<Longrightarrow> health (snd (route_quality_penalty a now s)) t k = health s t k"
  by (simp add: route_health_score_def route_quality_penalty_def split: option.splits)

datatype route_quality_op = RecordQuality nat | AskScore | AskPenalty

fun apply_route_quality_op ::
  "string \<Rightarrow> route_quality_op \<Rightarrow> int \<Rightarrow> route_quality_state \<Rightarrow> route_quality_state" where
  "apply_route_quality_op a (RecordQuality st) now s = record_route_quality a st now s"
| "apply_route_quality_op a AskScore now s = snd (route_health_score a now s)"
| "apply_route_quality_op a AskPenalty now s = snd (route_quality_penalty a now s)"

lemma health_op_other:
  "a \<noteq> k \<Longrightarrow> now \<le> t \<Longrightarrow> health (apply_route_quality_op a x now s) t k = health s t k"
  by (cases x) (simp_all add: health_record_other health_ask_other health_penalty_other)

interpretation quality: keyed_store maybe_cleanup_route_quality health apply_route_quality_op
  by unfold_locales (fact health_cleanup, erule (1) health_op_other)

subsection \<open>Invariant: scores within bounds\<close>

definition route_quality_wf :: "route_quality_state \<Rightarrow> bool" where
  "route_quality_wf s \<longleftrightarrow>
     (\<forall>a r. rq_entries s a = Some r \<longrightarrow>
        0 \<le> rq_health_score r \<and> rq_health_score r \<le> 200 \<and>
        rq_success_2xx r \<le> u32_max \<and> rq_challenge_403 r \<le> u32_max \<and> rq_throttle_429 r \<le> u32_max \<and>
        rq_upstream_5xx r \<le> u32_max \<and> rq_upstream_4xx r \<le> u32_max)"

lemma route_quality_wf_update:
  assumes "rq_entries s' = m" and "\<And>k r. m k = Some r \<Longrightarrow> rq_entries s k = Some r"
    and "route_quality_wf s"
  shows "route_quality_wf s'"
  using assms by (fastforce simp: route_quality_wf_def)

lemma route_quality_wf_cleanup: "route_quality_wf s \<Longrightarrow> route_quality_wf (maybe_cleanup_route_quality now s)"
  by (rule route_quality_wf_update [OF refl]) (auto simp: maybe_cleanup_route_quality_def split: if_splits)

lemma route_quality_wf_record:
  assumes "route_quality_wf s"
  shows "route_quality_wf (record_route_quality a st now s)"
proof -
  let ?s1 = "maybe_cleanup_route_quality now s"
  let ?r = "case rq_entries ?s1 a of None \<Rightarrow> route_quality_record_default | Some r \<Rightarrow> r"
  have wf1: "route_quality_wf ?s1" using assms by (rule route_quality_wf_cleanup)
  let ?ok = "\<lambda>r. rq_success_2xx r \<le> u32_max \<and> rq_challenge_403 r \<le> u32_max \<and> rq_throttle_429 r \<le> u32_max \<and>
        rq_upstream_5xx r \<le> u32_max \<and> rq_upstream_4xx r \<le> u32_max"
  have "?ok ?r" using wf1
    by (auto simp: route_quality_wf_def route_quality_record_default_def split: option.splits)
  then have "?ok (update_record st now ?r)"
    by (auto simp: update_record_def count_status_def Let_def)
  with wf1 show ?thesis
    by (auto simp: route_quality_wf_def record_route_quality_def with_map_mut_def Let_def)
qed

lemma route_quality_wf_op: "route_quality_wf s \<Longrightarrow> route_quality_wf (apply_route_quality_op a x now s)"
proof (cases x)
  case AskScore
  then show "route_quality_wf s \<Longrightarrow> ?thesis"
    by (auto intro!: route_quality_wf_update [where s = s, OF refl]
        simp: route_health_score_def split: option.splits if_splits)
next
  case AskPenalty
  then show "route_quality_wf s \<Longrightarrow> ?thesis"
    by (auto intro!: route_quality_wf_update [where s = s, OF refl]
        simp: route_quality_penalty_def split: option.splits if_splits)
qed (simp_all add: route_quality_wf_record)

subsection \<open>Refinement of the per-account fold\<close>

fun score_spec :: "string \<Rightarrow> int \<Rightarrow> (string \<times> route_quality_op \<times> int) list \<Rightarrow> int" where
  "score_spec k v [] = v"
| "score_spec k v ((a, RecordQuality st, now) # es) =
     score_spec k (if a = k then clamp_score (v + route_health_delta st) else v) es"
| "score_spec k v ((a, _, now) # es) = score_spec k v es"

text \<open>The record of \<open>k\<close> cannot expire between \<open>t0\<close> and \<open>t0 + ttl\<close>.\<close>

definition fresh_at :: "string \<Rightarrow> int \<Rightarrow> route_quality_state \<Rightarrow> bool" where
  "fresh_at k t0 s \<longleftrightarrow> (\<forall>r. rq_entries s k = Some r \<longrightarrow> t0 \<le> rq_updated_at r)"

lemma fresh_at_op:
  assumes "fresh_at k t0 s" and "t0 \<le> now"
  shows "fresh_at k t0 (apply_route_quality_op a x now s)"
proof (cases x)
  case (RecordQuality st)
  then show ?thesis using assms
    by (auto simp: fresh_at_def record_route_quality_def with_map_mut_def Let_def maybe_cleanup_route_quality_def)
qed (use assms in \<open>auto simp: fresh_at_def route_health_score_def route_quality_penalty_def
      split: option.splits\<close>)

lemma health_fresh:
  assumes "fresh_at k t0 s" and "t < t0 + route_quality_ttl"
  shows "health s t k = (case rq_entries s k of None \<Rightarrow> 100 | Some r \<Rightarrow> clamp_score (rq_health_score r))"
  using assms by (auto simp: fresh_at_def route_health_score_def route_quality_record_expired_def
      default_route_health_score_def split: option.splits)

lemma entry_kept:
  assumes "fresh_at k t0 s" and "now < t0 + route_quality_ttl"
  shows "rq_entries (maybe_cleanup_route_quality now s) k = rq_entries s k"
  using assms by (auto simp: fresh_at_def maybe_cleanup_route_quality_def retain_map_def
      route_quality_record_expired_def split: option.splits)

lemma health_own_op:
  assumes "fresh_at k t0 s" and "route_quality_wf s" and "0 < t0"
    and "now < t0 + route_quality_ttl" and "t0 \<le> now" and "t < t0 + route_quality_ttl"
  shows "health (apply_route_quality_op k x now s) t k =
    (case x of RecordQuality st \<Rightarrow> clamp_score (health s t k + route_health_delta st) | _ \<Rightarrow> health s t k)"
proof -
  have fresh: "fresh_at k t0 (apply_route_quality_op k x now s)"
    by (rule fresh_at_op) (use assms in auto)
  have score: "clamp_score (rq_health_score r) = rq_health_score r" if "rq_entries s k = Some r" for r
    using that assms(2) by (auto simp: route_quality_wf_def clamp_score_def
        min_route_health_score_def max_route_health_score_def)
  have set: "rq_updated_at r \<noteq> 0" if "rq_entries s k = Some r" for r
    using that assms(1,3) by (auto simp: fresh_at_def)
  show ?thesis
  proof (cases x)
    case (RecordQuality st)
    then show ?thesis
      using health_fresh [OF fresh assms(6)] health_fresh [OF assms(1,6)] score set
      by (simp add: record_route_quality_def with_map_mut_def Let_def entry_kept [OF assms(1,4)]
          default_route_health_score_def route_quality_record_default_def split: option.split)
  qed (use assms(1,4) in \<open>auto simp: fresh_at_def route_health_score_def route_quality_penalty_def
        route_quality_record_expired_def split: option.splits\<close>)
qed

lemma score_refines:
  assumes "fresh_at k t0 s" and "route_quality_wf s" and "0 < t0" and "t < t0 + route_quality_ttl"
    and "\<forall>(a, x, now)\<in>set es. t0 \<le> now \<and> now \<le> t"
  shows "health (run_schedule apply_route_quality_op es s) t k = score_spec k (health s t k) es"
  using assms
proof (induction es arbitrary: s)
  case (Cons e es)
  obtain a x now where e: "e = (a, x, now)" by (cases e)
  let ?s = "apply_route_quality_op a x now s"
  have now: "t0 \<le> now" "now \<le> t" using Cons.prems(5) e by auto
  have "health ?s t k = (case x of RecordQuality st \<Rightarrow>
      if a = k then clamp_score (health s t k + route_health_delta st) else health s t k
    | _ \<Rightarrow> health s t k)"
  proof (cases "a = k")
    case True
    then show ?thesis using health_own_op [OF Cons.prems(1-3), of now t x] now Cons.prems(4)
      by (simp split: route_quality_op.split)
  next
    case False
    then show ?thesis using health_op_other [OF False, of now t x s] now
      by (simp split: route_quality_op.split)
  qed
  moreover have "health (run_schedule apply_route_quality_op es ?s) t k = score_spec k (health ?s t k) es"
    using Cons.IH [of ?s] Cons.prems fresh_at_op [OF Cons.prems(1) now(1)]
      route_quality_wf_op [OF Cons.prems(2)] by simp
  ultimately show ?case by (cases x) (simp_all add: e)
qed simp

lemma score_spec_successes:
  assumes "0 \<le> v" and "v \<le> 200" and "\<forall>st\<in>set sts. 200 \<le> st \<and> st \<le> (299 :: nat)"
  shows "score_spec k v (map (\<lambda>st. (k, RecordQuality st, now)) sts) = min 200 (v + 4 * int (length sts))"
  using assms
proof (induction sts arbitrary: v)
  case (Cons st sts)
  then have "clamp_score (v + route_health_delta st) = min 200 (v + 4)"
    by (auto simp: route_health_delta_def clamp_score_def min_route_health_score_def
        max_route_health_score_def)
  with Cons.IH [of "min 200 (v + 4)"] Cons.prems show ?case by simp
qed simp

lemma route_quality_wf_reachable:
  "route_quality_wf (run_schedule apply_route_quality_op es route_quality_default)"
proof (rule run_schedule_invariant [where I = route_quality_wf])
  show "route_quality_wf route_quality_default"
    by (simp add: route_quality_wf_def route_quality_default_def)
qed (rule route_quality_wf_op)

section \<open>Properties\<close>

text \<open>
  C25: the table implements the per-account fold. Over any schedule of responses and questions
  on any accounts that stays within one day, with the sweeps of the table it triggers, the
  health score of an account is the fold of its own responses alone: it starts at 100 and
  each response moves it by its delta, clamped to 0..200.
\<close>

theorem route_quality_refines_fold:
  assumes "0 < t0" and "t < t0 + route_quality_ttl"
    and "\<forall>(a, x, now)\<in>set es. t0 \<le> now \<and> now \<le> t"
  shows "health (run_schedule apply_route_quality_op es route_quality_default) t k = score_spec k 100 es"
proof -
  have "health route_quality_default t k = 100"
    by (simp add: route_health_score_def route_quality_default_def default_route_health_score_def)
  then show ?thesis
    using score_refines [of k t0 route_quality_default t es] route_quality_wf_reachable [of "[]"] assms
    by (simp add: fresh_at_def route_quality_default_def)
qed

theorem route_quality_refines_fold_witness:
  "health (run_schedule apply_route_quality_op
      [(''a'', RecordQuality 503, 1000), (''b'', RecordQuality 200, 1001), (''a'', RecordQuality 429, 1070)]
      route_quality_default) 1100 ''a'' = 75"
  by (subst route_quality_refines_fold [of 1000])
    (simp_all add: route_quality_ttl_def route_health_delta_def clamp_score_def
      min_route_health_score_def max_route_health_score_def)

text \<open>A recorded account recovers by four points with every success, up to the maximum.\<close>

lemma successes_raise_score:
  assumes "s = run_schedule apply_route_quality_op es route_quality_default"
    and "fresh_at k t0 s" and "0 < t0" and "t0 \<le> now" and "now \<le> t" and "t < t0 + route_quality_ttl"
    and "\<forall>st\<in>set sts. 200 \<le> st \<and> st \<le> 299"
  shows "health (run_schedule apply_route_quality_op (map (\<lambda>st. (k, RecordQuality st, now)) sts) s) t k
    = min 200 (health s t k + 4 * int (length sts))"
proof -
  have "route_quality_wf s" using assms(1) route_quality_wf_reachable by simp
  moreover have "0 \<le> health s t k \<and> health s t k \<le> 200"
    by (auto simp: route_health_score_def default_route_health_score_def split: option.splits)
  ultimately show ?thesis
    using score_refines [of k t0 s t "map (\<lambda>st. (k, RecordQuality st, now)) sts"]
      score_spec_successes assms(2-7) by auto
qed

end
