(* ===== verification/RouteHint.thy ===== *)
theory RouteHint
  imports RouteState RouteQuality StorageData
begin

text \<open>
  Ordering of the candidate accounts of a request, \<open>gateway/routing/route_hint.rs\<close>: the manually
  preferred account first, round robin over the accounts in balanced mode, and a power of
  two choices on the health scores for the head. The process-wide atomics and the mutex-guarded
  tables are the state; one reading of the clocks (seconds for the quality table, the
  monotonic \<open>Instant\<close> in nanoseconds for the cursors) is taken per operation; the account the
  database names as preferred is an argument.
\<close>

section \<open>State\<close>

record clock =
  clk_ts :: int
  clk_instant :: nat

record account_round_robin_cursor =
  last_selected_account_id :: string
  next_account_id :: string

record route_round_robin_state =
  next_start_by_key_model :: "nat route_entries"
  account_cursor_by_key_model :: "account_round_robin_cursor route_entries"
  p2c_nonce_by_key_model :: "64 word route_entries"
  manual_preferred_account_id :: "string option"
  maintenance_tick :: "64 word"

record route_config =
  rc_mode :: nat
  rc_p2c_enabled :: bool
  rc_ordered_window :: nat
  rc_balanced_window :: nat
  rc_ttl_secs :: nat
  rc_capacity :: nat

record route_runtime =
  rt_config :: route_config
  rt_state :: route_round_robin_state
  rt_loaded :: bool

definition route_mode_ordered :: nat where "route_mode_ordered = 0"
definition route_mode_balanced :: nat where "route_mode_balanced = 1"

definition route_state_maintenance_every :: "64 word" where "route_state_maintenance_every = 64"

definition route_round_robin_default :: route_round_robin_state where
  "route_round_robin_default =
     \<lparr>next_start_by_key_model = [], account_cursor_by_key_model = [], p2c_nonce_by_key_model = [],
      manual_preferred_account_id = None, maintenance_tick = 0\<rparr>"

definition route_config_default :: route_config where
  "route_config_default =
     \<lparr>rc_mode = route_mode_ordered, rc_p2c_enabled = True, rc_ordered_window = 3,
      rc_balanced_window = 1, rc_ttl_secs = 0, rc_capacity = 0\<rparr>"

definition route_runtime_init :: route_runtime where
  "route_runtime_init =
     \<lparr>rt_config = route_config_default, rt_state = route_round_robin_default, rt_loaded = False\<rparr>"

definition route_state_ttl :: "route_config \<Rightarrow> nat" where
  "route_state_ttl cfg = rc_ttl_secs cfg * 10 ^ 9"

definition route_health_window :: "route_config \<Rightarrow> nat \<Rightarrow> nat" where
  "route_health_window cfg mode =
     (if mode = route_mode_balanced then rc_balanced_window cfg else rc_ordered_window cfg)"

section \<open>Modes and settings\<close>

definition route_mode_label :: "nat \<Rightarrow> string" where
  "route_mode_label mode = (if mode = route_mode_balanced then ''balanced'' else ''ordered'')"

definition parse_route_mode :: "string \<Rightarrow> nat option" where
  "parse_route_mode raw =
     (let v = to_ascii_lowercase (trim raw) in
      if v \<in> {''ordered'', ''order'', ''priority'', ''sequential''} then Some route_mode_ordered
      else if v \<in> {''balanced'', ''round_robin'', ''round-robin'', ''rr''} then Some route_mode_balanced
      else None)"

definition normalize_route_strategy :: "string \<Rightarrow> string + string" where
  "normalize_route_strategy strategy =
     (case parse_route_mode strategy of
        Some mode \<Rightarrow> Inr (route_mode_label mode)
      | None \<Rightarrow>
          Inl ''invalid strategy; use ordered or balanced (aliases: round_robin/round-robin/rr)'')"

definition apply_route_mode :: "nat \<Rightarrow> route_runtime \<Rightarrow> route_runtime" where
  "apply_route_mode mode rt =
     (if rc_mode (rt_config rt) = mode then rt
      else rt\<lparr>rt_config := (rt_config rt)\<lparr>rc_mode := mode\<rparr>,
              rt_state := (rt_state rt)\<lparr>next_start_by_key_model := [], account_cursor_by_key_model := [],
                 p2c_nonce_by_key_model := [], maintenance_tick := 0\<rparr>\<rparr>)"

type_synonym environment = "string \<Rightarrow> string option"

definition env_bool_or :: "environment \<Rightarrow> string \<Rightarrow> bool \<Rightarrow> bool" where
  "env_bool_or env name dflt =
     (case env name of
        None \<Rightarrow> dflt
      | Some raw \<Rightarrow>
          (let v = to_ascii_lowercase (trim raw) in
           if v \<in> {''1'', ''true'', ''yes'', ''on''} then True
           else if v \<in> {''0'', ''false'', ''no'', ''off''} then False
           else dflt))"

definition env_usize_or :: "environment \<Rightarrow> string \<Rightarrow> nat \<Rightarrow> nat" where
  "env_usize_or env name dflt =
     (case env name of
        None \<Rightarrow> dflt
      | Some raw \<Rightarrow> (case parse_unsigned u64_max (trim raw) of Some n \<Rightarrow> n | None \<Rightarrow> dflt))"

definition env_u64_or :: "environment \<Rightarrow> string \<Rightarrow> nat \<Rightarrow> nat" where
  "env_u64_or env name dflt =
     (case env name of
        None \<Rightarrow> dflt
      | Some raw \<Rightarrow> (case parse_unsigned u64_max (trim raw) of Some n \<Rightarrow> n | None \<Rightarrow> dflt))"

definition reload_route_tuning_from_env :: "environment \<Rightarrow> route_runtime \<Rightarrow> route_runtime" where
  "reload_route_tuning_from_env env rt =
     rt\<lparr>rt_config :=
          (rt_config rt)\<lparr>
            rc_p2c_enabled := env_bool_or env ''CODEXMANAGER_ROUTE_HEALTH_P2C_ENABLED'' True,
            rc_ordered_window := env_usize_or env ''CODEXMANAGER_ROUTE_HEALTH_P2C_ORDERED_WINDOW'' 3,
            rc_balanced_window := env_usize_or env ''CODEXMANAGER_ROUTE_HEALTH_P2C_BALANCED_WINDOW'' 1,
            rc_ttl_secs := env_u64_or env ''CODEXMANAGER_ROUTE_STATE_TTL_SECS'' 0,
            rc_capacity := env_usize_or env ''CODEXMANAGER_ROUTE_STATE_CAPACITY'' 0\<rparr>,
        rt_state := (rt_state rt)\<lparr>manual_preferred_account_id := None\<rparr>\<rparr>"

definition route_reload_from_env :: "environment \<Rightarrow> route_runtime \<Rightarrow> route_runtime" where
  "route_reload_from_env env rt =
     (let raw = (case env ''CODEXMANAGER_ROUTE_STRATEGY'' of None \<Rightarrow> [] | Some v \<Rightarrow> v);
          mode = (case parse_route_mode raw of None \<Rightarrow> route_mode_ordered | Some m \<Rightarrow> m)
      in reload_route_tuning_from_env env (apply_route_mode mode rt))"

text \<open>The first use of the table loads the environment, once.\<close>

definition ensure_route_config_loaded :: "environment \<Rightarrow> route_runtime \<Rightarrow> route_runtime" where
  "ensure_route_config_loaded env rt =
     (if rt_loaded rt then rt else (route_reload_from_env env rt)\<lparr>rt_loaded := True\<rparr>)"

definition reload_from_env_preserving_strategy :: "environment \<Rightarrow> route_runtime \<Rightarrow> route_runtime" where
  "reload_from_env_preserving_strategy env rt =
     reload_route_tuning_from_env env (ensure_route_config_loaded env rt)"

definition current_route_strategy :: "environment \<Rightarrow> route_runtime \<Rightarrow> string \<times> route_runtime" where
  "current_route_strategy env rt =
     (let rt1 = ensure_route_config_loaded env rt in (route_mode_label (rc_mode (rt_config rt1)), rt1))"

definition set_route_strategy ::
  "environment \<Rightarrow> string \<Rightarrow> route_runtime \<Rightarrow> (string + string) \<times> route_runtime" where
  "set_route_strategy env strategy rt =
     (let rt1 = ensure_route_config_loaded env rt in
      case normalize_route_strategy strategy of
        Inl e \<Rightarrow> (Inl e, rt1)
      | Inr s \<Rightarrow>
          (let mode = (if s = ''balanced'' then route_mode_balanced else route_mode_ordered)
           in (Inr (route_mode_label mode), apply_route_mode mode rt1)))"

section \<open>Cursors\<close>

definition key_model_key :: "string \<Rightarrow> string option \<Rightarrow> string" where
  "key_model_key key_id model =
     trim key_id @ ''|'' @ (case trimmed_nonempty model of Some m \<Rightarrow> m | None \<Rightarrow> ''-'')"

definition maybe_maintain :: "route_config \<Rightarrow> nat \<Rightarrow> route_round_robin_state \<Rightarrow> route_round_robin_state" where
  "maybe_maintain cfg now s =
     (let s1 = s\<lparr>maintenance_tick := maintenance_tick s + 1\<rparr> in
      if maintenance_tick s1 mod route_state_maintenance_every \<noteq> 0 then s1
      else
        let ttl = route_state_ttl cfg; capacity = rc_capacity cfg;
            starts = prune_expired_entries now ttl (next_start_by_key_model s1);
            cursors = prune_expired_entries now ttl (account_cursor_by_key_model s1);
            nonces = prune_expired_entries now ttl (p2c_nonce_by_key_model s1);
            (starts1, nonces1) = enforce_capacity_pair capacity starts nonces;
            (nonces2, starts2) = enforce_capacity_pair capacity nonces1 starts1
        in s1\<lparr>next_start_by_key_model := starts2,
              account_cursor_by_key_model := enforce_capacity capacity cursors,
              p2c_nonce_by_key_model := nonces2\<rparr>)"

definition next_start_index ::
  "route_config \<Rightarrow> string \<Rightarrow> string option \<Rightarrow> nat \<Rightarrow> nat \<Rightarrow> route_round_robin_state \<Rightarrow>
   nat \<times> route_round_robin_state" where
  "next_start_index cfg key_id model candidate_count now s =
     (let s1 = maybe_maintain cfg now s;
          key = key_model_key key_id model;
          m = remove_entry_if_expired key now (route_state_ttl cfg) (next_start_by_key_model s1);
          value = (case map_of m key of Some e \<Rightarrow> rse_value e | None \<Rightarrow> 0);
          start = value mod candidate_count;
          m1 = AList.update key (route_state_entry_new ((start + 1) mod candidate_count) now) m;
          (m2, nonces) = enforce_capacity_pair (rc_capacity cfg) m1 (p2c_nonce_by_key_model s1)
      in (start, s1\<lparr>next_start_by_key_model := m2, p2c_nonce_by_key_model := nonces\<rparr>))"

text \<open>The index the cursor of the previous selection points at in the current candidates.\<close>

definition cursor_start :: "account_round_robin_cursor option \<Rightarrow> candidate list \<Rightarrow> nat" where
  "cursor_start previous_cursor candidates =
     (case previous_cursor of
        None \<Rightarrow> 0
      | Some c \<Rightarrow>
          (case position (\<lambda>x. cand_id x = last_selected_account_id c) candidates of
             Some i \<Rightarrow> (i + 1) mod length candidates
           | None \<Rightarrow>
               (case position (\<lambda>x. cand_id x = next_account_id c) candidates of
                  Some i \<Rightarrow> i
                | None \<Rightarrow> 0)))"

definition next_account_start_index ::
  "route_config \<Rightarrow> candidate list \<Rightarrow> string \<Rightarrow> string option \<Rightarrow> nat \<Rightarrow> route_round_robin_state \<Rightarrow>
   nat \<times> route_round_robin_state" where
  "next_account_start_index cfg candidates key_id model now s =
     (let s1 = maybe_maintain cfg now s;
          key = key_model_key key_id model;
          m = remove_entry_if_expired key now (route_state_ttl cfg) (account_cursor_by_key_model s1);
          start = cursor_start (map_option rse_value (map_of m key)) candidates;
          next_idx = (start + 1) mod length candidates;
          m1 = AList.update key
                 (route_state_entry_new
                    \<lparr>last_selected_account_id = cand_id (candidates ! start),
                     next_account_id = cand_id (candidates ! next_idx)\<rparr> now) m
      in (start, s1\<lparr>account_cursor_by_key_model := enforce_capacity (rc_capacity cfg) m1\<rparr>))"

definition current_start_index ::
  "route_config \<Rightarrow> string \<Rightarrow> string option \<Rightarrow> nat \<Rightarrow> nat \<Rightarrow> route_round_robin_state \<Rightarrow> nat" where
  "current_start_index cfg key_id model candidate_count now s =
     (if candidate_count = 0 then 0
      else case map_of (next_start_by_key_model s) (key_model_key key_id model) of
             None \<Rightarrow> 0
           | Some e \<Rightarrow>
               if route_state_ttl cfg \<noteq> 0 \<and> is_entry_expired (rse_last_seen e) now (route_state_ttl cfg)
               then 0
               else rse_value e mod candidate_count)"

section \<open>Health-aware choice of the head\<close>

fun fnv1a :: "64 word \<Rightarrow> string \<Rightarrow> 64 word" where
  "fnv1a hash [] = hash"
| "fnv1a hash (b # bs) = fnv1a (xor hash (of_char b) * 1099511628211) bs"

definition stable_hash_u64 :: "string \<Rightarrow> 64 word" where
  "stable_hash_u64 input = fnv1a 14695981039346656037 input"

definition p2c_challenger_index ::
  "route_config \<Rightarrow> string \<Rightarrow> string option \<Rightarrow> nat \<Rightarrow> nat \<Rightarrow> route_round_robin_state \<Rightarrow>
   nat option \<times> route_round_robin_state" where
  "p2c_challenger_index cfg key_id model candidate_count now s =
     (if candidate_count < 2 then (None, s)
      else
        let s1 = maybe_maintain cfg now s;
            key = key_model_key key_id model;
            m = remove_entry_if_expired key now (route_state_ttl cfg) (p2c_nonce_by_key_model s1);
            nonce = (case map_of m key of Some e \<Rightarrow> rse_value e | None \<Rightarrow> 0);
            m1 = AList.update key (route_state_entry_new (nonce + 1) now) m;
            (m2, starts) = enforce_capacity_pair (rc_capacity cfg) m1 (next_start_by_key_model s1);
            seed = stable_hash_u64 (key @ ''|'' @ show_nat (unat nonce))
        in (Some (unat seed mod (candidate_count - 1) + 1),
            s1\<lparr>p2c_nonce_by_key_model := m2, next_start_by_key_model := starts\<rparr>))"

definition apply_health_p2c ::
  "route_config \<Rightarrow> string \<Rightarrow> string option \<Rightarrow> nat \<Rightarrow> clock \<Rightarrow> candidate list \<Rightarrow>
   route_round_robin_state \<Rightarrow> route_quality_state \<Rightarrow>
   candidate list \<times> route_round_robin_state \<times> route_quality_state" where
  "apply_health_p2c cfg key_id model mode clk candidates s q =
     (let window = min (route_health_window cfg mode) (length candidates) in
      if \<not> rc_p2c_enabled cfg then (candidates, s, q)
      else if window \<le> 1 then (candidates, s, q)
      else
        (case p2c_challenger_index cfg key_id model window (clk_instant clk) s of
           (None, s1) \<Rightarrow> (candidates, s1, q)
         | (Some challenger_idx, s1) \<Rightarrow>
             (let (current_score, q1) =
                    route_health_score (cand_id (candidates ! 0)) (clk_ts clk) q;
                  (challenger_score, q2) =
                    route_health_score (cand_id (candidates ! challenger_idx)) (clk_ts clk) q1
              in (if current_score < challenger_score then swap_idx 0 challenger_idx candidates
                  else candidates, s1, q2))))"

section \<open>Strategies\<close>

definition rotate_to_manual_preferred_account ::
  "string option \<Rightarrow> candidate list \<Rightarrow> bool \<times> candidate list" where
  "rotate_to_manual_preferred_account preferred candidates =
     (case preferred of
        None \<Rightarrow> (False, candidates)
      | Some account_id \<Rightarrow>
          (case position (\<lambda>c. cand_id c = account_id) candidates of
             None \<Rightarrow> (False, candidates)
           | Some index \<Rightarrow>
               (True, if 0 < index then rotate_left index candidates else candidates)))"

definition apply_balanced_round_robin ::
  "environment \<Rightarrow> string \<Rightarrow> string option \<Rightarrow> nat \<Rightarrow> 'c list \<Rightarrow> route_runtime \<Rightarrow> 'c list \<times> route_runtime" where
  "apply_balanced_round_robin env key_id model now candidates rt =
     (let rt1 = ensure_route_config_loaded env rt in
      if length candidates \<le> 1 then (candidates, rt1)
      else
        let (start, s) = next_start_index (rt_config rt1) key_id model (length candidates) now (rt_state rt1)
        in (if 0 < start then rotate_left start candidates else candidates, rt1\<lparr>rt_state := s\<rparr>))"

definition preview_balanced_round_robin ::
  "environment \<Rightarrow> string \<Rightarrow> string option \<Rightarrow> nat \<Rightarrow> 'c list \<Rightarrow> route_runtime \<Rightarrow> 'c list \<times> route_runtime" where
  "preview_balanced_round_robin env key_id model now candidates rt =
     (let rt1 = ensure_route_config_loaded env rt in
      if length candidates \<le> 1 then (candidates, rt1)
      else
        let start = current_start_index (rt_config rt1) key_id model (length candidates) now (rt_state rt1)
        in (if 0 < start then rotate_left start candidates else candidates, rt1))"

definition apply_balanced_account_round_robin ::
  "route_config \<Rightarrow> string \<Rightarrow> string option \<Rightarrow> nat \<Rightarrow> candidate list \<Rightarrow> route_round_robin_state \<Rightarrow>
   candidate list \<times> route_round_robin_state" where
  "apply_balanced_account_round_robin cfg key_id model now candidates s =
     (if length candidates \<le> 1 then (candidates, s)
      else
        let (start, s1) = next_account_start_index cfg candidates key_id model now s
        in (if 0 < start then rotate_left start candidates else candidates, s1))"

record route_strategy_application =
  strategy_label :: string
  strategy_source :: string

definition apply_route_strategy_with_source ::
  "environment \<Rightarrow> string option \<Rightarrow> string \<Rightarrow> string option \<Rightarrow> clock \<Rightarrow> candidate list \<Rightarrow>
   route_runtime \<Rightarrow> route_quality_state \<Rightarrow>
   route_strategy_application \<times> candidate list \<times> route_runtime \<times> route_quality_state" where
  "apply_route_strategy_with_source env preferred key_id model clk candidates rt q =
     (let rt1 = ensure_route_config_loaded env rt;
          cfg = rt_config rt1;
          mode = rc_mode cfg;
          default_application =
            \<lparr>strategy_label = route_mode_label mode, strategy_source = ''route_strategy''\<rparr>
      in case rotate_to_manual_preferred_account preferred candidates of
           (True, rotated) \<Rightarrow>
             (\<lparr>strategy_label = ''manual_preferred_account'',
               strategy_source = ''manual_preferred_account''\<rparr>, rotated, rt1, q)
         | (False, _) \<Rightarrow>
             if length candidates \<le> 1 then
               (default_application, candidates,
                if length candidates = 1 \<and> mode = route_mode_balanced
                then rt1\<lparr>rt_state :=
                       snd (next_account_start_index cfg candidates key_id model (clk_instant clk)
                              (rt_state rt1))\<rparr>
                else rt1, q)
             else
               (let (rotated, s1) =
                      (if mode = route_mode_balanced
                       then apply_balanced_account_round_robin cfg key_id model (clk_instant clk)
                              candidates (rt_state rt1)
                       else (candidates, rt_state rt1));
                    (final, s2, q1) = apply_health_p2c cfg key_id model mode clk rotated s1 q
                in (default_application, final, rt1\<lparr>rt_state := s2\<rparr>, q1)))"

section \<open>Reordering\<close>

text \<open>
  What a strategy promises the candidate loop: it only reorders the candidates. The
  interface is used with the strategies as its instances.
\<close>

locale reordering =
  fixes reorder :: "'s \<Rightarrow> 'c list \<Rightarrow> 'c list"
  assumes reorder_mset: "mset (reorder s xs) = mset xs"
begin

lemma reorder_set: "set (reorder s xs) = set xs"
  by (metis reorder_mset set_mset_mset)

lemma reorder_length: "length (reorder s xs) = length xs"
  by (metis reorder_mset size_mset)

lemma reorder_distinct: "distinct (map f (reorder s xs)) = distinct (map f xs)"
  by (metis mset_eq_imp_distinct_iff mset_map reorder_mset)

lemma reorder_filter_length: "length (filter P (reorder s xs)) = length (filter P xs)"
  by (metis mset_filter reorder_mset size_mset)

lemma reorder_hd: "xs \<noteq> [] \<Longrightarrow> hd (reorder s xs) \<in> set xs"
  by (metis hd_in_set length_0_conv reorder_length reorder_set)

end

lemma cursor_start_lt: "candidates \<noteq> [] \<Longrightarrow> cursor_start c candidates < length candidates"
  by (auto simp: cursor_start_def split: option.split dest: position_lt)

lemma next_account_start_index_fst:
  "fst (next_account_start_index cfg cs key_id model now s) =
     cursor_start (map_option rse_value
       (map_of (remove_entry_if_expired (key_model_key key_id model) now (route_state_ttl cfg)
          (account_cursor_by_key_model (maybe_maintain cfg now s))) (key_model_key key_id model))) cs"
  by (simp add: next_account_start_index_def Let_def)

lemma p2c_challenger_range:
  "p2c_challenger_index cfg key_id model n now s = (Some i, s') \<Longrightarrow> 1 \<le> i \<and> i < n"
proof -
  assume a: "p2c_challenger_index cfg key_id model n now s = (Some i, s')"
  then have "2 \<le> n" by (simp add: p2c_challenger_index_def split: if_splits)
  moreover obtain x where "i = x mod (n - 1) + 1"
    using a by (auto simp: p2c_challenger_index_def Let_def split: if_splits prod.splits)
  moreover have "x mod (n - 1) < n - 1" using \<open>2 \<le> n\<close> by simp
  ultimately show ?thesis by linarith
qed

lemma health_ask: "now \<le> t \<Longrightarrow> health (snd (route_health_score a now q)) t k = health q t k"
  by (auto simp: route_health_score_def dest: expired_mono split: option.splits)

lemma score_at: "fst (route_health_score a (clk_ts clk) q) = health q (clk_ts clk) a"
  by simp

text \<open>The power-of-two choice: nothing, or one swap of the head with a healthier challenger.\<close>

lemma apply_health_p2c_cases:
  assumes "apply_health_p2c cfg key_id model mode clk cs s q = (out, s', q')"
  shows "out = cs \<or> (\<exists>i. 1 \<le> i \<and> i < min (route_health_window cfg mode) (length cs)
      \<and> out = swap_idx 0 i cs
      \<and> health q (clk_ts clk) (cand_id (cs ! 0)) < health q (clk_ts clk) (cand_id (cs ! i)))"
proof (cases "p2c_challenger_index cfg key_id model (min (route_health_window cfg mode) (length cs))
    (clk_instant clk) s")
  case (Pair io s1)
  show ?thesis
  proof (cases io)
    case None
    then show ?thesis using assms Pair by (auto simp: apply_health_p2c_def Let_def split: if_splits)
  next
    case (Some i)
    have "1 \<le> i \<and> i < min (route_health_window cfg mode) (length cs)"
      using p2c_challenger_range Pair Some by blast
    then show ?thesis using assms Pair Some health_ask [of "clk_ts clk" "clk_ts clk"]
      by (auto simp: apply_health_p2c_def Let_def split: if_splits prod.splits)
        (metis fst_conv less_irrefl order_less_irrefl snd_conv)
  qed
qed

lemma mset_apply_health_p2c:
  assumes "apply_health_p2c cfg key_id model mode clk cs s q = (out, s', q')"
  shows "mset out = mset cs"
  using apply_health_p2c_cases [OF assms] by (auto intro!: mset_swap_idx)

lemma rotate_manual_mset:
  "mset (snd (rotate_to_manual_preferred_account preferred cs)) = mset cs"
  by (simp add: rotate_to_manual_preferred_account_def split: option.split)

lemma apply_balanced_account_mset:
  "mset (fst (apply_balanced_account_round_robin cfg key_id model now cs s)) = mset cs"
  by (simp add: apply_balanced_account_round_robin_def split: prod.split)

lemma apply_balanced_mset: "mset (fst (apply_balanced_round_robin env key_id model now cs rt)) = mset cs"
  by (simp add: apply_balanced_round_robin_def Let_def split: prod.split)

lemma apply_route_strategy_mset:
  "mset (fst (snd (apply_route_strategy_with_source env preferred key_id model clk cs rt q))) = mset cs"
proof (cases "rotate_to_manual_preferred_account preferred cs")
  case (Pair b rotated)
  let ?rt = "ensure_route_config_loaded env rt"
  obtain r s1 where r: "(if rc_mode (rt_config ?rt) = route_mode_balanced
      then apply_balanced_account_round_robin (rt_config ?rt) key_id model (clk_instant clk) cs (rt_state ?rt)
      else (cs, rt_state ?rt)) = (r, s1)" by fastforce
  have mr: "mset r = mset cs"
    using r apply_balanced_account_mset [of "rt_config ?rt" key_id model "clk_instant clk" cs "rt_state ?rt"]
    by (auto split: if_splits)
  obtain out s2 q2 where o: "apply_health_p2c (rt_config ?rt) key_id model (rc_mode (rt_config ?rt)) clk r s1 q
      = (out, s2, q2)" by (metis prod_cases3)
  have "mset out = mset cs" using mset_apply_health_p2c [OF o] mr by simp
  then show ?thesis
    using Pair rotate_manual_mset [of preferred cs] r o
    by (cases b) (simp_all add: apply_route_strategy_with_source_def Let_def)
qed

text \<open>The three strategies as instances of the interface; the state is every other argument.\<close>

interpretation strategy: reordering
  "\<lambda>(env, preferred, key_id, model, clk, rt, q) cs.
     fst (snd (apply_route_strategy_with_source env preferred key_id model clk cs rt q))"
  by unfold_locales (auto simp: apply_route_strategy_mset split: prod.split)

interpretation round_robin: reordering
  "\<lambda>(env, key_id, model, now, rt) cs. fst (apply_balanced_round_robin env key_id model now cs rt)"
  by unfold_locales (auto simp: apply_balanced_mset split: prod.split)

section \<open>Cursor state through requests\<close>

text \<open>Where the next balanced selection for a key starts, in the current candidates.\<close>

definition cursor_for :: "string \<Rightarrow> route_runtime \<Rightarrow> account_round_robin_cursor option" where
  "cursor_for K rt = map_option rse_value (map_of (account_cursor_by_key_model (rt_state rt)) K)"

text \<open>
  The defaults of the source, in which no state is ever dropped: no time to live, no capacity;
  and no health-driven choice in balanced mode (window at most one, or switched off).
\<close>

definition strict_balanced :: "route_runtime \<Rightarrow> bool" where
  "strict_balanced rt \<longleftrightarrow>
     rt_loaded rt \<and> rc_mode (rt_config rt) = route_mode_balanced \<and>
     rc_ttl_secs (rt_config rt) = 0 \<and> rc_capacity (rt_config rt) = 0 \<and>
     (rc_p2c_enabled (rt_config rt) \<longrightarrow> rc_balanced_window (rt_config rt) \<le> 1)"

lemma maintain_off:
  assumes "rc_ttl_secs cfg = 0" and "rc_capacity cfg = 0"
  shows "account_cursor_by_key_model (maybe_maintain cfg now s) = account_cursor_by_key_model s"
  using assms by (simp add: maybe_maintain_def Let_def prune_expired_entries_def route_state_ttl_def
      enforce_capacity_noop split: prod.split)

lemma p2c_off:
  assumes "rc_p2c_enabled cfg \<longrightarrow> route_health_window cfg mode \<le> 1"
  shows "apply_health_p2c cfg key_id model mode clk cs s q = (cs, s, q)"
  using assms by (auto simp: apply_health_p2c_def Let_def)

lemma next_account_start_off:
  assumes "rc_ttl_secs cfg = 0" and "rc_capacity cfg = 0" and "cs \<noteq> []"
    and "j = cursor_start (map_option rse_value
        (map_of (account_cursor_by_key_model s) (key_model_key key_id model))) cs"
  shows "next_account_start_index cfg cs key_id model now s = (j,
      (maybe_maintain cfg now s)\<lparr>account_cursor_by_key_model :=
         AList.update (key_model_key key_id model)
           (route_state_entry_new
              \<lparr>last_selected_account_id = cand_id (cs ! j),
               next_account_id = cand_id (cs ! ((j + 1) mod length cs))\<rparr> now)
           (account_cursor_by_key_model s)\<rparr>)"
  using assms by (simp add: next_account_start_index_def Let_def maintain_off remove_entry_if_expired_def
      route_state_ttl_def enforce_capacity_noop)

text \<open>One balanced request: whom it selects, and what it does to the cursors.\<close>

lemma balanced_request:
  assumes "strict_balanced rt" and "cs \<noteq> []"
    and "apply_route_strategy_with_source env None key_id model clk cs rt q = (app, out, rt', q')"
    and "K = key_model_key key_id model"
    and "j = cursor_start (cursor_for K rt) cs"
  shows "out = rotate_left j cs" and "strict_balanced rt'" and "rt_config rt' = rt_config rt"
    and "cursor_for K' rt' = (if K' = K
           then Some \<lparr>last_selected_account_id = cand_id (cs ! j),
                      next_account_id = cand_id (cs ! ((j + 1) mod length cs))\<rparr>
           else cursor_for K' rt)"
proof -
  note cfg = assms(1)[unfolded strict_balanced_def]
  obtain s1 where n: "next_account_start_index (rt_config rt) cs key_id model (clk_instant clk)
      (rt_state rt) = (j, s1)"
    and s: "\<And>K'. map_option rse_value (map_of (account_cursor_by_key_model s1) K') = (if K' = K
           then Some \<lparr>last_selected_account_id = cand_id (cs ! j),
                      next_account_id = cand_id (cs ! ((j + 1) mod length cs))\<rparr>
           else cursor_for K' rt)"
    using next_account_start_off [of "rt_config rt" cs j "rt_state rt" key_id model "clk_instant clk"]
      cfg assms(2,4,5)
    by (simp add: cursor_for_def AList.update_conv' route_state_entry_new_def)
  have p2c: "apply_health_p2c (rt_config rt) key_id model route_mode_balanced clk r x y = (r, x, y)"
    for r x y using cfg by (intro p2c_off) (simp add: route_health_window_def)
  have "out = rotate_left j cs \<and> rt' = rt\<lparr>rt_state := s1\<rparr>"
  proof (cases "length cs \<le> 1")
    case True
    with assms(2) have one: "length cs = 1" by (cases cs) auto
    then have "j = 0" using cursor_start_lt [OF assms(2), of "cursor_for K rt"] assms(5) by simp
    then show ?thesis
      using assms(3) cfg one n by (auto simp: apply_route_strategy_with_source_def Let_def
          ensure_route_config_loaded_def rotate_to_manual_preferred_account_def)
  next
    case False
    then show ?thesis
      using assms(3) cfg n p2c by (auto simp: apply_route_strategy_with_source_def Let_def
          ensure_route_config_loaded_def rotate_to_manual_preferred_account_def
          apply_balanced_account_round_robin_def)
  qed
  then show "out = rotate_left j cs" "strict_balanced rt'" "rt_config rt' = rt_config rt"
    "cursor_for K' rt' = (if K' = K
           then Some \<lparr>last_selected_account_id = cand_id (cs ! j),
                      next_account_id = cand_id (cs ! ((j + 1) mod length cs))\<rparr>
           else cursor_for K' rt)"
    using s [of K'] cfg by (auto simp: cursor_for_def strict_balanced_def)
qed

text \<open>The accounts selected for one key, in a sequence of requests for any keys.\<close>

type_synonym route_request = "string \<times> string option \<times> clock \<times> candidate list"

fun selections :: "environment \<Rightarrow> string \<Rightarrow> route_request list \<Rightarrow> route_runtime \<Rightarrow> route_quality_state \<Rightarrow> string list" where
  "selections env K [] rt q = []"
| "selections env K ((key_id, model, clk, cs) # rs) rt q =
     (case apply_route_strategy_with_source env None key_id model clk cs rt q of
        (_, out, rt', q') \<Rightarrow>
          (if key_model_key key_id model = K then [cand_id (hd out)] else [])
            @ selections env K rs rt' q')"

definition requests_for :: "string \<Rightarrow> route_request list \<Rightarrow> route_request list" where
  "requests_for K rs = filter (\<lambda>(key_id, model, _, _). key_model_key key_id model = K) rs"

lemma cursor_start_successor:
  assumes "distinct (map cand_id cs)" and "j < length cs" and "last_selected_account_id c = cand_id (cs ! j)"
  shows "cursor_start (Some c) cs = (j + 1) mod length cs"
proof -
  have "position (\<lambda>x. cand_id x = cand_id (cs ! j)) cs = Some j"
    using assms(1,2) by (auto simp: position_Some distinct_conv_nth)
  then show ?thesis by (simp add: cursor_start_def assms(3))
qed

lemma selections_cyclic:
  assumes "strict_balanced rt" and "distinct (map cand_id cs)" and "cs \<noteq> []"
    and "\<forall>(key_id, model, clk, cs')\<in>set rs. cs' \<noteq> [] \<and> (key_model_key key_id model = K \<longrightarrow> cs' = cs)"
  shows "selections env K rs rt q =
    map (\<lambda>i. cand_id (cs ! ((cursor_start (cursor_for K rt) cs + i) mod length cs)))
      [0..<length (requests_for K rs)]"
  using assms
proof (induction rs arbitrary: rt q)
  case (Cons r rs)
  obtain key_id model clk cs' where r: "r = (key_id, model, clk, cs')" by (metis prod_cases4)
  obtain app out rt' q' where a: "apply_route_strategy_with_source env None key_id model clk cs' rt q
      = (app, out, rt', q')" by (metis prod_cases4)
  have ne: "cs' \<noteq> []" using Cons.prems(4) r by simp
  note br = balanced_request [OF Cons.prems(1) ne a refl refl]
  have IH: "selections env K rs rt' q' =
      map (\<lambda>i. cand_id (cs ! ((cursor_start (cursor_for K rt') cs + i) mod length cs)))
        [0..<length (requests_for K rs)]"
    using Cons.IH [of rt' q'] br(2) Cons.prems(2-4) by auto
  show ?case
  proof (cases "key_model_key key_id model = K")
    case True
    then have cs': "cs' = cs" using Cons.prems(4) r by auto
    let ?j = "cursor_start (cursor_for K rt) cs"
    have j: "?j < length cs" using Cons.prems(3) by (rule cursor_start_lt)
    have "cursor_for K rt' = Some \<lparr>last_selected_account_id = cand_id (cs ! ?j),
        next_account_id = cand_id (cs ! ((?j + 1) mod length cs))\<rparr>"
      using br(4) [of K] True cs' by simp
    then have "cursor_start (cursor_for K rt') cs = (?j + 1) mod length cs"
      using cursor_start_successor [OF Cons.prems(2) j] by simp
    then have tail: "(cursor_start (cursor_for K rt') cs + i) mod length cs = (?j + Suc i) mod length cs" for i
      by (simp add: mod_add_left_eq)
    have "hd out = cs ! (?j mod length cs)"
      using br(1) True cs' j by (simp add: hd_rotate_left)
    then show ?thesis
      using True IH tail by (simp add: r a requests_for_def upt_conv_Cons map_Suc_upt
          del: upt_Suc flip: map_Suc_upt)
  next
    case False
    then have "cursor_for K rt' = cursor_for K rt" using br(4) [of K] by simp
    with False IH show ?thesis by (simp add: r a requests_for_def)
  qed
qed (simp add: requests_for_def)

section \<open>Capacity\<close>

definition rr_wf :: "nat \<Rightarrow> route_round_robin_state \<Rightarrow> bool" where
  "rr_wf c s \<longleftrightarrow>
     entries_wf c (next_start_by_key_model s) \<and> entries_wf c (account_cursor_by_key_model s) \<and>
     entries_wf c (p2c_nonce_by_key_model s)"

lemma entries_wf_distinct: "entries_wf c m \<Longrightarrow> distinct (map fst m)"
  by (simp add: entries_wf_def)

lemma entries_wf_enforce_pair:
  assumes "enforce_capacity_pair c m n = (m', n')" and "distinct (map fst m)" and "entries_wf c n"
  shows "entries_wf c m' \<and> entries_wf c n'"
  using assms entries_wf_enforce [of m c] entries_wf_enforce_pair_snd [of c n c m]
  by (metis enforce_capacity_pair_fst fst_conv snd_conv)

lemma rr_wf_maintain: "rr_wf (rc_capacity cfg) s \<Longrightarrow> rr_wf (rc_capacity cfg) (maybe_maintain cfg now s)"
proof -
  let ?p = "\<lambda>m. prune_expired_entries now (route_state_ttl cfg) m"
  let ?c = "rc_capacity cfg"
  assume wf: "rr_wf ?c s"
  obtain a b where ab: "enforce_capacity_pair ?c (?p (next_start_by_key_model s))
      (?p (p2c_nonce_by_key_model s)) = (a, b)" by fastforce
  obtain n' a' where na: "enforce_capacity_pair ?c b a = (n', a')" by fastforce
  have pruned: "entries_wf ?c (?p (next_start_by_key_model s))"
    "entries_wf ?c (?p (account_cursor_by_key_model s))" "entries_wf ?c (?p (p2c_nonce_by_key_model s))"
    using wf by (simp_all add: rr_wf_def entries_wf_prune)
  have ab': "entries_wf ?c a" "entries_wf ?c b"
    using entries_wf_enforce_pair [OF ab entries_wf_distinct [OF pruned(1)] pruned(3)] by simp_all
  moreover have "entries_wf ?c n'" "entries_wf ?c a'"
    using entries_wf_enforce_pair [OF na entries_wf_distinct [OF ab'(2)] ab'(1)] by simp_all
  moreover have "entries_wf ?c (enforce_capacity ?c (?p (account_cursor_by_key_model s)))"
    using entries_wf_enforce entries_wf_distinct [OF pruned(2)] .
  ultimately show ?thesis
    using wf by (simp add: maybe_maintain_def Let_def ab na) (simp add: rr_wf_def)
qed

lemma distinct_touch:
  "entries_wf c m \<Longrightarrow> distinct (map fst (AList.update k e (remove_entry_if_expired k now ttl m)))"
  by (metis AList.distinct_update entries_wf_distinct entries_wf_remove_expired)

lemma rr_wf_next_start:
  "rr_wf (rc_capacity cfg) s \<Longrightarrow>
   rr_wf (rc_capacity cfg) (snd (next_start_index cfg key_id model n now s))"
  using rr_wf_maintain [of cfg s now]
  by (auto simp: next_start_index_def Let_def rr_wf_def distinct_touch split: prod.split
      dest!: entries_wf_enforce_pair)

lemma rr_wf_next_account:
  "rr_wf (rc_capacity cfg) s \<Longrightarrow>
   rr_wf (rc_capacity cfg) (snd (next_account_start_index cfg cs key_id model now s))"
  using rr_wf_maintain [of cfg s now]
  by (auto simp: next_account_start_index_def Let_def rr_wf_def distinct_touch entries_wf_enforce)

lemma rr_wf_p2c:
  "rr_wf (rc_capacity cfg) s \<Longrightarrow>
   rr_wf (rc_capacity cfg) (snd (p2c_challenger_index cfg key_id model n now s))"
  using rr_wf_maintain [of cfg s now]
  by (auto simp: p2c_challenger_index_def Let_def rr_wf_def distinct_touch split: prod.split
      dest!: entries_wf_enforce_pair)

lemma rr_wf_health_p2c:
  assumes "apply_health_p2c cfg key_id model mode clk cs s q = (out, s', q')"
    and "rr_wf (rc_capacity cfg) s"
  shows "rr_wf (rc_capacity cfg) s'"
  using assms rr_wf_p2c [OF assms(2), of key_id model "min (route_health_window cfg mode) (length cs)"
      "clk_instant clk"]
  by (auto simp: apply_health_p2c_def Let_def split: if_splits prod.splits option.splits)

lemma rr_wf_balanced:
  "rr_wf (rc_capacity cfg) s \<Longrightarrow>
   rr_wf (rc_capacity cfg) (snd (apply_balanced_account_round_robin cfg key_id model now cs s))"
  using rr_wf_next_account [of cfg s cs key_id model now]
  by (auto simp: apply_balanced_account_round_robin_def split: prod.split)

text \<open>The operations that touch the cursors.\<close>

datatype route_op =
    Strategy "string option" string "string option" clock "candidate list"
  | RoundRobin string "string option" nat "candidate list"
  | Preview string "string option" nat "candidate list"

fun apply_route_op ::
  "environment \<Rightarrow> route_op \<Rightarrow> route_runtime \<times> route_quality_state \<Rightarrow> route_runtime \<times> route_quality_state" where
  "apply_route_op env (Strategy preferred key_id model clk cs) (rt, q) =
     snd (snd (apply_route_strategy_with_source env preferred key_id model clk cs rt q))"
| "apply_route_op env (RoundRobin key_id model now cs) (rt, q) =
     (snd (apply_balanced_round_robin env key_id model now cs rt), q)"
| "apply_route_op env (Preview key_id model now cs) (rt, q) =
     (snd (preview_balanced_round_robin env key_id model now cs rt), q)"

definition route_runtime_wf :: "route_config \<Rightarrow> route_runtime \<Rightarrow> bool" where
  "route_runtime_wf cfg rt \<longleftrightarrow>
     rt_loaded rt \<and> rt_config rt = cfg \<and> rr_wf (rc_capacity cfg) (rt_state rt)"

lemma route_runtime_wf_op:
  assumes "route_runtime_wf cfg rt"
  shows "route_runtime_wf cfg (fst (apply_route_op env x (rt, q)))"
proof -
  note wf = assms[unfolded route_runtime_wf_def]
  show ?thesis
  proof (cases x)
    case (Strategy preferred key_id model clk cs)
    let ?b = "if rc_mode cfg = route_mode_balanced
      then apply_balanced_account_round_robin cfg key_id model (clk_instant clk) cs (rt_state rt)
      else (cs, rt_state rt)"
    have b: "rr_wf (rc_capacity cfg) (snd ?b)" using wf rr_wf_balanced by auto
    obtain out s2 q2 where o: "apply_health_p2c cfg key_id model (rc_mode cfg) clk (fst ?b) (snd ?b) q
        = (out, s2, q2)" by (metis prod_cases3)
    have s2: "rr_wf (rc_capacity cfg) s2" using rr_wf_health_p2c [OF o b] .
    show ?thesis
      using wf s2 o rr_wf_next_account [of cfg "rt_state rt" cs key_id model "clk_instant clk"] Strategy
      by (auto simp: apply_route_strategy_with_source_def ensure_route_config_loaded_def Let_def
          route_runtime_wf_def case_prod_beta split: bool.split)
  next
    case (RoundRobin key_id model now cs)
    then show ?thesis
      using wf rr_wf_next_start [of cfg "rt_state rt" key_id model "length cs" now]
      by (auto simp: apply_balanced_round_robin_def ensure_route_config_loaded_def Let_def
          route_runtime_wf_def split: prod.split)
  next
    case (Preview key_id model now cs)
    then show ?thesis using wf
      by (auto simp: preview_balanced_round_robin_def ensure_route_config_loaded_def Let_def
          route_runtime_wf_def)
  qed
qed

lemma route_runtime_wf_run:
  "route_runtime_wf cfg rt \<Longrightarrow> route_runtime_wf cfg (fst (fold (apply_route_op env) ops (rt, q)))"
proof (induction ops arbitrary: rt q)
  case (Cons x ops)
  then show ?case
    using route_runtime_wf_op [OF Cons.prems, of env x q]
    by (metis eq_fst_iff fold_simps(2))
qed simp

lemma selections_window:
  assumes "n = length xs" and "k + n \<le> m" and "xs \<noteq> []"
  shows "take n (drop k (map (\<lambda>i. f (xs ! ((j + i) mod length xs))) [0..<m])) = rotate (j + k) (map f xs)"
proof (rule nth_equalityI)
  show "length (take n (drop k (map (\<lambda>i. f (xs ! ((j + i) mod length xs))) [0..<m])))
      = length (rotate (j + k) (map f xs))" using assms by simp
  fix i assume "i < length (take n (drop k (map (\<lambda>i. f (xs ! ((j + i) mod length xs))) [0..<m])))"
  then have "i < n" using assms by simp
  then show "take n (drop k (map (\<lambda>i. f (xs ! ((j + i) mod length xs))) [0..<m])) ! i
      = rotate (j + k) (map f xs) ! i"
    using assms by (simp add: nth_rotate add.assoc)
qed

lemma parse_route_mode_range:
  "parse_route_mode raw = Some m \<Longrightarrow> m \<in> {route_mode_ordered, route_mode_balanced}"
  by (auto simp: parse_route_mode_def Let_def split: if_splits)

lemma loaded_mode:
  assumes "rc_mode (rt_config rt) \<in> {route_mode_ordered, route_mode_balanced}"
  shows "rc_mode (rt_config (ensure_route_config_loaded env rt)) \<in> {route_mode_ordered, route_mode_balanced}"
  using assms parse_route_mode_range
  by (auto simp: ensure_route_config_loaded_def route_reload_from_env_def Let_def apply_route_mode_def
      reload_route_tuning_from_env_def split: option.splits)

section \<open>Properties\<close>

text \<open>
  C24: balanced routing is fair. With the default tuning, take any sequence of requests of any
  keys, in which the requests of one key and model find the same candidates, whatever the
  other requests find and however they interleave. Then every run of as many consecutive
  selections for that key as there are candidates is a rotation of the candidate list: each
  account is selected exactly once, in order.
\<close>

theorem balanced_routing_fair:
  assumes "strict_balanced rt" and "distinct (map cand_id cs)" and "cs \<noteq> []"
    and "\<forall>(key_id, model, clk, cs')\<in>set rs. cs' \<noteq> [] \<and> (key_model_key key_id model = K \<longrightarrow> cs' = cs)"
    and "k + length cs \<le> length (requests_for K rs)"
  shows "take (length cs) (drop k (selections env K rs rt q))
    = rotate (cursor_start (cursor_for K rt) cs + k) (map cand_id cs)"
  unfolding selections_cyclic [OF assms(1-4)]
  by (rule selections_window) (use assms in auto)

definition balanced_runtime :: route_runtime where
  "balanced_runtime = route_runtime_init\<lparr>rt_loaded := True,
     rt_config := route_config_default\<lparr>rc_mode := route_mode_balanced\<rparr>\<rparr>"

theorem balanced_routing_fair_witness:
  "take 2 (drop 1 (selections (\<lambda>_. None) ''k|-''
      [(''k'', None, \<lparr>clk_ts = 1, clk_instant = 1\<rparr>, map candidate_named [''a'', ''b'']),
       (''z'', None, \<lparr>clk_ts = 2, clk_instant = 2\<rparr>, map candidate_named [''b'']),
       ('' k'', Some '' '', \<lparr>clk_ts = 3, clk_instant = 3\<rparr>, map candidate_named [''a'', ''b'']),
       (''k'', None, \<lparr>clk_ts = 4, clk_instant = 4\<rparr>, map candidate_named [''a'', ''b''])]
      balanced_runtime route_quality_default)) = [''b'', ''a'']"
  using balanced_routing_fair [of balanced_runtime "map candidate_named [''a'', ''b'']"
      "[(''k'', None, \<lparr>clk_ts = 1, clk_instant = 1\<rparr>, map candidate_named [''a'', ''b'']),
       (''z'', None, \<lparr>clk_ts = 2, clk_instant = 2\<rparr>, map candidate_named [''b'']),
       ('' k'', Some '' '', \<lparr>clk_ts = 3, clk_instant = 3\<rparr>, map candidate_named [''a'', ''b'']),
       (''k'', None, \<lparr>clk_ts = 4, clk_instant = 4\<rparr>, map candidate_named [''a'', ''b''])]" "''k|-''" 1
      "\<lambda>_. None" route_quality_default]
  by (simp add: strict_balanced_def balanced_runtime_def route_runtime_init_def route_config_default_def
      requests_for_def key_model_key_def trim_def trim_start_def trim_end_def ws1_def ws2_def ws3_def
      trimmed_nonempty_def cursor_for_def cursor_start_def route_round_robin_default_def
      numeral_2_eq_2 del: selections.simps)

lemma preferred_first:
  assumes "apply_route_strategy_with_source env preferred key_id model clk cs rt q = (app, out, rt', q')"
    and "preferred \<in> Some ` cand_id ` set cs"
  shows "Some (cand_id (hd out)) = preferred \<and> rt' = ensure_route_config_loaded env rt \<and> q' = q"
proof -
  from assms(2) obtain c where c: "c \<in> set cs" "preferred = Some (cand_id c)" by auto
  then obtain i where i: "position (\<lambda>x. cand_id x = cand_id c) cs = Some i"
    by (metis (mono_tags, lifting) not_None_eq position_None)
  then have "cand_id (cs ! i) = cand_id c" "i < length cs" by (auto simp: position_Some)
  then show ?thesis
    using assms(1) c i by (cases i) (auto simp: apply_route_strategy_with_source_def
        rotate_to_manual_preferred_account_def Let_def hd_rotate_left hd_conv_nth)
qed

lemma strategy_result_mset:
  assumes "apply_route_strategy_with_source env preferred key_id model clk cs rt q = (app, out, rt', q')"
  shows "mset out = mset cs"
  using strategy.reorder_mset [of "(env, preferred, key_id, model, clk, rt, q)" cs] assms by simp

text \<open>
  A strategy only reorders. Whatever the mode, the tuning and the state of the tables, no
  candidate is lost, added or duplicated; and when the manually preferred account is a
  candidate it comes first, and the request leaves cursors and health records as they are.
\<close>

lemma strategy_reorders:
  assumes "apply_route_strategy_with_source env preferred key_id model clk cs rt q = (app, out, rt', q')"
  shows "mset out = mset cs
    \<and> (preferred \<in> Some ` cand_id ` set cs \<longrightarrow>
         Some (cand_id (hd out)) = preferred \<and> rt' = ensure_route_config_loaded env rt \<and> q' = q)"
  using strategy_result_mset [OF assms] preferred_first [OF assms] by blast

text \<open>
  The power of two choices is safe. In ordered mode, without a preferred account, the
  first candidate after the strategy is at least as healthy as the one the ordering puts
  first, everything beyond the comparison window stays where it is, and with the choice
  switched off or a window of at most one the order is untouched.
\<close>

lemma health_choice_never_worse:
  assumes "apply_route_strategy_with_source env None key_id model clk cs rt q = (app, out, rt', q')"
    and "cfg = rt_config (ensure_route_config_loaded env rt)"
    and "rc_mode cfg \<noteq> route_mode_balanced" and "cs \<noteq> []"
  shows "health q (clk_ts clk) (cand_id (hd cs)) \<le> health q (clk_ts clk) (cand_id (hd out))
    \<and> drop (rc_ordered_window cfg) out = drop (rc_ordered_window cfg) cs
    \<and> (\<not> rc_p2c_enabled cfg \<or> rc_ordered_window cfg \<le> 1 \<longrightarrow> out = cs)"
proof (cases "length cs \<le> 1")
  case True
  then show ?thesis using assms(1) by (auto simp: apply_route_strategy_with_source_def Let_def
        rotate_to_manual_preferred_account_def)
next
  case False
  let ?rt = "ensure_route_config_loaded env rt"
  obtain s2 where p: "apply_health_p2c cfg key_id model (rc_mode cfg) clk cs (rt_state ?rt) q = (out, s2, q')"
    using assms(1,2,3) False by (auto simp: apply_route_strategy_with_source_def Let_def
        rotate_to_manual_preferred_account_def split: prod.splits)
  have w: "route_health_window cfg (rc_mode cfg) = rc_ordered_window cfg"
    using assms(3) by (simp add: route_health_window_def)
  have off: "out = cs" if "\<not> rc_p2c_enabled cfg \<or> rc_ordered_window cfg \<le> 1"
    using p p2c_off [of cfg "rc_mode cfg"] that w by auto
  show ?thesis
    using apply_health_p2c_cases [OF p] off assms(4) unfolding w
    by (auto simp: swap_idx_def hd_conv_nth drop_update_cancel)
qed

text \<open>
  The tables stay within their capacity. Once the configuration is loaded and the tables
  respect it, no sequence of strategy applications, rotations and previews, for any keys and
  at any times, makes a table of cursors, starts or nonces exceed a non-zero capacity or
  hold a key twice.
\<close>

lemma route_tables_bounded:
  assumes "rt_loaded rt" and "rr_wf (rc_capacity (rt_config rt)) (rt_state rt)"
    and "rt' = fst (fold (apply_route_op env) ops (rt, q))"
  shows "rt_config rt' = rt_config rt \<and> rr_wf (rc_capacity (rt_config rt)) (rt_state rt')"
  using route_runtime_wf_run [of "rt_config rt" rt env ops q] assms
  by (simp add: route_runtime_wf_def)

text \<open>
  Saving a strategy. A valid name, in any case and with blanks around it, becomes the
  current strategy and is reported by its canonical name; an invalid one is refused and
  changes nothing. Cursors survive saving the strategy that is already active, and a real
  switch drops every one of them.
\<close>

lemma set_route_strategy_spec:
  assumes "rc_mode (rt_config rt) \<in> {route_mode_ordered, route_mode_balanced}"
  shows "case set_route_strategy env strategy rt of
     (Inl e, rt') \<Rightarrow> parse_route_mode strategy = None \<and> rt' = ensure_route_config_loaded env rt
   | (Inr label, rt') \<Rightarrow>
       fst (current_route_strategy env rt') = label \<and> normalize_route_strategy strategy = Inr label \<and>
       rt_state rt' =
         (if label = fst (current_route_strategy env rt) then rt_state (ensure_route_config_loaded env rt)
          else (rt_state (ensure_route_config_loaded env rt))\<lparr>next_start_by_key_model := [],
                 account_cursor_by_key_model := [], p2c_nonce_by_key_model := [], maintenance_tick := 0\<rparr>)"
proof -
  let ?rt = "ensure_route_config_loaded env rt"
  have mode: "rc_mode (rt_config ?rt) \<in> {route_mode_ordered, route_mode_balanced}"
    using assms by (rule loaded_mode)
  have load: "ensure_route_config_loaded env rt' = rt'" if "rt_loaded rt'" for rt'
    using that by (simp add: ensure_route_config_loaded_def)
  have loaded: "rt_loaded (apply_route_mode m ?rt)" for m
    by (simp add: ensure_route_config_loaded_def apply_route_mode_def)
  show ?thesis
  proof (cases "parse_route_mode strategy")
    case None
    then show ?thesis by (simp add: set_route_strategy_def normalize_route_strategy_def)
  next
    case (Some m)
    then have "m \<in> {route_mode_ordered, route_mode_balanced}" by (rule parse_route_mode_range)
    then show ?thesis
      using Some mode load [OF loaded]
      by (auto simp: set_route_strategy_def normalize_route_strategy_def current_route_strategy_def
          Let_def route_mode_label_def route_mode_ordered_def route_mode_balanced_def apply_route_mode_def)
  qed
qed

end
