(* ===== verification/UsageLimits.thy ===== *)
theory UsageLimits
  imports Json
begin

text \<open>
  The rate-limit buckets inside a usage payload, \<open>core/src/usage/mod.rs\<close>: collecting the
  additional buckets in their historical shapes into one normal form, deciding whether a
  reserve bucket can still be used, and carrying buckets over when a newer response leaves
  them out. JSON text is parsed and printed by \<open>serde_json\<close>: \<open>from_str\<close> and \<open>to_string\<close> are
  arguments.
\<close>

section \<open>Identifiers\<close>

definition EXTRA_RATE_LIMITS_JSON_KEY :: string where
  "EXTRA_RATE_LIMITS_JSON_KEY = ''_codexmanager_extra_rate_limits''"

definition RESET_CREDITS_JSON_KEY :: string where
  "RESET_CREDITS_JSON_KEY = ''rate_limit_reset_credits''"

definition ADDITIONAL_RATE_LIMITS_KEYS :: "string list" where
  "ADDITIONAL_RATE_LIMITS_KEYS = [''additional_rate_limits'', ''additionalRateLimits'']"

fun object_value :: "json_object \<Rightarrow> string list \<Rightarrow> json option" where
  "object_value obj [] = None"
| "object_value obj (k # ks) = (case map_of obj k of Some v \<Rightarrow> Some v | None \<Rightarrow> object_value obj ks)"

definition object_string :: "json_object \<Rightarrow> string list \<Rightarrow> string option" where
  "object_string obj ks = Option.bind (object_value obj ks) as_str"

definition is_ascii_alphanumeric :: "char \<Rightarrow> bool" where
  "is_ascii_alphanumeric c \<longleftrightarrow>
     (let n = (of_char c :: nat) in (48 \<le> n \<and> n \<le> 57) \<or> (65 \<le> n \<and> n \<le> 90) \<or> (97 \<le> n \<and> n \<le> 122))"

definition normalized_identifier :: "string \<Rightarrow> string" where
  "normalized_identifier v = filter is_ascii_alphanumeric (to_ascii_lowercase (trim v))"

definition is_luna_reserve_identifier :: "string \<Rightarrow> bool" where
  "is_luna_reserve_identifier v \<longleftrightarrow> normalized_identifier v \<in> {''gptreserve'', ''lunareserve''}"

definition is_extra_rate_limit_key :: "string \<Rightarrow> bool" where
  "is_extra_rate_limit_key key \<longleftrightarrow>
     (let k = map (\<lambda>c. if c = CHR ''-'' then CHR ''_'' else c) (to_ascii_lowercase key) in
       ends_with k ''_rate_limit'' \<or> ends_with k ''ratelimit'' \<or>
       (contains k ''luna'' \<and> contains k ''reserve'') \<or> (contains k ''gpt'' \<and> contains k ''reserve''))"

definition is_stable_non_reserve_rate_limit_key :: "string \<Rightarrow> bool" where
  "is_stable_non_reserve_rate_limit_key key \<longleftrightarrow> normalized_identifier key = ''codereviewratelimit''"

section \<open>Normal form of a bucket\<close>

definition opt_insert :: "string \<Rightarrow> json option \<Rightarrow> json_object \<Rightarrow> json_object" where
  "opt_insert k o_v m = (case o_v of Some v \<Rightarrow> obj_insert k v m | None \<Rightarrow> m)"

definition opt_or :: "'a option \<Rightarrow> 'a option \<Rightarrow> 'a option" where
  "opt_or a b = (case a of Some x \<Rightarrow> Some x | None \<Rightarrow> b)"

definition rate_limit_object :: "json_object \<Rightarrow> json_object" where
  "rate_limit_object obj =
     (case Option.bind (opt_or (map_of obj ''rate_limit'') (map_of obj ''rateLimit'')) as_object of
        Some r \<Rightarrow> r | None \<Rightarrow> obj)"

text \<open>The normal form, with its optional fields in the order the source inserts them.\<close>

definition bucket_object ::
  "string option \<Rightarrow> json option \<Rightarrow> json option \<Rightarrow> json option \<Rightarrow> json option \<Rightarrow> json option \<Rightarrow>
   json option \<Rightarrow> json option \<Rightarrow> json_object" where
  "bucket_object source_key limit_name metered_feature limit_id allowed limit_reached primary secondary =
     (let n0 = opt_insert ''source_key'' (map_option JString (trimmed_nonempty source_key)) [];
          n1 = opt_insert ''limit_name'' limit_name n0;
          n2 = opt_insert ''metered_feature'' metered_feature n1;
          n3 = opt_insert ''limit_id'' limit_id n2;
          n4 = opt_insert ''allowed'' allowed n3;
          n5 = opt_insert ''limit_reached'' limit_reached n4;
          n6 = obj_insert ''primary_window'' (case primary of Some v \<Rightarrow> v | None \<Rightarrow> JNull) n5
      in obj_insert ''secondary_window'' (case secondary of Some v \<Rightarrow> v | None \<Rightarrow> JNull) n6)"

definition normalize_rate_limit_entry :: "string option \<Rightarrow> json \<Rightarrow> json option" where
  "normalize_rate_limit_entry source_key value =
     (case as_object value of
        None \<Rightarrow> None
      | Some obj \<Rightarrow>
          (let rate_limit = rate_limit_object obj;
               primary = object_value rate_limit [''primary_window'', ''primaryWindow''];
               secondary = object_value rate_limit [''secondary_window'', ''secondaryWindow''];
               either = (\<lambda>aliases. opt_or (object_value obj aliases) (object_value rate_limit aliases));
               limit_id =
                 opt_or (object_value obj [''limit_id'', ''limitId''])
                  (opt_or (object_value obj [''metered_feature'', ''meteredFeature''])
                   (opt_or (object_value rate_limit [''limit_id'', ''limitId''])
                     (object_value rate_limit [''metered_feature'', ''meteredFeature''])))
           in if primary = None \<and> secondary = None then None
              else Some (JObject (bucket_object source_key (either [''limit_name'', ''limitName''])
                     (either [''metered_feature'', ''meteredFeature'']) limit_id (either [''allowed''])
                     (either [''limit_reached'', ''limitReached'']) primary secondary))))"

section \<open>Collecting buckets\<close>

definition filter_some :: "'a option list \<Rightarrow> 'a list" where
  "filter_some xs = List.map_filter id xs"

definition keyed_bucket :: "string \<times> json \<Rightarrow> json option" where
  "keyed_bucket kv =
     (let (key, nested) = kv in
      if key = ''rate_limit'' \<or> key = ''rateLimit'' \<or> key = EXTRA_RATE_LIMITS_JSON_KEY
         \<or> key \<in> set ADDITIONAL_RATE_LIMITS_KEYS \<or> \<not> is_extra_rate_limit_key key
      then None
      else normalize_rate_limit_entry (Some key) nested)"

definition indexed_key :: "string \<Rightarrow> nat \<Rightarrow> string" where
  "indexed_key base index = base @ ''['' @ show_nat index @ '']''"

definition additional_item_key :: "nat \<Rightarrow> json \<Rightarrow> string" where
  "additional_item_key index item =
     (let name = (case as_object item of
            None \<Rightarrow> None
          | Some m \<Rightarrow>
              opt_or (object_string m [''limit_id'', ''limitId''])
               (opt_or (object_string m [''metered_feature'', ''meteredFeature''])
                 (object_string m [''limit_name'', ''limitName''])))
      in case trimmed_nonempty name of
           Some s \<Rightarrow> s
         | None \<Rightarrow> indexed_key ''additional_rate_limits'' index)"

definition extra_item_key :: "nat \<Rightarrow> json \<Rightarrow> string" where
  "extra_item_key index item =
     (let name = (case as_object item of
            None \<Rightarrow> None | Some m \<Rightarrow> object_string m [''source_key'', ''sourceKey''])
      in case trimmed_nonempty name of
           Some s \<Rightarrow> s
         | None \<Rightarrow> indexed_key EXTRA_RATE_LIMITS_JSON_KEY index)"

definition enumerated_buckets :: "(nat \<Rightarrow> json \<Rightarrow> string) \<Rightarrow> json list \<Rightarrow> json list" where
  "enumerated_buckets key items =
     filter_some (map (\<lambda>(i, item). normalize_rate_limit_entry (Some (key i item)) item)
       (List.enumerate 0 items))"

definition additional_buckets :: "json_object \<Rightarrow> json list" where
  "additional_buckets robj =
     (case object_value robj ADDITIONAL_RATE_LIMITS_KEYS of
        Some (JArray items) \<Rightarrow> enumerated_buckets additional_item_key items
      | Some (JObject items) \<Rightarrow>
          filter_some (map (\<lambda>(key, item). normalize_rate_limit_entry (Some key) item) items)
      | _ \<Rightarrow> [])"

definition extra_buckets :: "json_object \<Rightarrow> json list" where
  "extra_buckets robj =
     (case map_of robj EXTRA_RATE_LIMITS_JSON_KEY of
        Some (JArray items) \<Rightarrow> enumerated_buckets extra_item_key items
      | _ \<Rightarrow> [])"

function collect_extra_rate_limits :: "json \<Rightarrow> json list" where
  "collect_extra_rate_limits value =
     (case value of
        JObject robj \<Rightarrow>
          filter_some (map keyed_bucket robj) @ additional_buckets robj @ extra_buckets robj
            @ (case map_of robj ''credits'' of
                 Some credits \<Rightarrow> collect_extra_rate_limits credits
               | None \<Rightarrow> [])
      | _ \<Rightarrow> [])"
  by auto
termination by (relation "measure size") (auto dest: size_map_of)

declare collect_extra_rate_limits.simps [simp del]

function usage_payload_declares_extra_rate_limits :: "json \<Rightarrow> bool" where
  "usage_payload_declares_extra_rate_limits value =
     (case value of
        JObject robj \<Rightarrow>
          (case map_of robj EXTRA_RATE_LIMITS_JSON_KEY of Some v \<Rightarrow> \<not> is_null v | None \<Rightarrow> False) \<or>
          (\<exists>key\<in>set ADDITIONAL_RATE_LIMITS_KEYS.
             case map_of robj key of Some v \<Rightarrow> \<not> is_null v | None \<Rightarrow> False) \<or>
          (\<exists>(key, v)\<in>set robj.
             key \<noteq> ''rate_limit'' \<and> key \<noteq> ''rateLimit'' \<and> \<not> is_null v \<and>
             is_extra_rate_limit_key key \<and> \<not> is_stable_non_reserve_rate_limit_key key) \<or>
          (case map_of robj ''credits'' of
             Some credits \<Rightarrow> usage_payload_declares_extra_rate_limits credits
           | None \<Rightarrow> False)
      | _ \<Rightarrow> False)"
  by auto
termination by (relation "measure size") (auto dest: size_map_of)

declare usage_payload_declares_extra_rate_limits.simps [simp del]

section \<open>Usable reserve\<close>

definition bucket_identifier_keys :: "string list" where
  "bucket_identifier_keys = [''source_key'', ''limit_id'', ''limit_name'', ''metered_feature'']"

definition rate_limit_entry_identifier :: "json \<Rightarrow> string list" where
  "rate_limit_entry_identifier entry =
     filter_some (map (\<lambda>k. Option.bind (json_get entry k) as_str) bucket_identifier_keys)"

definition rate_limit_reset_at_seconds :: "json \<Rightarrow> int option" where
  "rate_limit_reset_at_seconds value =
     (case opt_or (as_i64 value) (Option.bind (as_str value) (\<lambda>s. parse_i64 (trim s))) of
        None \<Rightarrow> None
      | Some timestamp \<Rightarrow>
          Some (if 1000000000000 < timestamp then timestamp div 1000 else timestamp))"

definition rate_limit_window_is_usable_at :: "json option \<Rightarrow> int \<Rightarrow> bool" where
  "rate_limit_window_is_usable_at window now =
     (case Option.bind window as_object of
        None \<Rightarrow> False
      | Some w \<Rightarrow>
          (case object_value w [''reset_at'', ''resetAt''] of
             Some reset_at \<Rightarrow>
               (case rate_limit_reset_at_seconds reset_at of Some r \<Rightarrow> now < r | None \<Rightarrow> False)
           | None \<Rightarrow> True) \<and>
          (case Option.bind (object_value w [''remaining_percent'', ''remainingPercent'']) as_f64 of
             Some remaining \<Rightarrow> f64_lt (Fin 0) remaining
           | None \<Rightarrow>
               (case Option.bind (object_value w [''used_percent'', ''usedPercent'']) as_f64 of
                  Some used \<Rightarrow> f64_lt used (Fin 100)
                | None \<Rightarrow> False)))"

definition rate_limit_entry_is_usable_at :: "json \<Rightarrow> int \<Rightarrow> bool" where
  "rate_limit_entry_is_usable_at entry now =
     (case as_object entry of
        None \<Rightarrow> False
      | Some obj \<Rightarrow>
          Option.bind (object_value obj [''allowed'']) as_bool \<noteq> Some False \<and>
          Option.bind (object_value obj [''limit_reached'']) as_bool \<noteq> Some True \<and>
          (rate_limit_window_is_usable_at (map_of obj ''primary_window'') now \<or>
           rate_limit_window_is_usable_at (map_of obj ''secondary_window'') now))"

definition has_usable_luna_reserve_at :: "(string \<Rightarrow> json option) \<Rightarrow> string option \<Rightarrow> int \<Rightarrow> bool" where
  "has_usable_luna_reserve_at from_str credits_json now =
     (case Option.bind (trimmed_nonempty credits_json) from_str of
        None \<Rightarrow> False
      | Some value \<Rightarrow>
          list_ex (\<lambda>entry. list_ex is_luna_reserve_identifier (rate_limit_entry_identifier entry)
                         \<and> rate_limit_entry_is_usable_at entry now)
            (collect_extra_rate_limits value))"

section \<open>Carrying buckets over\<close>

definition extra_rate_limit_identifiers :: "json \<Rightarrow> string list" where
  "extra_rate_limit_identifiers entry =
     (case as_object entry of
        None \<Rightarrow> []
      | Some m \<Rightarrow>
          filter (\<lambda>v. v \<noteq> [])
            (map normalized_identifier
               (filter_some (map (\<lambda>k. Option.bind (map_of m k) as_str) bucket_identifier_keys))))"

definition extra_rate_limit_entries_overlap :: "json \<Rightarrow> json \<Rightarrow> bool" where
  "extra_rate_limit_entries_overlap left right \<longleftrightarrow>
     (let right_identifiers = extra_rate_limit_identifiers right in
       right_identifiers \<noteq> [] \<and>
       list_ex (\<lambda>i. i \<in> set right_identifiers) (extra_rate_limit_identifiers left))"

text \<open>Push an entry unless one of the present entries overlaps it.\<close>

definition push_missing :: "json \<Rightarrow> json list \<Rightarrow> json list" where
  "push_missing entry entries =
     (if list_ex (\<lambda>existing. extra_rate_limit_entries_overlap existing entry) entries
      then entries else entries @ [entry])"

definition merge_missing_extra_rate_limits ::
  "(string \<Rightarrow> json option) \<Rightarrow> (json \<Rightarrow> string) \<Rightarrow> string option \<Rightarrow> string option \<Rightarrow> string option" where
  "merge_missing_extra_rate_limits from_str to_str current_credits_json previous_credits_json =
     (let current_raw = trimmed_nonempty current_credits_json;
          previous = Option.bind (trimmed_nonempty previous_credits_json) from_str;
          entries = (case previous of
                       None \<Rightarrow> []
                     | Some value \<Rightarrow> fold push_missing (collect_extra_rate_limits value) [])
      in if entries = [] then current_raw
         else
           let merge = (\<lambda>current.
                 case map_of current EXTRA_RATE_LIMITS_JSON_KEY of
                   Some (JArray current_entries) \<Rightarrow>
                     Some (to_str (JObject (obj_insert EXTRA_RATE_LIMITS_JSON_KEY
                       (JArray (fold push_missing entries current_entries)) current)))
                 | Some _ \<Rightarrow> Some (to_str (JObject current))
                 | None \<Rightarrow>
                     Some (to_str (JObject (obj_insert EXTRA_RATE_LIMITS_JSON_KEY
                       (JArray entries) current))))
           in case current_raw of
                Some raw \<Rightarrow>
                  (case from_str raw of
                     Some (JObject obj) \<Rightarrow> merge obj
                   | Some value \<Rightarrow> merge (obj_insert ''credits'' value [])
                   | None \<Rightarrow> Some raw)
              | None \<Rightarrow> merge [])"

definition serialize_credits_payload ::
  "(json \<Rightarrow> string) \<Rightarrow> json option \<Rightarrow> json list \<Rightarrow> json option \<Rightarrow> string option" where
  "serialize_credits_payload to_str credits extra_rate_limits reset_credits =
     (if extra_rate_limits = [] \<and> (case reset_credits of None \<Rightarrow> True | Some v \<Rightarrow> is_null v)
      then (case credits of None \<Rightarrow> None | Some v \<Rightarrow> if is_null v then None else Some (to_str v))
      else
        let payload =
              (case credits of
                 Some (JObject obj) \<Rightarrow> obj
               | Some v \<Rightarrow> if is_null v then [] else obj_insert ''credits'' v []
               | None \<Rightarrow> []);
            payload1 = obj_insert EXTRA_RATE_LIMITS_JSON_KEY (JArray extra_rate_limits) payload
        in Some (to_str (JObject
             (case reset_credits of
                Some v \<Rightarrow> if is_null v then payload1 else obj_insert RESET_CREDITS_JSON_KEY v payload1
              | None \<Rightarrow> payload1))))"

definition is_luna_catalog_model :: "string option \<Rightarrow> bool" where
  "is_luna_catalog_model model =
     (case trimmed_nonempty model of
        None \<Rightarrow> False
      | Some m \<Rightarrow> eq_ignore_ascii_case m ''gpt-6-luna'' \<or> eq_ignore_ascii_case m ''gpt-5.6-luna'')"

definition is_luna_reserve_model :: "string option \<Rightarrow> bool" where
  "is_luna_reserve_model model =
     (case trimmed_nonempty model of
        None \<Rightarrow> False
      | Some m \<Rightarrow> eq_ignore_ascii_case m ''gpt-reserve'')"

section \<open>Lemmas\<close>

lemma fold_push_missing_prefix: "\<exists>zs. fold push_missing ys xs = xs @ zs \<and> set zs \<subseteq> set ys"
proof (induction ys arbitrary: xs)
  case (Cons y ys)
  have "push_missing y xs = xs @ [] \<or> push_missing y xs = xs @ [y]"
    by (simp add: push_missing_def)
  then obtain ws where ws: "push_missing y xs = xs @ ws" "set ws \<subseteq> {y}"
    by force
  obtain zs where "fold push_missing ys (push_missing y xs) = push_missing y xs @ zs" "set zs \<subseteq> set ys"
    using Cons.IH by blast
  with ws show ?case by (intro exI [of _ "ws @ zs"]) auto
qed simp

text \<open>After pushing, every entry is there or overlapped by one that is.\<close>

definition covered :: "json list \<Rightarrow> json \<Rightarrow> bool" where
  "covered xs y \<longleftrightarrow> y \<in> set xs \<or> (\<exists>x\<in>set xs. extra_rate_limit_entries_overlap x y)"

lemma covered_mono: "set xs \<subseteq> set ys \<Longrightarrow> covered xs y \<Longrightarrow> covered ys y"
  by (auto simp: covered_def)

lemma covered_push: "covered (push_missing y xs) y"
  by (auto simp: covered_def push_missing_def list_ex_iff)

lemma covered_fold_push: "y \<in> set ys \<Longrightarrow> covered (fold push_missing ys xs) y"
proof (induction ys arbitrary: xs)
  case (Cons z ys)
  show ?case
  proof (cases "y = z")
    case True
    have "set (push_missing z xs) \<subseteq> set (fold push_missing ys (push_missing z xs))"
      using fold_push_missing_prefix [of ys "push_missing z xs"] by auto
    with covered_push [of z xs] True show ?thesis
      by (metis covered_mono fold_simps(2))
  next
    case False
    then show ?thesis using Cons by simp
  qed
qed simp

lemma opt_or_simps [simp]: "opt_or (Some x) b = Some x" "opt_or None b = b"
  by (simp_all add: opt_or_def)

lemma opt_or_None [simp]: "opt_or a None = a"
  by (cases a) simp_all

lemma opt_or_same [simp]: "opt_or a a = a"
  by (cases a) simp_all

lemma object_value_one: "object_value m [k] = map_of m k"
  by (simp split: option.split)

lemma object_value_two: "object_value m [k, k'] = opt_or (map_of m k) (map_of m k')"
  by (simp add: opt_or_def split: option.split)

lemma opt_insert_wf [simp]: "obj_wf m \<Longrightarrow> obj_wf (opt_insert k v m)"
  by (simp add: opt_insert_def split: option.split)

lemma map_of_opt_insert:
  "obj_wf m \<Longrightarrow> map_of (opt_insert k v m) x = (if x = k then opt_or v (map_of m k) else map_of m x)"
  by (simp add: opt_insert_def map_of_obj_insert split: option.split)

subsection \<open>The normal form is a fixed point\<close>

lemma bucket_object_wf: "obj_wf (bucket_object sk nm mf li al lr p s)"
  by (simp add: bucket_object_def Let_def)

lemma map_of_bucket_object:
  "map_of (bucket_object sk nm mf li al lr p s) x =
     (if x = ''secondary_window'' then Some (case s of Some v \<Rightarrow> v | None \<Rightarrow> JNull)
      else if x = ''primary_window'' then Some (case p of Some v \<Rightarrow> v | None \<Rightarrow> JNull)
      else if x = ''limit_reached'' then lr
      else if x = ''allowed'' then al
      else if x = ''limit_id'' then li
      else if x = ''metered_feature'' then mf
      else if x = ''limit_name'' then nm
      else if x = ''source_key'' then map_option JString (trimmed_nonempty sk)
      else None)"
  by (simp add: bucket_object_def Let_def map_of_obj_insert map_of_opt_insert)

lemma normalize_of_bucket_object:
  assumes "li = None \<Longrightarrow> mf = None" and "trimmed_nonempty sk' = trimmed_nonempty sk"
  shows "normalize_rate_limit_entry sk' (JObject (bucket_object sk nm mf li al lr p s))
    = Some (JObject (bucket_object sk nm mf li al lr p s))"
proof -
  let ?b = "bucket_object sk nm mf li al lr p s"
  have rl: "rate_limit_object ?b = ?b"
    by (simp add: rate_limit_object_def map_of_bucket_object)
  have li: "opt_or li (opt_or mf (opt_or li mf)) = li"
    using assms(1) by (cases li) simp_all
  have "bucket_object sk' nm mf li al lr (Some (case p of Some v \<Rightarrow> v | None \<Rightarrow> JNull))
      (Some (case s of Some v \<Rightarrow> v | None \<Rightarrow> JNull)) = ?b"
    by (rule obj_eqI) (simp_all add: bucket_object_wf map_of_bucket_object assms(2))
  then show ?thesis
    by (simp add: normalize_rate_limit_entry_def as_object_def rl Let_def object_value_one
        object_value_two map_of_bucket_object li del: object_value.simps)
qed

lemma normalizeE:
  assumes "normalize_rate_limit_entry sk v = Some n"
  obtains nm mf li al lr p s where "n = JObject (bucket_object sk nm mf li al lr p s)"
    and "li = None \<Longrightarrow> mf = None"
proof -
  obtain obj where v: "as_object v = Some obj"
    using assms by (auto simp: normalize_rate_limit_entry_def split: option.splits)
  let ?rl = "rate_limit_object obj"
  let ?f = "\<lambda>m. object_value m [''metered_feature'', ''meteredFeature'']"
  let ?i = "\<lambda>m. object_value m [''limit_id'', ''limitId'']"
  have "opt_or (?i obj) (opt_or (?f obj) (opt_or (?i ?rl) (?f ?rl))) = None \<Longrightarrow>
      opt_or (?f obj) (?f ?rl) = None"
    by (auto simp: opt_or_def split: option.splits)
  with that v assms show thesis
    by (auto simp: normalize_rate_limit_entry_def Let_def split: if_splits)
qed

lemma extra_item_key_bucket:
  assumes "trimmed_nonempty sk = Some t"
  shows "extra_item_key i (JObject (bucket_object sk nm mf li al lr p s)) = t"
proof -
  have "trimmed_nonempty (Some t) = Some t"
    using assms by (auto simp: trimmed_nonempty_def split: option.splits if_splits)
  then show ?thesis
    using assms by (simp add: extra_item_key_def as_object_def object_string_def map_of_bucket_object as_str_def)
qed

lemma filter_some_map_Some: "\<forall>x\<in>set xs. f x = Some (g x) \<Longrightarrow> filter_some (map f xs) = map g xs"
  by (induction xs) (auto simp: filter_some_def map_filter_simps)

lemma fold_push_missing_ne: "xs \<noteq> [] \<or> ys \<noteq> [] \<Longrightarrow> fold push_missing ys xs \<noteq> []"
proof (induction ys arbitrary: xs)
  case (Cons y ys)
  have "push_missing y xs \<noteq> []" by (cases xs) (auto simp: push_missing_def)
  then show ?case using Cons.IH by simp
qed simp

lemma stored_buckets:
  assumes "map_of m EXTRA_RATE_LIMITS_JSON_KEY = Some (JArray ns)"
    and "\<forall>n\<in>set ns. \<exists>sk v t. normalize_rate_limit_entry sk v = Some n \<and> trimmed_nonempty sk = Some t
        \<and> json_get n ''source_key'' = Some (JString t)"
  shows "extra_buckets m = ns"
proof -
  have "normalize_rate_limit_entry (Some (extra_item_key i n)) n = Some n" if mem: "n \<in> set ns" for i n
  proof -
    obtain sk v t where n: "normalize_rate_limit_entry sk v = Some n" "trimmed_nonempty sk = Some t"
      "json_get n ''source_key'' = Some (JString t)"
      using assms(2) mem by blast
    from n(1) obtain sk' nm mf li al lr p s where b: "n = JObject (bucket_object sk' nm mf li al lr p s)"
      "li = None \<Longrightarrow> mf = None" by (rule normalizeE) blast
    have sk': "trimmed_nonempty sk' = Some t"
      using n(3) b(1) by (simp add: json_get_def as_object_def map_of_bucket_object)
    have "trimmed_nonempty (Some (extra_item_key i n)) = trimmed_nonempty sk'"
      using sk' extra_item_key_bucket [OF sk', of i] b(1)
      by (auto simp: trimmed_nonempty_def split: option.splits if_splits)
    then show ?thesis using normalize_of_bucket_object b by simp
  qed
  then have "enumerated_buckets extra_item_key ns = map snd (List.enumerate 0 ns)"
    unfolding enumerated_buckets_def
    by (intro filter_some_map_Some) (auto simp: in_set_enumerate_eq)
  then show ?thesis using assms(1) by (simp add: extra_buckets_def)
qed

definition example_bucket :: json where
  "example_bucket = JObject (bucket_object (Some ''luna_reserve'') None None None None None
     (Some (JObject [(''used_percent'', JInt 40)])) None)"

lemma example_bucket_normal:
  "normalize_rate_limit_entry (Some ''luna_reserve'')
     (JObject [(''primary_window'', JObject [(''used_percent'', JInt 40)])]) = Some example_bucket"
  by (simp add: normalize_rate_limit_entry_def as_object_def rate_limit_object_def Let_def
      example_bucket_def bucket_object_def)

lemma example_bucket_source:
  "\<exists>sk v t. normalize_rate_limit_entry sk v = Some example_bucket \<and>
      trimmed_nonempty sk = Some t \<and> json_get example_bucket ''source_key'' = Some (JString t)"
proof -
  have t: "trimmed_nonempty (Some ''luna_reserve'') = Some ''luna_reserve''" by code_simp
  then have "json_get example_bucket ''source_key'' = Some (JString ''luna_reserve'')"
    by (simp add: example_bucket_def json_get_def as_object_def map_of_bucket_object)
  with t example_bucket_normal show ?thesis by blast
qed

lemma example_bucket_stored:
  "extra_buckets [(EXTRA_RATE_LIMITS_JSON_KEY, JArray [example_bucket])] = [example_bucket]"
proof (rule stored_buckets)
  show "\<forall>n\<in>set [example_bucket]. \<exists>sk v t. normalize_rate_limit_entry sk v = Some n \<and>
      trimmed_nonempty sk = Some t \<and> json_get n ''source_key'' = Some (JString t)"
    using example_bucket_source by (metis empty_iff list.set(1) set_ConsD)
qed simp

section \<open>Properties\<close>

text \<open>
  C37: stored buckets are a fixed point. Buckets that were normalised under a non-blank source
  key, in whatever historical shape they arrived, and stored in the payload's own list, are
  collected back unchanged and in the same order: re-reading a snapshot neither drops, merges
  nor rewrites a bucket, however often it is repeated.
\<close>

theorem stored_buckets_fixpoint:
  assumes "map_of m EXTRA_RATE_LIMITS_JSON_KEY = Some (JArray ns)"
    and "\<forall>n\<in>set ns. \<exists>sk v t. normalize_rate_limit_entry sk v = Some n \<and> trimmed_nonempty sk = Some t
        \<and> json_get n ''source_key'' = Some (JString t)"
  shows "extra_buckets m = ns"
  using assms by (rule stored_buckets)

theorem stored_buckets_fixpoint_witness:
  "extra_buckets [(EXTRA_RATE_LIMITS_JSON_KEY, JArray [example_bucket])] = [example_bucket]"
proof (rule stored_buckets_fixpoint)
  show "\<forall>n\<in>set [example_bucket]. \<exists>sk v t. normalize_rate_limit_entry sk v = Some n \<and>
      trimmed_nonempty sk = Some t \<and> json_get n ''source_key'' = Some (JString t)"
    using example_bucket_source by (metis empty_iff list.set(1) set_ConsD)
qed simp

text \<open>
  Carrying buckets over loses nothing. When the previous payload has buckets and the current
  one is an object whose own list is absent or an array, the merged payload keeps every other
  field and every entry of the current list, in order; each previous bucket is in the
  deduplicated previous list or overlaps one there, and each of those is in the merged list or
  overlaps an entry of it. In particular an explicitly empty current list does not stay empty.
\<close>

lemma merge_keeps_buckets:
  assumes "trimmed_nonempty previous = Some pr" and "from_str pr = Some pv"
    and "collect_extra_rate_limits pv \<noteq> []"
    and "trimmed_nonempty current = Some cr" and "from_str cr = Some (JObject obj)" and "obj_wf obj"
    and "map_of obj EXTRA_RATE_LIMITS_JSON_KEY = (if given then Some (JArray xs) else None)"
  shows "\<exists>m bs. merge_missing_extra_rate_limits from_str to_str current previous = Some (to_str (JObject m))
    \<and> map_of m EXTRA_RATE_LIMITS_JSON_KEY = Some (JArray bs) \<and> bs \<noteq> []
    \<and> (\<forall>k. k \<noteq> EXTRA_RATE_LIMITS_JSON_KEY \<longrightarrow> map_of m k = map_of obj k)
    \<and> (given \<longrightarrow> take (length xs) bs = xs)
    \<and> (\<exists>ds. (\<forall>b\<in>set (collect_extra_rate_limits pv). covered ds b) \<and> (\<forall>d\<in>set ds. covered bs d)
         \<and> (\<not> given \<longrightarrow> bs = ds))"
proof -
  let ?ds = "fold push_missing (collect_extra_rate_limits pv) []"
  let ?bs = "if given then fold push_missing ?ds xs else ?ds"
  let ?m = "obj_insert EXTRA_RATE_LIMITS_JSON_KEY (JArray ?bs) obj"
  have ne: "?ds \<noteq> []" using fold_push_missing_ne assms(3) by blast
  have "merge_missing_extra_rate_limits from_str to_str current previous = Some (to_str (JObject ?m))"
    using assms ne by (simp add: merge_missing_extra_rate_limits_def Let_def)
  moreover have "map_of ?m EXTRA_RATE_LIMITS_JSON_KEY = Some (JArray ?bs)"
    "\<forall>k. k \<noteq> EXTRA_RATE_LIMITS_JSON_KEY \<longrightarrow> map_of ?m k = map_of obj k"
    using assms(6) by (simp_all add: map_of_obj_insert)
  moreover have "given \<longrightarrow> take (length xs) ?bs = xs"
    using fold_push_missing_prefix [of ?ds xs] by auto
  moreover have "\<forall>b\<in>set (collect_extra_rate_limits pv). covered ?ds b" "\<forall>d\<in>set ?ds. covered ?bs d"
    using covered_fold_push by (auto simp: covered_def)
  moreover have "?bs \<noteq> []" using ne fold_push_missing_ne [of xs ?ds] by auto
  ultimately show ?thesis by (intro exI [of _ ?m] exI [of _ ?bs]) auto
qed

end
