(* ===== verification/AccountMeta.thy ===== *)
theory AccountMeta
  imports StorageData
begin

text \<open>
  The identity an account presents upstream: normalisation of scoped identifiers
  (\<open>core/src/auth/mod.rs\<close>) and the patch of an account's stored identity from the claims of
  its token (\<open>service/src/usage/usage_account_meta.rs\<close>). Reading the claims of a token is not
  modelled; the two claimed identifiers are arguments.
\<close>

section \<open>Scoped identifiers\<close>

text \<open>The part after the last double colon (\<open>rsplit_once\<close>), if there is one.\<close>

fun after_last_scope :: "string \<Rightarrow> string option" where
  "after_last_scope [] = None"
| "after_last_scope (c # s) =
     (case after_last_scope s of
        Some t \<Rightarrow> Some t
      | None \<Rightarrow> if starts_with (c # s) ''::'' then Some (drop 2 (c # s)) else None)"

fun split_on :: "char \<Rightarrow> string \<Rightarrow> string list" where
  "split_on d [] = [[]]"
| "split_on d (c # s) =
     (if c = d then [] # split_on d s
      else case split_on d s of seg # segs \<Rightarrow> (c # seg) # segs | [] \<Rightarrow> [[c]])"

definition strip_prefix :: "string \<Rightarrow> string \<Rightarrow> string option" where
  "strip_prefix p s = (if starts_with s p then Some (drop (length p) s) else None)"

fun find_map :: "('a \<Rightarrow> 'b option) \<Rightarrow> 'a list \<Rightarrow> 'b option" where
  "find_map f [] = None"
| "find_map f (x # xs) = (case f x of Some y \<Rightarrow> Some y | None \<Rightarrow> find_map f xs)"

definition normalize_scoped_identity_value :: "string option \<Rightarrow> string \<Rightarrow> string option" where
  "normalize_scoped_identity_value value marker =
     (case trimmed_nonempty value of
        None \<Rightarrow> None
      | Some raw \<Rightarrow>
          (let scoped = (case after_last_scope raw of Some s \<Rightarrow> s | None \<Rightarrow> raw) in
           case find_map (\<lambda>segment. trimmed_nonempty (strip_prefix marker (trim segment)))
                  (split_on CHR ''|'' scoped) of
             Some found \<Rightarrow> Some found
           | None \<Rightarrow>
               if contains raw ''::'' \<or> contains raw ''|'' \<or> contains raw ''=''
                  \<or> starts_with raw ''import-sub-''
               then None else Some raw))"

definition normalize_chatgpt_account_id :: "string option \<Rightarrow> string option" where
  "normalize_chatgpt_account_id value = normalize_scoped_identity_value value ''cgpt=''"

definition normalize_workspace_id :: "string option \<Rightarrow> string option" where
  "normalize_workspace_id value = normalize_scoped_identity_value value ''ws=''"

section \<open>Headers and patches\<close>

definition clean_header_value :: "string option \<Rightarrow> string option" where
  "clean_header_value value =
     (case value of
        Some v \<Rightarrow> (let trimmed = trim v in if trimmed = [] then None else Some trimmed)
      | None \<Rightarrow> None)"

definition resolve_workspace_header :: "string option \<Rightarrow> string option \<Rightarrow> string option" where
  "resolve_workspace_header workspace_id chatgpt_account_id =
     (case normalize_workspace_id workspace_id of
        Some w \<Rightarrow> Some w
      | None \<Rightarrow> normalize_chatgpt_account_id chatgpt_account_id)"

definition workspace_header_for_account :: "account \<Rightarrow> string option" where
  "workspace_header_for_account a =
     resolve_workspace_header (acc_workspace_id a) (acc_chatgpt_account_id a)"

definition is_invalid_upstream_scope_value :: "string \<Rightarrow> bool" where
  "is_invalid_upstream_scope_value value \<longleftrightarrow>
     (let trimmed = trim value in
       trimmed = [] \<or> contains trimmed ''|'' \<or> starts_with trimmed ''import-sub-'')"

text \<open>One field of the patch: the new value and whether it changed.\<close>

definition patch_field :: "string option \<Rightarrow> string option \<Rightarrow> string option \<times> bool" where
  "patch_field current desired =
     (case desired of
        None \<Rightarrow> (current, False)
      | Some next_value \<Rightarrow>
          if is_invalid_upstream_scope_value next_value then (current, False)
          else if trim (case current of Some c \<Rightarrow> c | None \<Rightarrow> []) \<noteq> next_value
          then (Some next_value, True)
          else (current, False))"

definition apply_account_identity_patch ::
  "string option \<times> string option \<Rightarrow> string option \<Rightarrow> string option \<Rightarrow>
   (string option \<times> string option) \<times> bool" where
  "apply_account_identity_patch ident chatgpt_account_id workspace_id =
     (let next_chatgpt = normalize_chatgpt_account_id chatgpt_account_id;
          next_workspace = normalize_workspace_id workspace_id;
          (chatgpt, changed1) = patch_field (fst ident) next_chatgpt;
          desired_workspace = (case next_workspace of Some w \<Rightarrow> Some w | None \<Rightarrow> next_chatgpt);
          (workspace, changed2) = patch_field (snd ident) desired_workspace
      in ((chatgpt, workspace), changed1 \<or> changed2))"

definition patch_account_meta_in_place ::
  "account \<Rightarrow> string option \<Rightarrow> string option \<Rightarrow> account \<times> bool" where
  "patch_account_meta_in_place a chatgpt_account_id workspace_id =
     (let ((chatgpt, workspace), changed) =
            apply_account_identity_patch (acc_chatgpt_account_id a, acc_workspace_id a)
              chatgpt_account_id workspace_id
      in (if changed then a\<lparr>acc_chatgpt_account_id := chatgpt, acc_workspace_id := workspace\<rparr> else a,
          changed))"

section \<open>Lemmas\<close>

lemma trimmed_nonempty_fixed: "trimmed_nonempty x = Some y \<Longrightarrow> trim y = y \<and> y \<noteq> []"
  by (auto simp: trimmed_nonempty_def split: option.splits if_splits)

lemma find_map_Some: "find_map f xs = Some y \<Longrightarrow> \<exists>x\<in>set xs. f x = Some y"
  by (induction xs) (auto split: option.splits)

lemma normalized_trim: "normalize_scoped_identity_value v m = Some s \<Longrightarrow> trim s = s \<and> s \<noteq> []"
  by (auto simp: normalize_scoped_identity_value_def Let_def split: option.splits if_splits
      dest!: trimmed_nonempty_fixed find_map_Some)

lemma patch_field_again:
  assumes "\<And>d. desired = Some d \<Longrightarrow> trim d = d"
  shows "patch_field (fst (patch_field current desired)) desired = (fst (patch_field current desired), False)"
  using assms by (auto simp: patch_field_def split: option.splits)

lemma patch_field_cases:
  assumes "patch_field current desired = (new, changed)"
  shows "(changed \<longrightarrow> new = desired \<and> (\<exists>d. desired = Some d \<and> \<not> is_invalid_upstream_scope_value d))
    \<and> (\<not> changed \<longrightarrow> new = current)"
  using assms by (auto simp: patch_field_def split: option.splits if_splits)

section \<open>Properties\<close>

text \<open>
  Patching an account with the identity of its token is idempotent and only ever stores a
  usable identity. Applying the same claims to the patched account changes nothing and says so,
  so the candidate collection does not rewrite the row on every request; and a field that
  changed holds a trimmed, non-empty value without a scope separator.
\<close>

lemma identity_patch_idempotent:
  "let (b, changed) = patch_account_meta_in_place a c w in
     patch_account_meta_in_place b c w = (b, False)
     \<and> (acc_chatgpt_account_id b \<noteq> acc_chatgpt_account_id a \<longrightarrow>
          (\<exists>v. acc_chatgpt_account_id b = Some v \<and> trim v = v \<and> v \<noteq> [] \<and> \<not> contains v ''|''))
     \<and> (acc_workspace_id b \<noteq> acc_workspace_id a \<longrightarrow>
          (\<exists>v. acc_workspace_id b = Some v \<and> trim v = v \<and> v \<noteq> [] \<and> \<not> contains v ''|''))
     \<and> (\<not> changed \<longrightarrow> b = a)"
proof -
  let ?nc = "normalize_chatgpt_account_id c" and ?nw = "normalize_workspace_id w"
  let ?dw = "case ?nw of Some w \<Rightarrow> Some w | None \<Rightarrow> ?nc"
  obtain x cx where x: "patch_field (acc_chatgpt_account_id a) ?nc = (x, cx)" by fastforce
  obtain y cy where y: "patch_field (acc_workspace_id a) ?dw = (y, cy)" by fastforce
  have tc: "trim d = d \<and> d \<noteq> []" if "?nc = Some d" for d
    using that normalized_trim by (auto simp: normalize_chatgpt_account_id_def)
  have tw: "trim d = d \<and> d \<noteq> []" if "?dw = Some d" for d
    using that normalized_trim tc by (auto simp: normalize_workspace_id_def split: option.splits)
  have x2: "patch_field x ?nc = (x, False)"
    using patch_field_again [of ?nc "acc_chatgpt_account_id a"] tc x by fastforce
  have y2: "patch_field y ?dw = (y, False)"
    using patch_field_again [of ?dw "acc_workspace_id a"] tw y by fastforce
  have again: "apply_account_identity_patch (x, y) c w = ((x, y), False)"
    using x2 y2 by (simp add: apply_account_identity_patch_def Let_def)
  have vx: "x = acc_chatgpt_account_id a \<or> (\<exists>v. x = Some v \<and> trim v = v \<and> v \<noteq> [] \<and> \<not> contains v ''|'')"
    using patch_field_cases [OF x] tc
    by (cases cx) (auto simp: is_invalid_upstream_scope_value_def Let_def)
  have vy: "y = acc_workspace_id a \<or> (\<exists>v. y = Some v \<and> trim v = v \<and> v \<noteq> [] \<and> \<not> contains v ''|'')"
    using patch_field_cases [OF y] tw
    by (cases cy) (auto simp: is_invalid_upstream_scope_value_def Let_def)
  have e: "patch_account_meta_in_place a c w =
      (if cx \<or> cy then a\<lparr>acc_chatgpt_account_id := x, acc_workspace_id := y\<rparr> else a, cx \<or> cy)"
    using x y by (simp add: patch_account_meta_in_place_def apply_account_identity_patch_def Let_def)
  have same: "x = acc_chatgpt_account_id a \<and> y = acc_workspace_id a" if "\<not> (cx \<or> cy)"
    using that patch_field_cases [OF x] patch_field_cases [OF y] by blast
  show ?thesis
    using vx vy again same unfolding e
    by (auto simp: patch_account_meta_in_place_def Let_def)
qed

end
