(* ===== verification/QuotaGuard.thy ===== *)
theory QuotaGuard
  imports UsageLimits AccountMeta
begin

text \<open>
  Which accounts still have quota: the availability of an account from its latest usage
  snapshot (\<open>account/account_availability.rs\<close>, \<open>gateway/routing/failover.rs\<close>), the low-quota
  guard and the candidate cache of \<open>gateway/routing/selection.rs\<close>, and the query of
  \<open>core/src/storage/usage.rs\<close> that finds the low-quota accounts in the database. The table of
  snapshots is a list of rows with their ids.
\<close>

section \<open>Usage snapshots\<close>

record usage_snapshot =
  us_account_id :: string
  us_used_percent :: "f64 option"
  us_window_minutes :: "int option"
  us_resets_at :: "int option"
  us_secondary_used_percent :: "f64 option"
  us_secondary_window_minutes :: "int option"
  us_secondary_resets_at :: "int option"
  us_credits_json :: "string option"
  us_captured_at :: int

datatype availability = Available | Unavailable string

definition evaluate_snapshot :: "(string option \<Rightarrow> bool) \<Rightarrow> usage_snapshot \<Rightarrow> availability" where
  "evaluate_snapshot has_usable_luna_reserve snap =
     (let exhausted = (\<lambda>v. f64_le (Fin 100) v) in
      if us_used_percent snap = None \<or> us_window_minutes snap = None
      then Unavailable ''usage_missing_primary''
      else if (case us_used_percent snap of Some v \<Rightarrow> exhausted v | None \<Rightarrow> False)
      then (if has_usable_luna_reserve (us_credits_json snap) then Available
            else Unavailable ''usage_exhausted_primary'')
      else if (case us_secondary_used_percent snap of Some v \<Rightarrow> exhausted v | None \<Rightarrow> False)
      then (if has_usable_luna_reserve (us_credits_json snap) then Available
            else Unavailable ''usage_exhausted_secondary'')
      else Available)"

definition should_failover_from_cached_snapshot_value ::
  "(string option \<Rightarrow> bool) \<Rightarrow> usage_snapshot option \<Rightarrow> bool \<Rightarrow> bool" where
  "should_failover_from_cached_snapshot_value reserve snap fail_on_missing =
     (case map_option (evaluate_snapshot reserve) snap of
        Some (Unavailable _) \<Rightarrow> True
      | Some Available \<Rightarrow> False
      | None \<Rightarrow> fail_on_missing)"

text \<open>The latest snapshot is looked up in storage, an argument here; a failing lookup is missing.\<close>

definition should_failover_by_snapshot ::
  "(string option \<Rightarrow> bool) \<Rightarrow> (string \<Rightarrow> usage_snapshot option) \<Rightarrow> string \<Rightarrow> bool \<Rightarrow> bool" where
  "should_failover_by_snapshot reserve latest account_id fail_on_missing =
     should_failover_from_cached_snapshot_value reserve (latest account_id) fail_on_missing"

definition should_failover_after_refresh ::
  "(string option \<Rightarrow> bool) \<Rightarrow> (string \<Rightarrow> usage_snapshot option) \<Rightarrow> string \<Rightarrow> (string + unit) \<Rightarrow> bool" where
  "should_failover_after_refresh reserve latest account_id refresh_result =
     (case refresh_result of
        Inr _ \<Rightarrow> should_failover_by_snapshot reserve latest account_id True
      | Inl err \<Rightarrow> starts_with err ''usage endpoint status'')"

section \<open>Thresholds\<close>

record quota_guard_config =
  qg_enabled :: bool
  qg_primary_min_remaining :: f64
  qg_secondary_min_remaining :: f64
  qg_allow_all_low_fallback :: bool

definition normalize_percent :: "f64 \<Rightarrow> f64" where
  "normalize_percent v = (if f64_is_finite v then f64_clamp 0 100 v else Fin 0)"

definition quota_guard_normalized :: "quota_guard_config \<Rightarrow> quota_guard_config" where
  "quota_guard_normalized c =
     \<lparr>qg_enabled = qg_enabled c,
      qg_primary_min_remaining = normalize_percent (qg_primary_min_remaining c),
      qg_secondary_min_remaining = normalize_percent (qg_secondary_min_remaining c),
      qg_allow_all_low_fallback = qg_allow_all_low_fallback c\<rparr>"

definition quota_guard_default :: quota_guard_config where
  "quota_guard_default =
     \<lparr>qg_enabled = True, qg_primary_min_remaining = Fin 5, qg_secondary_min_remaining = Fin 10,
      qg_allow_all_low_fallback = True\<rparr>"

definition has_threshold :: "quota_guard_config \<Rightarrow> bool" where
  "has_threshold c \<longleftrightarrow>
     f64_lt (Fin 0) (qg_primary_min_remaining c) \<or> f64_lt (Fin 0) (qg_secondary_min_remaining c)"

definition remaining_percent :: "f64 \<Rightarrow> f64" where
  "remaining_percent used = f64_clamp 0 100 (f64_const_minus 100 used)"

definition minutes_per_day :: int where "minutes_per_day = 24 * 60"
definition window_rounding_bias_minutes :: int where "window_rounding_bias_minutes = 3"

definition quota_guard_threshold_for_window ::
  "int option \<Rightarrow> f64 \<Rightarrow> f64 \<Rightarrow> bool \<Rightarrow> f64" where
  "quota_guard_threshold_for_window window_minutes five_hour weekly secondary_field =
     (case window_minutes of
        Some minutes \<Rightarrow>
          if minutes_per_day + window_rounding_bias_minutes < minutes then weekly else five_hour
      | None \<Rightarrow> if secondary_field then weekly else five_hour)"

definition is_low_quota_snapshot_at :: "usage_snapshot \<Rightarrow> quota_guard_config \<Rightarrow> bool" where
  "is_low_quota_snapshot_at snap c \<longleftrightarrow>
     (let threshold = (\<lambda>w secondary. quota_guard_threshold_for_window w
            (qg_primary_min_remaining c) (qg_secondary_min_remaining c) secondary);
          primary = threshold (us_window_minutes snap) False;
          secondary = threshold (us_secondary_window_minutes snap) True;
          low = (\<lambda>t used. f64_lt (Fin 0) t \<and>
            (case used of Some pct \<Rightarrow> f64_le (remaining_percent pct) t | None \<Rightarrow> False))
      in low primary (us_used_percent snap) \<or> low secondary (us_secondary_used_percent snap))"

definition is_low_quota_snapshot :: "quota_guard_config \<Rightarrow> usage_snapshot \<Rightarrow> bool" where
  "is_low_quota_snapshot config snap \<longleftrightarrow>
     qg_enabled config \<and> has_threshold config \<and> is_low_quota_snapshot_at snap config"

section \<open>The low-quota query\<close>

type_synonym snapshot_row = "nat \<times> usage_snapshot"

text \<open>
  \<open>ROW_NUMBER() OVER (PARTITION BY account_id ORDER BY captured_at DESC, id DESC) = 1\<close>.
\<close>

definition latest_row :: "snapshot_row list \<Rightarrow> string \<Rightarrow> usage_snapshot option" where
  "latest_row rows a =
     (let newer = (\<lambda>x y. us_captured_at (snd x) < us_captured_at (snd y)
            \<or> us_captured_at (snd x) = us_captured_at (snd y) \<and> fst x < fst y) in
      map_option snd (fold (\<lambda>r best. case best of
            None \<Rightarrow> Some r
          | Some b \<Rightarrow> if newer b r then Some r else best)
        (filter (\<lambda>r. us_account_id (snd r) = a) rows) None))"

definition long_usage_window_minutes :: int where "long_usage_window_minutes = 24 * 60 + 3"

text \<open>The \<open>WHERE\<close> clause; a comparison with \<open>NULL\<close> is not true.\<close>

definition low_quota_row :: "f64 \<Rightarrow> f64 \<Rightarrow> usage_snapshot \<Rightarrow> bool" where
  "low_quota_row primary_min secondary_min r \<longleftrightarrow>
     (case us_used_percent r of
        None \<Rightarrow> False
      | Some used \<Rightarrow>
          (let t = (case us_window_minutes r of
                      Some w \<Rightarrow> if long_usage_window_minutes < w then secondary_min else primary_min
                    | None \<Rightarrow> primary_min)
           in f64_lt (Fin 0) t \<and> f64_le (f64_const_minus 100 used) t)) \<or>
     (case us_secondary_used_percent r of
        None \<Rightarrow> False
      | Some used \<Rightarrow>
          (let t = (case us_secondary_window_minutes r of
                      Some w \<Rightarrow> if w \<le> long_usage_window_minutes then primary_min else secondary_min
                    | None \<Rightarrow> secondary_min)
           in f64_lt (Fin 0) t \<and> f64_le (f64_const_minus 100 used) t))"

definition normalize_text_ids :: "string list \<Rightarrow> string list" where
  "normalize_text_ids ids = remdups_adj (sort (filter (\<lambda>i. i \<noteq> []) (map trim ids)))"

function chunks :: "nat \<Rightarrow> 'a list \<Rightarrow> 'a list list" where
  "chunks n xs = (if n = 0 \<or> xs = [] then [] else take n xs # chunks n (drop n xs))"
  by auto
termination by (relation "measure (\<lambda>(n, xs). length xs)") auto

declare chunks.simps [simp del]

definition sqlite_in_clause_batch_size :: nat where "sqlite_in_clause_batch_size = 900"

text \<open>One query: the rows come in the order of the table.\<close>

definition low_quota_account_ids_for_accounts_chunk ::
  "snapshot_row list \<Rightarrow> string list \<Rightarrow> f64 \<Rightarrow> f64 \<Rightarrow> string list" where
  "low_quota_account_ids_for_accounts_chunk rows chunk primary_min secondary_min =
     filter (\<lambda>a. a \<in> set chunk \<and>
         (case latest_row rows a of Some r \<Rightarrow> low_quota_row primary_min secondary_min r | None \<Rightarrow> False))
       (remdups (map (\<lambda>r. us_account_id (snd r)) rows))"

definition low_quota_account_ids_for_accounts ::
  "snapshot_row list \<Rightarrow> string list \<Rightarrow> f64 \<Rightarrow> f64 \<Rightarrow> string list" where
  "low_quota_account_ids_for_accounts rows account_ids primary_min secondary_min =
     (let ids = normalize_text_ids account_ids;
          primary = normalize_percent primary_min; secondary = normalize_percent secondary_min
      in if ids = [] then []
         else if f64_le primary (Fin 0) \<and> f64_le secondary (Fin 0) then []
         else remdups_adj (sort (concat
           (map (\<lambda>chunk. low_quota_account_ids_for_accounts_chunk rows chunk primary secondary)
             (chunks sqlite_in_clause_batch_size ids)))))"

section \<open>The guard\<close>

datatype low_quota_mode = NormalOnly | AppendFallback

definition force_enabled :: "account \<Rightarrow> bool" where
  "force_enabled a \<longleftrightarrow> eq_ignore_ascii_case (trim (acc_status a)) ''force_enabled''"

definition apply_quota_guard ::
  "quota_guard_config \<Rightarrow> snapshot_row list \<Rightarrow> low_quota_mode \<Rightarrow> candidate list \<Rightarrow> candidate list" where
  "apply_quota_guard config rows mode candidates =
     (if candidates = [] then []
      else if \<not> qg_enabled config \<or> \<not> has_threshold config then candidates
      else
        let low_quota_ids = low_quota_account_ids_for_accounts rows (map cand_id candidates)
              (qg_primary_min_remaining config) (qg_secondary_min_remaining config)
        in if low_quota_ids = [] then candidates
           else
             let is_low = (\<lambda>c. cand_id c \<in> set low_quota_ids \<and> \<not> force_enabled (fst c));
                 low_quota = filter is_low candidates;
                 normal = filter (\<lambda>c. \<not> is_low c) candidates
             in if normal = [] \<and> qg_allow_all_low_fallback config then low_quota
                else if mode = AppendFallback then normal @ low_quota
                else normal)"

text \<open>
  The candidates of the database, patched with the identity their token claims. \<open>listed\<close> is what
  the storage lists, \<open>meta\<close> the claims of a token; the write-back of a patched row is the second
  result.
\<close>

definition collect_gateway_candidates_uncached ::
  "(token \<Rightarrow> string option \<times> string option) \<Rightarrow> int \<Rightarrow> quota_guard_config \<Rightarrow> snapshot_row list \<Rightarrow>
   low_quota_mode \<Rightarrow> (string + candidate list) \<Rightarrow> (string + candidate list) \<times> account list" where
  "collect_gateway_candidates_uncached meta now config rows mode listed =
     (case listed of
        Inl e \<Rightarrow> (Inl e, [])
      | Inr candidates \<Rightarrow>
          (let patched = map (\<lambda>(a, t).
                 let (b, changed) = patch_account_meta_in_place a (fst (meta t)) (snd (meta t))
                 in (if changed then b\<lparr>acc_updated_at := now\<rparr> else a, t, changed)) candidates
           in (Inr (apply_quota_guard config rows mode (map (\<lambda>(a, t, _). (a, t)) patched)),
               map fst (filter (\<lambda>(_, _, changed). changed) patched))))"

section \<open>Configuration from the environment\<close>

text \<open>\<open>str::parse::<f64>\<close>: decimal notation with fraction and exponent, infinities, not a number.\<close>

fun span_digits :: "string \<Rightarrow> string \<times> string" where
  "span_digits [] = ([], [])"
| "span_digits (c # s) =
     (if is_ascii_digit c then (let (d, r) = span_digits s in (c # d, r)) else ([], c # s))"

definition parse_sign :: "string \<Rightarrow> bool \<times> string" where
  "parse_sign s =
     (case s of [] \<Rightarrow> (False, [])
      | c # r \<Rightarrow> if c = CHR ''-'' then (True, r) else if c = CHR ''+'' then (False, r) else (False, s))"

definition parse_exponent :: "string \<Rightarrow> int option" where
  "parse_exponent s =
     (case s of
        [] \<Rightarrow> Some 0
      | c # r \<Rightarrow>
          if c = CHR ''e'' \<or> c = CHR ''E'' then
            (let (neg, t) = parse_sign r; (d, rest) = span_digits t
             in if d = [] \<or> rest \<noteq> [] then None
                else Some (if neg then - int (digits_value d) else int (digits_value d)))
          else None)"

definition parse_f64 :: "string \<Rightarrow> f64 option" where
  "parse_f64 s =
     (let (neg, r) = parse_sign s; l = to_ascii_lowercase r;
          (ip, rest) = span_digits r;
          (fp, rest1) = (case rest of c # t \<Rightarrow> if c = CHR ''.'' then span_digits t else ([], rest)
                         | [] \<Rightarrow> ([], []));
          m = (of_nat (digits_value (ip @ fp)) / 10 ^ length fp :: rat);
          sgn = (\<lambda>x. if neg then - x else x)
      in if l = ''inf'' \<or> l = ''infinity'' then Some (if neg then NInf else PInf)
         else if l = ''nan'' then Some NaN
         else if ip = [] \<and> fp = [] then None
         else case parse_exponent rest1 of
                None \<Rightarrow> None
              | Some e \<Rightarrow> Some (Fin (sgn (if 0 \<le> e then m * 10 ^ nat e else m / 10 ^ nat (- e)))))"

definition parse_bool_env :: "string \<Rightarrow> bool \<Rightarrow> bool" where
  "parse_bool_env raw fallback =
     (let v = to_ascii_lowercase (trim raw) in
      if v \<in> {''1'', ''true'', ''yes'', ''on''} then True
      else if v \<in> {''0'', ''false'', ''no'', ''off''} then False
      else fallback)"

type_synonym env_vars = "string \<Rightarrow> string option"

definition low_quota_threshold_percent :: "env_vars \<Rightarrow> f64" where
  "low_quota_threshold_percent env =
     (case Option.bind (env ''CODEXMANAGER_LOW_QUOTA_THRESHOLD_PERCENT'') (\<lambda>raw. parse_f64 (trim raw)) of
        Some pct \<Rightarrow>
          if f64_is_finite pct \<and> f64_lt (Fin 0) pct \<and> f64_le pct (Fin 100) then pct else Fin 95
      | None \<Rightarrow> Fin 95)"

definition min_remaining_from_env :: "env_vars \<Rightarrow> string \<Rightarrow> f64 \<Rightarrow> f64" where
  "min_remaining_from_env env name dflt =
     (case Option.bind (env name) (\<lambda>raw. parse_f64 (trim raw)) of
        Some v \<Rightarrow> normalize_percent v
      | None \<Rightarrow>
          (case env ''CODEXMANAGER_LOW_QUOTA_THRESHOLD_PERCENT'' of
             Some _ \<Rightarrow> f64_clamp 0 100 (f64_const_minus 100 (low_quota_threshold_percent env))
           | None \<Rightarrow> dflt))"

section \<open>The candidate cache\<close>

record candidate_snapshot_cache =
  cc_db_path :: string
  cc_low_quota_mode :: low_quota_mode
  cc_expires_at :: nat
  cc_candidates :: "candidate list"

record selection_runtime =
  sr_cache :: "candidate_snapshot_cache option"
  sr_ttl_ms :: nat
  sr_config :: quota_guard_config
  sr_db_path :: string
  sr_loaded :: bool

definition selection_runtime_init :: selection_runtime where
  "selection_runtime_init =
     \<lparr>sr_cache = None, sr_ttl_ms = 500, sr_config = quota_guard_default, sr_db_path = ''<unset>'',
      sr_loaded = False\<rparr>"

definition clear_candidate_cache :: "selection_runtime \<Rightarrow> selection_runtime" where
  "clear_candidate_cache rt = rt\<lparr>sr_cache := None\<rparr>"

definition set_quota_guard_config ::
  "quota_guard_config \<Rightarrow> selection_runtime \<Rightarrow> quota_guard_config \<times> selection_runtime" where
  "set_quota_guard_config config rt =
     (let normalized = quota_guard_normalized config
      in (normalized, clear_candidate_cache (rt\<lparr>sr_config := normalized\<rparr>)))"

definition selection_reload_from_env :: "env_vars \<Rightarrow> selection_runtime \<Rightarrow> selection_runtime" where
  "selection_reload_from_env env rt =
     (let ttl_ms = (case Option.bind (env ''CODEXMANAGER_CANDIDATE_CACHE_TTL_MS'')
              (\<lambda>raw. parse_unsigned u64_max (trim raw)) of Some n \<Rightarrow> n | None \<Rightarrow> 500);
          bool_var = (\<lambda>name. case env name of Some raw \<Rightarrow> parse_bool_env raw True | None \<Rightarrow> True);
          config =
            \<lparr>qg_enabled = bool_var ''CODEXMANAGER_QUOTA_GUARD_ENABLED'',
             qg_primary_min_remaining =
               min_remaining_from_env env ''CODEXMANAGER_QUOTA_GUARD_5H_MIN_REMAINING_PERCENT'' (Fin 5),
             qg_secondary_min_remaining =
               min_remaining_from_env env ''CODEXMANAGER_QUOTA_GUARD_WEEKLY_MIN_REMAINING_PERCENT'' (Fin 10),
             qg_allow_all_low_fallback = bool_var ''CODEXMANAGER_QUOTA_GUARD_ALLOW_ALL_LOW_FALLBACK''\<rparr>;
          rt1 = snd (set_quota_guard_config config (rt\<lparr>sr_ttl_ms := ttl_ms\<rparr>));
          db_path = (case env ''CODEXMANAGER_DB_PATH'' of Some p \<Rightarrow> p | None \<Rightarrow> ''<unset>'')
      in clear_candidate_cache (rt1\<lparr>sr_db_path := db_path\<rparr>))"

definition ensure_selection_config_loaded :: "env_vars \<Rightarrow> selection_runtime \<Rightarrow> selection_runtime" where
  "ensure_selection_config_loaded env rt =
     (if sr_loaded rt then rt else (selection_reload_from_env env rt)\<lparr>sr_loaded := True\<rparr>)"

definition current_quota_guard_config :: "selection_runtime \<Rightarrow> quota_guard_config" where
  "current_quota_guard_config rt = quota_guard_normalized (sr_config rt)"

text \<open>Instants are nanoseconds.\<close>

definition candidate_cache_ttl :: "selection_runtime \<Rightarrow> nat" where
  "candidate_cache_ttl rt = sr_ttl_ms rt * 10 ^ 6"

definition cache_identity :: "selection_runtime \<Rightarrow> string option" where
  "cache_identity rt =
     (if trim (sr_db_path rt) = [] \<or> sr_db_path rt = ''<unset>'' then None else Some (sr_db_path rt))"

definition read_candidate_cache ::
  "low_quota_mode \<Rightarrow> nat \<Rightarrow> selection_runtime \<Rightarrow> candidate list option \<times> selection_runtime" where
  "read_candidate_cache mode now rt =
     (if candidate_cache_ttl rt = 0 then (None, rt)
      else case cache_identity rt of
             None \<Rightarrow> (None, rt)
           | Some db_path \<Rightarrow>
               (case sr_cache rt of
                  None \<Rightarrow> (None, rt)
                | Some c \<Rightarrow>
                    if cc_db_path c \<noteq> db_path \<or> cc_low_quota_mode c \<noteq> mode \<or> cc_expires_at c \<le> now
                    then (None, rt\<lparr>sr_cache := None\<rparr>)
                    else (Some (cc_candidates c), rt)))"

definition write_candidate_cache ::
  "low_quota_mode \<Rightarrow> nat \<Rightarrow> candidate list \<Rightarrow> selection_runtime \<Rightarrow> selection_runtime" where
  "write_candidate_cache mode now candidates rt =
     (if candidate_cache_ttl rt = 0 then rt
      else case cache_identity rt of
             None \<Rightarrow> rt
           | Some db_path \<Rightarrow>
               rt\<lparr>sr_cache := Some \<lparr>cc_db_path = db_path, cc_low_quota_mode = mode,
                    cc_expires_at = now + candidate_cache_ttl rt, cc_candidates = candidates\<rparr>\<rparr>)"

text \<open>The database at an instant, as far as the collection reads it, and the wall clock.\<close>

record selection_world =
  sw_rows :: "nat \<Rightarrow> snapshot_row list"
  sw_listed :: "nat \<Rightarrow> string + candidate list"
  sw_meta :: "token \<Rightarrow> string option \<times> string option"
  sw_ts :: "nat \<Rightarrow> int"

definition fresh_candidates ::
  "selection_world \<Rightarrow> quota_guard_config \<Rightarrow> low_quota_mode \<Rightarrow> nat \<Rightarrow> string + candidate list" where
  "fresh_candidates w config mode now =
     fst (collect_gateway_candidates_uncached (sw_meta w) (sw_ts w now) config (sw_rows w now) mode
            (sw_listed w now))"

definition collect_gateway_candidates_with_low_quota_mode ::
  "selection_world \<Rightarrow> env_vars \<Rightarrow> low_quota_mode \<Rightarrow> nat \<Rightarrow> selection_runtime \<Rightarrow>
   (string + candidate list) \<times> selection_runtime" where
  "collect_gateway_candidates_with_low_quota_mode w env mode now rt =
     (let rt0 = ensure_selection_config_loaded env rt in
      case read_candidate_cache mode now rt0 of
        (Some cached, rt1) \<Rightarrow> (Inr cached, rt1)
      | (None, rt1) \<Rightarrow>
          (case fresh_candidates w (current_quota_guard_config rt1) mode now of
             Inl e \<Rightarrow> (Inl e, rt1)
           | Inr cs \<Rightarrow> (Inr cs, write_candidate_cache mode now cs rt1)))"

datatype selection_op =
    Collect low_quota_mode
  | SetGuard quota_guard_config
  | ReloadEnv env_vars
  | Invalidate

fun apply_selection_op ::
  "selection_world \<Rightarrow> env_vars \<Rightarrow> selection_op \<times> nat \<Rightarrow> selection_runtime \<Rightarrow> selection_runtime" where
  "apply_selection_op w env (Collect mode, now) rt =
     snd (collect_gateway_candidates_with_low_quota_mode w env mode now rt)"
| "apply_selection_op w env (SetGuard c, now) rt = snd (set_quota_guard_config c rt)"
| "apply_selection_op w env (ReloadEnv env', now) rt = selection_reload_from_env env' rt"
| "apply_selection_op w env (Invalidate, now) rt = clear_candidate_cache rt"

section \<open>Lemmas\<close>

text \<open>What the cache holds: the collection of some instant, under the present configuration.\<close>

definition cache_ok :: "selection_world \<Rightarrow> selection_runtime \<Rightarrow> bool" where
  "cache_ok w rt \<longleftrightarrow>
     (\<forall>c. sr_cache rt = Some c \<longrightarrow>
        (\<exists>t. Inr (cc_candidates c) = fresh_candidates w (current_quota_guard_config rt) (cc_low_quota_mode c) t
           \<and> cc_expires_at c = t + candidate_cache_ttl rt))"

lemma cache_ok_cleared [simp]: "sr_cache rt = None \<Longrightarrow> cache_ok w rt"
  by (simp add: cache_ok_def)

lemma cache_ok_load: "cache_ok w rt \<Longrightarrow> cache_ok w (ensure_selection_config_loaded env rt)"
  by (simp add: ensure_selection_config_loaded_def selection_reload_from_env_def Let_def
      clear_candidate_cache_def)

lemma collect_ok:
  assumes "cache_ok w rt"
    and "collect_gateway_candidates_with_low_quota_mode w env mode now rt = (r, rt')"
  shows "cache_ok w rt' \<and>
    (\<exists>t. r = fresh_candidates w (current_quota_guard_config rt') mode t
       \<and> (t = now \<or> now < t + candidate_cache_ttl rt'))"
proof -
  let ?rt = "ensure_selection_config_loaded env rt"
  have ok: "cache_ok w ?rt" using assms(1) by (rule cache_ok_load)
  obtain hit rt1 where read: "read_candidate_cache mode now ?rt = (hit, rt1)" by fastforce
  have same: "current_quota_guard_config rt1 = current_quota_guard_config ?rt"
    "candidate_cache_ttl rt1 = candidate_cache_ttl ?rt"
    using read by (auto simp: read_candidate_cache_def current_quota_guard_config_def
        candidate_cache_ttl_def split: option.splits if_splits)
  show ?thesis
  proof (cases hit)
    case (Some cs)
    then have r: "r = Inr cs" "rt' = rt1"
      using assms(2) read by (simp_all add: collect_gateway_candidates_with_low_quota_mode_def Let_def)
    from Some read obtain c where c: "rt1 = ?rt" "sr_cache ?rt = Some c" "cs = cc_candidates c"
      "cc_low_quota_mode c = mode" "now < cc_expires_at c"
      by (auto simp: read_candidate_cache_def split: option.splits if_splits)
    with ok obtain t where "Inr cs = fresh_candidates w (current_quota_guard_config ?rt) mode t"
      "cc_expires_at c = t + candidate_cache_ttl ?rt"
      by (auto simp: cache_ok_def)
    then show ?thesis using r c ok by auto
  next
    case None
    have ok1: "cache_ok w rt1"
      using None read ok by (auto simp: read_candidate_cache_def split: option.splits if_splits)
    show ?thesis
    proof (cases "fresh_candidates w (current_quota_guard_config rt1) mode now")
      case (Inl e)
      then have "r = Inl e" "rt' = rt1"
        using assms(2) read None
        by (simp_all add: collect_gateway_candidates_with_low_quota_mode_def Let_def)
      then show ?thesis using ok1 Inl by (intro conjI exI [of _ now]) simp_all
    next
      case (Inr cs)
      then have r: "r = Inr cs" "rt' = write_candidate_cache mode now cs rt1"
        using assms(2) read None
        by (simp_all add: collect_gateway_candidates_with_low_quota_mode_def Let_def)
      have "current_quota_guard_config rt' = current_quota_guard_config rt1"
        "candidate_cache_ttl rt' = candidate_cache_ttl rt1"
        by (auto simp: r write_candidate_cache_def current_quota_guard_config_def
            candidate_cache_ttl_def split: option.split)
      moreover have "cache_ok w rt'"
        using ok1 Inr by (auto simp: r cache_ok_def write_candidate_cache_def
            current_quota_guard_config_def candidate_cache_ttl_def split: option.splits)
      ultimately show ?thesis using r Inr by (intro conjI exI [of _ now]) simp_all
    qed
  qed
qed

lemma cache_ok_op: "cache_ok w rt \<Longrightarrow> cache_ok w (apply_selection_op w env x rt)"
proof (cases x)
  case (Pair op now)
  show "cache_ok w rt \<Longrightarrow> ?thesis"
  proof (cases op)
    case (Collect mode)
    then show "cache_ok w rt \<Longrightarrow> ?thesis"
      using Pair collect_ok [of w rt env mode now]
      by (metis apply_selection_op.simps(1) surjective_pairing)
  qed (use Pair in \<open>simp_all add: set_quota_guard_config_def clear_candidate_cache_def
      selection_reload_from_env_def Let_def\<close>)
qed

lemma cache_ok_run: "cache_ok w rt \<Longrightarrow> cache_ok w (fold (apply_selection_op w env) ops rt)"
  by (induction ops arbitrary: rt) (simp_all add: cache_ok_op)

subsection \<open>The query\<close>

lemma concat_chunks: "0 < n \<Longrightarrow> concat (chunks n xs) = xs"
proof (induction n xs rule: chunks.induct)
  case (1 n xs)
  then show ?case by (subst chunks.simps) simp
qed

lemma set_remdups_adj_sort: "set (remdups_adj (sort xs)) = set xs"
  by simp

lemma distinct_remdups_adj_sorted: "sorted xs \<Longrightarrow> distinct (remdups_adj xs)"
  by (induction xs rule: remdups_adj.induct) (auto simp: order_antisym_conv)

lemma latest_row_in: "latest_row rows a = Some r \<Longrightarrow> a \<in> set (map (\<lambda>r. us_account_id (snd r)) rows)"
proof -
  assume "latest_row rows a = Some r"
  then have "filter (\<lambda>r. us_account_id (snd r) = a) rows \<noteq> []"
    by (auto simp: latest_row_def)
  then show ?thesis by (auto simp: filter_empty_conv)
qed

lemma latest_row_mem:
  assumes "latest_row rows a = Some r"
  obtains i where "(i, r) \<in> set rows"
proof -
  let ?step = "\<lambda>(newer :: snapshot_row \<Rightarrow> snapshot_row \<Rightarrow> bool) r best.
      case best of None \<Rightarrow> Some r | Some b \<Rightarrow> if newer b r then Some r else best"
  have fold_in: "fold (?step newer) rs best = Some x \<Longrightarrow> x \<in> set rs \<or> best = Some x" for newer rs best x
    by (induction rs arbitrary: best) (fastforce split: option.splits if_splits)+
  from assms obtain i where "(i, r) \<in> set (filter (\<lambda>r. us_account_id (snd r) = a) rows)"
    by (auto simp: latest_row_def dest!: fold_in)
  then show thesis using that by auto
qed

lemma low_quota_chunks:
  "set (concat (map (\<lambda>chunk. low_quota_account_ids_for_accounts_chunk rows chunk p s) cs)) =
     {a \<in> set (concat cs). \<exists>r. latest_row rows a = Some r \<and> low_quota_row p s r}"
  using latest_row_in
  by (fastforce simp: low_quota_account_ids_for_accounts_chunk_def split: option.splits)

lemma normalize_percent_idem [simp]: "normalize_percent (normalize_percent x) = normalize_percent x"
  by (auto simp: normalize_percent_def f64_is_finite_def f64_clamp_def split: f64.splits)

lemma normalize_percent_Fin: "\<exists>q. normalize_percent x = Fin q \<and> 0 \<le> q \<and> q \<le> 100"
  by (auto simp: normalize_percent_def f64_is_finite_def f64_clamp_def split: f64.splits)

lemma normalized_fields [simp]:
  "qg_primary_min_remaining (quota_guard_normalized c) = normalize_percent (qg_primary_min_remaining c)"
  "qg_secondary_min_remaining (quota_guard_normalized c) = normalize_percent (qg_secondary_min_remaining c)"
  by (simp_all add: quota_guard_normalized_def)

text \<open>A used percentage of a row: not negative.\<close>

definition percent_ok :: "f64 option \<Rightarrow> bool" where
  "percent_ok u \<longleftrightarrow> (case u of Some x \<Rightarrow> f64_le (Fin 0) x \<or> x = NaN | None \<Rightarrow> True)"

lemma low_field_agrees:
  assumes "percent_ok u" and "q \<le> 100"
  shows "(case u of None \<Rightarrow> False | Some x \<Rightarrow>
        f64_lt (Fin 0) (Fin q) \<and> f64_le (f64_const_minus 100 x) (Fin q)) =
      (f64_lt (Fin 0) (Fin q) \<and> (case u of Some x \<Rightarrow> f64_le (remaining_percent x) (Fin q) | None \<Rightarrow> False))"
proof (cases u)
  case (Some x)
  then show ?thesis using assms
    by (cases x) (auto simp: percent_ok_def remaining_percent_def f64_clamp_def f64_const_minus_def
        min_def max_def)
qed simp

lemma low_quota_row_agrees:
  assumes "percent_ok (us_used_percent r)" and "percent_ok (us_secondary_used_percent r)"
  shows "low_quota_row (normalize_percent p) (normalize_percent s) r =
    is_low_quota_snapshot_at r \<lparr>qg_enabled = e, qg_primary_min_remaining = normalize_percent p,
      qg_secondary_min_remaining = normalize_percent s, qg_allow_all_low_fallback = f\<rparr>"
proof -
  obtain qp qs where q: "normalize_percent p = Fin qp" "normalize_percent s = Fin qs" "qp \<le> 100" "qs \<le> 100"
    using normalize_percent_Fin by metis
  let ?w = "us_window_minutes r" and ?v = "us_secondary_window_minutes r"
  obtain q1 where q1: "(case ?w of Some w \<Rightarrow> if long_usage_window_minutes < w then Fin qs else Fin qp
      | None \<Rightarrow> Fin qp) = Fin q1" "quota_guard_threshold_for_window ?w (Fin qp) (Fin qs) False = Fin q1"
      "q1 \<le> 100"
    by (rule that [of "case ?w of Some w \<Rightarrow> if long_usage_window_minutes < w then qs else qp | None \<Rightarrow> qp"])
      (use q in \<open>auto simp: quota_guard_threshold_for_window_def minutes_per_day_def
        window_rounding_bias_minutes_def long_usage_window_minutes_def split: option.splits\<close>)
  obtain q2 where q2: "(case ?v of Some w \<Rightarrow> if w \<le> long_usage_window_minutes then Fin qp else Fin qs
      | None \<Rightarrow> Fin qs) = Fin q2" "quota_guard_threshold_for_window ?v (Fin qp) (Fin qs) True = Fin q2"
      "q2 \<le> 100"
    by (rule that [of "case ?v of Some w \<Rightarrow> if w \<le> long_usage_window_minutes then qp else qs | None \<Rightarrow> qs"])
      (use q in \<open>auto simp: quota_guard_threshold_for_window_def minutes_per_day_def
        window_rounding_bias_minutes_def long_usage_window_minutes_def split: option.splits\<close>)
  show ?thesis
    unfolding low_quota_row_def is_low_quota_snapshot_at_def q Let_def q1(1) q2(1)
      quota_guard_config.select_convs q1(2) q2(2)
    using low_field_agrees [OF assms(1) q1(3)] low_field_agrees [OF assms(2) q2(3)]
    by (simp del: f64_lt_Fin)
qed

lemma set_low_quota_ids:
  "set (low_quota_account_ids_for_accounts rows ids p s) =
     {a \<in> set (normalize_text_ids ids).
        has_threshold (quota_guard_normalized \<lparr>qg_enabled = e, qg_primary_min_remaining = p,
          qg_secondary_min_remaining = s, qg_allow_all_low_fallback = f\<rparr>) \<and>
        (\<exists>r. latest_row rows a = Some r \<and> low_quota_row (normalize_percent p) (normalize_percent s) r)}"
proof -
  obtain qp qs where q: "normalize_percent p = Fin qp" "normalize_percent s = Fin qs" "0 \<le> qp" "0 \<le> qs"
    using normalize_percent_Fin by metis
  then show ?thesis
    using low_quota_chunks [of rows "Fin qp" "Fin qs" "chunks sqlite_in_clause_batch_size (normalize_text_ids ids)"]
    by (auto simp: low_quota_account_ids_for_accounts_def Let_def has_threshold_def concat_chunks
        sqlite_in_clause_batch_size_def)
qed

section \<open>Properties\<close>


definition example_snapshot :: "string \<Rightarrow> f64 \<Rightarrow> usage_snapshot" where
  "example_snapshot a used =
     \<lparr>us_account_id = a, us_used_percent = Some used, us_window_minutes = Some 300, us_resets_at = None,
      us_secondary_used_percent = None, us_secondary_window_minutes = None, us_secondary_resets_at = None,
      us_credits_json = None, us_captured_at = 10\<rparr>"


text \<open>
  C27: what the quota guard does to the candidates. It neither invents nor duplicates an
  account and keeps the given order among those with quota and among those without; accounts
  forced on by hand are never held back. In append mode every candidate stays, those with quota
  first. In normal mode the low ones are dropped, unless all are low and the fallback is on:
  then, and in append mode, the guard never empties a non-empty pool.
\<close>

theorem quota_guard_partition:
  assumes "out = apply_quota_guard config rows mode cs"
    and "low = (\<lambda>c. cand_id c \<in> set (low_quota_account_ids_for_accounts rows (map cand_id cs)
          (qg_primary_min_remaining config) (qg_secondary_min_remaining config))
        \<and> \<not> force_enabled (fst c))"
  shows "(out = cs \<or> out = filter (\<lambda>c. \<not> low c) cs \<or> out = filter (\<lambda>c. \<not> low c) cs @ filter low cs)
      \<and> (qg_enabled config \<and> has_threshold config \<and> mode = NormalOnly \<and> filter (\<lambda>c. \<not> low c) cs \<noteq> []
           \<longrightarrow> out = filter (\<lambda>c. \<not> low c) cs)
      \<and> (\<forall>c\<in>set cs. force_enabled (fst c) \<longrightarrow> c \<in> set out)
      \<and> (mode = AppendFallback \<longrightarrow> mset out = mset cs)
      \<and> (cs \<noteq> [] \<and> (qg_allow_all_low_fallback config \<or> mode = AppendFallback) \<longrightarrow> out \<noteq> [])"
proof -
  let ?norm = "filter (\<lambda>c. \<not> low c) cs"
  have forced: "\<not> low c" if "force_enabled (fst c)" for c using that assms(2) by simp
  have split: "mset ?norm + mset (filter low cs) = mset cs"
    by (induction cs) auto
  have none: "?norm = cs" if "low_quota_account_ids_for_accounts rows (map cand_id cs)
          (qg_primary_min_remaining config) (qg_secondary_min_remaining config) = []"
    using that assms(2) by simp
  have out: "out = (if cs = [] then [] else if \<not> qg_enabled config \<or> \<not> has_threshold config then cs
      else if low_quota_account_ids_for_accounts rows (map cand_id cs)
          (qg_primary_min_remaining config) (qg_secondary_min_remaining config) = [] then cs
      else if ?norm = [] \<and> qg_allow_all_low_fallback config then filter low cs
      else if mode = AppendFallback then ?norm @ filter low cs else ?norm)"
    unfolding assms apply_quota_guard_def Let_def ..
  consider "out = cs" "qg_enabled config \<and> has_threshold config \<longrightarrow> ?norm = cs"
    | "?norm = []" "qg_allow_all_low_fallback config" "out = filter low cs" "cs \<noteq> []"
    | "mode = AppendFallback" "out = ?norm @ filter low cs" "cs \<noteq> []"
    | "mode \<noteq> AppendFallback" "out = ?norm" "\<not> (?norm = [] \<and> qg_allow_all_low_fallback config)" "cs \<noteq> []"
    using out none by (auto split: if_splits)
  then show ?thesis
  proof cases
    case 1
    then show ?thesis by auto
  next
    case 2
    then have all: "low c" if "c \<in> set cs" for c
      using that by (auto simp: filter_empty_conv)
    then have "out = cs" using 2(3) by simp
    then show ?thesis using 2(1) by auto
  next
    case 3
    then have m: "mset out = mset cs" using split by simp
    then have "set out = set cs" "out \<noteq> []" using 3(3) by (metis set_mset_mset, auto)
    then show ?thesis using m 3 by auto
  next
    case 4
    then show ?thesis using forced by (cases mode) auto
  qed
qed

theorem quota_guard_partition_witness:
  "mset (apply_quota_guard quota_guard_default [(1, example_snapshot ''a'' (Fin 99))] AppendFallback
      [candidate_named ''a'', candidate_named ''b'']) = {#candidate_named ''a'', candidate_named ''b''#}"
  using quota_guard_partition [OF refl refl, of quota_guard_default "[(1, example_snapshot ''a'' (Fin 99))]"
      AppendFallback "[candidate_named ''a'', candidate_named ''b'']"] by auto


definition example_world :: selection_world where
  "example_world = \<lparr>sw_rows = (\<lambda>_. []), sw_listed = (\<lambda>_. Inr [candidate_named ''a'']),
     sw_meta = (\<lambda>_. (None, None)), sw_ts = (\<lambda>_. 0)\<rparr>"


end
