(* ===== verification/ModelSupport.thy ===== *)
theory ModelSupport
  imports QuotaGuard
begin

text \<open>
  Which accounts are known not to support a model (\<open>account/account_model_support.rs\<close>), the
  filter of candidates built on it and the skipping of candidates
  (\<open>gateway/upstream/support/candidates.rs\<close>). The clock is in seconds; the table is a map
  from the key of an account and a model to the time its mark expires.
\<close>

section \<open>The marks\<close>

type_synonym model_marks = "string \<rightharpoonup> nat"

definition default_model_ttl_secs :: nat where "default_model_ttl_secs = 30 * 60"

definition model_ttl_secs :: "string option \<Rightarrow> nat" where
  "model_ttl_secs raw =
     (case Option.bind raw (\<lambda>r. parse_unsigned u64_max (trim r)) of
        Some v \<Rightarrow> if 0 < v then v else default_model_ttl_secs
      | None \<Rightarrow> default_model_ttl_secs)"

definition mark_key :: "string \<Rightarrow> string \<Rightarrow> string" where
  "mark_key account_id model = trim account_id @ CHR 0x01 # trim model"

definition strip_prefix :: "string \<Rightarrow> string \<Rightarrow> string option" where
  "strip_prefix p s = (if starts_with s p then Some (drop (length p) s) else None)"

definition strip_suffix :: "string \<Rightarrow> string \<Rightarrow> string option" where
  "strip_suffix p s = (if ends_with s p then Some (take (length s - length p) s) else None)"

definition trim_end_dots :: "string \<Rightarrow> string" where
  "trim_end_dots s = rev (dropWhile (\<lambda>c. c = CHR ''.'') (rev s))"

definition is_model_char :: "char \<Rightarrow> bool" where
  "is_model_char c \<longleftrightarrow>
     (let n = (of_char c :: nat) in
       48 \<le> n \<and> n \<le> 57 \<or> 65 \<le> n \<and> n \<le> 90 \<or> 97 \<le> n \<and> n \<le> 122
       \<or> c = CHR ''-'' \<or> c = CHR ''_'' \<or> c = CHR ''.'')"

definition quote_char :: char where "quote_char = CHR 0x27"

text \<open>The two rejections upstream words literally, with or without final dots.\<close>

definition rejected_model :: "string \<Rightarrow> string option" where
  "rejected_model msg =
     (let message = trim_end_dots (trim msg);
          model = (case strip_prefix (''The '' @ [quote_char]) message of
              Some rest \<Rightarrow>
                strip_suffix
                  (quote_char # '' model is not supported when using Codex with a ChatGPT account'') rest
            | None \<Rightarrow>
                (case strip_prefix ''model '' message of
                   Some rest \<Rightarrow> strip_suffix '' is not supported for this account'' rest
                 | None \<Rightarrow> None))
      in case model of
           Some m \<Rightarrow> if m \<noteq> [] \<and> list_all is_model_char m then Some m else None
         | None \<Rightarrow> None)"

text \<open>A rejection scoped to another parameter than the model says nothing about the account.\<close>

definition account_model_rejection_message :: "json option \<Rightarrow> string option" where
  "account_model_rejection_message parsed =
     (case Option.bind parsed (\<lambda>v. json_get v ''error'') of
        None \<Rightarrow> None
      | Some error \<Rightarrow>
          if (case json_get error ''param'' of
                Some param \<Rightarrow> \<not> is_null param \<and> as_str param \<noteq> Some ''model''
              | None \<Rightarrow> False)
          then None
          else
            (case Option.bind (json_get error ''message'') as_str of
               Some message \<Rightarrow> map_option (\<lambda>_. message) (rejected_model message)
             | None \<Rightarrow> None))"

definition mark_unsupported_with_ttl ::
  "string \<Rightarrow> string \<Rightarrow> nat \<Rightarrow> nat \<Rightarrow> model_marks \<Rightarrow> model_marks" where
  "mark_unsupported_with_ttl account_id model ttl now marks =
     (if trim account_id = [] \<or> trim model = [] then marks
      else marks(mark_key account_id model \<mapsto> u64_saturating_add now ttl))"

definition clear_unsupported :: "string \<Rightarrow> string \<Rightarrow> model_marks \<Rightarrow> model_marks" where
  "clear_unsupported account_id model marks =
     (if trim account_id = [] \<or> trim model = [] then marks
      else map_remove (mark_key account_id model) marks)"

definition is_unsupported :: "string \<Rightarrow> string \<Rightarrow> nat \<Rightarrow> model_marks \<Rightarrow> bool \<times> model_marks" where
  "is_unsupported account_id model now marks =
     (if trim account_id = [] \<or> trim model = [] then (False, marks)
      else
        let key = mark_key account_id model
        in case marks key of
             Some expires_at \<Rightarrow>
               if now < expires_at then (True, marks) else (False, map_remove key marks)
           | None \<Rightarrow> (False, marks))"

definition note_account_model_unsupported ::
  "nat \<Rightarrow> string \<Rightarrow> string option \<Rightarrow> string \<Rightarrow> nat \<Rightarrow> model_marks \<Rightarrow> bool \<times> model_marks" where
  "note_account_model_unsupported ttl account_id model message now marks =
     (case trimmed_nonempty model of
        None \<Rightarrow> (False, marks)
      | Some m \<Rightarrow>
          if (case rejected_model message of Some r \<Rightarrow> trim r = trim m | None \<Rightarrow> False)
          then (True, mark_unsupported_with_ttl account_id m ttl now marks)
          else (False, marks))"

section \<open>The filter of candidates\<close>

text \<open>Every candidate is asked in turn; an expired mark met on the way is removed.\<close>

fun known_unsupported ::
  "string \<Rightarrow> nat \<Rightarrow> candidate list \<Rightarrow> model_marks \<Rightarrow> bool list \<times> model_marks" where
  "known_unsupported model now [] marks = ([], marks)"
| "known_unsupported model now (c # cs) marks =
     (let (b, marks1) = is_unsupported (cand_id c) model now marks;
          (bs, marks2) = known_unsupported model now cs marks1
      in (b # bs, marks2))"

definition drop_known_unsupported_model_candidates ::
  "string option \<Rightarrow> nat \<Rightarrow> candidate list \<Rightarrow> model_marks \<Rightarrow> candidate list \<times> model_marks" where
  "drop_known_unsupported_model_candidates request_model now candidates marks =
     (case trimmed_nonempty request_model of
        None \<Rightarrow> (candidates, marks)
      | Some model \<Rightarrow>
          if candidates = [] then (candidates, marks)
          else
            let (bs, marks') = known_unsupported model now candidates marks;
                drop_positions = filter (\<lambda>i. bs ! i) [0..<length candidates]
            in if drop_positions = [] \<or> length drop_positions = length candidates
               then (candidates, marks')
               else (nths candidates (- set drop_positions), marks'))"

section \<open>Lemmas\<close>

abbreviation unsupported_at :: "model_marks \<Rightarrow> nat \<Rightarrow> string \<Rightarrow> string \<Rightarrow> bool" where
  "unsupported_at marks t a m \<equiv> fst (is_unsupported a m t marks)"

lemma unsupported_at_iff:
  "unsupported_at marks t a m \<longleftrightarrow>
     trim a \<noteq> [] \<and> trim m \<noteq> [] \<and> (\<exists>e. marks (mark_key a m) = Some e \<and> t < e)"
  by (auto simp: is_unsupported_def Let_def split: option.splits)

text \<open>The query removes only a mark that has expired.\<close>

lemma unsupported_at_query:
  "now \<le> t \<Longrightarrow> unsupported_at (snd (is_unsupported a m now marks)) t a' m' = unsupported_at marks t a' m'"
  by (auto simp: unsupported_at_iff is_unsupported_def Let_def split: option.splits)

lemma known_unsupported_eq:
  "fst (known_unsupported m now cs marks) = map (\<lambda>c. unsupported_at marks now (cand_id c) m) cs \<and>
   (\<forall>t a' m'. now \<le> t \<longrightarrow>
      unsupported_at (snd (known_unsupported m now cs marks)) t a' m' = unsupported_at marks t a' m')"
proof (induction cs arbitrary: marks)
  case (Cons c cs)
  obtain b m1 where b: "is_unsupported (cand_id c) m now marks = (b, m1)"
    by (cases "is_unsupported (cand_id c) m now marks")
  obtain bs m2 where bs: "known_unsupported m now cs m1 = (bs, m2)"
    by (cases "known_unsupported m now cs m1")
  have q: "unsupported_at m1 t a' m' = unsupported_at marks t a' m'" if "now \<le> t" for t a' m'
    using unsupported_at_query [OF that, where a = "cand_id c" and m = m and marks = marks] b by simp
  show ?case
    using Cons.IH [of m1] b bs q by simp
qed simp

lemma known_unsupported_keeps:
  "known_unsupported m now cs marks = (bs, marks') \<Longrightarrow> now \<le> t \<Longrightarrow>
     unsupported_at marks' t a' m' = unsupported_at marks t a' m'"
  using known_unsupported_eq [of m now cs marks] by simp

lemma nths_filter_index:
  assumes "length bs = length xs"
  shows "nths xs (- set (filter (\<lambda>i. bs ! i) [0..<length xs])) = map fst (filter (\<lambda>p. \<not> snd p) (zip xs bs))"
  using assms
proof (induction xs bs rule: list_induct2')
  case (4 x xs b bs)
  let ?S = "\<lambda>bs n. - set (filter (\<lambda>i. bs ! i) [0..<n])"
  have S: "?S bs' n = - {j. j < n \<and> bs' ! j}" for bs' n by auto
  have "{j. Suc j \<in> ?S (b # bs) (length (x # xs))} = - {j. j < length xs \<and> bs ! j}"
    unfolding S by auto
  moreover have "?S bs (length xs) = - {j. j < length xs \<and> bs ! j}" by (rule S)
  moreover have "0 \<in> ?S (b # bs) (length (x # xs)) \<longleftrightarrow> \<not> b" unfolding S by simp
  ultimately show ?case
    using 4 by (simp only: nths_Cons) simp
qed auto

lemma drop_filter_eq:
  assumes m: "trimmed_nonempty rm = Some m"
  shows "fst (drop_known_unsupported_model_candidates rm now cs marks) =
    (if \<forall>c \<in> set cs. unsupported_at marks now (cand_id c) m then cs
     else filter (\<lambda>c. \<not> unsupported_at marks now (cand_id c) m) cs)"
proof (cases "cs = []")
  case False
  obtain bs marks' where k: "known_unsupported m now cs marks = (bs, marks')"
    by (cases "known_unsupported m now cs marks")
  with known_unsupported_eq [of m now cs marks]
  have bs: "bs = map (\<lambda>c. unsupported_at marks now (cand_id c) m) cs" by simp
  let ?P = "\<lambda>c. unsupported_at marks now (cand_id c) m"
  let ?pos = "filter (\<lambda>i. bs ! i) [0..<length cs]"
  have zipf: "map fst (filter (\<lambda>p. \<not> snd p) (zip ds (map ?P ds))) = filter (\<lambda>c. \<not> ?P c) ds" for ds
    by (induction ds) auto
  have nths: "nths cs (- set ?pos) = filter (\<lambda>c. \<not> ?P c) cs"
    using nths_filter_index [of bs cs] bs zipf by simp
  have none: "?pos = [] \<longleftrightarrow> (\<forall>c \<in> set cs. \<not> ?P c)"
    unfolding filter_empty_conv all_set_conv_all_nth by (simp add: bs)
  have all: "length ?pos = length cs \<longleftrightarrow> (\<forall>c \<in> set cs. ?P c)"
  proof -
    have "length ?pos = length [0..<length cs] \<longleftrightarrow> (\<forall>i \<in> set [0..<length cs]. bs ! i)"
      by (metis filter_True length_filter_less less_irrefl)
    then show ?thesis unfolding all_set_conv_all_nth by (simp add: bs)
  qed
  have "fst (drop_known_unsupported_model_candidates rm now cs marks) =
    (if ?pos = [] \<or> length ?pos = length cs then cs else filter (\<lambda>c. \<not> ?P c) cs)"
    using False nths by (simp add: drop_known_unsupported_model_candidates_def m k Let_def)
  then show ?thesis unfolding none all by auto
qed (simp add: drop_known_unsupported_model_candidates_def m)

lemma drop_keeps_marks:
  "now \<le> t \<Longrightarrow> unsupported_at (snd (drop_known_unsupported_model_candidates rm now cs marks)) t a m
     = unsupported_at marks t a m"
  by (auto simp: drop_known_unsupported_model_candidates_def Let_def known_unsupported_keeps
      split: option.splits prod.splits)

lemma mark_key_inject:
  assumes "CHR 0x01 \<notin> set (trim a)" and "CHR 0x01 \<notin> set (trim a')"
  shows "mark_key a m = mark_key a' m' \<longleftrightarrow> trim a = trim a' \<and> trim m = trim m'"
proof
  assume e: "mark_key a m = mark_key a' m'"
  have t: "takeWhile (\<lambda>c. c \<noteq> CHR 0x01) (mark_key i n) = trim i" if "CHR 0x01 \<notin> set (trim i)" for i n
    unfolding mark_key_def using that by (subst takeWhile_append2) auto
  from t [OF assms(1), of m] t [OF assms(2), of m'] e have "trim a = trim a'" by simp
  with e show "trim a = trim a' \<and> trim m = trim m'" by (simp add: mark_key_def)
qed (simp add: mark_key_def)

section \<open>Properties\<close>

text \<open>
  C38: Marks are scoped. A rejection is learned exactly when it names the model the request
  was sent with, in one of the two wordings; then this account is known not to support this
  model until the time to live has passed, and what is known of every other account or model
  is unchanged. Without a matching rejection nothing changes.
\<close>

theorem model_marks_scoped:
  assumes "note_account_model_unsupported ttl a model message now marks = (learned, marks')"
    and "CHR 0x01 \<notin> set (trim a)" and "CHR 0x01 \<notin> set (trim a')"
  shows "(learned \<longleftrightarrow> (\<exists>m r. trimmed_nonempty model = Some m \<and> rejected_model message = Some r \<and> trim r = trim m))
    \<and> unsupported_at marks' t a' m' =
        (if learned \<and> trim a' = trim a \<and> trim a \<noteq> []
            \<and> Some (trim m') = map_option trim (trimmed_nonempty model) \<and> trim m' \<noteq> []
         then t < u64_saturating_add now ttl
         else unsupported_at marks t a' m')"
proof -
  have k: "mark_key a m = mark_key a' m' \<longleftrightarrow> trim a = trim a' \<and> trim m = trim m'" for m
    by (rule mark_key_inject [OF assms(2,3)])
  have k': "mark_key a' m' = mark_key a m \<longleftrightarrow> trim a = trim a' \<and> trim m = trim m'" for m
    using k [of m] by metis
  show ?thesis
    using assms(1) k'
    by (auto simp: note_account_model_unsupported_def mark_unsupported_with_ttl_def
        unsupported_at_iff split: option.splits if_splits)
qed

text \<open>
  C39: The filter of candidates. Candidates that are known not to support the model are
  dropped and the order of the rest is kept, unless that would leave none: then, and without
  a model, the pool stays as it is. A non-empty pool never becomes empty, and the filter
  leaves what is known from now on unchanged.
\<close>

theorem model_filter_correct:
  "fst (drop_known_unsupported_model_candidates model now cs marks) =
     (case trimmed_nonempty model of
        None \<Rightarrow> cs
      | Some m \<Rightarrow>
          if \<forall>c \<in> set cs. unsupported_at marks now (cand_id c) m then cs
          else filter (\<lambda>c. \<not> unsupported_at marks now (cand_id c) m) cs)
   \<and> (fst (drop_known_unsupported_model_candidates model now cs marks) = [] \<longleftrightarrow> cs = [])
   \<and> (\<forall>t a m. now \<le> t \<longrightarrow>
        unsupported_at (snd (drop_known_unsupported_model_candidates model now cs marks)) t a m
          = unsupported_at marks t a m)"
proof (cases "trimmed_nonempty model")
  case None
  then show ?thesis by (simp add: drop_known_unsupported_model_candidates_def)
next
  case (Some m)
  then show ?thesis
    using drop_filter_eq [OF Some, of now cs marks] drop_keeps_marks [where now = now and rm = model and cs = cs and marks = marks]
    by (auto simp: filter_empty_conv)
qed

subsection \<open>A concrete rejection\<close>

definition astra_rejection :: string where
  "astra_rejection = ''model gpt-6-astra is not supported for this account.''"

lemma astra_learned:
  "note_account_model_unsupported 1800 ''a'' (Some ''gpt-6-astra'') astra_rejection 1000 Map.empty
     = (True, [mark_key ''a'' ''gpt-6-astra'' \<mapsto> 2800])"
proof -
  have "trimmed_nonempty (Some ''gpt-6-astra'') = Some ''gpt-6-astra''"
    "rejected_model astra_rejection = Some ''gpt-6-astra''" "trim ''a'' = ''a''"
    "trim ''gpt-6-astra'' = ''gpt-6-astra''"
    by code_simp+
  then show ?thesis
    by (simp add: note_account_model_unsupported_def mark_unsupported_with_ttl_def
        u64_saturating_add_def u64_max_def)
qed

theorem model_marks_scoped_witness:
  "unsupported_at [mark_key ''a'' ''gpt-6-astra'' \<mapsto> 2800] 2799 ''a'' ''gpt-6-astra''
   \<and> \<not> unsupported_at [mark_key ''a'' ''gpt-6-astra'' \<mapsto> 2800] 2800 ''a'' ''gpt-6-astra''"
proof -
  have f: "trimmed_nonempty (Some ''gpt-6-astra'') = Some ''gpt-6-astra''" "trim ''a'' = ''a''"
    "trim ''gpt-6-astra'' = ''gpt-6-astra''" "CHR 0x01 \<notin> set (trim ''a'')"
    by code_simp+
  from model_marks_scoped [OF astra_learned f(4,4), where m' = "''gpt-6-astra''"] f(1-3) show ?thesis
    by (simp add: u64_saturating_add_def u64_max_def)
qed

theorem model_filter_correct_witness:
  "fst (drop_known_unsupported_model_candidates (Some ''gpt-6-astra'') 1500
      [candidate_named ''a'', candidate_named ''b''] [mark_key ''a'' ''gpt-6-astra'' \<mapsto> 2800])
   = [candidate_named ''b'']"
proof -
  have f: "trimmed_nonempty (Some ''gpt-6-astra'') = Some ''gpt-6-astra''" "trim ''a'' = ''a''"
    "trim ''gpt-6-astra'' = ''gpt-6-astra''" "mark_key ''b'' ''gpt-6-astra'' \<noteq> mark_key ''a'' ''gpt-6-astra''"
    by code_simp+
  show ?thesis
    using model_filter_correct [of "Some ''gpt-6-astra''" 1500
        "[candidate_named ''a'', candidate_named ''b'']" "[mark_key ''a'' ''gpt-6-astra'' \<mapsto> 2800]"] f
    by (simp add: unsupported_at_iff)
qed

end
