(* ===== verification/Cooldown.thy ===== *)
theory Cooldown
  imports SweptStore
begin

text \<open>
  The account cooldown table, \<open>gateway/routing/cooldown.rs\<close>: per account the time until
  which it is out of rotation, and the count and time of its recent rate limits, which
  choose the step of the escalation ladder. The mutex-guarded static becomes a state
  that each operation takes and returns; \<open>now_ts()\<close> becomes an argument.
\<close>

section \<open>State and operations\<close>

datatype cooldown_reason =
    Default | Network | RateLimited | Upstream5xx | Upstream4xx | Challenge | AnthropicChallenge

record cooldown_state =
  cd_entries :: "string \<rightharpoonup> int"
  cd_offense_counts :: "string \<rightharpoonup> nat"
  cd_offense_last_at :: "string \<rightharpoonup> int"
  cd_last_cleanup_at :: int

definition cooldown_default :: cooldown_state where
  "cooldown_default =
     \<lparr>cd_entries = Map.empty, cd_offense_counts = Map.empty, cd_offense_last_at = Map.empty,
      cd_last_cleanup_at = 0\<rparr>"

definition rate_limit_ladder :: "int list" where
  "rate_limit_ladder = [45, 300, 1800, 7200]"

definition offense_forget_after :: int where "offense_forget_after = 30 * 60"
definition cooldown_cleanup_interval :: int where "cooldown_cleanup_interval = 30"

fun cooldown_secs_for_reason :: "cooldown_reason \<Rightarrow> int" where
  "cooldown_secs_for_reason Default = 20"
| "cooldown_secs_for_reason Network = 20"
| "cooldown_secs_for_reason RateLimited = 45"
| "cooldown_secs_for_reason Upstream5xx = 30"
| "cooldown_secs_for_reason Upstream4xx = 20"
| "cooldown_secs_for_reason Challenge = 6"
| "cooldown_secs_for_reason AnthropicChallenge = 60"

definition rate_limit_cooldown_secs_for_offense :: "nat \<Rightarrow> int" where
  "rate_limit_cooldown_secs_for_offense offense_count =
     rate_limit_ladder ! min (offense_count - 1) (length rate_limit_ladder - 1)"

text \<open>The new offence maps and the length of the cooldown.\<close>

definition cooldown_secs_for_mark ::
  "(string \<rightharpoonup> nat) \<Rightarrow> (string \<rightharpoonup> int) \<Rightarrow> string \<Rightarrow> cooldown_reason \<Rightarrow> int \<Rightarrow>
   (string \<rightharpoonup> nat) \<times> (string \<rightharpoonup> int) \<times> int" where
  "cooldown_secs_for_mark counts lasts account_id reason now =
     (case reason of
        RateLimited \<Rightarrow>
          (let counts1 =
             (case lasts account_id of
                None \<Rightarrow> counts
              | Some l \<Rightarrow> if offense_forget_after < i64_saturating_sub now l
                          then map_remove account_id counts else counts);
             offense_count =
               (case counts1 account_id of None \<Rightarrow> 1 | Some c \<Rightarrow> u32_saturating_add c 1)
           in (counts1(account_id \<mapsto> offense_count), lasts(account_id \<mapsto> now),
               rate_limit_cooldown_secs_for_offense offense_count))
      | _ \<Rightarrow> (counts, lasts, cooldown_secs_for_reason reason))"

definition decay_offense_count_for_success ::
  "(string \<rightharpoonup> nat) \<Rightarrow> (string \<rightharpoonup> int) \<Rightarrow> string \<Rightarrow> (string \<rightharpoonup> nat) \<times> (string \<rightharpoonup> int)" where
  "decay_offense_count_for_success counts lasts account_id =
     (case counts account_id of
        None \<Rightarrow> (counts, lasts)
      | Some c \<Rightarrow>
          if c \<le> 1 then (map_remove account_id counts, map_remove account_id lasts)
          else (counts(account_id \<mapsto> c - 1), lasts))"

definition cooldown_reason_for_status :: "nat \<Rightarrow> cooldown_reason" where
  "cooldown_reason_for_status status =
     (if status = 429 then RateLimited
      else if 500 \<le> status \<and> status \<le> 599 then Upstream5xx
      else if status = 401 \<or> status = 403 then Challenge
      else if 400 \<le> status \<and> status \<le> 499 then Upstream4xx
      else Default)"

definition maybe_cleanup_expired_cooldowns :: "int \<Rightarrow> cooldown_state \<Rightarrow> cooldown_state" where
  "maybe_cleanup_expired_cooldowns now s =
     (if cd_last_cleanup_at s \<noteq> 0
         \<and> i64_saturating_sub now (cd_last_cleanup_at s) < cooldown_cleanup_interval
      then s
      else
        let stale = (\<lambda>k. case cd_offense_last_at s k of
                            None \<Rightarrow> False
                          | Some l \<Rightarrow> offense_forget_after < i64_saturating_sub now l)
        in s\<lparr>cd_last_cleanup_at := now,
             cd_entries := retain_map (\<lambda>_ until. now < until) (cd_entries s),
             cd_offense_last_at := retain_map (\<lambda>k _. \<not> stale k) (cd_offense_last_at s),
             cd_offense_counts := retain_map (\<lambda>k _. \<not> stale k) (cd_offense_counts s)\<rparr>)"

definition is_account_in_cooldown :: "string \<Rightarrow> int \<Rightarrow> cooldown_state \<Rightarrow> bool \<times> cooldown_state" where
  "is_account_in_cooldown account_id now s =
     (case cd_entries s account_id of
        Some until \<Rightarrow>
          if now < until then (True, s)
          else (False, s\<lparr>cd_entries := map_remove account_id (cd_entries s)\<rparr>)
      | None \<Rightarrow> (False, s))"

definition mark_account_cooldown ::
  "string \<Rightarrow> cooldown_reason \<Rightarrow> int \<Rightarrow> cooldown_state \<Rightarrow> cooldown_state" where
  "mark_account_cooldown account_id reason now s =
     (let s1 = maybe_cleanup_expired_cooldowns now s;
          (counts, lasts, secs) =
            cooldown_secs_for_mark (cd_offense_counts s1) (cd_offense_last_at s1) account_id reason now;
          cooldown_until = now + secs
      in s1\<lparr>cd_offense_counts := counts, cd_offense_last_at := lasts,
            cd_entries :=
              (case cd_entries s1 account_id of
                 Some until \<Rightarrow>
                   if until < cooldown_until then (cd_entries s1)(account_id \<mapsto> cooldown_until)
                   else cd_entries s1
               | None \<Rightarrow> (cd_entries s1)(account_id \<mapsto> cooldown_until))\<rparr>)"

definition mark_account_cooldown_for_status ::
  "string \<Rightarrow> nat \<Rightarrow> int \<Rightarrow> cooldown_state \<Rightarrow> cooldown_state" where
  "mark_account_cooldown_for_status account_id status now s =
     mark_account_cooldown account_id (cooldown_reason_for_status status) now s"

definition clear_account_cooldown :: "string \<Rightarrow> cooldown_state \<Rightarrow> cooldown_state" where
  "clear_account_cooldown account_id s =
     (let (counts, lasts) =
            decay_offense_count_for_success (cd_offense_counts s) (cd_offense_last_at s) account_id
      in s\<lparr>cd_entries := map_remove account_id (cd_entries s),
           cd_offense_counts := counts, cd_offense_last_at := lasts\<rparr>)"

definition cooldown_clear_runtime_state :: "cooldown_state \<Rightarrow> cooldown_state" where
  "cooldown_clear_runtime_state s =
     s\<lparr>cd_entries := Map.empty, cd_offense_counts := Map.empty, cd_offense_last_at := Map.empty,
       cd_last_cleanup_at := 0\<rparr>"

lemmas cooldown_ops =
  mark_account_cooldown_def mark_account_cooldown_for_status_def clear_account_cooldown_def
  is_account_in_cooldown_def cooldown_clear_runtime_state_def

section \<open>Lemmas\<close>

text \<open>What the router asks: is the account out of rotation at time \<open>t\<close>?\<close>

abbreviation cooling :: "cooldown_state \<Rightarrow> int \<Rightarrow> string \<Rightarrow> bool" where
  "cooling s t a \<equiv> fst (is_account_in_cooldown a t s)"

lemma cooling_iff: "cooling s t a \<longleftrightarrow> (\<exists>u. cd_entries s a = Some u \<and> t < u)"
  by (auto simp: is_account_in_cooldown_def split: option.splits)

lemma cooldown_secs_for_reason_pos: "0 < cooldown_secs_for_reason r"
  by (cases r) auto

lemma rate_limit_secs_range:
  "45 \<le> rate_limit_cooldown_secs_for_offense n \<and> rate_limit_cooldown_secs_for_offense n \<le> 7200"
proof -
  have "min (n - 1) 3 \<in> {0, 1, 2, 3}" by auto
  then show ?thesis
    by (auto simp: rate_limit_cooldown_secs_for_offense_def rate_limit_ladder_def)
qed

lemma rate_limit_secs_mono:
  assumes "m \<le> n"
  shows "rate_limit_cooldown_secs_for_offense m \<le> rate_limit_cooldown_secs_for_offense n"
proof -
  have "min (m - 1) 3 \<in> {0, 1, 2, 3}" "min (n - 1) 3 \<in> {0, 1, 2, 3}" by auto
  moreover have "min (m - 1) 3 \<le> min (n - 1) (3 :: nat)" using assms by auto
  ultimately show ?thesis
    by (auto simp: rate_limit_cooldown_secs_for_offense_def rate_limit_ladder_def)
qed

subsection \<open>Sweeps\<close>

lemma cooling_cleanup:
  "now \<le> t \<Longrightarrow> cooling (maybe_cleanup_expired_cooldowns now s) t a = cooling s t a"
  by (auto simp: cooling_iff maybe_cleanup_expired_cooldowns_def Let_def)

lemma cleanup_keeps_recent_offense:
  assumes "cd_offense_last_at s a = Some l" and "i64_saturating_sub now l \<le> offense_forget_after"
  shows "cd_offense_last_at (maybe_cleanup_expired_cooldowns now s) a = Some l
    \<and> cd_offense_counts (maybe_cleanup_expired_cooldowns now s) a = cd_offense_counts s a"
proof -
  have "retain_map (\<lambda>k _. \<not> P k) (cd_offense_counts s) a = cd_offense_counts s a"
    if "\<not> P a" for P
    using that by (simp add: retain_map_def split: option.splits)
  with assms show ?thesis
    by (simp add: maybe_cleanup_expired_cooldowns_def Let_def)
qed

lemma cleanup_keeps_no_offense:
  "cd_offense_counts s a = None \<Longrightarrow>
   cd_offense_counts (maybe_cleanup_expired_cooldowns now s) a = None"
  by (simp add: maybe_cleanup_expired_cooldowns_def Let_def)

subsection \<open>Marks and clears\<close>

lemma cooldown_secs_for_mark_frame:
  assumes "cooldown_secs_for_mark counts lasts a r now = (counts', lasts', secs)" and "k \<noteq> a"
  shows "counts' k = counts k \<and> lasts' k = lasts k"
  using assms
  by (auto simp: cooldown_secs_for_mark_def Let_def split: cooldown_reason.splits option.splits if_splits)

lemma cooldown_secs_for_mark_pos:
  assumes "cooldown_secs_for_mark counts lasts a r now = (counts', lasts', secs)"
  shows "0 < secs"
proof -
  have "0 < rate_limit_cooldown_secs_for_offense n" for n
    using rate_limit_secs_range [of n] by linarith
  then show ?thesis
    using assms cooldown_secs_for_reason_pos
    by (auto simp: cooldown_secs_for_mark_def Let_def split: cooldown_reason.splits)
qed

text \<open>The length of the cooldown a mark asks for, in the state it finds.\<close>

abbreviation mark_secs :: "string \<Rightarrow> cooldown_reason \<Rightarrow> int \<Rightarrow> cooldown_state \<Rightarrow> int" where
  "mark_secs a r now s \<equiv>
     (let s1 = maybe_cleanup_expired_cooldowns now s
      in snd (snd (cooldown_secs_for_mark (cd_offense_counts s1) (cd_offense_last_at s1) a r now)))"

lemma cooling_mark:
  assumes "now \<le> t"
  shows "cooling (mark_account_cooldown a r now s) t k \<longleftrightarrow>
    (k = a \<and> t < now + mark_secs a r now s) \<or> cooling s t k"
proof -
  let ?s1 = "maybe_cleanup_expired_cooldowns now s"
  obtain counts lasts secs where e:
    "cooldown_secs_for_mark (cd_offense_counts ?s1) (cd_offense_last_at ?s1) a r now
       = (counts, lasts, secs)"
    by (metis prod_cases3)
  have "cooling (mark_account_cooldown a r now s) t k \<longleftrightarrow>
      (k = a \<and> t < now + secs) \<or> cooling ?s1 t k"
    by (auto simp: cooling_iff mark_account_cooldown_def e Let_def split: option.splits)
  then show ?thesis
    using assms by (simp add: cooling_cleanup e Let_def)
qed

lemma cooling_clear: "cooling (clear_account_cooldown a s) t k \<longleftrightarrow> k \<noteq> a \<and> cooling s t k"
  by (auto simp: cooling_iff clear_account_cooldown_def split: prod.splits)

lemma cooling_query:
  "now \<le> t \<Longrightarrow> cooling (snd (is_account_in_cooldown a now s)) t k = cooling s t k"
  by (auto simp: cooling_iff is_account_in_cooldown_def split: option.splits)

subsection \<open>The operations as one interface\<close>

datatype cooldown_op = MarkReason cooldown_reason | MarkStatus nat | ClearOnSuccess | Query

fun apply_cooldown_op :: "string \<Rightarrow> cooldown_op \<Rightarrow> int \<Rightarrow> cooldown_state \<Rightarrow> cooldown_state" where
  "apply_cooldown_op a (MarkReason r) now s = mark_account_cooldown a r now s"
| "apply_cooldown_op a (MarkStatus st) now s = mark_account_cooldown_for_status a st now s"
| "apply_cooldown_op a ClearOnSuccess now s = clear_account_cooldown a s"
| "apply_cooldown_op a Query now s = snd (is_account_in_cooldown a now s)"

lemma cooling_op_other:
  "a \<noteq> k \<Longrightarrow> now \<le> t \<Longrightarrow> cooling (apply_cooldown_op a x now s) t k = cooling s t k"
  by (cases x)
    (simp_all add: cooling_mark cooling_clear cooling_query mark_account_cooldown_for_status_def)

interpretation cooldown: keyed_store maybe_cleanup_expired_cooldowns cooling apply_cooldown_op
  by unfold_locales (fact cooling_cleanup, erule (1) cooling_op_other)

section \<open>Invariant: every offence count carries the time it may be forgotten at\<close>

definition cooldown_wf :: "cooldown_state \<Rightarrow> bool" where
  "cooldown_wf s \<longleftrightarrow>
     dom (cd_offense_counts s) = dom (cd_offense_last_at s) \<and>
     (\<forall>a c. cd_offense_counts s a = Some c \<longrightarrow> 1 \<le> c \<and> c \<le> u32_max)"

lemma cooldown_wf_default: "cooldown_wf cooldown_default"
  by (simp add: cooldown_wf_def cooldown_default_def)

lemma cooldown_wf_cleanup: "cooldown_wf s \<Longrightarrow> cooldown_wf (maybe_cleanup_expired_cooldowns now s)"
proof -
  have dom_retain: "dom (retain_map (\<lambda>k _. P k) m) = {k \<in> dom m. P k}"
    for P and m :: "string \<rightharpoonup> 'b"
    by (auto simp: dom_def)
  assume "cooldown_wf s"
  then show ?thesis
    by (auto simp: cooldown_wf_def maybe_cleanup_expired_cooldowns_def Let_def dom_retain)
qed

lemma cooldown_secs_for_mark_wf:
  assumes "dom counts = dom lasts" and "\<forall>a c. counts a = Some c \<longrightarrow> 1 \<le> c \<and> c \<le> u32_max"
    and "cooldown_secs_for_mark counts lasts a r now = (counts', lasts', secs)"
  shows "dom counts' = dom lasts' \<and> (\<forall>a c. counts' a = Some c \<longrightarrow> 1 \<le> c \<and> c \<le> u32_max)"
proof -
  have "1 \<le> u32_max" by (simp add: u32_max_def)
  then have sat: "\<And>c. 1 \<le> u32_saturating_add c 1 \<and> u32_saturating_add c 1 \<le> u32_max"
    by (simp add: u32_saturating_add_def)
  have "counts' k = None \<longleftrightarrow> lasts' k = None" for k
  proof (cases "k = a")
    case True
    have "counts a = None \<longleftrightarrow> lasts a = None"
      using assms(1) by (metis domIff)
    then show ?thesis using True assms(3)
      by (cases r) (auto simp: cooldown_secs_for_mark_def Let_def)
  next
    case False
    then show ?thesis
      using assms(1) cooldown_secs_for_mark_frame [OF assms(3)] by (metis domIff)
  qed
  then have "dom counts' = dom lasts'" by (simp add: dom_def)
  moreover have "\<forall>x c. counts' x = Some c \<longrightarrow> 1 \<le> c \<and> c \<le> u32_max"
  proof (intro allI impI)
    fix x c assume c: "counts' x = Some c"
    show "1 \<le> c \<and> c \<le> u32_max"
    proof (cases "x = a \<and> r = RateLimited")
      case True
      with c assms(3) sat \<open>1 \<le> u32_max\<close> show ?thesis
        by (auto simp: cooldown_secs_for_mark_def Let_def split: option.splits)
    next
      case False
      then have "counts' x = counts x"
        using assms(3) by (cases r) (auto simp: cooldown_secs_for_mark_def Let_def map_remove_def split: option.splits)
      with c assms(2) show ?thesis by simp
    qed
  qed
  ultimately show ?thesis by blast
qed

lemma cooldown_wf_mark: "cooldown_wf s \<Longrightarrow> cooldown_wf (mark_account_cooldown a r now s)"
proof -
  assume "cooldown_wf s"
  then have wf1: "cooldown_wf (maybe_cleanup_expired_cooldowns now s)" (is "cooldown_wf ?s1")
    by (rule cooldown_wf_cleanup)
  obtain counts lasts secs where e:
    "cooldown_secs_for_mark (cd_offense_counts ?s1) (cd_offense_last_at ?s1) a r now
       = (counts, lasts, secs)"
    by (metis prod_cases3)
  from cooldown_secs_for_mark_wf [OF _ _ e] wf1 show ?thesis
    by (simp add: cooldown_wf_def mark_account_cooldown_def e Let_def)
qed

lemma cooldown_wf_clear: "cooldown_wf s \<Longrightarrow> cooldown_wf (clear_account_cooldown a s)"
proof -
  assume "cooldown_wf s"
  moreover have "c \<le> u32_max \<Longrightarrow> c - Suc 0 \<le> u32_max" for c by simp
  ultimately show ?thesis
    by (auto simp: cooldown_wf_def clear_account_cooldown_def decay_offense_count_for_success_def
        map_remove_def split: option.splits if_splits)
qed

lemma cooldown_wf_query: "cooldown_wf s \<Longrightarrow> cooldown_wf (snd (is_account_in_cooldown a now s))"
  by (auto simp: cooldown_wf_def is_account_in_cooldown_def split: option.splits)

lemma cooldown_wf_reset: "cooldown_wf (cooldown_clear_runtime_state s)"
  by (simp add: cooldown_wf_def cooldown_clear_runtime_state_def)

lemma cooldown_wf_op: "cooldown_wf s \<Longrightarrow> cooldown_wf (apply_cooldown_op a x now s)"
  by (cases x)
    (simp_all add: cooldown_wf_mark cooldown_wf_clear cooldown_wf_query
      mark_account_cooldown_for_status_def)


lemma cooldown_wf_schedule: "cooldown_wf s \<Longrightarrow> cooldown_wf (run_schedule apply_cooldown_op es s)"
  by (rule run_schedule_invariant) (rule cooldown_wf_op)

section \<open>Escalation under a storm of rate limits\<close>

text \<open>
  \<open>rate_limit_storm a l es\<close>: in the schedule \<open>es\<close>, run after a rate limit of \<open>a\<close> at time
  \<open>l\<close>, no operation happens more than the forgetting time after the latest rate limit of
  \<open>a\<close>, and no request succeeds on \<open>a\<close>. Operations on other accounts, other failures of
  \<open>a\<close> and questions about it may be interleaved as they like.
\<close>

definition is_rate_limit :: "cooldown_op \<Rightarrow> bool" where
  "is_rate_limit x \<longleftrightarrow>
     (case x of MarkReason r \<Rightarrow> r = RateLimited | MarkStatus st \<Rightarrow> st = 429 | _ \<Rightarrow> False)"

fun rate_limit_storm :: "string \<Rightarrow> int \<Rightarrow> (string \<times> cooldown_op \<times> int) list \<Rightarrow> bool" where
  "rate_limit_storm a l [] \<longleftrightarrow> True"
| "rate_limit_storm a l ((k, x, now) # es) \<longleftrightarrow>
     l \<le> now \<and> now - l \<le> offense_forget_after \<and> (k = a \<longrightarrow> x \<noteq> ClearOnSuccess) \<and>
     rate_limit_storm a (if k = a \<and> is_rate_limit x then now else l) es"

fun latest_rate_limit :: "string \<Rightarrow> int \<Rightarrow> (string \<times> cooldown_op \<times> int) list \<Rightarrow> int" where
  "latest_rate_limit a l [] = l"
| "latest_rate_limit a l ((k, x, now) # es) =
     latest_rate_limit a (if k = a \<and> is_rate_limit x then now else l) es"

fun count_rate_limits :: "string \<Rightarrow> (string \<times> cooldown_op \<times> int) list \<Rightarrow> nat" where
  "count_rate_limits a [] = 0"
| "count_rate_limits a ((k, x, now) # es) =
     (if k = a \<and> is_rate_limit x then 1 else 0) + count_rate_limits a es"

lemma reason_429 [simp]: "cooldown_reason_for_status st = RateLimited \<longleftrightarrow> st = 429"
  by (simp add: cooldown_reason_for_status_def)

lemma recent_not_stale:
  "now - l \<le> offense_forget_after \<Longrightarrow> \<not> offense_forget_after < i64_saturating_sub now l"
  by (auto simp: i64_saturating_sub_def offense_forget_after_def i64_min_def)

lemma mark_rate_limit_recent:
  assumes "cd_offense_counts s a = Some n" and "cd_offense_last_at s a = Some l"
    and "now - l \<le> offense_forget_after"
  shows "cd_offense_counts (mark_account_cooldown a RateLimited now s) a = Some (u32_saturating_add n 1)
    \<and> cd_offense_last_at (mark_account_cooldown a RateLimited now s) a = Some now
    \<and> mark_secs a RateLimited now s = rate_limit_cooldown_secs_for_offense (u32_saturating_add n 1)"
proof -
  note stale = recent_not_stale [OF assms(3)]
  have "cd_offense_counts (maybe_cleanup_expired_cooldowns now s) a = Some n
      \<and> cd_offense_last_at (maybe_cleanup_expired_cooldowns now s) a = Some l"
    using cleanup_keeps_recent_offense [OF assms(2)] stale assms(1) by simp
  then show ?thesis
    using stale by (simp add: mark_account_cooldown_def cooldown_secs_for_mark_def Let_def)
qed

lemma mark_keeps_offense:
  assumes "cd_offense_counts s a = Some n" and "cd_offense_last_at s a = Some l"
    and "now - l \<le> offense_forget_after" and "k \<noteq> a \<or> r \<noteq> RateLimited"
  shows "cd_offense_counts (mark_account_cooldown k r now s) a = Some n
    \<and> cd_offense_last_at (mark_account_cooldown k r now s) a = Some l"
proof -
  let ?s1 = "maybe_cleanup_expired_cooldowns now s"
  have kept: "cd_offense_counts ?s1 a = Some n \<and> cd_offense_last_at ?s1 a = Some l"
    using cleanup_keeps_recent_offense [OF assms(2)] recent_not_stale [OF assms(3)] assms(1)
    by simp
  obtain counts lasts secs where e:
    "cooldown_secs_for_mark (cd_offense_counts ?s1) (cd_offense_last_at ?s1) k r now
       = (counts, lasts, secs)"
    by (metis prod_cases3)
  have "counts a = cd_offense_counts ?s1 a \<and> lasts a = cd_offense_last_at ?s1 a"
  proof (cases "k = a")
    case True
    then show ?thesis using e assms(4) by (cases r) (auto simp: cooldown_secs_for_mark_def)
  qed (use cooldown_secs_for_mark_frame [OF e] in auto)
  with kept show ?thesis by (simp add: mark_account_cooldown_def e Let_def)
qed

lemma op_keeps_offense:
  assumes "cd_offense_counts s a = Some n" and "cd_offense_last_at s a = Some l"
    and "now - l \<le> offense_forget_after" and "k = a \<longrightarrow> x \<noteq> ClearOnSuccess \<and> \<not> is_rate_limit x"
  shows "cd_offense_counts (apply_cooldown_op k x now s) a = Some n
    \<and> cd_offense_last_at (apply_cooldown_op k x now s) a = Some l"
proof (cases x)
  case (MarkReason r)
  then show ?thesis
    using mark_keeps_offense [OF assms(1-3)] assms(4) by (auto simp: is_rate_limit_def)
next
  case (MarkStatus st)
  then show ?thesis
    using mark_keeps_offense [OF assms(1-3)] assms(4)
    by (auto simp: is_rate_limit_def mark_account_cooldown_for_status_def)
next
  case ClearOnSuccess
  then show ?thesis using assms
    by (auto simp: clear_account_cooldown_def decay_offense_count_for_success_def
        split: option.splits)
next
  case Query
  then show ?thesis using assms by (auto simp: is_account_in_cooldown_def split: option.splits)
qed

lemma op_keeps_cooling:
  assumes "cooling s t a" and "now \<le> t" and "k = a \<longrightarrow> x \<noteq> ClearOnSuccess"
  shows "cooling (apply_cooldown_op k x now s) t a"
  using assms cooling_query [where now = now and t = t and a = k and s = s and k = a]
  by (cases x) (auto simp: cooling_mark cooling_clear mark_account_cooldown_for_status_def
      simp del: fst_conv)

lemma rate_limit_op:
  "is_rate_limit x \<Longrightarrow> apply_cooldown_op a x now s = mark_account_cooldown a RateLimited now s"
  by (cases x) (auto simp: is_rate_limit_def mark_account_cooldown_for_status_def
      cooldown_reason_for_status_def)

lemma storm_from:
  assumes "cd_offense_counts s a = Some n" and "cd_offense_last_at s a = Some l"
    and "rate_limit_storm a l es" and "n + count_rate_limits a es \<le> u32_max"
    and "\<forall>(k, x, now)\<in>set es. now \<le> t"
    and "t < l + rate_limit_cooldown_secs_for_offense n \<longrightarrow> cooling s t a"
  shows "cd_offense_counts (run_schedule apply_cooldown_op es s) a = Some (n + count_rate_limits a es)
    \<and> (t < latest_rate_limit a l es + rate_limit_cooldown_secs_for_offense (n + count_rate_limits a es)
        \<longrightarrow> cooling (run_schedule apply_cooldown_op es s) t a)"
  using assms
proof (induction a l es arbitrary: s n rule: rate_limit_storm.induct)
  case (1 a l)
  then show ?case by simp
next
  case (2 a l k x now es)
  have recent: "now - l \<le> offense_forget_after" and now: "now \<le> t"
    and rest: "\<forall>(k, x, now)\<in>set es. now \<le> t"
    using 2(4,6) by auto
  show ?case
  proof (cases "k = a \<and> is_rate_limit x")
    case True
    let ?s = "mark_account_cooldown a RateLimited now s"
    have op: "apply_cooldown_op k x now s = ?s" using True rate_limit_op by simp
    have sat: "u32_saturating_add n 1 = n + 1"
      using 2(5) True by (simp add: u32_saturating_add_exact)
    note m = mark_rate_limit_recent [OF 2(2,3) recent, unfolded sat]
    have cool: "t < now + rate_limit_cooldown_secs_for_offense (n + 1) \<longrightarrow> cooling ?s t a"
      using m now by (simp only: cooling_mark) simp
    have "rate_limit_storm a (if k = a \<and> is_rate_limit x then now else l) es"
      "(n + 1) + count_rate_limits a es \<le> u32_max"
      using 2(4,5) True by auto
    from 2(1) [of ?s "n + 1", OF _ _ this rest] m cool True op show ?thesis by simp
  next
    case False
    let ?s = "apply_cooldown_op k x now s"
    have kept: "cd_offense_counts ?s a = Some n" "cd_offense_last_at ?s a = Some l"
      using op_keeps_offense [OF 2(2,3) recent] False 2(4) by auto
    have cool: "t < l + rate_limit_cooldown_secs_for_offense n \<longrightarrow> cooling ?s t a"
      using 2(4,7) now op_keeps_cooling [where s = s and t = t and a = a and now = now and k = k and x = x] by auto
    have "rate_limit_storm a (if k = a \<and> is_rate_limit x then now else l) es"
      "n + count_rate_limits a es \<le> u32_max"
      using 2(4,5) False by auto
    from 2(1) [of ?s n, OF _ _ this rest] kept cool False show ?thesis by auto
  qed
qed

lemma clears_forgive:
  assumes "cd_offense_counts s a = Some c" and "1 \<le> c"
  shows "cd_offense_counts ((clear_account_cooldown a ^^ c) s) a = None
    \<and> cd_offense_last_at ((clear_account_cooldown a ^^ c) s) a = None
    \<and> \<not> cooling ((clear_account_cooldown a ^^ c) s) t a"
  using assms
proof (induction c arbitrary: s)
  case (Suc c)
  show ?case
  proof (cases "c = 0")
    case True
    with Suc(2) show ?thesis
      by (auto simp: clear_account_cooldown_def decay_offense_count_for_success_def
          is_account_in_cooldown_def)
  next
    case False
    then have "cd_offense_counts (clear_account_cooldown a s) a = Some c"
      using Suc(2) by (simp add: clear_account_cooldown_def decay_offense_count_for_success_def)
    from Suc.IH [OF this] False show ?thesis
      by (simp add: funpow_Suc_right del: funpow.simps)
  qed
qed simp

section \<open>Properties\<close>



text \<open>
  A failed response puts exactly its own account out of rotation, for the whole interval
  asked for, and never brings an account back: from the moment of the mark on, an account is
  cooling iff it is the marked one inside the new interval or it was cooling already. So a
  short cooldown cannot overwrite a longer one.
\<close>

lemma mark_extends_cooldown:
  assumes "now \<le> t"
  shows "cooling (mark_account_cooldown_for_status a st now s) t k \<longleftrightarrow>
    (k = a \<and> t < now + mark_secs a (cooldown_reason_for_status st) now s) \<or> cooling s t k"
  unfolding mark_account_cooldown_for_status_def using assms by (rule cooling_mark)

text \<open>
  Accounts do not interfere. Whatever operations run on other accounts before \<open>t\<close>, with
  all the sweeps of the whole table they trigger, an account is cooling at \<open>t\<close> exactly if it
  was before.
\<close>

lemma cooldown_isolation:
  assumes "\<forall>(k', x, now)\<in>set es. k' \<noteq> k \<and> now \<le> t"
  shows "cooling (run_schedule apply_cooldown_op es s) t k = cooling s t k"
  using assms by (rule cooldown.observe_schedule_others)

text \<open>
  C36: in every state the table can reach, an account has an offence count iff it has the time
  after which that count is forgotten, and the count is at least one and within \<open>u32\<close>: a
  stale count that no sweep can ever drop does not exist. Forgiveness is complete: after as
  many successes as the count, the account carries no offence and is in rotation.
\<close>

theorem cooldown_table_invariant:
  "cooldown_wf (run_schedule apply_cooldown_op es cooldown_default)
   \<and> (case cd_offense_counts (run_schedule apply_cooldown_op es cooldown_default) a of
        None \<Rightarrow> cd_offense_last_at (run_schedule apply_cooldown_op es cooldown_default) a = None
      | Some c \<Rightarrow>
          (let s' = (clear_account_cooldown a ^^ c) (run_schedule apply_cooldown_op es cooldown_default)
           in cd_offense_counts s' a = None \<and> cd_offense_last_at s' a = None \<and> \<not> cooling s' t a))"
proof -
  have wf: "cooldown_wf (run_schedule apply_cooldown_op es cooldown_default)" (is "cooldown_wf ?s")
    by (rule cooldown_wf_schedule) (rule cooldown_wf_default)
  then have "cd_offense_counts ?s a = None \<Longrightarrow> cd_offense_last_at ?s a = None"
    by (metis cooldown_wf_def domIff)
  moreover have "cd_offense_counts ?s a = Some c \<Longrightarrow> 1 \<le> c" for c
    using wf by (auto simp: cooldown_wf_def)
  ultimately show ?thesis
    using wf clears_forgive [of ?s a _ t] by (auto simp: Let_def split: option.splits)
qed

end
