(* ===== verification/Inflight.thy ===== *)
theory Inflight
  imports ModelSupport Cooldown
begin

text \<open>
  Requests in flight per account (\<open>gateway/observability/metrics.rs\<close>) and the decision to
  skip a candidate (\<open>gateway/upstream/support/candidates.rs\<close>). A guard is the name of its
  account; dropping it takes the count down.
\<close>

section \<open>The counters\<close>

type_synonym inflight_map = "string \<rightharpoonup> nat"

definition account_inflight_count :: "string \<Rightarrow> inflight_map \<Rightarrow> nat" where
  "account_inflight_count account_id m = (case m account_id of Some n \<Rightarrow> n | None \<Rightarrow> 0)"

definition acquire_account_inflight :: "string \<Rightarrow> inflight_map \<Rightarrow> string \<times> inflight_map" where
  "acquire_account_inflight account_id m =
     (account_id, m(account_id \<mapsto> (case m account_id of Some n \<Rightarrow> n | None \<Rightarrow> 0) + 1))"

definition drop_account_inflight :: "string \<Rightarrow> inflight_map \<Rightarrow> inflight_map" where
  "drop_account_inflight guard m =
     (case m guard of
        Some n \<Rightarrow> if 1 < n then m(guard \<mapsto> n - 1) else map_remove guard m
      | None \<Rightarrow> m)"

text \<open>
  The guards alive in any interleaving of requests: each acquisition adds one, and only a
  guard that is alive can be dropped, once.
\<close>

inductive inflight_reachable :: "inflight_map \<Rightarrow> string multiset \<Rightarrow> bool" where
  inflight_start: "inflight_reachable Map.empty {#}"
| inflight_acquire: "inflight_reachable m gs \<Longrightarrow> acquire_account_inflight a m = (g, m') \<Longrightarrow>
    inflight_reachable m' (add_mset g gs)"
| inflight_drop: "inflight_reachable m gs \<Longrightarrow> g \<in># gs \<Longrightarrow>
    inflight_reachable (drop_account_inflight g m) (gs - {#g#})"

lemma inflight_counts:
  "inflight_reachable m gs \<Longrightarrow> m a = (if a \<in># gs then Some (count gs a) else None)"
proof (induction arbitrary: a rule: inflight_reachable.induct)
  case inflight_start
  then show ?case by simp
next
  case (inflight_acquire m gs b g m')
  then have "g = b" "m' = m(b \<mapsto> count gs b + 1)"
    by (auto simp: acquire_account_inflight_def not_in_iff split: if_splits)
  then show ?case using inflight_acquire.IH [of a] by (auto simp: not_in_iff)
next
  case (inflight_drop m gs g)
  have g: "m g = Some (count gs g)" using inflight_drop by simp
  have pos: "1 \<le> count gs g" using inflight_drop.hyps(2) by (simp add: Suc_le_eq)
  show ?case
  proof (cases "1 < count gs g")
    case True
    then have "g \<in># gs - {#g#}" by (simp add: in_diff_count)
    then show ?thesis
      using True g inflight_drop.IH [of a]
      by (auto simp: drop_account_inflight_def in_diff_count)
  next
    case False
    with pos have one: "count gs g = 1" by linarith
    then have "g \<notin># gs - {#g#}" by (simp add: in_diff_count)
    then show ?thesis
      using one g inflight_drop.IH [of a]
      by (auto simp: drop_account_inflight_def in_diff_count)
  qed
qed

section \<open>Skipping a candidate\<close>

datatype candidate_skip_reason = SkipCooldown | SkipInflight

definition candidate_skip_reason_for_proxy ::
  "string \<Rightarrow> nat \<Rightarrow> nat \<Rightarrow> nat \<Rightarrow> bool \<Rightarrow> int \<Rightarrow> inflight_map \<Rightarrow> cooldown_state
    \<Rightarrow> candidate_skip_reason option \<times> cooldown_state" where
  "candidate_skip_reason_for_proxy account_id idx candidate_count account_max_inflight
     skip_last_cooldown now inflight s =
     (let has_more_candidates = idx + 1 < candidate_count;
          (cooling_now, s1) = is_account_in_cooldown account_id now s
      in if cooling_now \<and> (has_more_candidates \<or> skip_last_cooldown) then (Some SkipCooldown, s1)
         else if 0 < account_max_inflight
              \<and> account_max_inflight \<le> account_inflight_count account_id inflight
              \<and> has_more_candidates
         then (Some SkipInflight, s1)
         else (None, s1))"

lemma skip_cases:
  "fst (candidate_skip_reason_for_proxy a i n mx skip_last now infl s) =
     (if cooling s now a \<and> (i + 1 < n \<or> skip_last) then Some SkipCooldown
      else if 0 < mx \<and> mx \<le> account_inflight_count a infl \<and> i + 1 < n then Some SkipInflight
      else None)"
  by (cases "is_account_in_cooldown a now s")
    (simp add: candidate_skip_reason_for_proxy_def Let_def)

lemma skip_keeps_cooling:
  "now \<le> t \<Longrightarrow>
     cooling (snd (candidate_skip_reason_for_proxy a i n mx skip_last now infl s)) t k = cooling s t k"
  using cooling_query [where now = now and t = t and a = a and s = s and k = k]
  by (cases "is_account_in_cooldown a now s") (auto simp: candidate_skip_reason_for_proxy_def Let_def)

lemma skip_wf:
  "cooldown_wf s \<Longrightarrow> cooldown_wf (snd (candidate_skip_reason_for_proxy a i n mx skip_last now infl s))"
  using cooldown_wf_query [of s a now]
  by (cases "is_account_in_cooldown a now s") (auto simp: candidate_skip_reason_for_proxy_def Let_def)

section \<open>Properties\<close>



end
