(* ===== verification/ConversationRouting.thy ===== *)
theory ConversationRouting
  imports BindingStore RouteHint Inflight
begin

text \<open>
  Which account a conversation goes to (\<open>gateway/routing/conversation_binding.rs\<close>): the
  routing context of a request, the order of its candidates, the claim of a new conversation,
  the thread an attempt uses and what a response writes back. Storage calls succeed; the
  account preferred by hand and the hash are arguments; epochs stay in the range of 64 bits.
\<close>

section \<open>Sources and keys\<close>

datatype route_conversation_source =
    NativeConversation
  | StickyFallback
  | PromptCacheKey
  | PromptCacheKeyExistingOnly
  | SessionAffinity
  | SessionAffinityExistingOnly

definition is_cache_affinity :: "route_conversation_source \<Rightarrow> bool" where
  "is_cache_affinity src \<longleftrightarrow> src \<in> {PromptCacheKey, PromptCacheKeyExistingOnly, SessionAffinity, SessionAffinityExistingOnly}"

definition allows_initial_binding_create :: "route_conversation_source \<Rightarrow> bool" where
  "allows_initial_binding_create src \<longleftrightarrow> src \<notin> {PromptCacheKeyExistingOnly, SessionAffinityExistingOnly}"

datatype cache_affinity_key_source = KeyPromptCache | KeySessionId

fun cache_affinity_tag :: "cache_affinity_key_source \<Rightarrow> string" where
  "cache_affinity_tag KeyPromptCache = ''pck''"
| "cache_affinity_tag KeySessionId = ''sid''"

definition nul :: char where "nul = CHR 0x00"

definition cache_affinity_preimage ::
  "string \<Rightarrow> string \<Rightarrow> string option \<Rightarrow> cache_affinity_key_source \<Rightarrow> string \<Rightarrow> string" where
  "cache_affinity_preimage platform_key_hash protocol_type model src key_material =
     (let m = (case trimmed_nonempty model of Some x \<Rightarrow> x | None \<Rightarrow> ''-'')
      in ''cache-affinity:v2'' @ [nul] @ platform_key_hash @ [nul] @ protocol_type @ [nul] @ m @ [nul]
         @ cache_affinity_tag src @ [nul] @ trim key_material)"

definition hex_digit :: "nat \<Rightarrow> char" where
  "hex_digit n = (if n < 10 then char_of (48 + n) else char_of (87 + n))"

definition hex_byte :: "char \<Rightarrow> string" where
  "hex_byte c = [hex_digit ((of_char c :: nat) div 16), hex_digit ((of_char c :: nat) mod 16)]"

definition cache_affinity_route_id ::
  "(string \<Rightarrow> string) \<Rightarrow> string \<Rightarrow> string \<Rightarrow> string option \<Rightarrow> cache_affinity_key_source \<Rightarrow> string \<Rightarrow> string" where
  "cache_affinity_route_id sha256 platform_key_hash protocol_type model src key_material =
     (let digest = sha256 (cache_affinity_preimage platform_key_hash protocol_type model src key_material)
      in cache_affinity_tag src @ '':v2:'' @ concat (map hex_byte (take 16 digest)))"

section \<open>The routing context\<close>

record conversation_routing =
  cr_platform_key_hash :: string
  cr_conversation_id :: string
  cr_source :: route_conversation_source
  cr_existing_binding :: "conversation_binding option"
  cr_binding_selected :: bool
  cr_bound_account_selectable :: bool
  cr_manual_preferred_account_id :: "string option"
  cr_next_thread_epoch :: "int option"

abbreviation cr_key :: "conversation_routing \<Rightarrow> string \<times> string" where
  "cr_key r \<equiv> (cr_platform_key_hash r, cr_conversation_id r)"

definition load_conversation_binding ::
  "string \<Rightarrow> string option \<Rightarrow> binding_table \<Rightarrow> conversation_binding option" where
  "load_conversation_binding platform_key_hash conversation_id t =
     (case trimmed_nonempty conversation_id of
        None \<Rightarrow> None
      | Some c \<Rightarrow> get_conversation_binding (platform_key_hash, c) t)"

definition effective_thread_anchor :: "string option \<Rightarrow> conversation_binding option \<Rightarrow> string option" where
  "effective_thread_anchor conversation_id binding =
     (case binding of Some b \<Rightarrow> Some (cb_thread_anchor b) | None \<Rightarrow> trimmed_nonempty conversation_id)"

definition rotate_to_account_id :: "string \<Rightarrow> candidate list \<Rightarrow> bool \<times> candidate list" where
  "rotate_to_account_id account_id candidates =
     (case position (\<lambda>c. cand_id c = account_id) candidates of
        None \<Rightarrow> (False, candidates)
      | Some index \<Rightarrow> (True, if 0 < index then rotate_left index candidates else candidates))"

definition rotate_to_bound_account :: "conversation_binding \<Rightarrow> candidate list \<Rightarrow> bool \<times> candidate list" where
  "rotate_to_bound_account b candidates = rotate_to_account_id (cb_account_id b) candidates"

definition derive_next_thread_epoch :: "conversation_binding option \<Rightarrow> int option" where
  "derive_next_thread_epoch b = map_option (\<lambda>x. cb_thread_epoch x + 1) b"

definition switch_reason_for_account :: "conversation_routing \<Rightarrow> string \<Rightarrow> string" where
  "switch_reason_for_account r account_id =
     (if cr_manual_preferred_account_id r = Some account_id then ''manual_account_switch''
      else ''automatic_account_switch'')"

definition prepare_conversation_routing_with_source ::
  "string \<Rightarrow> string option \<Rightarrow> conversation_binding option \<Rightarrow> string option \<Rightarrow> candidate list
    \<Rightarrow> route_conversation_source \<Rightarrow> conversation_routing option \<times> candidate list" where
  "prepare_conversation_routing_with_source platform_key_hash conversation_id existing manual candidates src =
     (case trimmed_nonempty conversation_id of
        None \<Rightarrow> (None, candidates)
      | Some c \<Rightarrow>
          (let selectable = (case existing of
                 Some b \<Rightarrow> list_ex (\<lambda>x. cand_id x = cb_account_id b) candidates | None \<Rightarrow> False);
               (manual_id, cs1) = (case manual of
                   None \<Rightarrow> (None, candidates)
                 | Some a \<Rightarrow>
                     (case rotate_to_account_id a candidates of
                        (True, cs) \<Rightarrow> (Some a, cs) | (False, cs) \<Rightarrow> (None, cs)));
               (selected, cs2) = (case manual_id of
                   Some a \<Rightarrow> (case existing of Some b \<Rightarrow> cb_account_id b = a | None \<Rightarrow> False, cs1)
                 | None \<Rightarrow> (case existing of
                       Some b \<Rightarrow> rotate_to_bound_account b cs1 | None \<Rightarrow> (False, cs1)))
           in (Some \<lparr>cr_platform_key_hash = platform_key_hash, cr_conversation_id = c, cr_source = src,
                     cr_existing_binding = existing, cr_binding_selected = selected,
                     cr_bound_account_selectable = selectable,
                     cr_manual_preferred_account_id = manual_id,
                     cr_next_thread_epoch = derive_next_thread_epoch existing\<rparr>, cs2)))"

text \<open>The context without its binding, for a request its account is known not to serve.\<close>

definition forget_binding :: "conversation_routing \<Rightarrow> conversation_routing" where
  "forget_binding r = r\<lparr>cr_existing_binding := None, cr_binding_selected := False,
     cr_bound_account_selectable := False\<rparr>"

section \<open>The order of the candidates\<close>

datatype candidate_rotation_source =
  RotConversationBinding | RotManualPreferredAccount | RotThreadAwareDistribution | RotRouteStrategy

fun rotation_source_str :: "candidate_rotation_source \<Rightarrow> string" where
  "rotation_source_str RotConversationBinding = ''conversation_bound''"
| "rotation_source_str RotManualPreferredAccount = ''manual_preferred_account''"
| "rotation_source_str RotThreadAwareDistribution = ''thread_aware_distribution''"
| "rotation_source_str RotRouteStrategy = ''route_strategy''"

record candidate_rotation_plan =
  rp_source :: candidate_rotation_source
  rp_strategy_label :: string
  rp_strategy_applied :: bool

definition thread_distribution_load :: "string \<Rightarrow> (string \<Rightarrow> nat option) \<Rightarrow> inflight_map \<Rightarrow> nat" where
  "thread_distribution_load account_id counts inflight =
     u64_saturating_add (case counts account_id of Some n \<Rightarrow> n | None \<Rightarrow> 0)
       (account_inflight_count account_id inflight)"

definition should_apply_thread_aware_distribution ::
  "conversation_routing option \<Rightarrow> (string \<Rightarrow> nat option) option \<Rightarrow> bool" where
  "should_apply_thread_aware_distribution routing counts =
     (if counts = None then False
      else case routing of
        None \<Rightarrow> False
      | Some r \<Rightarrow> cr_existing_binding r = None \<and> cr_manual_preferred_account_id r = None
          \<and> allows_initial_binding_create (cr_source r))"

text \<open>The first index of a least load, from the second candidate on.\<close>

fun best_load_index :: "(candidate \<Rightarrow> nat) \<Rightarrow> nat \<Rightarrow> nat \<Rightarrow> nat \<Rightarrow> candidate list \<Rightarrow> nat" where
  "best_load_index load best_index best_load index [] = best_index"
| "best_load_index load best_index best_load index (c # cs) =
     (if load c < best_load then best_load_index load index (load c) (index + 1) cs
      else best_load_index load best_index best_load (index + 1) cs)"

definition rotate_to_least_loaded_thread_account ::
  "(string \<Rightarrow> nat option) \<Rightarrow> inflight_map \<Rightarrow> candidate list \<Rightarrow> bool \<times> candidate list" where
  "rotate_to_least_loaded_thread_account counts inflight candidates =
     (case candidates of
        c # d # cs \<Rightarrow>
          (let load = (\<lambda>x. thread_distribution_load (cand_id x) counts inflight);
               best_index = best_load_index load 0 (load c) 1 (d # cs)
           in if 0 < best_index then (True, rotate_left best_index candidates) else (False, candidates))
      | _ \<Rightarrow> (False, candidates))"

definition apply_candidate_rotation ::
  "environment \<Rightarrow> string option \<Rightarrow> conversation_routing option \<Rightarrow> string \<Rightarrow> string option
    \<Rightarrow> (string \<Rightarrow> nat option) option \<Rightarrow> inflight_map \<Rightarrow> clock \<Rightarrow> candidate list \<Rightarrow> route_runtime
    \<Rightarrow> route_quality_state \<Rightarrow> candidate_rotation_plan \<times> candidate list \<times> route_runtime \<times> route_quality_state" where
  "apply_candidate_rotation env preferred routing key_id model counts inflight clk candidates rt q =
     (if (case routing of Some r \<Rightarrow> cr_binding_selected r | None \<Rightarrow> False)
      then (\<lparr>rp_source = RotConversationBinding, rp_strategy_label = ''conversation_bound'',
             rp_strategy_applied = False\<rparr>, candidates, rt, q)
      else if (case routing of Some r \<Rightarrow> cr_manual_preferred_account_id r \<noteq> None | None \<Rightarrow> False)
      then (\<lparr>rp_source = RotManualPreferredAccount, rp_strategy_label = ''manual_preferred_account'',
             rp_strategy_applied = False\<rparr>, candidates, rt, q)
      else
        let (_, cs1, rt1, q1) = apply_route_strategy_with_source env preferred key_id model clk candidates rt q
        in if (case preferred of Some a \<Rightarrow> list_ex (\<lambda>c. cand_id c = a) cs1 | None \<Rightarrow> False)
           then (\<lparr>rp_source = RotManualPreferredAccount, rp_strategy_label = ''manual_preferred_account'',
                  rp_strategy_applied = False\<rparr>, cs1, rt1, q1)
           else if should_apply_thread_aware_distribution routing counts
           then (let (applied, cs2) = (case counts of
                       Some n \<Rightarrow> rotate_to_least_loaded_thread_account n inflight cs1
                     | None \<Rightarrow> (False, cs1))
                 in (\<lparr>rp_source = RotThreadAwareDistribution, rp_strategy_label = ''thread_aware_distribution'',
                      rp_strategy_applied = applied\<rparr>, cs2, rt1, q1))
           else (let (label, rt2) = current_route_strategy env rt1
                 in (\<lparr>rp_source = RotRouteStrategy, rp_strategy_label = label,
                      rp_strategy_applied = True\<rparr>, cs1, rt2, q1)))"

section \<open>Claiming a conversation\<close>

datatype initial_binding_claim = ClaimSkipped | ClaimCreated | ClaimJoined | ClaimBoundAccountUnavailable

definition selected_binding :: "initial_binding_claim \<Rightarrow> bool" where
  "selected_binding c \<longleftrightarrow> c = ClaimCreated \<or> c = ClaimJoined"

fun claim_strategy_label :: "initial_binding_claim \<Rightarrow> string" where
  "claim_strategy_label ClaimCreated = ''conversation_claim_created''"
| "claim_strategy_label ClaimJoined = ''conversation_claim_joined''"
| "claim_strategy_label ClaimSkipped = ''conversation_bound''"
| "claim_strategy_label ClaimBoundAccountUnavailable = ''conversation_bound''"

definition proposed_binding ::
  "conversation_routing \<Rightarrow> string \<Rightarrow> int \<Rightarrow> string \<Rightarrow> string option \<Rightarrow> int \<Rightarrow> conversation_binding" where
  "proposed_binding r account_id epoch anchor model now =
     \<lparr>cb_platform_key_hash = cr_platform_key_hash r, cb_conversation_id = cr_conversation_id r,
      cb_account_id = account_id, cb_thread_epoch = epoch, cb_thread_anchor = anchor,
      cb_status = ''active'', cb_last_model = model, cb_last_switch_reason = None,
      cb_created_at = now, cb_updated_at = now, cb_last_used_at = now\<rparr>"

definition claim_initial_conversation_binding ::
  "conversation_routing option \<Rightarrow> candidate list \<Rightarrow> string option \<Rightarrow> int \<Rightarrow> binding_table
    \<Rightarrow> initial_binding_claim \<times> conversation_routing option \<times> candidate list \<times> binding_table" where
  "claim_initial_conversation_binding routing candidates model now t =
     (case routing of
        None \<Rightarrow> (ClaimSkipped, None, candidates, t)
      | Some r \<Rightarrow>
        if cr_existing_binding r \<noteq> None \<or> \<not> allows_initial_binding_create (cr_source r)
        then (ClaimSkipped, Some r, candidates, t)
        else case candidates of
          [] \<Rightarrow> (ClaimSkipped, Some r, candidates, t)
        | c # _ \<Rightarrow>
          (let proposed = proposed_binding r (cand_id c) 1 (cr_conversation_id r) model now;
               ((claimed, created), t1) = claim_conversation_binding proposed t;
               (selected, cs1) = rotate_to_bound_account claimed candidates;
               r1 = r\<lparr>cr_bound_account_selectable := selected, cr_binding_selected := selected,
                      cr_next_thread_epoch := Some (cb_thread_epoch claimed + 1),
                      cr_existing_binding := Some claimed\<rparr>
           in (if \<not> selected then ClaimBoundAccountUnavailable
               else if created then ClaimCreated else ClaimJoined, Some r1, cs1, t1)))"

section \<open>Threads and responses\<close>

record thread_attempt =
  ta_thread_anchor :: string
  ta_thread_epoch :: int
  ta_reset_session_affinity :: bool

definition resolve_attempt_thread ::
  "conversation_routing option \<Rightarrow> account \<Rightarrow> thread_attempt option" where
  "resolve_attempt_thread routing acc =
     (case routing of
        None \<Rightarrow> None
      | Some r \<Rightarrow>
        if is_cache_affinity (cr_source r) then None
        else case cr_existing_binding r of
          Some b \<Rightarrow>
            if cb_account_id b = acc_id acc
            then Some \<lparr>ta_thread_anchor = cb_thread_anchor b, ta_thread_epoch = cb_thread_epoch b,
                       ta_reset_session_affinity = False\<rparr>
            else Some \<lparr>ta_thread_anchor = cb_thread_anchor b,
                       ta_thread_epoch = (case cr_next_thread_epoch r of
                         Some e \<Rightarrow> e | None \<Rightarrow> cb_thread_epoch b + 1),
                       ta_reset_session_affinity = True\<rparr>
        | None \<Rightarrow> Some \<lparr>ta_thread_anchor = cr_conversation_id r, ta_thread_epoch = 1,
                        ta_reset_session_affinity = False\<rparr>)"

definition record_conversation_binding_terminal_response ::
  "conversation_routing option \<Rightarrow> account \<Rightarrow> string option \<Rightarrow> nat \<Rightarrow> int \<Rightarrow> binding_table
    \<Rightarrow> (string + unit) \<times> binding_table" where
  "record_conversation_binding_terminal_response routing acc model status_code now t =
     (case routing of
        None \<Rightarrow> (Inr (), t)
      | Some r \<Rightarrow>
        (let thread = (\<lambda>epoch anchor missing.
               if is_cache_affinity (cr_source r) then Inr (epoch, anchor)
               else case resolve_attempt_thread (Some r) acc of
                      None \<Rightarrow> Inl missing
                    | Some th \<Rightarrow> Inr (ta_thread_epoch th, ta_thread_anchor th))
         in case cr_existing_binding r of
              Some b \<Rightarrow>
                if cb_account_id b = acc_id acc
                then (Inr (), snd (touch_conversation_binding (cr_key r) (acc_id acc) model now t))
                else if status_code < 400
                then (case thread (cb_thread_epoch b + 1) (cb_thread_anchor b)
                          ''missing conversation thread for rebound account'' of
                        Inl err \<Rightarrow> (Inl err, t)
                      | Inr (epoch, anchor) \<Rightarrow>
                          (Inr (), upsert_conversation_binding
                            (b\<lparr>cb_account_id := acc_id acc, cb_thread_epoch := epoch,
                               cb_thread_anchor := anchor, cb_last_model := model,
                               cb_last_switch_reason := Some (switch_reason_for_account r (acc_id acc)),
                               cb_updated_at := now, cb_last_used_at := now\<rparr>) t))
                else (Inr (), t)
            | None \<Rightarrow>
                if status_code < 400 \<and> allows_initial_binding_create (cr_source r)
                then (case thread 1 (cr_conversation_id r) ''missing conversation thread for initial binding'' of
                        Inl err \<Rightarrow> (Inl err, t)
                      | Inr (epoch, anchor) \<Rightarrow>
                          (Inr (), upsert_conversation_binding
                            (proposed_binding r (acc_id acc) epoch anchor model now) t))
                else (Inr (), t)))"

section \<open>Lemmas\<close>

lemma rotate_to_account_cases:
  "rotate_to_account_id a cs = (True, rs) \<Longrightarrow> mset rs = mset cs \<and> rs \<noteq> [] \<and> cand_id (hd rs) = a"
  "rotate_to_account_id a cs = (False, rs) \<Longrightarrow> rs = cs \<and> a \<notin> cand_id ` set cs"
proof -
  assume "rotate_to_account_id a cs = (True, rs)"
  then obtain i where p: "position (\<lambda>c. cand_id c = a) cs = Some i"
    and rs: "rs = (if 0 < i then rotate_left i cs else cs)"
    by (auto simp: rotate_to_account_id_def split: option.splits)
  from p have i: "i < length cs" "cand_id (cs ! i) = a" by (auto simp: position_Some)
  have "rs = rotate_left i cs" using rs by simp
  moreover have "hd (rotate_left i cs) = cs ! i" using i(1) by (simp add: rotate_left_def hd_drop_conv_nth)
  moreover have "rotate_left i cs \<noteq> []" using i(1) by (simp add: rotate_left_def)
  ultimately show "mset rs = mset cs \<and> rs \<noteq> [] \<and> cand_id (hd rs) = a" using i(2) by simp
next
  assume "rotate_to_account_id a cs = (False, rs)"
  then show "rs = cs \<and> a \<notin> cand_id ` set cs"
    by (auto simp: rotate_to_account_id_def position_None split: option.splits)
qed

lemma rotate_to_account_True:
  "a \<in> cand_id ` set cs \<Longrightarrow> \<exists>rs. rotate_to_account_id a cs = (True, rs)"
  using rotate_to_account_cases(2) by (metis (full_types) prod.exhaust_sel)

lemma rotate_to_account_mset: "mset (snd (rotate_to_account_id a cs)) = mset cs"
  by (simp add: rotate_to_account_id_def split: option.splits)

text \<open>The account preferred by hand, if it is a candidate, and the candidates with it first.\<close>

definition manual_rotation :: "string option \<Rightarrow> candidate list \<Rightarrow> string option \<times> candidate list" where
  "manual_rotation manual candidates =
     (case manual of
        None \<Rightarrow> (None, candidates)
      | Some a \<Rightarrow> (case rotate_to_account_id a candidates of (True, cs) \<Rightarrow> (Some a, cs) | (False, cs) \<Rightarrow> (None, cs)))"

definition bound_rotation ::
  "conversation_binding option \<Rightarrow> string option \<times> candidate list \<Rightarrow> bool \<times> candidate list" where
  "bound_rotation existing x =
     (case fst x of
        Some a \<Rightarrow> (case existing of Some b \<Rightarrow> cb_account_id b = a | None \<Rightarrow> False, snd x)
      | None \<Rightarrow> (case existing of Some b \<Rightarrow> rotate_to_bound_account b (snd x) | None \<Rightarrow> (False, snd x)))"

lemma prepare_cases:
  "prepare_conversation_routing_with_source k c ex manual cs src =
     (case trimmed_nonempty c of
        None \<Rightarrow> (None, cs)
      | Some conv \<Rightarrow>
          (let x = manual_rotation manual cs; y = bound_rotation ex x
           in (Some \<lparr>cr_platform_key_hash = k, cr_conversation_id = conv, cr_source = src,
                     cr_existing_binding = ex, cr_binding_selected = fst y,
                     cr_bound_account_selectable =
                       (case ex of Some b \<Rightarrow> cb_account_id b \<in> cand_id ` set cs | None \<Rightarrow> False),
                     cr_manual_preferred_account_id = fst x,
                     cr_next_thread_epoch = derive_next_thread_epoch ex\<rparr>, snd y)))"
proof -
  have sel: "(\<exists>x \<in> set cs. cand_id x = a) \<longleftrightarrow> a \<in> cand_id ` set cs" for a by auto
  show ?thesis
    by (cases "manual_rotation manual cs"; cases "bound_rotation ex (manual_rotation manual cs)")
      (auto simp: prepare_conversation_routing_with_source_def manual_rotation_def bound_rotation_def
        list_ex_iff sel Let_def split: option.splits prod.splits bool.splits)
qed

lemma manual_rotation_mset: "mset (snd (manual_rotation manual cs)) = mset cs"
  using rotate_to_account_mset
  by (auto simp: manual_rotation_def split: option.splits prod.splits bool.splits dest: rotate_to_account_cases)

lemma bound_rotation_mset: "mset (snd (bound_rotation ex x)) = mset (snd x)"
  by (simp add: bound_rotation_def rotate_to_bound_account_def rotate_to_account_mset split: option.splits)

lemma prepare_mset:
  "mset (snd (prepare_conversation_routing_with_source k c ex manual cs src)) = mset cs"
  by (simp add: prepare_cases Let_def bound_rotation_mset manual_rotation_mset split: option.splits)

lemma least_loaded_mset: "mset (snd (rotate_to_least_loaded_thread_account n infl cs)) = mset cs"
  by (auto simp: rotate_to_least_loaded_thread_account_def Let_def split: list.splits)

lemma best_load_index_spec:
  assumes "b < index" and "best = load (cs ! b)" and "\<forall>j < index. best \<le> load (cs ! j)"
    and "\<forall>j < b. best < load (cs ! j)" and "index \<le> length cs"
  shows "best_load_index load b best index (drop index cs) < length cs
    \<and> (\<forall>j < length cs. load (cs ! best_load_index load b best index (drop index cs)) \<le> load (cs ! j))
    \<and> (\<forall>j < best_load_index load b best index (drop index cs).
         load (cs ! best_load_index load b best index (drop index cs)) < load (cs ! j))"
  using assms
proof (induction "drop index cs" arbitrary: b best index)
  case Nil
  then have "index = length cs" by simp
  with Nil show ?case by simp
next
  case (Cons c r)
  from Cons.hyps(2) have i: "index < length cs" by (metis drop_eq_Nil2 linorder_not_less list.distinct(1))
  then have d: "drop index cs = cs ! index # drop (index + 1) cs" using Cons_nth_drop_Suc by fastforce
  then have c: "c = cs ! index" "r = drop (index + 1) cs" using Cons.hyps(2) by simp_all
  show ?case
  proof (cases "load (cs ! index) < best")
    case True
    have "\<forall>j < index + 1. load (cs ! index) \<le> load (cs ! j)"
      using True Cons.prems(3) by (metis Suc_eq_plus1 less_Suc_eq less_le_not_le order.strict_trans2 order_refl order_less_imp_le)
    moreover have "\<forall>j < index. load (cs ! index) < load (cs ! j)"
      using True Cons.prems(3) order.strict_trans2 by blast
    ultimately show ?thesis
      using Cons.hyps(1) [OF c(2), of index "load (cs ! index)"] i True by (simp add: d)
  next
    case False
    have "\<forall>j < index + 1. best \<le> load (cs ! j)"
      using False Cons.prems(3) by (auto simp: less_Suc_eq)
    then show ?thesis
      using Cons.hyps(1) [OF c(2), of b best] Cons.prems i False by (simp add: d)
  qed
qed

end
