(* ===== verification/SseFrames.thy ===== *)
theory SseFrames
  imports Prelude
begin

text \<open>
  Server-sent events in a prefix of a body (\<open>stream_preflight.rs\<close>: \<open>normalized_frames\<close> and
  \<open>frame_event_and_data\<close>), with the operations of the standard library they use written out:
  the lossy decoding of UTF-8, replacement of line ends, splitting at blank lines and into lines.
  The main result: the complete frames of a prefix are the first frames of every longer prefix.
\<close>

section \<open>UTF-8\<close>

text \<open>
  The next character of a byte string, or the bytes the decoder rejects together: whether it is
  valid, and its length. A byte beyond the end counts as zero.
\<close>

definition utf8_next :: "string \<Rightarrow> bool \<times> nat" where
  "utf8_next s =
     (let byte = (\<lambda>i. if i < length s then (of_char (s ! i) :: nat) else 0);
          between = (\<lambda>i lo hi. lo \<le> byte i \<and> byte i \<le> hi);
          cont = (\<lambda>i. between i 0x80 0xBF)
      in if byte 0 < 0x80 then (True, 1)
         else if between 0 0xC2 0xDF then (if cont 1 then (True, 2) else (False, 1))
         else if between 0 0xE0 0xEF then
           (if \<not> (byte 0 = 0xE0 \<and> between 1 0xA0 0xBF \<or> between 0 0xE1 0xEC \<and> cont 1
                \<or> byte 0 = 0xED \<and> between 1 0x80 0x9F \<or> between 0 0xEE 0xEF \<and> cont 1) then (False, 1)
            else if \<not> cont 2 then (False, 2) else (True, 3))
         else if between 0 0xF0 0xF4 then
           (if \<not> (byte 0 = 0xF0 \<and> between 1 0x90 0xBF \<or> between 0 0xF1 0xF3 \<and> cont 1
                \<or> byte 0 = 0xF4 \<and> between 1 0x80 0x8F) then (False, 1)
            else if \<not> cont 2 then (False, 2) else if \<not> cont 3 then (False, 3) else (True, 4))
         else (False, 1))"

lemma utf8_next_pos: "0 < snd (utf8_next s)"
  by (simp add: utf8_next_def Let_def)

function utf8_chunks :: "string \<Rightarrow> (bool \<times> string) list" where
  "utf8_chunks s =
     (if s = [] then [] else
      let (ok, n) = utf8_next s in (ok, take n s) # utf8_chunks (drop n s))"
  by pat_completeness auto
termination
proof (relation "measure length", goal_cases)
  case (2 s x ok n)
  then have "0 < n" using utf8_next_pos [of s] by (metis snd_conv)
  with 2 show ?case by simp
qed simp

declare utf8_chunks.simps [simp del]

definition replacement_char :: string where "replacement_char = [CHR 0xEF, CHR 0xBF, CHR 0xBD]"

definition from_utf8_lossy :: "string \<Rightarrow> string" where
  "from_utf8_lossy s = concat (map (\<lambda>(ok, b). if ok then b else replacement_char) (utf8_chunks s))"

definition from_utf8 :: "string \<Rightarrow> string option" where
  "from_utf8 s = (if list_all fst (utf8_chunks s) then Some s else None)"

section \<open>Lines and frames\<close>

definition cr :: char where "cr = CHR 0x0D"
definition lf :: char where "lf = CHR 0x0A"

text \<open>\<open>replace("\r\n", "\n")\<close>.\<close>

fun crlf_to_lf :: "string \<Rightarrow> string" where
  "crlf_to_lf [] = []"
| "crlf_to_lf [c] = [c]"
| "crlf_to_lf (c # d # r) = (if c = cr \<and> d = lf then lf # crlf_to_lf r else c # crlf_to_lf (d # r))"

text \<open>\<open>split("\n\n")\<close>.\<close>

fun split_blank :: "string \<Rightarrow> string list" where
  "split_blank [] = [[]]"
| "split_blank [c] = [[c]]"
| "split_blank (c # d # r) =
     (if c = lf \<and> d = lf then [] # split_blank r
      else let ps = split_blank (d # r) in (c # hd ps) # tl ps)"

definition normalized_frames :: "string \<Rightarrow> bool \<Rightarrow> string list \<times> bool" where
  "normalized_frames prefix include_incomplete_frame =
     (let normalized = crlf_to_lf (from_utf8_lossy prefix);
          parts = split_blank normalized;
          closed = ends_with normalized [lf, lf]
      in (if \<not> include_incomplete_frame \<and> \<not> closed then butlast parts else parts,
          include_incomplete_frame \<and> \<not> closed))"

fun split_lf :: "string \<Rightarrow> string list" where
  "split_lf [] = [[]]"
| "split_lf (c # r) = (if c = lf then [] # split_lf r else (c # hd (split_lf r)) # tl (split_lf r))"

text \<open>\<open>lines()\<close>, each then without its trailing carriage returns.\<close>

definition str_lines :: "string \<Rightarrow> string list" where
  "str_lines s = (let ps = split_lf s in if last ps = [] then butlast ps else ps)"

definition trim_end_cr :: "string \<Rightarrow> string" where
  "trim_end_cr s = rev (dropWhile (\<lambda>c. c = cr) (rev s))"

fun frame_line :: "string option \<times> string \<Rightarrow> string \<Rightarrow> string option \<times> string" where
  "frame_line (event, data) raw =
     (let line = trim_end_cr raw in
      if starts_with line ''event:'' then (Some (trim (drop 6 line)), data)
      else if starts_with line ''data:''
      then (event, (if data = [] then [] else data @ [lf]) @ trim_start (drop 5 line))
      else (event, data))"

definition frame_event_and_data :: "string \<Rightarrow> string option \<times> string option" where
  "frame_event_and_data frame =
     (let (event, data) = foldl frame_line (None, []) (str_lines frame)
      in (event, if data = [] then None else Some data))"

section \<open>Longer prefixes\<close>

lemma utf8_next_append:
  assumes "s \<noteq> []"
  shows "utf8_next (s @ q) = utf8_next s \<or> (\<not> fst (utf8_next s) \<and> snd (utf8_next s) = length s)"
proof -
  have nth: "i < length s \<Longrightarrow> (s @ q) ! i = s ! i" for i by (simp add: nth_append)
  consider (one) a where "s = [a]" | (two) a b where "s = [a, b]" | (three) a b c where "s = [a, b, c]"
    | (four) a b c d r where "s = a # b # c # d # r"
    using assms by (metis list.exhaust)
  then show ?thesis
  proof cases
    case one
    show ?thesis unfolding one by (auto simp: utf8_next_def Let_def)
  next
    case two
    show ?thesis unfolding two by (auto simp: utf8_next_def Let_def)
  next
    case three
    show ?thesis unfolding three by (auto simp: utf8_next_def Let_def)
  next
    case four
    show ?thesis unfolding four by (auto simp: utf8_next_def Let_def)
  qed
qed


lemma utf8_next_le:
  assumes "s \<noteq> []"
  shows "snd (utf8_next s) \<le> length s"
proof -
  consider (one) a where "s = [a]" | (two) a b where "s = [a, b]" | (three) a b c where "s = [a, b, c]"
    | (four) a b c d r where "s = a # b # c # d # r"
    using assms by (metis list.exhaust)
  then show ?thesis
  proof cases
    case one
    show ?thesis unfolding one by (auto simp: utf8_next_def Let_def)
  next
    case two
    show ?thesis unfolding two by (auto simp: utf8_next_def Let_def)
  next
    case three
    show ?thesis unfolding three by (auto simp: utf8_next_def Let_def)
  next
    case four
    show ?thesis unfolding four by (auto simp: utf8_next_def Let_def)
  qed
qed

lemma lossy_Nil [simp]: "from_utf8_lossy [] = []"
  by (simp add: from_utf8_lossy_def utf8_chunks.simps)

lemma lossy_step:
  "s \<noteq> [] \<Longrightarrow> utf8_next s = (ok, n) \<Longrightarrow>
     from_utf8_lossy s = (if ok then take n s else replacement_char) @ from_utf8_lossy (drop n s)"
  by (simp add: from_utf8_lossy_def utf8_chunks.simps [of s])

lemma lossy_append:
  "\<exists>a t t'. from_utf8_lossy p = a @ t \<and> from_utf8_lossy (p @ q) = a @ t' \<and> (t = [] \<or> t = replacement_char)"
proof (induction "length p" arbitrary: p rule: less_induct)
  case less
  show ?case
  proof (cases "p = []")
    case True
    then show ?thesis by auto
  next
    case False
    obtain ok n where n: "utf8_next p = (ok, n)" by fastforce
    have pos: "0 < n" "n \<le> length p" using utf8_next_pos [of p] utf8_next_le [OF False] n by simp_all
    note p = lossy_step [OF False n]
    from utf8_next_append [OF False, of q] show ?thesis
    proof
      assume "utf8_next (p @ q) = utf8_next p"
      then have pq: "from_utf8_lossy (p @ q) =
          (if ok then take n p else replacement_char) @ from_utf8_lossy (drop n p @ q)"
        using lossy_step [of "p @ q" ok n] False n pos by simp
      have "length (drop n p) < length p" using pos False by simp
      from less [OF this] obtain a t t' where "from_utf8_lossy (drop n p) = a @ t"
        "from_utf8_lossy (drop n p @ q) = a @ t'" "t = [] \<or> t = replacement_char" by blast
      with p pq show ?thesis by (metis append_assoc)
    next
      assume "\<not> fst (utf8_next p) \<and> snd (utf8_next p) = length p"
      with p n have "from_utf8_lossy p = replacement_char" by simp
      then show ?thesis by (intro exI [of _ "[]"] exI [of _ replacement_char] exI [of _ "from_utf8_lossy (p @ q)"]) simp
    qed
  qed
qed

lemma crlf_id: "lf \<notin> set t \<Longrightarrow> crlf_to_lf t = t"
  by (induction t rule: crlf_to_lf.induct) auto

lemma crlf_Cons: "c \<noteq> cr \<Longrightarrow> crlf_to_lf (c # x) = c # crlf_to_lf x"
  by (cases x) auto

lemma crlf_append:
  "lf \<notin> set t \<Longrightarrow>
     \<exists>b u v. crlf_to_lf (a @ t) = b @ u \<and> crlf_to_lf (a @ t') = b @ v \<and> lf \<notin> set u"
proof (induction a rule: crlf_to_lf.induct)
  case 1
  then show ?case by (intro exI [of _ "[]"] exI [of _ t] exI [of _ "crlf_to_lf t'"]) (simp add: crlf_id)
next
  case (2 c)
  show ?case
  proof (cases "c = cr")
    case True
    have "lf \<notin> set (c # t)" using 2 True by (simp add: cr_def lf_def)
    then have "lf \<notin> set (crlf_to_lf (c # t))" using crlf_id by presburger
    then show ?thesis
      by (intro exI [of _ "[]"] exI [of _ "crlf_to_lf (c # t)"] exI [of _ "crlf_to_lf (c # t')"]) simp
  next
    case False
    then have "crlf_to_lf ([c] @ t) = [c] @ t" "crlf_to_lf ([c] @ t') = [c] @ crlf_to_lf t'"
      using 2 by (simp_all add: crlf_Cons crlf_id)
    with 2 show ?thesis by blast
  qed
next
  case (3 c d r)
  show ?case
  proof (cases "c = cr \<and> d = lf")
    case True
    from 3(1) [OF True 3(3)] obtain b u v where
      "crlf_to_lf (r @ t) = b @ u" "crlf_to_lf (r @ t') = b @ v" "lf \<notin> set u" by blast
    with True have "crlf_to_lf ((c # d # r) @ t) = (lf # b) @ u" "crlf_to_lf ((c # d # r) @ t') = (lf # b) @ v"
      by simp_all
    with \<open>lf \<notin> set u\<close> show ?thesis by blast
  next
    case False
    from 3(2) [OF False 3(3)] obtain b u v where
      "crlf_to_lf (d # r @ t) = b @ u" "crlf_to_lf (d # r @ t') = b @ v" "lf \<notin> set u" by auto
    with False have "crlf_to_lf ((c # d # r) @ t) = (c # b) @ u" "crlf_to_lf ((c # d # r) @ t') = (c # b) @ v"
      by auto
    with \<open>lf \<notin> set u\<close> show ?thesis by blast
  qed
qed

lemma split_blank_ne [simp]: "split_blank s \<noteq> []"
  by (induction s rule: split_blank.induct) (auto simp: Let_def)

lemma split_blank_Cons:
  "\<not> (c = lf \<and> (\<exists>r. x = lf # r)) \<Longrightarrow> split_blank (c # x) = (c # hd (split_blank x)) # tl (split_blank x)"
  by (cases x) (auto simp: Let_def)

lemma split_blank_no_lf: "lf \<notin> set u \<Longrightarrow> split_blank u = [u]"
  by (induction u rule: split_blank.induct) (auto simp: Let_def)

lemma split_blank_append:
  "lf \<notin> set u \<Longrightarrow> butlast (split_blank (b @ u)) = butlast (split_blank b)
     \<and> (\<exists>r. r \<noteq> [] \<and> split_blank (b @ v) = butlast (split_blank b) @ r)"
proof (induction b rule: split_blank.induct)
  case 1
  then show ?case by (simp add: split_blank_no_lf)
next
  case (2 c)
  have "split_blank (c # u) = [c # u]"
    using 2 split_blank_Cons [of c u] by (cases u) (auto simp: split_blank_no_lf)
  then show ?case by simp
next
  case (3 c d r)
  show ?case
  proof (cases "c = lf \<and> d = lf")
    case True
    with 3 show ?thesis by auto
  next
    case False
    note IH = 3(2) [OF False 3(3)]
    have s: "split_blank (c # d # r @ w) = (c # hd (split_blank (d # r @ w))) # tl (split_blank (d # r @ w))" for w
      using split_blank_Cons [of c "d # r @ w"] False by simp
    define B where "B = butlast (split_blank (d # r))"
    have A: "split_blank (d # r) = B @ [last (split_blank (d # r))]"
      unfolding B_def by (metis append_butlast_last_id split_blank_ne)
    have U: "split_blank (d # r @ u) = B @ [last (split_blank (d # r @ u))]"
      using IH unfolding B_def by (metis append_Cons append_butlast_last_id split_blank_ne)
    from IH obtain z where z: "z \<noteq> []" "split_blank (d # r @ v) = B @ z" by (auto simp: B_def)
    show ?thesis
    proof (cases B)
      case Nil
      have "butlast (split_blank (c # d # r @ u)) = []" "butlast (split_blank (c # d # r)) = []"
        using s [of u] s [of "[]"] U A Nil by (metis append_Nil append_Nil2 butlast.simps(2) list.sel(3))+
      then show ?thesis using split_blank_ne [of "c # d # r @ v"] by simp
    next
      case (Cons x xs)
      have "split_blank (c # d # r @ u) = (c # x) # xs @ [last (split_blank (d # r @ u))]"
        "split_blank (c # d # r) = (c # x) # xs @ [last (split_blank (d # r))]"
        "split_blank (c # d # r @ v) = (c # x) # xs @ z"
        using s [of u] s [of "[]"] s [of v] U A z(2) Cons by (metis append_Cons append_Nil2 list.sel(1,3))+
      then show ?thesis using z(1) by (simp add: butlast_append)
    qed
  qed
qed


lemma split_blank_single: "split_blank s = [x] \<Longrightarrow> x = s"
proof (induction s arbitrary: x rule: split_blank.induct)
  case (3 c d r)
  show ?case
  proof (cases "c = lf \<and> d = lf")
    case False
    then have "tl (split_blank (d # r)) = []" and x: "x = c # hd (split_blank (d # r))"
      using 3(3) by (auto simp: Let_def)
    then have "split_blank (d # r) = [hd (split_blank (d # r))]" by (metis list.collapse split_blank_ne)
    from 3(2) [OF False this] x show ?thesis by simp
  qed (use 3(3) in simp)
qed auto

text \<open>What comes after the last blank line has no blank line in it.\<close>

lemma split_blank_last:
  "ends_with s [lf, lf] \<Longrightarrow> last (split_blank s) \<in> {[], [lf]}"
proof (induction s rule: split_blank.induct)
  case (3 c d r)
  show ?case
  proof (cases "c = lf \<and> d = lf")
    case True
    show ?thesis
    proof (cases "r = [] \<or> (\<exists>x. r = [x])")
      case True
      with 3(3) \<open>c = lf \<and> d = lf\<close> show ?thesis
        by (auto simp: ends_with_def starts_with_def)
    next
      case False
      then obtain x y z where "rev r = x # y # z"
        by (metis rev_is_Nil_conv rev_singleton_conv list.exhaust)
      with 3(3) have "ends_with r [lf, lf]" by (simp add: ends_with_def starts_with_def)
      with 3(1) True show ?thesis by simp
    qed
  next
    case False
    have "r \<noteq> []" using 3(3) False by (auto simp: ends_with_def starts_with_def)
    then obtain x z where r: "rev r = x # z" by (metis rev_is_Nil_conv list.exhaust)
    have e: "ends_with (d # r) [lf, lf]"
      using 3(3) r by (cases z) (auto simp: ends_with_def starts_with_def)
    note IH = 3(2) [OF False e]
    have "tl (split_blank (d # r)) \<noteq> []"
    proof
      assume "tl (split_blank (d # r)) = []"
      then obtain x where x: "split_blank (d # r) = [x]" by (metis list.collapse split_blank_ne)
      with IH split_blank_single [OF x] \<open>r \<noteq> []\<close> show False by simp
    qed
    moreover have "split_blank (c # d # r) = (c # hd (split_blank (d # r))) # tl (split_blank (d # r))"
      using False by (auto simp: Let_def)
    ultimately show ?thesis using IH by (metis last.simps last_tl)
  qed
qed (auto simp: ends_with_def starts_with_def)


definition no_data :: "string \<Rightarrow> bool" where
  "no_data frame \<longleftrightarrow> snd (frame_event_and_data frame) = None"

lemma no_data_rest: "no_data []" "no_data [lf]"
  by code_simp+

text \<open>
  The frames a prefix shows are the first frames of every longer prefix, up to one frame without
  data at the end.
\<close>

lemma frames_of_longer_prefix:
  obtains fs where "\<exists>rest. normalized_frames p False = (fs @ rest, False) \<and> list_all no_data rest"
    and "\<exists>rest. fst (normalized_frames (p @ q) False) = fs @ rest"
    and "\<exists>rest. rest \<noteq> [] \<and> fst (normalized_frames (p @ q) True) = fs @ rest"
proof -
  obtain a t t' where l: "from_utf8_lossy p = a @ t" "from_utf8_lossy (p @ q) = a @ t'"
    "t = [] \<or> t = replacement_char" using lossy_append by blast
  have "lf \<notin> set t" using l(3) by (auto simp: replacement_char_def lf_def)
  from crlf_append [OF this, of a t'] obtain b u v where n: "crlf_to_lf (a @ t) = b @ u"
    "crlf_to_lf (a @ t') = b @ v" "lf \<notin> set u" by blast
  define fs where "fs = butlast (split_blank b)"
  from split_blank_append [OF n(3), of b v] obtain r where
    s: "butlast (split_blank (b @ u)) = fs" "r \<noteq> []" "split_blank (b @ v) = fs @ r"
    by (auto simp: fs_def)
  have p: "split_blank (b @ u) = fs @ [last (split_blank (b @ u))]"
    using s(1) by (metis append_butlast_last_id split_blank_ne)
  show ?thesis
  proof (rule that [of fs])
    show "\<exists>rest. normalized_frames p False = (fs @ rest, False) \<and> list_all no_data rest"
    proof (cases "ends_with (b @ u) [lf, lf]")
      case True
      from split_blank_last [OF True] have "no_data (last (split_blank (b @ u)))"
        using no_data_rest by auto
      with p True show ?thesis
        by (intro exI [of _ "[last (split_blank (b @ u))]"]) (simp add: normalized_frames_def l n)
    next
      case False
      then show ?thesis by (intro exI [of _ "[]"]) (simp add: normalized_frames_def l n s Let_def)
    qed
    have "\<exists>rest. butlast (fs @ r) = fs @ rest" using s(2) by (metis butlast_append)
    then show "\<exists>rest. fst (normalized_frames (p @ q) False) = fs @ rest"
      by (auto simp: normalized_frames_def l n s Let_def)
    show "\<exists>rest. rest \<noteq> [] \<and> fst (normalized_frames (p @ q) True) = fs @ rest"
      using s(2) by (auto simp: normalized_frames_def l n s Let_def)
  qed
qed

end
