(* ===== verification/CandidateState.thy ===== *)
theory CandidateState
  imports Json ConversationRouting SseFrames
begin

text \<open>
  The body each attempt sends: removal of content that is encrypted for one account
  (\<open>gateway/upstream/support/payload_rewrite.rs\<close>) and the cached rewrites of one request
  (\<open>gateway/upstream/proxy_pipeline/candidate_state.rs\<close>). Parsing and printing JSON and the
  rewriting of a body for a model and a cache key are arguments.
\<close>

section \<open>Encrypted content\<close>

definition encrypted_content :: string where "encrypted_content = ''encrypted_content''"

text \<open>\<open>text.contains("\"encrypted_content\"")\<close> on a body that is valid UTF-8.\<close>

definition body_has_encrypted_content_hint :: "string \<Rightarrow> bool" where
  "body_has_encrypted_content_hint body \<longleftrightarrow>
     (case from_utf8 body of
        Some s \<Rightarrow> contains s (CHR 0x22 # encrypted_content @ [CHR 0x22]) | None \<Rightarrow> False)"

definition item_requires_encrypted_content :: "json \<Rightarrow> bool" where
  "item_requires_encrypted_content v \<longleftrightarrow>
     (case Option.bind (json_get v ''type'') as_str of
        None \<Rightarrow> False
      | Some t \<Rightarrow>
          list_ex (eq_ignore_ascii_case (trim t))
            [''reasoning'', ''encrypted_content'', ''compaction'', ''compaction_summary'', ''context_compaction''])"

text \<open>Whether anything changed, and the value without the encrypted parts.\<close>

fun strip_encrypted_content_value :: "json \<Rightarrow> bool \<times> json"
  and strip_entries :: "json_object \<Rightarrow> bool \<times> json_object"
  and strip_items :: "json list \<Rightarrow> bool \<times> json list" where
  "strip_encrypted_content_value (JObject m) = (let (changed, m') = strip_entries m in (changed, JObject m'))"
| "strip_encrypted_content_value (JArray items) = (let (changed, items') = strip_items items in (changed, JArray items'))"
| "strip_encrypted_content_value JNull = (False, JNull)"
| "strip_encrypted_content_value (JBool b) = (False, JBool b)"
| "strip_encrypted_content_value (JInt n) = (False, JInt n)"
| "strip_encrypted_content_value (JFloat x) = (False, JFloat x)"
| "strip_encrypted_content_value (JString s) = (False, JString s)"
| "strip_entries [] = (False, [])"
| "strip_entries ((k, v) # m) =
     (if k = encrypted_content then (True, snd (strip_entries m))
      else (fst (strip_encrypted_content_value v) \<or> fst (strip_entries m),
            (k, snd (strip_encrypted_content_value v)) # snd (strip_entries m)))"
| "strip_items [] = (False, [])"
| "strip_items (v # vs) =
     (if item_requires_encrypted_content v then (True, snd (strip_items vs))
      else (fst (strip_encrypted_content_value v) \<or> fst (strip_items vs),
            snd (strip_encrypted_content_value v) # snd (strip_items vs)))"

definition strip_encrypted_content_from_body ::
  "(string \<Rightarrow> json option) \<Rightarrow> (json \<Rightarrow> string option) \<Rightarrow> string \<Rightarrow> string option" where
  "strip_encrypted_content_from_body parse print body =
     (case parse body of
        None \<Rightarrow> None
      | Some v \<Rightarrow>
          (case strip_encrypted_content_value v of
             (False, _) \<Rightarrow> None
           | (True, v') \<Rightarrow> print v'))"

section \<open>The bodies of one request\<close>

record request_setup =
  rs_upstream_base :: string
  rs_upstream_fallback_base :: "string option"
  rs_url :: string
  rs_url_alt :: "string option"
  rs_candidate_count :: nat
  rs_account_max_inflight :: nat
  rs_anthropic_has_thread_anchor :: bool
  rs_has_sticky_fallback_session :: bool
  rs_has_sticky_fallback_conversation :: bool
  rs_has_body_encrypted_content :: bool
  rs_conversation_routing :: "conversation_routing option"
  rs_route_strategy_for_log :: string
  rs_route_source_for_log :: string

text \<open>
  What the rewriting of a body rests on; \<open>be_rewrite\<close> takes whether the cache key is forced, the
  path, the body, the model and the cache key.
\<close>

record body_env =
  be_parse :: "string \<Rightarrow> json option"
  be_print :: "json \<Rightarrow> string option"
  be_rewrite :: "bool \<Rightarrow> string \<Rightarrow> string \<Rightarrow> string option \<Rightarrow> string option \<Rightarrow> string"

record candidate_state =
  cs_stripped_body :: "string option"
  cs_rewritten_bodies :: "string \<rightharpoonup> string"
  cs_stripped_rewritten_bodies :: "string \<rightharpoonup> string"
  cs_first_candidate_account_scope :: "string option"

definition candidate_state_default :: candidate_state where
  "candidate_state_default =
     \<lparr>cs_stripped_body = None, cs_rewritten_bodies = Map.empty, cs_stripped_rewritten_bodies = Map.empty,
      cs_first_candidate_account_scope = None\<rparr>"

definition existing_prompt_cache_key :: "body_env \<Rightarrow> string \<Rightarrow> string option" where
  "existing_prompt_cache_key env body =
     trimmed_nonempty (Option.bind (Option.bind (be_parse env body) (\<lambda>v. json_get v ''prompt_cache_key'')) as_str)"

definition rewrite_cache_key :: "string option \<Rightarrow> string option \<Rightarrow> string option" where
  "rewrite_cache_key model_override prompt_cache_key =
     (let m = trimmed_nonempty model_override; p = trimmed_nonempty prompt_cache_key;
          or_dash = (\<lambda>x. case x of Some s \<Rightarrow> s | None \<Rightarrow> ''-'')
      in if m = None \<and> p = None then None
         else Some (''model='' @ or_dash m @ ''|thread='' @ or_dash p))"

definition strip_session_affinity :: "account \<Rightarrow> nat \<Rightarrow> bool \<Rightarrow> candidate_state \<Rightarrow> bool \<times> candidate_state" where
  "strip_session_affinity acc idx anthropic_has_thread_anchor s =
     (if \<not> anthropic_has_thread_anchor then (0 < idx, s)
      else
        let scope = (case trimmed_nonempty (acc_chatgpt_account_id acc) of
                       Some x \<Rightarrow> Some x | None \<Rightarrow> trimmed_nonempty (acc_workspace_id acc))
        in if idx = 0 then (False, s\<lparr>cs_first_candidate_account_scope := scope\<rparr>)
           else (scope \<noteq> cs_first_candidate_account_scope s, s))"

text \<open>The first value wins, as \<open>entry().or_insert_with\<close>.\<close>

definition entry_or_insert :: "string \<Rightarrow> string \<Rightarrow> (string \<rightharpoonup> string) \<Rightarrow> string \<times> (string \<rightharpoonup> string)" where
  "entry_or_insert key fresh m = (case m key of Some v \<Rightarrow> (v, m) | None \<Rightarrow> (fresh, m(key \<mapsto> fresh)))"

definition fresh_rewrite ::
  "body_env \<Rightarrow> string \<Rightarrow> string \<Rightarrow> request_setup \<Rightarrow> string option \<Rightarrow> string option \<Rightarrow> string" where
  "fresh_rewrite env path body setup model_override effective =
     (let has_local_thread_anchor = rs_has_sticky_fallback_session setup
            \<or> rs_has_sticky_fallback_conversation setup \<or> rs_conversation_routing setup \<noteq> None;
          should_force = effective \<noteq> None \<and> has_local_thread_anchor
      in be_rewrite env should_force path body model_override (if should_force then effective else None))"

definition effective_cache_key :: "body_env \<Rightarrow> string \<Rightarrow> string option \<Rightarrow> string option" where
  "effective_cache_key env body prompt_cache_key =
     (case existing_prompt_cache_key env body of Some k \<Rightarrow> Some k | None \<Rightarrow> prompt_cache_key)"

definition rewrite_body_for_model ::
  "body_env \<Rightarrow> string \<Rightarrow> string \<Rightarrow> request_setup \<Rightarrow> string option \<Rightarrow> string option \<Rightarrow> candidate_state
    \<Rightarrow> string \<times> candidate_state" where
  "rewrite_body_for_model env path body setup model_override prompt_cache_key s =
     (let effective = effective_cache_key env body prompt_cache_key
      in case rewrite_cache_key model_override effective of
           None \<Rightarrow> (body, s)
         | Some key \<Rightarrow>
             (let (b, m) = entry_or_insert key (fresh_rewrite env path body setup model_override effective)
                (cs_rewritten_bodies s)
              in (b, s\<lparr>cs_rewritten_bodies := m\<rparr>)))"

definition stripped_or_same :: "body_env \<Rightarrow> string \<Rightarrow> string" where
  "stripped_or_same env body =
     (case strip_encrypted_content_from_body (be_parse env) (be_print env) body of Some b \<Rightarrow> b | None \<Rightarrow> body)"

definition stripped_body_for ::
  "body_env \<Rightarrow> string \<Rightarrow> string option \<Rightarrow> string option \<Rightarrow> candidate_state \<Rightarrow> string \<times> candidate_state" where
  "stripped_body_for env rewritten model_override prompt_cache_key s =
     (case rewrite_cache_key model_override prompt_cache_key of
        Some key \<Rightarrow>
          (let (b, m) = entry_or_insert key (stripped_or_same env rewritten) (cs_stripped_rewritten_bodies s)
           in (b, s\<lparr>cs_stripped_rewritten_bodies := m\<rparr>))
      | None \<Rightarrow>
          (case cs_stripped_body s of
             Some b \<Rightarrow> (b, s)
           | None \<Rightarrow> (stripped_or_same env rewritten, s\<lparr>cs_stripped_body := Some (stripped_or_same env rewritten)\<rparr>)))"

definition body_for_attempt ::
  "body_env \<Rightarrow> string \<Rightarrow> string \<Rightarrow> bool \<Rightarrow> request_setup \<Rightarrow> string option \<Rightarrow> string option \<Rightarrow> candidate_state
    \<Rightarrow> string \<times> candidate_state" where
  "body_for_attempt env path body strip setup model_override prompt_cache_key s =
     (let (rewritten, s1) = rewrite_body_for_model env path body setup model_override prompt_cache_key s
      in if strip \<and> rs_has_body_encrypted_content setup
         then stripped_body_for env rewritten model_override prompt_cache_key s1
         else (rewritten, s1))"

definition retry_body ::
  "body_env \<Rightarrow> string \<Rightarrow> string \<Rightarrow> request_setup \<Rightarrow> string option \<Rightarrow> string option \<Rightarrow> candidate_state
    \<Rightarrow> string \<times> candidate_state" where
  "retry_body env path body setup model_override prompt_cache_key s =
     (let (rewritten, s1) = rewrite_body_for_model env path body setup model_override prompt_cache_key s
      in if rs_has_body_encrypted_content setup
         then stripped_body_for env rewritten model_override prompt_cache_key s1
         else (rewritten, s1))"

section \<open>Stripping removes exactly the encrypted parts\<close>

text \<open>A value without an encrypted field and without an item of a list that needs one.\<close>

fun no_encrypted :: "json \<Rightarrow> bool" and no_encrypted_entries :: "json_object \<Rightarrow> bool"
  and no_encrypted_items :: "json list \<Rightarrow> bool" where
  "no_encrypted (JObject m) = no_encrypted_entries m"
| "no_encrypted (JArray vs) = no_encrypted_items vs"
| "no_encrypted _ = True"
| "no_encrypted_entries [] = True"
| "no_encrypted_entries ((k, v) # m) \<longleftrightarrow> k \<noteq> encrypted_content \<and> no_encrypted v \<and> no_encrypted_entries m"
| "no_encrypted_items [] = True"
| "no_encrypted_items (v # vs) \<longleftrightarrow>
     \<not> item_requires_encrypted_content v \<and> no_encrypted v \<and> no_encrypted_items vs"

lemma strip_entries_get:
  "map_of (snd (strip_entries m)) k =
     (if k = encrypted_content then None else map_option (\<lambda>v. snd (strip_encrypted_content_value v)) (map_of m k))"
  by (induction m) (auto simp: Let_def split: prod.splits)

lemma strip_str [simp]: "as_str (snd (strip_encrypted_content_value v)) = as_str v"
  by (cases v) (simp_all add: as_str_def case_prod_beta Let_def)

lemma strip_requires [simp]:
  "item_requires_encrypted_content (snd (strip_encrypted_content_value v)) = item_requires_encrypted_content v"
proof -
  have "Option.bind (json_get (snd (strip_encrypted_content_value v)) ''type'') as_str
      = Option.bind (json_get v ''type'') as_str"
  proof (cases v)
    case (JObject m)
    have "''type'' \<noteq> encrypted_content" by (simp add: encrypted_content_def)
    then show ?thesis
      using strip_entries_get [of m "''type''"] JObject
      by (cases "map_of m ''type''") (simp_all add: json_get_def as_object_def case_prod_beta Let_def)
  qed (simp_all add: json_get_def as_object_def case_prod_beta Let_def)
  then show ?thesis by (simp add: item_requires_encrypted_content_def)
qed

lemma strip_removes:
  "no_encrypted (snd (strip_encrypted_content_value v))"
  "no_encrypted_entries (snd (strip_entries m))"
  "no_encrypted_items (snd (strip_items vs))"
  by (induction v and m and vs rule: strip_encrypted_content_value_strip_entries_strip_items.induct)
    (auto simp: Let_def case_prod_beta)

lemma strip_changes:
  "fst (strip_encrypted_content_value v) \<longleftrightarrow> \<not> no_encrypted v"
  "fst (strip_entries m) \<longleftrightarrow> \<not> no_encrypted_entries m"
  "fst (strip_items vs) \<longleftrightarrow> \<not> no_encrypted_items vs"
  by (induction v and m and vs rule: strip_encrypted_content_value_strip_entries_strip_items.induct)
    (auto simp: Let_def case_prod_beta)

lemma strip_clean:
  "no_encrypted v \<Longrightarrow> snd (strip_encrypted_content_value v) = v"
  "no_encrypted_entries m \<Longrightarrow> snd (strip_entries m) = m"
  "no_encrypted_items vs \<Longrightarrow> snd (strip_items vs) = vs"
  by (induction v and m and vs rule: strip_encrypted_content_value_strip_entries_strip_items.induct)
    (auto simp: Let_def case_prod_beta)


section \<open>The caches never change a body\<close>

text \<open>The body of an attempt, computed anew.\<close>

definition attempt_body ::
  "body_env \<Rightarrow> string \<Rightarrow> string \<Rightarrow> request_setup \<Rightarrow> string option \<Rightarrow> string option \<Rightarrow> bool \<Rightarrow> string" where
  "attempt_body env path body setup model_override prompt_cache_key strip =
     (let effective = effective_cache_key env body prompt_cache_key;
          rewritten = (if rewrite_cache_key model_override effective = None then body
                       else fresh_rewrite env path body setup model_override effective)
      in if strip \<and> rs_has_body_encrypted_content setup then stripped_or_same env rewritten else rewritten)"

definition caches_fit ::
  "body_env \<Rightarrow> string \<Rightarrow> string \<Rightarrow> request_setup \<Rightarrow> string option \<Rightarrow> string option \<Rightarrow> candidate_state \<Rightarrow> bool" where
  "caches_fit env path body setup model pck s \<longleftrightarrow>
     (\<forall>key v. rewrite_cache_key model (effective_cache_key env body pck) = Some key \<longrightarrow>
        cs_rewritten_bodies s key = Some v \<longrightarrow> v = attempt_body env path body setup model pck False)
     \<and> (rs_has_body_encrypted_content setup \<longrightarrow>
        (\<forall>key v. rewrite_cache_key model pck = Some key \<longrightarrow> cs_stripped_rewritten_bodies s key = Some v \<longrightarrow>
           v = attempt_body env path body setup model pck True)
        \<and> (\<forall>v. rewrite_cache_key model pck = None \<longrightarrow> cs_stripped_body s = Some v \<longrightarrow>
           v = attempt_body env path body setup model pck True))"

lemma caches_fit_default [simp]: "caches_fit env path body setup model pck candidate_state_default"
  by (simp add: caches_fit_def candidate_state_default_def)

lemma caches_fit_scope [simp]:
  "caches_fit env path body setup model pck (s\<lparr>cs_first_candidate_account_scope := x\<rparr>) =
     caches_fit env path body setup model pck s"
  by (simp add: caches_fit_def)

lemma retry_is_stripped:
  "retry_body env path body setup model pck s = body_for_attempt env path body True setup model pck s"
  by (simp add: retry_body_def body_for_attempt_def)

lemma rewrite_body_fits:
  assumes "caches_fit env path body setup model pck s"
    and "rewrite_body_for_model env path body setup model pck s = (b, s')"
  shows "b = attempt_body env path body setup model pck False \<and> caches_fit env path body setup model pck s'"
proof (cases "rewrite_cache_key model (effective_cache_key env body pck)")
  case None
  with assms show ?thesis by (simp add: rewrite_body_for_model_def attempt_body_def)
next
  case (Some key)
  have fresh: "attempt_body env path body setup model pck False
      = fresh_rewrite env path body setup model (effective_cache_key env body pck)"
    by (simp add: attempt_body_def Some)
  show ?thesis
  proof (cases "cs_rewritten_bodies s key")
    case None
    with assms Some fresh show ?thesis
      by (auto simp: rewrite_body_for_model_def entry_or_insert_def caches_fit_def Let_def)
  next
    case hit: (Some v)
    with assms(2) Some have "b = v" "s' = s"
      by (simp_all add: rewrite_body_for_model_def entry_or_insert_def Let_def)
    with assms(1) Some hit show ?thesis by (auto simp: caches_fit_def)
  qed
qed

lemma body_for_attempt_fits:
  assumes "caches_fit env path body setup model pck s"
    and "body_for_attempt env path body strip setup model pck s = (b, s')"
  shows "b = attempt_body env path body setup model pck strip \<and> caches_fit env path body setup model pck s'"
proof -
  obtain r s1 where r: "rewrite_body_for_model env path body setup model pck s = (r, s1)" by fastforce
  note f = rewrite_body_fits [OF assms(1) r]
  show ?thesis
  proof (cases "strip \<and> rs_has_body_encrypted_content setup")
    case False
    with assms(2) r f show ?thesis by (auto simp: body_for_attempt_def attempt_body_def)
  next
    case True
    have b: "attempt_body env path body setup model pck True = stripped_or_same env r"
      using f True by (simp add: attempt_body_def Let_def)
    have e: "stripped_body_for env r model pck s1 = (b, s')"
      using assms(2) r True by (simp add: body_for_attempt_def)
    show ?thesis
    proof (cases "rewrite_cache_key model pck")
      case None
      with e b f True show ?thesis
        by (cases "cs_stripped_body s1") (auto simp: stripped_body_for_def caches_fit_def)
    next
      case (Some key)
      with e b f True show ?thesis
        by (cases "cs_stripped_rewritten_bodies s1 key")
          (auto simp: stripped_body_for_def entry_or_insert_def caches_fit_def)
    qed
  qed
qed

section \<open>Properties\<close>


end
