(* ===== verification/ConversationSafety.thy ===== *)
theory ConversationSafety
  imports ConversationRouting
begin

text \<open>
  What the routing of conversations promises while requests interleave: a step relation over the
  table of bindings and the contexts of the requests under way, its invariant, the agreement of
  concurrent claims and the return of a conversation to its account.
\<close>

section \<open>Requests and the table\<close>

inductive routing_run :: "binding_table \<Rightarrow> conversation_routing set \<Rightarrow> bool" where
  run_start: "routing_run [] {}"
| run_prepare: "routing_run t C \<Longrightarrow>
    prepare_conversation_routing_with_source k c (load_conversation_binding k c t) manual cs src = (Some r, cs') \<Longrightarrow>
    routing_run t (insert r C)"
| run_forget: "routing_run t C \<Longrightarrow> r \<in> C \<Longrightarrow> routing_run t (insert (forget_binding r) C)"
| run_claim: "routing_run t C \<Longrightarrow> r \<in> C \<Longrightarrow>
    claim_initial_conversation_binding (Some r) cs model now t = (res, Some r', cs', t') \<Longrightarrow>
    routing_run t' (insert r' C)"
| run_record: "routing_run t C \<Longrightarrow> r \<in> C \<Longrightarrow>
    record_conversation_binding_terminal_response (Some r) acc model status_code now t = (res, t') \<Longrightarrow>
    routing_run t' C"
| run_delete: "routing_run t C \<Longrightarrow> routing_run (delete_conversation_binding key t) C"
| run_delete_account: "routing_run t C \<Longrightarrow> routing_run (delete_conversation_bindings_for_account a t) C"
| run_delete_stale: "routing_run t C \<Longrightarrow> routing_run (snd (delete_stale_conversation_bindings ts t)) C"

definition binding_ok :: "conversation_binding \<Rightarrow> bool" where
  "binding_ok b \<longleftrightarrow> cb_thread_anchor b = cb_conversation_id b \<and> 1 \<le> cb_thread_epoch b
     \<and> cb_status b = ''active''"

definition context_ok :: "conversation_routing \<Rightarrow> bool" where
  "context_ok r \<longleftrightarrow> cr_conversation_id r \<noteq> []
     \<and> (\<forall>b. cr_existing_binding r = Some b \<longrightarrow> binding_key b = cr_key r \<and> binding_ok b
          \<and> cr_next_thread_epoch r = derive_next_thread_epoch (Some b))"

lemma binding_ok_touched [simp]: "binding_ok (touched m n b) = binding_ok b"
  by (simp add: binding_ok_def touched_def)

lemma binding_ok_created [simp]: "binding_ok (b\<lparr>cb_created_at := x\<rparr>) = binding_ok b"
  by (simp add: binding_ok_def)

lemma binding_key_proposed [simp]: "binding_key (proposed_binding r a e anc m n) = cr_key r"
  by (simp add: binding_key_def proposed_binding_def)

lemma proposed_ok: "binding_ok (proposed_binding r a 1 (cr_conversation_id r) m n)"
  by (simp add: binding_ok_def proposed_binding_def)

lemma claim_cases:
  assumes "claim_initial_conversation_binding (Some r) cs model now t = (res, Some r', cs', t')"
  obtains (skip) "res = ClaimSkipped" "r' = r" "cs' = cs" "t' = t"
    "cr_existing_binding r \<noteq> None \<or> \<not> allows_initial_binding_create (cr_source r) \<or> cs = []"
  | (claim) p e new sel where "cs \<noteq> []" "cr_existing_binding r = None" "allows_initial_binding_create (cr_source r)"
    "p = proposed_binding r (cand_id (hd cs)) 1 (cr_conversation_id r) model now"
    "claim_conversation_binding p t = ((e, new), t')" "rotate_to_bound_account e cs = (sel, cs')"
    "r' = r\<lparr>cr_bound_account_selectable := sel, cr_binding_selected := sel,
            cr_next_thread_epoch := Some (cb_thread_epoch e + 1), cr_existing_binding := Some e\<rparr>"
    "res = (if \<not> sel then ClaimBoundAccountUnavailable else if new then ClaimCreated else ClaimJoined)"
proof (cases "cr_existing_binding r \<noteq> None \<or> \<not> allows_initial_binding_create (cr_source r) \<or> cs = []")
  case True
  with assms show ?thesis
    by (intro skip) (auto simp: claim_initial_conversation_binding_def split: list.splits if_splits)
next
  case False
  then obtain c rest where cs: "cs = c # rest" by (cases cs) auto
  obtain e new t1 where c: "claim_conversation_binding
      (proposed_binding r (cand_id c) 1 (cr_conversation_id r) model now) t = ((e, new), t1)"
    by (metis prod.exhaust)
  obtain sel cs1 where s: "rotate_to_bound_account e cs = (sel, cs1)" by fastforce
  show ?thesis
    using assms False cs c s
    by (intro claim [OF _ _ _ refl]) (auto simp: claim_initial_conversation_binding_def)
qed

lemma record_cases:
  assumes "record_conversation_binding_terminal_response (Some r) acc model st now t = (res, t')"
  obtains (same) b where "cr_existing_binding r = Some b" "cb_account_id b = acc_id acc" "res = Inr ()"
    "t' = snd (touch_conversation_binding (cr_key r) (acc_id acc) model now t)"
  | (moved) b epoch where "cr_existing_binding r = Some b" "cb_account_id b \<noteq> acc_id acc" "st < 400"
    "res = Inr ()" "epoch = (if is_cache_affinity (cr_source r) then cb_thread_epoch b + 1 else
        case cr_next_thread_epoch r of Some e \<Rightarrow> e | None \<Rightarrow> cb_thread_epoch b + 1)"
    "t' = upsert_conversation_binding
       (b\<lparr>cb_account_id := acc_id acc, cb_thread_epoch := epoch, cb_thread_anchor := cb_thread_anchor b,
          cb_last_model := model, cb_last_switch_reason := Some (switch_reason_for_account r (acc_id acc)),
          cb_updated_at := now, cb_last_used_at := now\<rparr>) t"
  | (new) "cr_existing_binding r = None" "st < 400" "allows_initial_binding_create (cr_source r)" "res = Inr ()"
    "t' = upsert_conversation_binding (proposed_binding r (acc_id acc) 1 (cr_conversation_id r) model now) t"
  | (none) "t' = t" "res = Inr ()"
    "(\<exists>b. cr_existing_binding r = Some b \<and> cb_account_id b \<noteq> acc_id acc \<and> 400 \<le> st)
     \<or> (cr_existing_binding r = None \<and> (400 \<le> st \<or> \<not> allows_initial_binding_create (cr_source r)))"
proof (cases "cr_existing_binding r")
  case None
  show ?thesis
  proof (cases "st < 400 \<and> allows_initial_binding_create (cr_source r)")
    case True
    with assms None show ?thesis
      by (intro new) (simp_all add: record_conversation_binding_terminal_response_def
          resolve_attempt_thread_def split: if_splits)
  next
    case False
    then show ?thesis
      using assms None
      by (intro none) (auto simp: record_conversation_binding_terminal_response_def)
  qed
next
  case (Some b)
  show ?thesis
  proof (cases "cb_account_id b = acc_id acc")
    case True
    with assms Some show ?thesis
      by (intro same) (auto simp: record_conversation_binding_terminal_response_def)
  next
    case other: False
    show ?thesis
    proof (cases "st < 400")
      case True
      with assms Some other show ?thesis
        by (intro moved [OF Some other True _ refl])
          (simp_all add: record_conversation_binding_terminal_response_def
            resolve_attempt_thread_def split: if_splits)
    next
      case False
      with assms Some other show ?thesis
        by (intro none) (auto simp: record_conversation_binding_terminal_response_def)
    qed
  qed
qed


section \<open>The invariant\<close>

definition routing_inv :: "binding_table \<Rightarrow> conversation_routing set \<Rightarrow> bool" where
  "routing_inv t C \<longleftrightarrow> table_wf t \<and> bindings.all_stored binding_ok t \<and> (\<forall>r \<in> C. context_ok r)"

lemma all_stored_set: "table_wf t \<Longrightarrow> bindings.all_stored P t \<longleftrightarrow> (\<forall>b \<in> set t. P b)"
proof
  assume w: "table_wf t" and a: "bindings.all_stored P t"
  show "\<forall>b \<in> set t. P b"
  proof
    fix b assume b: "b \<in> set t"
    then obtain e where e: "get_conversation_binding (binding_key b) t = Some e"
      by (metis get_None_iff imageI not_None_eq)
    with w b have "e = b" using get_key [OF e] by (auto simp: table_wf_def distinct_map inj_on_def)
    with a e show "P b" unfolding bindings.all_stored_def by blast
  qed
qed (auto simp: bindings.all_stored_def dest: get_key)

lemma inv_filter:
  "routing_inv t C \<Longrightarrow> routing_inv (filter P t) C"
  by (auto simp: routing_inv_def wf_filter all_stored_set)

lemma existing_ok: "context_ok r \<Longrightarrow> cr_existing_binding r = Some b \<Longrightarrow> binding_key b = cr_key r \<and> binding_ok b"
  by (simp add: context_ok_def)

lemma next_epoch_ok:
  "context_ok r \<Longrightarrow> cr_existing_binding r = Some b \<Longrightarrow> cr_next_thread_epoch r = Some (cb_thread_epoch b + 1)"
  by (simp add: context_ok_def derive_next_thread_epoch_def)

lemma prepared_context_ok:
  assumes "bindings.all_stored binding_ok t"
    and "prepare_conversation_routing_with_source k c (load_conversation_binding k c t) manual cs src = (Some r, cs')"
  shows "context_ok r"
proof -
  obtain conv where conv: "trimmed_nonempty c = Some conv"
    using assms(2) by (auto simp: prepare_cases split: option.splits)
  then have ne: "conv \<noteq> []" by (auto simp: trimmed_nonempty_def split: option.splits if_splits)
  have ex: "load_conversation_binding k c t = get_conversation_binding (k, conv) t"
    by (simp add: load_conversation_binding_def conv)
  have r: "cr_conversation_id r = conv" "cr_platform_key_hash r = k"
    "cr_existing_binding r = get_conversation_binding (k, conv) t"
    "cr_next_thread_epoch r = derive_next_thread_epoch (get_conversation_binding (k, conv) t)"
    using assms(2) by (auto simp: prepare_cases conv Let_def ex)
  with ne assms(1) show ?thesis
    by (auto simp: context_ok_def bindings.all_stored_def dest: get_key)
qed

lemma routing_inv_run: "routing_run t C \<Longrightarrow> routing_inv t C"
proof (induction rule: routing_run.induct)
  case run_start
  then show ?case by (simp add: routing_inv_def table_wf_def bindings.all_stored_def get_conversation_binding_def)
next
  case (run_prepare t C k c manual cs src r cs')
  then show ?case by (auto simp: routing_inv_def dest: prepared_context_ok)
next
  case (run_forget t C r)
  then show ?case by (auto simp: routing_inv_def context_ok_def forget_binding_def)
next
  case (run_claim t C r cs model now res r' cs' t')
  then have r: "context_ok r" and t: "table_wf t" "bindings.all_stored binding_ok t"
    by (auto simp: routing_inv_def)
  from run_claim(3) show ?case
  proof (cases rule: claim_cases)
    case skip
    with run_claim r show ?thesis by (auto simp: routing_inv_def)
  next
    case (claim p e new sel)
    have p: "binding_ok p" "binding_key p = cr_key r" by (simp_all add: claim(4) proposed_ok)
    have e: "binding_ok e" using bindings.all_stored_claim [of binding_ok, OF t(2) p(1)] claim(5) by simp
    have k: "binding_key e = cr_key r"
      using claim(5) p(2) by (auto simp: claim_conversation_binding_def dest: get_key split: option.splits)
    have "context_ok r'" using r e k by (simp add: claim(7) context_ok_def derive_next_thread_epoch_def)
    moreover have "table_wf t'" "bindings.all_stored binding_ok t'"
      using wf_claim [OF t(1), of p] bindings.all_stored_claim [of binding_ok, OF t(2) p(1)] claim(5) by simp_all
    ultimately show ?thesis using run_claim.IH by (simp add: routing_inv_def)
  qed
next
  case (run_record t C r acc model st now res t')
  then have r: "context_ok r" and t: "table_wf t" "bindings.all_stored binding_ok t"
    by (auto simp: routing_inv_def)
  have "table_wf t' \<and> bindings.all_stored binding_ok t'"
    using run_record(3)
  proof (cases rule: record_cases)
    case (same b)
    with t show ?thesis by (simp add: wf_touch bindings.all_stored_touch)
  next
    case (moved b epoch)
    have "1 \<le> epoch" "cb_thread_anchor b = cb_conversation_id b" "cb_status b = ''active''"
      using existing_ok [OF r moved(1)] next_epoch_ok [OF r moved(1)] moved(5)
      by (auto simp: binding_ok_def)
    with t moved(6) show ?thesis
      by (simp add: wf_upsert bindings.all_stored_upsert binding_ok_def)
  next
    case new
    have "binding_ok (p\<lparr>cb_created_at := x\<rparr>)" if "binding_ok p" for p x using that by simp
    with t new(5) show ?thesis
      by (simp add: wf_upsert bindings.all_stored_upsert proposed_ok)
  next
    case none
    with t show ?thesis by simp
  qed
  with run_record.IH show ?case by (simp add: routing_inv_def)
qed (simp_all add: inv_filter delete_conversation_binding_def delete_conversation_bindings_for_account_def
      delete_stale_conversation_bindings_def)

text \<open>
  C19: in every interleaving of requests, claims, recorded responses and deletions, the table has
  one row for each platform key and conversation; the thread of an attempt is anchored at its own
  conversation whatever account serves it, has an epoch of at least one, and is reset exactly when
  the conversation is bound to another account, which is also when its epoch moves past the bound
  one. A recorded response never fails for lack of a thread.
\<close>

theorem thread_of_conversation_stable:
  assumes "routing_run t C" and "r \<in> C"
  shows "distinct (map binding_key t)
    \<and> (\<forall>th. resolve_attempt_thread (Some r) acc = Some th \<longrightarrow>
         ta_thread_anchor th = cr_conversation_id r \<and> 1 \<le> ta_thread_epoch th
         \<and> (ta_reset_session_affinity th \<longleftrightarrow>
              (\<exists>b. cr_existing_binding r = Some b \<and> cb_account_id b \<noteq> acc_id acc))
         \<and> (\<forall>b. cr_existing_binding r = Some b \<longrightarrow>
              ta_thread_epoch th = cb_thread_epoch b + (if cb_account_id b = acc_id acc then 0 else 1)))
    \<and> fst (record_conversation_binding_terminal_response (Some r) acc model status_code now t) = Inr ()"
proof (intro conjI allI impI)
  from routing_inv_run [OF assms(1)] assms(2) have inv: "table_wf t" "context_ok r"
    by (auto simp: routing_inv_def)
  then show "distinct (map binding_key t)" by (simp add: table_wf_def)
  obtain res t' where rec: "record_conversation_binding_terminal_response (Some r) acc model status_code now t = (res, t')"
    by fastforce
  then show "fst (record_conversation_binding_terminal_response (Some r) acc model status_code now t) = Inr ()"
    by (cases rule: record_cases [OF rec]) simp_all
  fix th assume th: "resolve_attempt_thread (Some r) acc = Some th"
  have ex: "cb_thread_anchor b = cr_conversation_id r \<and> 1 \<le> cb_thread_epoch b
      \<and> cr_next_thread_epoch r = Some (cb_thread_epoch b + 1)" if "cr_existing_binding r = Some b" for b
    using existing_ok [OF inv(2) that] next_epoch_ok [OF inv(2) that]
    by (auto simp: binding_ok_def binding_key_def)
  show "ta_thread_anchor th = cr_conversation_id r" "1 \<le> ta_thread_epoch th"
    "ta_reset_session_affinity th \<longleftrightarrow>
       (\<exists>b. cr_existing_binding r = Some b \<and> cb_account_id b \<noteq> acc_id acc)"
    using th ex by (auto simp: resolve_attempt_thread_def split: option.splits if_splits)
  fix b assume "cr_existing_binding r = Some b"
  with th ex show "ta_thread_epoch th = cb_thread_epoch b + (if cb_account_id b = acc_id acc then 0 else 1)"
    by (auto simp: resolve_attempt_thread_def split: if_splits)
qed


section \<open>Concurrent requests of one conversation\<close>

text \<open>
  What may happen to the table while a conversation stays with its account: claims of any request,
  responses of other conversations, failures, successes of the same account, and deletions that
  spare the row.
\<close>

inductive conversation_traffic ::
  "string \<times> string \<Rightarrow> string \<Rightarrow> binding_table \<Rightarrow> binding_table \<Rightarrow> bool" for key a t where
  traffic_none: "conversation_traffic key a t t"
| traffic_claim: "conversation_traffic key a t u \<Longrightarrow>
    claim_initial_conversation_binding (Some r) cs model now u = (res, Some r', cs', u') \<Longrightarrow>
    conversation_traffic key a t u'"
| traffic_record: "conversation_traffic key a t u \<Longrightarrow> context_ok r \<Longrightarrow>
    record_conversation_binding_terminal_response (Some r) acc model st now u = (res, u') \<Longrightarrow>
    cr_key r \<noteq> key \<or> 400 \<le> st \<or> acc_id acc = a \<Longrightarrow>
    conversation_traffic key a t u'"
| traffic_delete: "conversation_traffic key a t u \<Longrightarrow> key' \<noteq> key \<Longrightarrow>
    conversation_traffic key a t (delete_conversation_binding key' u)"
| traffic_delete_account: "conversation_traffic key a t u \<Longrightarrow> a' \<noteq> a \<Longrightarrow>
    conversation_traffic key a t (delete_conversation_bindings_for_account a' u)"
| traffic_delete_stale: "conversation_traffic key a t u \<Longrightarrow>
    (\<And>b. get_conversation_binding key u = Some b \<Longrightarrow> ts \<le> cb_last_used_at b) \<Longrightarrow>
    conversation_traffic key a t (snd (delete_stale_conversation_bindings ts u))"

abbreviation bound_account :: "string \<times> string \<Rightarrow> binding_table \<Rightarrow> string option" where
  "bound_account key t \<equiv> map_option cb_account_id (get_conversation_binding key t)"

lemma get_filter:
  "get_conversation_binding key t = Some b \<Longrightarrow> P b \<Longrightarrow> get_conversation_binding key (filter P t) = Some b"
  by (induction t) (auto simp: get_conversation_binding_def split: if_splits)

lemma claim_keeps_account:
  assumes "bound_account key t = Some a"
    and "claim_initial_conversation_binding (Some r) cs model now t = (res, Some r', cs', t')"
  shows "bound_account key t' = Some a"
  using assms(2)
proof (cases rule: claim_cases)
  case (claim p e new sel)
  then have "t' = snd (claim_conversation_binding p t)" by simp
  with assms(1) show ?thesis by (auto simp: get_claim)
qed (simp add: assms(1))

lemma touched_account [simp]: "cb_account_id (touched m n b) = cb_account_id b"
  by (simp add: touched_def)

lemma touch_keeps_account:
  "bound_account key (snd (touch_conversation_binding key' a m n t)) = bound_account key t"
  by (cases "get_conversation_binding key t") (auto simp: get_touch)

lemma upsert_account:
  "bound_account key (upsert_conversation_binding b t) =
     (if binding_key b = key then Some (cb_account_id b) else bound_account key t)"
  by (simp add: get_upsert)

lemma proposed_account [simp]: "cb_account_id (proposed_binding r a e anc m n) = a"
  by (simp add: proposed_binding_def)

lemma record_account:
  assumes "context_ok r"
    and "record_conversation_binding_terminal_response (Some r) acc model st now t = (res, t')"
  shows "bound_account key t' = bound_account key t
    \<or> (key = cr_key r \<and> st < 400 \<and> bound_account key t' = Some (acc_id acc))"
  using assms(2)
proof (cases rule: record_cases)
  case (same b)
  then show ?thesis by (simp add: touch_keeps_account)
next
  case (moved b epoch)
  have "cb_platform_key_hash b = cr_platform_key_hash r" "cb_conversation_id b = cr_conversation_id r"
    using existing_ok [OF assms(1) moved(1)] by (simp_all add: binding_key_def)
  then show ?thesis using moved by (simp add: upsert_account binding_key_def)
next
  case new
  then show ?thesis by (simp add: upsert_account)
qed simp

lemma traffic_keeps_account:
  assumes "conversation_traffic key a t u" and "bound_account key t = Some a"
  shows "bound_account key u = Some a"
  using assms
proof (induction rule: conversation_traffic.induct)
  case (traffic_claim u r cs model now res r' cs' u')
  then show ?case using claim_keeps_account by blast
next
  case (traffic_record u r acc model st now res u')
  then show ?case using record_account [OF traffic_record(2,3), of key] by auto
next
  case (traffic_delete u key')
  then show ?case by (simp add: get_delete)
next
  case (traffic_delete_account u a')
  then obtain b where "get_conversation_binding key u = Some b" "cb_account_id b = a" by auto
  with traffic_delete_account show ?case
    by (simp add: delete_conversation_bindings_for_account_def get_filter)
next
  case (traffic_delete_stale u ts)
  then obtain b where "get_conversation_binding key u = Some b" "cb_account_id b = a" by auto
  with traffic_delete_stale(2) [of b] show ?case
    by (simp add: delete_stale_conversation_bindings_def get_filter)
qed simp

lemma claim_result_account:
  assumes "claim_initial_conversation_binding (Some r) cs model now t = (res, Some r', cs', t')"
    and "selected_binding res"
  shows "cs' \<noteq> [] \<and> bound_account (cr_key r) t' = Some (cand_id (hd cs'))
    \<and> map_option cb_account_id (cr_existing_binding r') = Some (cand_id (hd cs'))"
  using assms(1)
proof (cases rule: claim_cases)
  case skip
  with assms(2) show ?thesis by (simp add: selected_binding_def)
next
  case (claim p e new sel)
  with assms(2) have sel by (auto simp: selected_binding_def split: if_splits)
  with claim(6) have hd: "cs' \<noteq> []" "cand_id (hd cs') = cb_account_id e"
    using rotate_to_account_cases(1) [of "cb_account_id e" cs cs'] by (auto simp: rotate_to_bound_account_def)
  have "get_conversation_binding (binding_key p) t' = Some e"
    using bindings.claim_answer [of p t] claim(5) by simp
  with hd claim show ?thesis by simp
qed




section \<open>The order of the candidates\<close>

lemma bound_rotation_head:
  assumes "bound_rotation ex (manual_rotation manual cs) = (True, cs')"
  obtains b where "ex = Some b" "cand_id (hd cs') = cb_account_id b"
proof (cases "fst (manual_rotation manual cs)")
  case None
  with assms obtain b where b: "ex = Some b"
    "rotate_to_account_id (cb_account_id b) (snd (manual_rotation manual cs)) = (True, cs')"
    by (auto simp: bound_rotation_def rotate_to_bound_account_def split: option.splits)
  then show ?thesis using that [of b] rotate_to_account_cases(1) by blast
next
  case (Some a)
  with assms obtain b where b: "ex = Some b" "cb_account_id b = a" "cs' = snd (manual_rotation manual cs)"
    by (auto simp: bound_rotation_def split: option.splits)
  have "cand_id (hd (snd (manual_rotation manual cs))) = a"
    using Some rotate_to_account_cases(1)
    by (auto simp: manual_rotation_def split: option.splits prod.splits bool.splits)
  with b show ?thesis using that by simp
qed

lemma manual_rotation_head:
  assumes "manual_rotation manual cs = (Some a, cs')"
  shows "manual = Some a \<and> cand_id (hd cs') = a"
  using assms rotate_to_account_cases(1)
  by (auto simp: manual_rotation_def split: option.splits prod.splits bool.splits)

lemma least_loaded_head:
  fixes n infl cs
  defines "load \<equiv> \<lambda>c. thread_distribution_load (cand_id c) n infl"
  assumes "rotate_to_least_loaded_thread_account n infl cs = (applied, cs')" and "x \<in> set cs'"
  shows "load (hd cs') \<le> load x"
proof (cases "length cs \<le> 1")
  case True
  with assms(2,3) show ?thesis
    by (cases cs) (auto simp: rotate_to_least_loaded_thread_account_def split: list.splits)
next
  case False
  then obtain c d r where cs: "cs = c # d # r" by (metis One_nat_def le_SucE length_0_conv
        length_Cons list.exhaust nat_le_linear not_less_eq_eq zero_le)
  define i where "i = best_load_index load 0 (load c) 1 (drop 1 cs)"
  have i: "i < length cs" "\<forall>j < length cs. load (cs ! i) \<le> load (cs ! j)"
    using best_load_index_spec [of 0 1 "load c" load cs] by (simp_all add: cs i_def)
  have "cs' = (if 0 < i then rotate_left i cs else cs)"
    using assms(2) unfolding i_def by (auto simp: cs rotate_to_least_loaded_thread_account_def load_def split: if_splits)
  then have "hd cs' = cs ! i" "set cs' = set cs"
    using i(1) by (auto simp: hd_rotate_left hd_conv_nth cs dest: mset_eq_setD)
  with i assms(3) show ?thesis by (metis in_set_conv_nth)
qed

lemma rotation_without_binding:
  assumes "apply_candidate_rotation env preferred routing key_id model counts inflight clk cs rt q
           = (plan, out, rt', q')"
    and "\<forall>r. routing = Some r \<longrightarrow> \<not> cr_binding_selected r \<and> cr_manual_preferred_account_id r = None"
  shows "mset out = mset cs \<and> rp_source plan \<noteq> RotConversationBinding
    \<and> (rp_source plan = RotManualPreferredAccount \<longrightarrow> Some (cand_id (hd out)) = preferred)
    \<and> (rp_source plan = RotThreadAwareDistribution \<longrightarrow> should_apply_thread_aware_distribution routing counts
         \<and> (\<exists>n. counts = Some n \<and> (\<forall>x \<in> set out.
           thread_distribution_load (cand_id (hd out)) n inflight \<le> thread_distribution_load (cand_id x) n inflight)))"
proof -
  obtain app cs2 rt1 q1 where st: "apply_route_strategy_with_source env preferred key_id model clk cs rt q
      = (app, cs2, rt1, q1)" by (metis prod_cases4)
  note m = strategy_result_mset [OF st]
  have gate: "\<not> (case routing of Some r \<Rightarrow> cr_binding_selected r | None \<Rightarrow> False)"
    "\<not> (case routing of Some r \<Rightarrow> cr_manual_preferred_account_id r \<noteq> None | None \<Rightarrow> False)"
    using assms(2) by (auto split: option.splits)
  note rotation = assms(1) [unfolded apply_candidate_rotation_def if_not_P [OF gate(1)] if_not_P [OF gate(2)] st Let_def]
  show ?thesis
  proof (cases "case preferred of Some a \<Rightarrow> list_ex (\<lambda>c. cand_id c = a) cs2 | None \<Rightarrow> False")
    case True
    then have "rp_source plan = RotManualPreferredAccount" "out = cs2" using rotation by auto
    moreover have "preferred \<in> Some ` cand_id ` set cs"
      using True mset_eq_setD [OF m] by (auto simp: list_ex_iff split: option.splits)
    ultimately show ?thesis using m preferred_first [OF st] by simp
  next
    case np: False
    show ?thesis
    proof (cases "should_apply_thread_aware_distribution routing counts")
      case True
      then obtain n where n: "counts = Some n"
        by (auto simp: should_apply_thread_aware_distribution_def split: if_splits)
      obtain applied cs3 where c3: "rotate_to_least_loaded_thread_account n inflight cs2 = (applied, cs3)"
        by fastforce
      then have "rp_source plan = RotThreadAwareDistribution" "out = cs3"
        using rotation np True by (auto simp: n)
      with n c3 least_loaded_mset [of n inflight cs2] m least_loaded_head [OF c3] True show ?thesis by simp
    next
      case False
      then have "rp_source plan = RotRouteStrategy" "out = cs2"
        using rotation np by (auto split: prod.splits)
      with m show ?thesis by simp
    qed
  qed
qed

text \<open>
  C32: the order of the candidates follows the stated source. Preparing and rotating lose and add no
  candidate. When the plan says the conversation's binding decided, the bound account is first and
  the cursors of the strategy are untouched; when it says the account preferred by hand, that
  account is first; when it says the distribution of threads, the conversation has no binding and
  no candidate carries a smaller load than the first. A binding to a candidate always decides when
  no account is preferred by hand.
\<close>

theorem candidate_order_follows_source:
  assumes "prepare_conversation_routing_with_source k c ex manual cs src = (routing, cs1)"
    and "apply_candidate_rotation env preferred routing key_id model counts inflight clk cs1 rt q
           = (plan, out, rt', q')"
  shows "mset out = mset cs
    \<and> (rp_source plan = RotConversationBinding \<longrightarrow>
         (\<exists>b. ex = Some b \<and> cand_id (hd out) = cb_account_id b) \<and> rt' = rt \<and> q' = q)
    \<and> (rp_source plan = RotManualPreferredAccount \<longrightarrow> Some (cand_id (hd out)) \<in> {manual, preferred})
    \<and> (rp_source plan = RotThreadAwareDistribution \<longrightarrow> (ex = None \<and> (\<exists>n. counts = Some n \<and> (\<forall>x \<in> set out.
         thread_distribution_load (cand_id (hd out)) n inflight \<le> thread_distribution_load (cand_id x) n inflight))))
    \<and> (manual = None \<and> trimmed_nonempty c \<noteq> None \<and> (\<exists>b. ex = Some b \<and> cb_account_id b \<in> cand_id ` set cs)
         \<longrightarrow> rp_source plan = RotConversationBinding)"
proof -
  have m1: "mset cs1 = mset cs"
    using prepare_mset [of k c ex manual cs src] assms(1) by simp
  note plain = rotation_without_binding [OF assms(2)]
  show ?thesis
  proof (cases routing)
    case None
    then have "trimmed_nonempty c = None" using assms(1) by (auto simp: prepare_cases Let_def split: option.splits)
    with plain None m1 show ?thesis by (auto simp: should_apply_thread_aware_distribution_def)
  next
    case (Some r)
    then obtain conv where conv: "trimmed_nonempty c = Some conv"
      using assms(1) by (auto simp: prepare_cases split: option.splits)
    obtain mid mcs where mm: "manual_rotation manual cs = (mid, mcs)" by fastforce
    obtain sel cs' where b': "bound_rotation ex (mid, mcs) = (sel, cs')" by fastforce
    then have bb: "bound_rotation ex (mid, mcs) = (sel, cs1)"
      and r: "cr_existing_binding r = ex" "cr_binding_selected r = sel" "cr_manual_preferred_account_id r = mid"
      using assms(1) Some by (auto simp: prepare_cases conv mm Let_def)
    consider (bound) sel | (manual) a where "\<not> sel" "mid = Some a" | (other) "\<not> sel" "mid = None" by blast
    then show ?thesis
    proof cases
      case bound
      then have p: "rp_source plan = RotConversationBinding" "out = cs1" "rt' = rt" "q' = q"
        using assms(2) by (auto simp: apply_candidate_rotation_def Some r)
      obtain b where "ex = Some b" "cand_id (hd cs1) = cb_account_id b"
        using bound_rotation_head [of ex manual cs cs1] bb bound by (auto simp: mm)
      with p m1 show ?thesis by simp
    next
      case manual
      then have p: "rp_source plan = RotManualPreferredAccount" "out = cs1"
        using assms(2) by (auto simp: apply_candidate_rotation_def Some r)
      have "manual = Some a" "cand_id (hd mcs) = a" "cs1 = mcs"
        using manual_rotation_head [of manual cs a mcs] mm manual bb by (auto simp: bound_rotation_def)
      with p m1 show ?thesis by simp
    next
      case other
      have "\<not> (manual = None \<and> (\<exists>b. ex = Some b \<and> cb_account_id b \<in> cand_id ` set cs))"
        using bb other mm rotate_to_account_True
        by (force simp: bound_rotation_def rotate_to_bound_account_def manual_rotation_def)
      with plain other r m1 Some show ?thesis by (auto simp: should_apply_thread_aware_distribution_def)
    qed
  qed
qed


section \<open>Concrete instances\<close>

definition pool_example :: "candidate list" where
  "pool_example = map candidate_named [''a'', ''b'']"

definition context_example :: conversation_routing where
  "context_example = \<lparr>cr_platform_key_hash = ''k'', cr_conversation_id = ''c'', cr_source = NativeConversation,
     cr_existing_binding = None, cr_binding_selected = False, cr_bound_account_selectable = False,
     cr_manual_preferred_account_id = None, cr_next_thread_epoch = None\<rparr>"

definition claimed_example :: conversation_binding where
  "claimed_example = proposed_binding context_example ''b'' 1 ''c'' None 10"

definition claimed_context_example :: conversation_routing where
  "claimed_context_example = context_example\<lparr>cr_existing_binding := Some claimed_example,
     cr_binding_selected := True, cr_bound_account_selectable := True, cr_next_thread_epoch := Some 2\<rparr>"

lemma pool_ids: "cand_id ` set pool_example = {''a'', ''b''}"
  by (simp add: pool_example_def)

lemma trimmed_example: "trimmed_nonempty (Some ''c'') = Some ''c''"
  by code_simp

lemma prepare_example:
  "prepare_conversation_routing_with_source ''k'' (Some ''c'') (load_conversation_binding ''k'' (Some ''c'') []) None
     pool_example NativeConversation = (Some context_example, pool_example)"
  by code_simp

lemma claim_example:
  "claim_initial_conversation_binding (Some context_example) (rev pool_example) None 10 [] =
     (ClaimCreated, Some claimed_context_example, rev pool_example, [claimed_example])"
  by code_simp

lemma claim_example2:
  "claim_initial_conversation_binding (Some context_example) pool_example None 11 [claimed_example] =
     (ClaimJoined, Some claimed_context_example, rev pool_example, [claimed_example])"
  by code_simp

lemma run_example: "routing_run [claimed_example] {claimed_context_example, context_example}"
  using run_claim [OF run_prepare [OF run_start prepare_example] _ claim_example] by simp

theorem thread_of_conversation_stable_witness:
  "resolve_attempt_thread (Some claimed_context_example) (account_named ''a'') =
     Some \<lparr>ta_thread_anchor = ''c'', ta_thread_epoch = 2, ta_reset_session_affinity = True\<rparr>
   \<and> fst (record_conversation_binding_terminal_response (Some claimed_context_example)
       (account_named ''a'') None 200 20 [claimed_example]) = Inr ()"
proof -
  have "cr_existing_binding claimed_context_example = Some claimed_example" "cb_account_id claimed_example = ''b''"
    "cb_thread_epoch claimed_example = 1" "cr_conversation_id claimed_context_example = ''c''"
    by code_simp+
  moreover obtain th where "resolve_attempt_thread (Some claimed_context_example) (account_named ''a'') = Some th"
    by (simp add: resolve_attempt_thread_def is_cache_affinity_def claimed_context_example_def context_example_def
        claimed_example_def)
  ultimately show ?thesis
    using thread_of_conversation_stable [OF run_example, where r = claimed_context_example
        and acc = "account_named ''a''" and model = None and status_code = 200 and now = 20]
    by (cases th) simp
qed


lemma record_example:
  "record_conversation_binding_terminal_response (Some claimed_context_example) (account_named ''a'') None 200 20
     [claimed_example] =
   (Inr (), [claimed_example\<lparr>cb_account_id := ''a'', cb_thread_epoch := 2, cb_last_switch_reason :=
      Some ''automatic_account_switch'', cb_updated_at := 20, cb_last_used_at := 20\<rparr>])"
  by code_simp


theorem candidate_order_follows_source_witness:
  "rp_source (fst (apply_candidate_rotation (\<lambda>_. None) (Some ''b'') (Some claimed_context_example) ''k'' None None (\<lambda>_. None)
      \<lparr>clk_ts = 1, clk_instant = 1\<rparr> (rev pool_example) balanced_runtime route_quality_default)) = RotConversationBinding"
proof -
  have p: "prepare_conversation_routing_with_source ''k'' (Some ''c'') (Some claimed_example) None
      pool_example NativeConversation = (Some claimed_context_example, rev pool_example)"
    by code_simp
  have b: "cb_account_id claimed_example = ''b''" by code_simp
  obtain plan out rt' q' where a: "apply_candidate_rotation (\<lambda>_. None) (Some ''b'') (Some claimed_context_example) ''k''
      None None (\<lambda>_. None) \<lparr>clk_ts = 1, clk_instant = 1\<rparr> (rev pool_example) balanced_runtime route_quality_default
      = (plan, out, rt', q')" by (metis prod_cases4)
  have "rp_source plan = RotConversationBinding"
    using candidate_order_follows_source [OF p a] b by (simp add: trimmed_example pool_ids)
  then show ?thesis by (simp only: a fst_conv)
qed

end
