(* ===== verification/ByteStream.thy ===== *)
theory ByteStream
  imports Prelude
begin

text \<open>
  The body of an upstream response as it arrives (\<open>gateway/upstream/response.rs\<close>): items put back
  for another reader, the items still to come with the time each takes to arrive after the one
  before, and the time after the last one until the sender is gone. Reading a whole body, and
  reading a prefix under a limit of bytes, an idle timeout and a wall-clock timeout; what is read
  as a prefix is put back. Durations are nanoseconds; only waiting takes time.
\<close>

section \<open>Streams\<close>

type_synonym duration = nat

datatype stream_item = Chunk string | StreamEof | StreamError string

record byte_stream =
  bs_replay :: "stream_item list"
  bs_input :: "(duration \<times> stream_item) list"
  bs_end :: duration

definition stream_from_bytes :: "string \<Rightarrow> byte_stream" where
  "stream_from_bytes body =
     \<lparr>bs_replay = [], bs_input = (if body = [] then [] else [(0, Chunk body)]) @ [(0, StreamEof)], bs_end = 0\<rparr>"

datatype recv_result = Received stream_item | RecvTimeout | RecvDisconnected

text \<open>
  Waiting at most \<open>timeout\<close> for the next item, with the time it took. An item put back is there at
  once; one that arrives at the very end of the wait is received.
\<close>

definition recv :: "duration option \<Rightarrow> byte_stream \<Rightarrow> recv_result \<times> duration \<times> byte_stream" where
  "recv timeout s =
     (case bs_replay s of
        i # r \<Rightarrow> (Received i, 0, s\<lparr>bs_replay := r\<rparr>)
      | [] \<Rightarrow>
        (case bs_input s of
           (d, i) # r \<Rightarrow>
             (case timeout of
                Some t \<Rightarrow> if d \<le> t then (Received i, d, s\<lparr>bs_input := r\<rparr>)
                          else (RecvTimeout, t, s\<lparr>bs_input := (d - t, i) # r\<rparr>)
              | None \<Rightarrow> (Received i, d, s\<lparr>bs_input := r\<rparr>))
         | [] \<Rightarrow>
             (case timeout of
                Some t \<Rightarrow> if bs_end s \<le> t then (RecvDisconnected, bs_end s, s\<lparr>bs_end := 0\<rparr>)
                          else (RecvTimeout, t, s\<lparr>bs_end := bs_end s - t\<rparr>)
              | None \<Rightarrow> (RecvDisconnected, bs_end s, s\<lparr>bs_end := 0\<rparr>))))"

definition stream_size :: "byte_stream \<Rightarrow> nat" where
  "stream_size s = length (bs_replay s) + length (bs_input s)"

lemma recv_size: "recv timeout s = (Received i, d, s') \<Longrightarrow> stream_size s' < stream_size s"
  by (auto simp: recv_def stream_size_def split: list.splits option.splits if_splits)

section \<open>Reading a body\<close>

function read_all_bytes :: "string \<Rightarrow> duration \<Rightarrow> byte_stream \<Rightarrow> (string + string) \<times> duration" where
  "read_all_bytes buffer elapsed s =
     (case recv None s of
        (Received (Chunk bytes), d, s') \<Rightarrow> read_all_bytes (buffer @ bytes) (elapsed + d) s'
      | (Received StreamEof, d, _) \<Rightarrow> (Inr buffer, elapsed + d)
      | (Received (StreamError err), d, _) \<Rightarrow> (Inl err, elapsed + d)
      | (_, d, _) \<Rightarrow> (Inr buffer, elapsed + d))"
  by pat_completeness auto
termination
  by (relation "measure (\<lambda>(_, _, s). stream_size s)") (auto dest: recv_size [OF sym])

declare read_all_bytes.simps [simp del]

datatype prefetch_terminal =
    PrefetchOpen
  | PrefixLimit
  | IdleTimeout
  | WallClockTimeout
  | PrefetchEof
  | PrefetchError string
  | PrefetchDisconnected

definition receive_timeout :: "duration option \<Rightarrow> duration option \<Rightarrow> duration option" where
  "receive_timeout idle wall =
     (case (idle, wall) of
        (Some i, Some w) \<Rightarrow> Some (min i w)
      | (Some i, None) \<Rightarrow> Some i
      | (None, Some w) \<Rightarrow> Some w
      | (None, None) \<Rightarrow> None)"

text \<open>The loop of \<open>prefetch_until_async\<close>: the prefix, the items read and the time since the start.\<close>

function prefetch_loop ::
  "nat \<Rightarrow> duration option \<Rightarrow> duration option \<Rightarrow> (string \<Rightarrow> bool) \<Rightarrow> string \<Rightarrow> stream_item list \<Rightarrow> duration
    \<Rightarrow> byte_stream \<Rightarrow> (string \<times> stream_item list \<times> byte_stream \<times> prefetch_terminal) \<times> duration" where
  "prefetch_loop max_bytes idle wall should_stop prefix replay elapsed s =
     (if max_bytes \<le> length prefix then ((prefix, replay, s, PrefixLimit), elapsed)
      else if should_stop prefix then ((prefix, replay, s, PrefetchOpen), elapsed)
      else
        let remaining_wall = map_option (\<lambda>t. t - elapsed) wall in
        if remaining_wall = Some 0 then ((prefix, replay, s, WallClockTimeout), elapsed)
        else
          (case recv (receive_timeout idle remaining_wall) s of
             (Received (Chunk bytes), d, s') \<Rightarrow>
               prefetch_loop max_bytes idle wall should_stop
                 (prefix @ take (max_bytes - length prefix) bytes) (replay @ [Chunk bytes]) (elapsed + d) s'
           | (Received StreamEof, d, s') \<Rightarrow> ((prefix, replay @ [StreamEof], s', PrefetchEof), elapsed + d)
           | (Received (StreamError err), d, s') \<Rightarrow>
               ((prefix, replay @ [StreamError err], s', PrefetchError err), elapsed + d)
           | (RecvTimeout, d, s') \<Rightarrow>
               ((prefix, replay, s',
                 case wall of Some t \<Rightarrow> if t \<le> elapsed + d then WallClockTimeout else IdleTimeout
                            | None \<Rightarrow> IdleTimeout), elapsed + d)
           | (RecvDisconnected, d, s') \<Rightarrow> ((prefix, replay, s', PrefetchDisconnected), elapsed + d)))"
  by pat_completeness auto
termination
  by (relation "measure (\<lambda>(_, _, _, _, _, _, _, s). stream_size s)") (auto dest: recv_size [OF sym])

declare prefetch_loop.simps [simp del]

definition prefetch_until ::
  "nat \<Rightarrow> duration option \<Rightarrow> duration option \<Rightarrow> (string \<Rightarrow> bool) \<Rightarrow> byte_stream
    \<Rightarrow> (string \<times> byte_stream \<times> prefetch_terminal) \<times> duration" where
  "prefetch_until max_bytes idle wall should_stop s =
     (case prefetch_loop max_bytes idle wall should_stop [] [] 0 s of
        ((prefix, replay, s', terminal), elapsed) \<Rightarrow>
          ((prefix, s'\<lparr>bs_replay := replay @ bs_replay s'\<rparr>, terminal), elapsed))"

section \<open>What a stream carries\<close>

definition stream_items :: "byte_stream \<Rightarrow> stream_item list" where
  "stream_items s = bs_replay s @ map snd (bs_input s)"

fun body_of :: "stream_item list \<Rightarrow> string + string" where
  "body_of [] = Inr []"
| "body_of (Chunk b # r) = map_sum id (append b) (body_of r)"
| "body_of (StreamEof # r) = Inr []"
| "body_of (StreamError e # r) = Inl e"

lemma recv_received:
  "recv t s = (Received i, d, s') \<Longrightarrow> stream_items s = i # stream_items s'"
  by (auto simp: recv_def stream_items_def split: list.splits option.splits if_splits)

lemma recv_other:
  "recv t s = (RecvTimeout, d, s') \<Longrightarrow> bs_replay s = [] \<and> bs_replay s' = [] \<and> stream_items s' = stream_items s
     \<and> t = Some d"
  "recv t s = (RecvDisconnected, d, s') \<Longrightarrow> stream_items s = [] \<and> stream_items s' = []"
  by (auto simp: recv_def stream_items_def split: list.splits option.splits if_splits)

lemma recv_time: "recv (Some t) s = (r, d, s') \<Longrightarrow> d \<le> t"
  by (auto simp: recv_def split: list.splits if_splits)

lemma map_sum_append [simp]: "map_sum id (append (a @ b)) x = map_sum id (append a) (map_sum id (append b) x)"
  by (cases x) simp_all

lemma read_all_body: "fst (read_all_bytes buffer elapsed s) = map_sum id (append buffer) (body_of (stream_items s))"
proof (induction "stream_size s" arbitrary: buffer elapsed s rule: less_induct)
  case less
  obtain r d s' where e: "recv None s = (r, d, s')" by (metis prod_cases3)
  have nt: "r \<noteq> RecvTimeout" using e by (auto dest: recv_other)
  show ?case
  proof (cases r)
    case (Received i)
    note items = recv_received [OF e [unfolded Received]]
    show ?thesis
      using e Received items less [OF recv_size [OF e [unfolded Received]]]
      by (cases i) (simp_all add: read_all_bytes.simps [of buffer])
  next
    case RecvDisconnected
    with e show ?thesis by (auto simp: read_all_bytes.simps dest: recv_other)
  qed (use nt in simp)
qed

lemma body_from_bytes [simp]: "body_of (stream_items (stream_from_bytes body)) = Inr body"
  by (simp add: stream_from_bytes_def stream_items_def)

section \<open>What reading a prefix does\<close>

fun chunks :: "stream_item list \<Rightarrow> string" where
  "chunks (Chunk b # r) = b @ chunks r"
| "chunks _ = []"

text \<open>One round of the loop, and induction over its rounds.\<close>

definition wall_left :: "duration option \<Rightarrow> duration \<Rightarrow> duration option" where
  "wall_left wall elapsed = map_option (\<lambda>t. t - elapsed) wall"

definition keeps_waiting :: "nat \<Rightarrow> duration option \<Rightarrow> (string \<Rightarrow> bool) \<Rightarrow> string \<Rightarrow> duration \<Rightarrow> bool" where
  "keeps_waiting mx wall stop prefix elapsed \<longleftrightarrow>
     length prefix < mx \<and> \<not> stop prefix \<and> wall_left wall elapsed \<noteq> Some 0"

lemma prefetch_stopped:
  "\<not> keeps_waiting mx wall stop prefix elapsed \<Longrightarrow>
     prefetch_loop mx idle wall stop prefix replay elapsed s =
       ((prefix, replay, s, if mx \<le> length prefix then PrefixLimit
                            else if stop prefix then PrefetchOpen else WallClockTimeout), elapsed)"
  by (auto simp: prefetch_loop.simps [of mx] keeps_waiting_def wall_left_def Let_def)

lemma prefetch_round:
  assumes "keeps_waiting mx wall stop prefix elapsed"
    and "recv (receive_timeout idle (wall_left wall elapsed)) s = (r, d, t)"
  shows "prefetch_loop mx idle wall stop prefix replay elapsed s =
     (case r of
        Received (Chunk b) \<Rightarrow> prefetch_loop mx idle wall stop (prefix @ take (mx - length prefix) b)
          (replay @ [Chunk b]) (elapsed + d) t
      | Received StreamEof \<Rightarrow> ((prefix, replay @ [StreamEof], t, PrefetchEof), elapsed + d)
      | Received (StreamError err) \<Rightarrow> ((prefix, replay @ [StreamError err], t, PrefetchError err), elapsed + d)
      | RecvTimeout \<Rightarrow>
          ((prefix, replay, t,
            case wall of Some w \<Rightarrow> if w \<le> elapsed + d then WallClockTimeout else IdleTimeout
                       | None \<Rightarrow> IdleTimeout), elapsed + d)
      | RecvDisconnected \<Rightarrow> ((prefix, replay, t, PrefetchDisconnected), elapsed + d))"
  using assms
  by (auto simp: prefetch_loop.simps [of mx idle wall stop prefix] keeps_waiting_def wall_left_def Let_def
      split: recv_result.splits stream_item.splits)

lemma prefetch_induct [case_names round]:
  assumes "\<And>prefix replay elapsed s.
    (\<And>b d s'. keeps_waiting mx wall stop prefix elapsed \<Longrightarrow>
       recv (receive_timeout idle (wall_left wall elapsed)) s = (Received (Chunk b), d, s') \<Longrightarrow>
       P (prefix @ take (mx - length prefix) b) (replay @ [Chunk b]) (elapsed + d) s') \<Longrightarrow>
    P prefix replay elapsed s"
  shows "P prefix replay elapsed s"
proof (induction "stream_size s" arbitrary: prefix replay elapsed s rule: less_induct)
  case less
  show ?case by (rule assms) (rule less, erule recv_size)
qed

lemma prefetch_loop_items:
  "prefetch_loop mx idle wall stop prefix replay elapsed s = ((p, rp, s', term), el) \<Longrightarrow>
     rp @ stream_items s' = replay @ stream_items s"
proof (induction prefix replay elapsed s rule: prefetch_induct [where mx = mx and wall = wall and stop = stop and idle = idle])
  case (round prefix replay elapsed s)
  show ?case
  proof (cases "keeps_waiting mx wall stop prefix elapsed")
    case False
    with round(2) show ?thesis by (simp add: prefetch_stopped)
  next
    case True
    obtain r d t where e: "recv (receive_timeout idle (wall_left wall elapsed)) s = (r, d, t)" by (metis prod_cases3)
    note res = round(2) [unfolded prefetch_round [OF True e]]
    show ?thesis
    proof (cases r)
      case (Received i)
      note items = recv_received [OF e [unfolded Received]]
      show ?thesis
      proof (cases i)
        case (Chunk b)
        from round(1) [OF True e [unfolded Received Chunk]] res items show ?thesis
          by (simp add: Received Chunk)
      qed (use res items in \<open>auto simp: Received\<close>)
    qed (use res recv_other e in auto)
  qed
qed

definition chunk_text :: "stream_item list \<Rightarrow> string" where
  "chunk_text items = concat (map (\<lambda>i. case i of Chunk b \<Rightarrow> b | _ \<Rightarrow> []) items)"

lemma chunk_text_simps [simp]:
  "chunk_text [] = []" "chunk_text (Chunk b # r) = b @ chunk_text r" "chunk_text (StreamEof # r) = chunk_text r"
  "chunk_text (StreamError e # r) = chunk_text r" "chunk_text (xs @ ys) = chunk_text xs @ chunk_text ys"
  by (simp_all add: chunk_text_def)

lemma prefetch_loop_prefix:
  "prefetch_loop mx idle wall stop prefix replay elapsed s = ((p, rp, s', term), el) \<Longrightarrow>
     prefix = take mx (chunk_text replay) \<Longrightarrow> p = take mx (chunk_text rp)"
proof (induction prefix replay elapsed s rule: prefetch_induct [where mx = mx and wall = wall and stop = stop and idle = idle])
  case (round prefix replay elapsed s)
  show ?case
  proof (cases "keeps_waiting mx wall stop prefix elapsed")
    case False
    with round(2,3) show ?thesis by (auto simp: prefetch_stopped)
  next
    case True
    obtain r d t where e: "recv (receive_timeout idle (wall_left wall elapsed)) s = (r, d, t)" by (metis prod_cases3)
    note res = round(2) [unfolded prefetch_round [OF True e]]
    have short: "length (chunk_text replay) < mx"
      using True round(3) by (auto simp: keeps_waiting_def)
    show ?thesis
    proof (cases r)
      case (Received i)
      show ?thesis
      proof (cases i)
        case (Chunk b)
        have "prefix @ take (mx - length prefix) b = take mx (chunk_text (replay @ [Chunk b]))"
          using round(3) short by simp
        with round(1) [OF True e [unfolded Received Chunk]] res show ?thesis
          by (simp add: Received Chunk)
      qed (use res round(3) in \<open>auto simp: Received\<close>)
    qed (use res round(3) in auto)
  qed
qed

lemma wall_left_Some: "wall_left (Some w) elapsed = Some (w - elapsed)"
  by (simp add: wall_left_def)

lemma recv_within_wall:
  assumes "recv (receive_timeout idle (wall_left (Some w) elapsed)) s = (r, d, t)"
  shows "d \<le> w - elapsed"
proof (cases idle)
  case None
  with assms recv_time show ?thesis by (auto simp: wall_left_Some receive_timeout_def)
next
  case (Some i)
  with assms have "recv (Some (min i (w - elapsed))) s = (r, d, t)" by (simp add: wall_left_Some receive_timeout_def)
  from recv_time [OF this] show ?thesis by simp
qed

lemma prefetch_loop_time:
  "prefetch_loop mx idle (Some w) stop prefix replay elapsed s = ((p, rp, s', term), el) \<Longrightarrow>
     elapsed \<le> w \<Longrightarrow> el \<le> w"
proof (induction prefix replay elapsed s rule: prefetch_induct [where mx = mx and wall = "Some w" and stop = stop and idle = idle])
  case (round prefix replay elapsed s)
  show ?case
  proof (cases "keeps_waiting mx (Some w) stop prefix elapsed")
    case False
    with round(2,3) show ?thesis by (simp add: prefetch_stopped)
  next
    case True
    obtain r d t where e: "recv (receive_timeout idle (wall_left (Some w) elapsed)) s = (r, d, t)" by (metis prod_cases3)
    have el: "elapsed + d \<le> w" using recv_within_wall [OF e] round(3) by linarith
    note res = round(2) [unfolded prefetch_round [OF True e]]
    show ?thesis
    proof (cases r)
      case (Received i)
      show ?thesis
        using res el round(1) [OF True] e by (cases i) (auto simp: Received)
    qed (use res el in auto)
  qed
qed

lemma prefetch_loop_terminal:
  "prefetch_loop mx idle wall stop prefix replay elapsed s = ((p, rp, s', term), el) \<Longrightarrow>
     (term = PrefetchOpen \<longrightarrow> stop p \<and> length p < mx) \<and>
     (term = PrefixLimit \<longrightarrow> mx \<le> length p) \<and>
     (term \<noteq> PrefetchOpen \<longrightarrow> length p < mx \<longrightarrow> \<not> stop p)"
proof (induction prefix replay elapsed s rule: prefetch_induct [where mx = mx and wall = wall and stop = stop and idle = idle])
  case (round prefix replay elapsed s)
  show ?case
  proof (cases "keeps_waiting mx wall stop prefix elapsed")
    case False
    with round(2) show ?thesis by (auto simp: prefetch_stopped split: if_splits)
  next
    case True
    obtain r d t where e: "recv (receive_timeout idle (wall_left wall elapsed)) s = (r, d, t)" by (metis prod_cases3)
    note res = round(2) [unfolded prefetch_round [OF True e]]
    have ns: "\<not> stop prefix" "length prefix < mx" using True by (simp_all add: keeps_waiting_def)
    show ?thesis
    proof (cases r)
      case (Received i)
      show ?thesis
        using res ns round(1) [OF True] e by (cases i) (auto simp: Received)
    qed (use res ns in \<open>auto split: option.splits if_splits\<close>)
  qed
qed

text \<open>
  A stream that arrives in time: chunks and the end of the body, each within the idle timeout,
  all within the wall clock.
\<close>

definition arrives_in_time :: "duration option \<Rightarrow> duration option \<Rightarrow> byte_stream \<Rightarrow> bool" where
  "arrives_in_time idle wall s \<longleftrightarrow>
     bs_replay s = [] \<and> (\<exists>cs d. bs_input s = map (\<lambda>(d, b). (d, Chunk b)) cs @ [(d, StreamEof)]
       \<and> (\<forall>x. idle = Some x \<longrightarrow> d \<le> x \<and> (\<forall>c \<in> set cs. fst c \<le> x))
       \<and> (\<forall>w. wall = Some w \<longrightarrow> sum_list (map fst cs) + d < w))"

lemma prefetch_loop_in_time:
  assumes "bs_replay s = []" and "bs_input s = map (\<lambda>(d, b). (d, Chunk b)) cs @ [(d, StreamEof)]"
    and "\<forall>x. idle = Some x \<longrightarrow> d \<le> x \<and> (\<forall>c \<in> set cs. fst c \<le> x)"
    and "\<forall>w. wall = Some w \<longrightarrow> elapsed + sum_list (map fst cs) + d < w"
    and "length (prefix @ concat (map snd cs)) < mx"
    and "prefetch_loop mx idle wall stop prefix replay elapsed s = ((p, rp, s', term), el)"
  shows "term = PrefetchOpen \<or> (term = PrefetchEof \<and> p = prefix @ concat (map snd cs))"
  using assms
proof (induction cs arbitrary: s prefix replay elapsed)
  case Nil
  have nw: "wall_left wall elapsed \<noteq> Some 0" using Nil(4) by (auto simp: wall_left_def)
  show ?case
  proof (cases "stop prefix")
    case True
    then show ?thesis using Nil(5,6) by (auto simp: prefetch_stopped keeps_waiting_def)
  next
    case False
    then have k: "keeps_waiting mx wall stop prefix elapsed" using nw Nil(5) by (simp add: keeps_waiting_def)
    have "\<exists>t. recv (receive_timeout idle (wall_left wall elapsed)) s = (Received StreamEof, d, t)"
      using Nil(1-4) by (auto simp: recv_def receive_timeout_def wall_left_def split: option.splits)
    then obtain t where "recv (receive_timeout idle (wall_left wall elapsed)) s = (Received StreamEof, d, t)" ..
    from prefetch_round [OF k this] Nil(6) show ?thesis by simp
  qed
next
  case (Cons c cs)
  obtain e b where c: "c = (e, b)" by (cases c)
  have nw: "wall_left wall elapsed \<noteq> Some 0" using Cons.prems(4) by (auto simp: wall_left_def)
  show ?case
  proof (cases "stop prefix")
    case True
    then show ?thesis using Cons.prems(5,6) by (auto simp: prefetch_stopped keeps_waiting_def)
  next
    case False
    then have k: "keeps_waiting mx wall stop prefix elapsed" using nw Cons.prems(5) by (simp add: keeps_waiting_def)
    let ?t = "s\<lparr>bs_input := map (\<lambda>(d, b). (d, Chunk b)) cs @ [(d, StreamEof)]\<rparr>"
    have r: "recv (receive_timeout idle (wall_left wall elapsed)) s = (Received (Chunk b), e, ?t)"
      using Cons.prems(1-4) by (auto simp: recv_def receive_timeout_def wall_left_def c split: option.splits)
    have len: "take (mx - length prefix) b = b" using Cons.prems(5) by (simp add: c)
    have "prefetch_loop mx idle wall stop (prefix @ b) (replay @ [Chunk b]) (elapsed + e) ?t = ((p, rp, s', term), el)"
      using prefetch_round [OF k r] Cons.prems(6) len by simp
    then show ?thesis
      using Cons.IH [of ?t "elapsed + e" "prefix @ b"] Cons.prems(1-5) by (auto simp: c algebra_simps)
  qed
qed

lemma prefetch_until_loop:
  "prefetch_until mx idle wall stop s = ((p, s', term), el) \<Longrightarrow>
     \<exists>rp t. prefetch_loop mx idle wall stop [] [] 0 s = ((p, rp, t, term), el)
       \<and> s' = t\<lparr>bs_replay := rp @ bs_replay t\<rparr>"
  by (auto simp: prefetch_until_def split: prod.splits)

lemma prefetch_until_items:
  "prefetch_until mx idle wall stop s = ((p, s', term), el) \<Longrightarrow> stream_items s' = stream_items s"
  by (drule prefetch_until_loop) (auto simp: stream_items_def dest!: prefetch_loop_items)

lemma prefetch_until_prefix:
  assumes "prefetch_until mx idle wall stop s = ((p, s', term), el)"
  shows "length p \<le> mx \<and> (\<exists>rest. chunk_text (stream_items s) = p @ rest)"
proof -
  from prefetch_until_loop [OF assms] obtain rp t
    where l: "prefetch_loop mx idle wall stop [] [] 0 s = ((p, rp, t, term), el)" by blast
  have "p = take mx (chunk_text rp)" using prefetch_loop_prefix [OF l] by simp
  moreover have "chunk_text (stream_items s) = chunk_text rp @ chunk_text (stream_items t)"
    using arg_cong [OF prefetch_loop_items [OF l], of chunk_text] by simp
  ultimately show ?thesis by (metis append_assoc append_take_drop_id length_take min.cobounded2)
qed

end
