(* ===== verification/UpstreamPolicy.thy ===== *)
theory UpstreamPolicy
  imports Cooldown QuotaGuard ByteStream
begin

text \<open>
  The decisions of the gateway about one upstream exchange
  (\<open>gateway/upstream/\<close>): base addresses (\<open>config.rs\<close>), deadlines
  (\<open>support/deadline.rs\<close>), back-off (\<open>support/backoff.rs\<close>), failover policy
  (\<open>support/failover_policy.rs\<close>) and what becomes of a response
  (\<open>support/outcome.rs\<close>). Instants and durations are nanoseconds; the wall clock that the
  cooldown table reads is an argument in seconds. A header value is its bytes.
\<close>

section \<open>Base addresses\<close>

definition trim_end_slashes :: "string \<Rightarrow> string" where
  "trim_end_slashes s = rev (dropWhile (\<lambda>c. c = CHR ''/'') (rev s))"

definition default_upstream_base_url :: string where
  "default_upstream_base_url = ''https://chatgpt.com/backend-api/codex''"

definition normalize_upstream_base_url :: "string \<Rightarrow> string" where
  "normalize_upstream_base_url base =
     (let normalized = trim_end_slashes (trim base);
          lower = to_ascii_lowercase normalized
      in if (starts_with lower ''https://chatgpt.com'' \<or> starts_with lower ''https://chat.openai.com'')
            \<and> \<not> contains lower ''/backend-api''
         then normalized @ ''/backend-api/codex'' else normalized)"

definition upstream_reload_from_env :: "(string \<Rightarrow> string option) \<Rightarrow> string" where
  "upstream_reload_from_env env =
     (case trimmed_nonempty (env ''CODEXMANAGER_UPSTREAM_BASE_URL'') of
        Some value \<Rightarrow> normalize_upstream_base_url value
      | None \<Rightarrow> default_upstream_base_url)"

definition resolve_upstream_fallback_base_url :: "string \<Rightarrow> string option" where
  "resolve_upstream_fallback_base_url primary_base = None"

definition is_openai_api_base :: "string \<Rightarrow> bool" where
  "is_openai_api_base base = contains (to_ascii_lowercase (trim base)) ''api.openai.com/v1''"

definition is_chatgpt_backend_base :: "string \<Rightarrow> bool" where
  "is_chatgpt_backend_base base =
     (let normalized = to_ascii_lowercase (trim base)
      in contains normalized ''chatgpt.com/backend-api''
         \<or> contains normalized ''chat.openai.com/backend-api'')"

definition should_send_chatgpt_account_header :: "string \<Rightarrow> bool" where
  "should_send_chatgpt_account_header base =
     contains (to_ascii_lowercase (trim base)) ''/backend-api/codex''"

definition is_official_openai_target :: "string \<Rightarrow> bool" where
  "is_official_openai_target base \<longleftrightarrow> is_chatgpt_backend_base base \<or> is_openai_api_base base"

definition should_try_openai_fallback :: "string \<Rightarrow> string \<Rightarrow> string option \<Rightarrow> bool" where
  "should_try_openai_fallback base request_path content_type = False"

definition should_try_openai_fallback_by_status :: "string \<Rightarrow> string \<Rightarrow> nat \<Rightarrow> bool" where
  "should_try_openai_fallback_by_status base request_path status_code = False"

section \<open>Deadlines\<close>

type_synonym instant = nat

definition from_millis :: "nat \<Rightarrow> duration" where "from_millis ms = ms * 1000000"

definition effective_request_timeout ::
  "duration option \<Rightarrow> duration option \<Rightarrow> bool \<Rightarrow> duration option" where
  "effective_request_timeout total_timeout stream_timeout is_stream =
     (if \<not> is_stream then total_timeout
      else case (total_timeout, stream_timeout) of
             (Some total_t, Some stream_t) \<Rightarrow> Some (max total_t stream_t)
           | (Some total_t, None) \<Rightarrow> Some total_t
           | (None, _) \<Rightarrow> None)"

definition request_deadline ::
  "duration option \<Rightarrow> duration option \<Rightarrow> instant \<Rightarrow> bool \<Rightarrow> instant option" where
  "request_deadline total_timeout stream_timeout started_at is_stream =
     map_option (\<lambda>timeout. started_at + timeout)
       (effective_request_timeout total_timeout stream_timeout is_stream)"

text \<open>\<open>saturating_duration_since\<close> is the truncated subtraction of naturals.\<close>

definition remaining :: "instant option \<Rightarrow> instant \<Rightarrow> duration option" where
  "remaining deadline now = map_option (\<lambda>d. d - now) deadline"

definition is_expired :: "instant option \<Rightarrow> instant \<Rightarrow> bool" where
  "is_expired deadline now = (case remaining deadline now of Some r \<Rightarrow> r = 0 | None \<Rightarrow> False)"

definition cap_wait :: "duration \<Rightarrow> instant option \<Rightarrow> instant \<Rightarrow> duration option" where
  "cap_wait wait deadline now =
     (case remaining deadline now of
        Some r \<Rightarrow> if r = 0 then None else Some (min wait r)
      | None \<Rightarrow> Some wait)"

definition send_timeout ::
  "duration option \<Rightarrow> instant option \<Rightarrow> bool \<Rightarrow> instant \<Rightarrow> duration option" where
  "send_timeout stream_timeout deadline is_stream now =
     (if is_stream
      then map_option (\<lambda>timeout. max timeout (from_millis 1))
        (case (stream_timeout, remaining deadline now) of
           (Some configured, Some r) \<Rightarrow> Some (min configured r)
         | (Some configured, None) \<Rightarrow> Some configured
         | (None, Some r) \<Rightarrow> Some r
         | (None, None) \<Rightarrow> None)
      else map_option (\<lambda>r. max r (from_millis 1)) (remaining deadline now))"

section \<open>Back-off\<close>

definition as_millis_u64 :: "duration \<Rightarrow> nat" where
  "as_millis_u64 d = min (d div 1000000) u64_max"

text \<open>The upper end of the range \<open>gen_range\<close> draws from.\<close>

definition max_delay_ms :: "nat \<Rightarrow> nat \<Rightarrow> nat \<Rightarrow> nat" where
  "max_delay_ms base_ms cap_ms attempt =
     max 1 (min cap_ms (min u64_max (base_ms * 2 ^ min attempt 10)))"

text \<open>\<open>gen\<close> is the draw: a number of at most its argument.\<close>

definition exponential_jitter_delay ::
  "(nat \<Rightarrow> nat) \<Rightarrow> duration \<Rightarrow> duration \<Rightarrow> nat \<Rightarrow> duration" where
  "exponential_jitter_delay gen base cap attempt =
     (let base_ms = as_millis_u64 base; cap_ms = as_millis_u64 cap
      in if base_ms = 0 \<or> cap_ms = 0 then from_millis 0
         else from_millis (gen (max_delay_ms base_ms cap_ms attempt)))"

section \<open>Failover policy\<close>

datatype follow_up_action = FollowFailover | FollowRespondUpstream

datatype custom_upstream_status_kind =
  StatusNotFound | StatusRateLimited | StatusServerError | StatusOther

definition decide_follow_up :: "bool \<Rightarrow> bool \<Rightarrow> follow_up_action" where
  "decide_follow_up should_failover has_more_candidates =
     (if should_failover \<and> has_more_candidates then FollowFailover else FollowRespondUpstream)"

definition classify_custom_upstream_status :: "nat \<Rightarrow> custom_upstream_status_kind" where
  "classify_custom_upstream_status status_code =
     (if status_code = 404 then StatusNotFound
      else if status_code = 429 then StatusRateLimited
      else if 500 \<le> status_code \<and> status_code \<le> 599 then StatusServerError
      else StatusOther)"

definition should_failover_after_fallback_non_success :: "nat \<Rightarrow> bool" where
  "should_failover_after_fallback_non_success status_code \<longleftrightarrow>
     status_code \<in> {401, 403, 404, 408, 409, 429}"

section \<open>Headers\<close>

text \<open>\<open>HeaderValue::to_str\<close> succeeds on visible ASCII and tabs.\<close>

definition header_to_str :: "string \<Rightarrow> string option" where
  "header_to_str v =
     (if list_all (\<lambda>c. (32 \<le> (of_char c :: nat) \<and> (of_char c :: nat) < 127) \<or> (of_char c :: nat) = 9) v
      then Some v else None)"

definition is_html_content_type :: "string \<Rightarrow> bool" where
  "is_html_content_type v = starts_with (to_ascii_lowercase (trim v)) ''text/html''"

definition is_upstream_challenge_response :: "nat \<Rightarrow> string option \<Rightarrow> bool" where
  "is_upstream_challenge_response status_code content_type =
     (case Option.bind content_type header_to_str of
        Some v \<Rightarrow> is_html_content_type v
      | None \<Rightarrow> False)"

definition status_is_success :: "nat \<Rightarrow> bool" where
  "status_is_success status \<longleftrightarrow> 200 \<le> status \<and> status < 300"

section \<open>The outcome of a response\<close>

text \<open>
  What the flow does beside sending: results logged per exchange, refreshes of the usage of
  an account put into the queue, accounts marked unavailable after a token error.
\<close>

datatype flow_event =
    GatewayResult "string option" nat "string option"
  | EnqueueUsageRefresh string
  | RefreshTokenError string string

datatype upstream_outcome_decision = OutcomeFailover | OutcomeRespondUpstream

fun from_follow_up_action :: "follow_up_action \<Rightarrow> upstream_outcome_decision" where
  "from_follow_up_action FollowFailover = OutcomeFailover"
| "from_follow_up_action FollowRespondUpstream = OutcomeRespondUpstream"

definition is_compact_target :: "string \<Rightarrow> bool" where
  "is_compact_target url = contains (to_ascii_lowercase (trim url)) ''/responses/compact''"

text \<open>The storage lookup may fail; the first answer is kept for the rest of the decision.\<close>

definition latest_cached_usage_snapshot ::
  "(string \<Rightarrow> string + usage_snapshot option) \<Rightarrow> string \<Rightarrow> usage_snapshot option option
    \<Rightarrow> usage_snapshot option \<times> usage_snapshot option option" where
  "latest_cached_usage_snapshot lookup account_id cache =
     (let cache' = (case cache of
            None \<Rightarrow> Some (case lookup account_id of Inr found \<Rightarrow> found | Inl _ \<Rightarrow> None)
          | Some _ \<Rightarrow> cache)
      in (Option.bind cache' (\<lambda>x. x), cache'))"

text \<open>What the decision reads: the wall clock, the quota guard, the bucket test, the lookup.\<close>

record outcome_env =
  oe_now :: int
  oe_quota :: quota_guard_config
  oe_reserve :: "string option \<Rightarrow> bool"
  oe_lookup :: "string \<Rightarrow> string + usage_snapshot option"

type_synonym outcome_result = "upstream_outcome_decision \<times> flow_event list \<times> cooldown_state"

definition decide_upstream_outcome ::
  "outcome_env \<Rightarrow> string \<Rightarrow> nat \<Rightarrow> string option \<Rightarrow> string \<Rightarrow> bool \<Rightarrow> cooldown_state \<Rightarrow> outcome_result" where
  "decide_upstream_outcome env account_id status content_type url has_more_candidates s =
     (let official = is_official_openai_target url;
          follow_up = from_follow_up_action (decide_follow_up True has_more_candidates);
          log = (\<lambda>err. GatewayResult (Some url) status err);
          marked = mark_account_cooldown_for_status account_id status (oe_now env) s;
          mark = (\<lambda>reason. mark_account_cooldown account_id reason (oe_now env) s)
      in
      if status_is_success status
      then (OutcomeRespondUpstream, [log None], clear_account_cooldown account_id s)
      else if is_upstream_challenge_response status content_type
      then (follow_up, [log (Some ''upstream challenge blocked'')], mark Challenge)
      else if official \<and> status = 429
      then (follow_up,
            [EnqueueUsageRefresh account_id, log (Some ''upstream rate-limited'')], marked)
      else
      let compact = official \<and> is_compact_target url \<and> 500 \<le> status \<and> status \<le> 599;
          (compact_snapshot, cache) =
            (if compact then latest_cached_usage_snapshot (oe_lookup env) account_id None
             else (None, None))
      in
      if compact
         \<and> (case compact_snapshot of Some snap \<Rightarrow> is_low_quota_snapshot (oe_quota env) snap | None \<Rightarrow> False)
      then (follow_up,
            [EnqueueUsageRefresh account_id,
             log (Some ''upstream compact low-quota server error'')], marked)
      else if official \<and> status = 401
      then (OutcomeRespondUpstream, [log (Some ''upstream unauthorized'')], s)
      else
      let kind = classify_custom_upstream_status status in
      if \<not> official \<and> kind = StatusNotFound \<and> has_more_candidates
      then (follow_up, [log (Some ''upstream not-found failover'')], marked)
      else if \<not> official \<and> kind = StatusRateLimited
      then (follow_up, [log (Some ''upstream rate-limited'')], marked)
      else if \<not> official \<and> kind = StatusServerError
      then (follow_up, [log (Some ''upstream server error'')], marked)
      else
      let snapshot = fst (latest_cached_usage_snapshot (oe_lookup env) account_id cache);
          should_failover = (\<not> official \<or> status \<noteq> 401)
            \<and> should_failover_from_cached_snapshot_value (oe_reserve env) snapshot False
      in
      if should_failover
      then (if official
            then (follow_up,
                  [EnqueueUsageRefresh account_id, log (Some ''upstream account exhausted'')],
                  mark Default)
            else (follow_up,
                  [EnqueueUsageRefresh account_id, log (Some ''upstream non-success'')], marked))
      else (OutcomeRespondUpstream,
            [EnqueueUsageRefresh account_id, log (Some ''upstream non-success'')], s))"

section \<open>Lemmas\<close>

lemma is_expired_iff: "is_expired deadline now \<longleftrightarrow> (\<exists>d. deadline = Some d \<and> d \<le> now)"
  by (cases deadline) (auto simp: is_expired_def remaining_def)

lemma cap_wait_None_iff: "cap_wait w deadline now = None \<longleftrightarrow> is_expired deadline now"
  by (cases deadline) (auto simp: cap_wait_def is_expired_iff remaining_def)

lemma cap_wait_SomeD:
  "cap_wait w deadline now = Some d \<Longrightarrow> d \<le> w \<and> (\<forall>t. deadline = Some t \<longrightarrow> now + d \<le> t)"
  by (cases deadline) (auto simp: cap_wait_def remaining_def split: if_splits)

lemma max_delay_ms_le: "1 \<le> cap_ms \<Longrightarrow> max_delay_ms base_ms cap_ms attempt \<le> cap_ms"
  by (simp add: max_delay_ms_def)

lemma jitter_delay_le:
  assumes gen: "\<And>n. gen n \<le> n" and cap: "from_millis 1 \<le> cap"
  shows "exponential_jitter_delay gen base cap attempt \<le> cap"
proof (cases "as_millis_u64 base = 0 \<or> as_millis_u64 cap = 0")
  case True
  then show ?thesis by (auto simp: exponential_jitter_delay_def from_millis_def)
next
  case False
  let ?m = "max_delay_ms (as_millis_u64 base) (as_millis_u64 cap) attempt"
  have "gen ?m \<le> as_millis_u64 cap"
  proof -
    have "1 \<le> as_millis_u64 cap" using False by simp
    then have "?m \<le> as_millis_u64 cap" by (rule max_delay_ms_le)
    with gen [of ?m] show ?thesis by (rule le_trans)
  qed
  also have "\<dots> \<le> cap div 1000000" by (simp add: as_millis_u64_def)
  finally have "gen ?m * 1000000 \<le> cap" by linarith
  then show ?thesis using False by (simp add: exponential_jitter_delay_def from_millis_def Let_def)
qed

lemma follow_up_failover_iff [simp]:
  "from_follow_up_action (decide_follow_up b hm) = OutcomeFailover \<longleftrightarrow> b \<and> hm"
  "from_follow_up_action (decide_follow_up b hm) = OutcomeRespondUpstream \<longleftrightarrow> \<not> (b \<and> hm)"
  by (auto simp: decide_follow_up_def)

lemma latest_cached_usage_snapshot_once:
  "fst (latest_cached_usage_snapshot lookup a (snd (latest_cached_usage_snapshot lookup a None)))
     = fst (latest_cached_usage_snapshot lookup a None)"
  by (simp add: latest_cached_usage_snapshot_def Let_def)

text \<open>The snapshot the decision works with, if storage has one.\<close>

definition known_snapshot :: "outcome_env \<Rightarrow> string \<Rightarrow> usage_snapshot option" where
  "known_snapshot env a = (case oe_lookup env a of Inr found \<Rightarrow> found | Inl _ \<Rightarrow> None)"

lemma latest_cached_known: "fst (latest_cached_usage_snapshot (oe_lookup env) a None) = known_snapshot env a"
  by (simp add: latest_cached_usage_snapshot_def known_snapshot_def Let_def)

lemma latest_cached_known':
  "latest_cached_usage_snapshot (oe_lookup env) a None = (known_snapshot env a, Some (known_snapshot env a))"
  "fst (latest_cached_usage_snapshot (oe_lookup env) a (Some (known_snapshot env a))) = known_snapshot env a"
  by (simp_all add: latest_cached_usage_snapshot_def known_snapshot_def Let_def)

definition low_quota_account :: "outcome_env \<Rightarrow> string \<Rightarrow> bool" where
  "low_quota_account env a =
     (case known_snapshot env a of Some snap \<Rightarrow> is_low_quota_snapshot (oe_quota env) snap | None \<Rightarrow> False)"

definition exhausted_account :: "outcome_env \<Rightarrow> string \<Rightarrow> bool" where
  "exhausted_account env a =
     should_failover_from_cached_snapshot_value (oe_reserve env) (known_snapshot env a) False"

text \<open>When another account should get the request, whatever the order of the tests is.\<close>

definition account_at_fault :: "outcome_env \<Rightarrow> string \<Rightarrow> nat \<Rightarrow> string option \<Rightarrow> string \<Rightarrow> bool" where
  "account_at_fault env a status content_type url \<longleftrightarrow>
     \<not> status_is_success status \<and>
     (is_upstream_challenge_response status content_type \<or>
      status = 429 \<or>
      (is_official_openai_target url \<and> is_compact_target url \<and> 500 \<le> status \<and> status \<le> 599
        \<and> low_quota_account env a) \<or>
      (\<not> is_official_openai_target url \<and> (status = 404 \<or> 500 \<le> status \<and> status \<le> 599)) \<or>
      (\<not> (is_official_openai_target url \<and> status = 401) \<and> exhausted_account env a))"

lemma custom_kind_iff:
  "classify_custom_upstream_status st = StatusNotFound \<longleftrightarrow> st = 404"
  "classify_custom_upstream_status st = StatusRateLimited \<longleftrightarrow> st = 429"
  "classify_custom_upstream_status st = StatusServerError \<longleftrightarrow> 500 \<le> st \<and> st \<le> 599"
  by (auto simp: classify_custom_upstream_status_def)

lemma decide_upstream_outcome_cases:
  "decide_upstream_outcome env a status ct url hm s =
     (let official = is_official_openai_target url;
          follow_up = from_follow_up_action (decide_follow_up True hm);
          log = (\<lambda>err. GatewayResult (Some url) status err);
          marked = mark_account_cooldown_for_status a status (oe_now env) s
      in
      if status_is_success status
      then (OutcomeRespondUpstream, [log None], clear_account_cooldown a s)
      else if is_upstream_challenge_response status ct
      then (follow_up, [log (Some ''upstream challenge blocked'')],
            mark_account_cooldown a Challenge (oe_now env) s)
      else if official \<and> status = 429
      then (follow_up, [EnqueueUsageRefresh a, log (Some ''upstream rate-limited'')], marked)
      else if official \<and> is_compact_target url \<and> 500 \<le> status \<and> status \<le> 599 \<and> low_quota_account env a
      then (follow_up,
            [EnqueueUsageRefresh a, log (Some ''upstream compact low-quota server error'')], marked)
      else if official \<and> status = 401
      then (OutcomeRespondUpstream, [log (Some ''upstream unauthorized'')], s)
      else if \<not> official \<and> status = 404 \<and> hm
      then (follow_up, [log (Some ''upstream not-found failover'')], marked)
      else if \<not> official \<and> status = 429
      then (follow_up, [log (Some ''upstream rate-limited'')], marked)
      else if \<not> official \<and> 500 \<le> status \<and> status \<le> 599
      then (follow_up, [log (Some ''upstream server error'')], marked)
      else if exhausted_account env a
      then (follow_up,
            [EnqueueUsageRefresh a,
             log (Some (if official then ''upstream account exhausted'' else ''upstream non-success''))],
            if official then mark_account_cooldown a Default (oe_now env) s else marked)
      else (OutcomeRespondUpstream, [EnqueueUsageRefresh a, log (Some ''upstream non-success'')], s))"
  by (simp add: decide_upstream_outcome_def custom_kind_iff Let_def latest_cached_known
      latest_cached_known' low_quota_account_def exhausted_account_def)

text \<open>Every decision is one operation of the cooldown table, or none, on its own account.\<close>

lemma outcome_cooldown_op:
  assumes "decide_upstream_outcome env a status ct url hm s = (d, ev, s')"
  shows "s' = s \<or> (\<exists>x. s' = apply_cooldown_op a x (oe_now env) s)"
proof -
  consider (same) "s' = s" | (mark) r where "s' = mark_account_cooldown a r (oe_now env) s"
    | (clear) "s' = clear_account_cooldown a s"
    using assms
    by (auto simp: decide_upstream_outcome_cases Let_def mark_account_cooldown_for_status_def
        split: if_splits)
  then show ?thesis
  proof cases
    case (mark r)
    then show ?thesis by (intro disjI2 exI [of _ "MarkReason r"]) simp
  next
    case clear
    then show ?thesis by (intro disjI2 exI [of _ ClearOnSuccess]) simp
  qed simp
qed

lemma mark_cools_now: "cooling (mark_account_cooldown a r now s) now a"
proof -
  let ?s1 = "maybe_cleanup_expired_cooldowns now s"
  obtain counts lasts secs where e:
    "cooldown_secs_for_mark (cd_offense_counts ?s1) (cd_offense_last_at ?s1) a r now = (counts, lasts, secs)"
    by (metis prod_cases3)
  from cooldown_secs_for_mark_pos [OF e] have "0 < mark_secs a r now s" by (simp add: e Let_def)
  then show ?thesis by (simp add: cooling_mark)
qed

lemma outcome_failover_cools:
  assumes "decide_upstream_outcome env a status ct url hm s = (OutcomeFailover, ev, s')"
  shows "hm \<and> cooling s' (oe_now env) a"
  using assms
  by (auto simp: decide_upstream_outcome_cases Let_def mark_cools_now
      mark_account_cooldown_for_status_def split: if_splits)

lemma outcome_success:
  "status_is_success status \<Longrightarrow> decide_upstream_outcome env a status ct url hm s
     = (OutcomeRespondUpstream, [GatewayResult (Some url) status None], clear_account_cooldown a s)"
  by (simp add: decide_upstream_outcome_cases)

lemma outcome_failover_iff:
  "fst (decide_upstream_outcome env a status ct url hm s) = OutcomeFailover \<longleftrightarrow>
     hm \<and> account_at_fault env a status ct url"
  by (auto simp: decide_upstream_outcome_cases account_at_fault_def Let_def)

lemma outcome_other_account:
  assumes "decide_upstream_outcome env a status ct url hm s = (d, ev, s')"
    and "k \<noteq> a" and "oe_now env \<le> t"
  shows "cooling s' t k = cooling s t k"
  using outcome_cooldown_op [OF assms(1)] assms(2,3) cooling_op_other by metis

lemma outcome_wf:
  assumes "decide_upstream_outcome env a status ct url hm s = (d, ev, s')" and "cooldown_wf s"
  shows "cooldown_wf s'"
  using outcome_cooldown_op [OF assms(1)] assms(2) cooldown_wf_op by metis

definition is_gateway_result :: "flow_event \<Rightarrow> bool" where
  "is_gateway_result e \<longleftrightarrow> (case e of GatewayResult _ _ _ \<Rightarrow> True | _ \<Rightarrow> False)"

lemma outcome_logs_once:
  "decide_upstream_outcome env a status ct url hm s = (d, ev, s') \<Longrightarrow>
     length (filter is_gateway_result ev) = 1"
  by (auto simp: decide_upstream_outcome_cases Let_def is_gateway_result_def split: if_splits)

section \<open>Properties\<close>

text \<open>
  C33: The outcome of a response. The gateway moves on to another account exactly when there
  is one and the account is at fault: a challenge page, a rate limit, a server error of a
  compact request on an account low on quota, not found or a server error of a custom
  upstream, or any other failure (an official 401 apart) while the account is known to be
  exhausted. Then the account is out of rotation from this moment on. A success takes its
  account out of cooldown, no other account changes, and exactly one result is logged.
\<close>

theorem upstream_outcome_correct:
  assumes "decide_upstream_outcome env a status content_type url has_more s = (d, ev, s')"
  shows "(d = OutcomeFailover \<longleftrightarrow> has_more \<and> account_at_fault env a status content_type url)
    \<and> (d = OutcomeFailover \<longrightarrow> cooling s' (oe_now env) a)
    \<and> (status_is_success status \<longrightarrow> d = OutcomeRespondUpstream \<and> (\<forall>t. \<not> cooling s' t a))
    \<and> (\<forall>k t. k \<noteq> a \<longrightarrow> oe_now env \<le> t \<longrightarrow> cooling s' t k = cooling s t k)
    \<and> length (filter is_gateway_result ev) = 1"
proof (intro conjI impI allI)
  show "d = OutcomeFailover \<longleftrightarrow> has_more \<and> account_at_fault env a status content_type url"
    using outcome_failover_iff [of env a status content_type url has_more s] assms by simp
  show "cooling s' (oe_now env) a" if "d = OutcomeFailover"
    using outcome_failover_cools assms that by blast
  show "d = OutcomeRespondUpstream" and "\<not> cooling s' t a" if "status_is_success status" for t
    using assms outcome_success [OF that] by (auto simp: cooling_clear)
  show "cooling s' t k = cooling s t k" if "k \<noteq> a" "oe_now env \<le> t" for k t
    using outcome_other_account [OF assms that] .
qed (rule outcome_logs_once [OF assms])

definition outcome_env_example :: outcome_env where
  "outcome_env_example =
     \<lparr>oe_now = 100, oe_quota = quota_guard_default, oe_reserve = (\<lambda>_. False),
      oe_lookup = (\<lambda>_. Inl ''locked'')\<rparr>"

lemma outcome_example:
  "decide_upstream_outcome outcome_env_example ''a'' 503 None ''https://mirror.example/v1'' True
     cooldown_default =
   (OutcomeFailover,
    [GatewayResult (Some ''https://mirror.example/v1'') 503 (Some ''upstream server error'')],
    mark_account_cooldown_for_status ''a'' 503 100 cooldown_default)"
proof -
  have "\<not> is_official_openai_target ''https://mirror.example/v1''" by code_simp
  moreover have "\<not> is_upstream_challenge_response 503 None" "\<not> status_is_success 503"
    by (simp_all add: is_upstream_challenge_response_def status_is_success_def)
  ultimately show ?thesis
    by (simp add: decide_upstream_outcome_cases outcome_env_example_def decide_follow_up_def)
qed

theorem upstream_outcome_correct_witness:
  "account_at_fault outcome_env_example ''a'' 503 None ''https://mirror.example/v1''
   \<and> cooling (mark_account_cooldown_for_status ''a'' 503 100 cooldown_default) 100 ''a''"
  using upstream_outcome_correct [OF outcome_example] by (simp add: outcome_env_example_def)

text \<open>
  Back-off. For every draw within its range, a wait that is granted lasts at most the
  cap of the back-off and ends no later than the deadline of the request; it is refused
  exactly when the deadline has passed.
\<close>

lemma backoff_within_cap_and_deadline:
  assumes "\<And>n. gen n \<le> n" and "from_millis 1 \<le> cap"
  shows "(cap_wait (exponential_jitter_delay gen base cap attempt) deadline now = None
      \<longleftrightarrow> is_expired deadline now)
    \<and> (\<forall>w. cap_wait (exponential_jitter_delay gen base cap attempt) deadline now = Some w \<longrightarrow>
        w \<le> cap \<and> (\<forall>t. deadline = Some t \<longrightarrow> now + w \<le> t))"
proof (intro conjI allI impI)
  show "cap_wait (exponential_jitter_delay gen base cap attempt) deadline now = None
      \<longleftrightarrow> is_expired deadline now" by (rule cap_wait_None_iff)
  fix w assume "cap_wait (exponential_jitter_delay gen base cap attempt) deadline now = Some w"
  note w = cap_wait_SomeD [OF this]
  from w show "w \<le> cap" using jitter_delay_le [OF assms] le_trans by blast
  show "now + w \<le> t" if "deadline = Some t" for t using w that by blast
qed

end
