(* ===== verification/RequestSetup.thy ===== *)
theory RequestSetup
  imports CandidateState ConversationSafety ModelSupport UpstreamPolicy
begin

text \<open>
  The preparation of a request (\<open>gateway/upstream/proxy_pipeline/request_setup.rs\<close>): the routing
  context of its conversation, the check of the bound account against the model, the order of the
  candidates and the claim of a new conversation, composed from the components that do it. Resolved
  addresses, the account preferred by hand, the model override, the settings and the clocks are
  arguments; storage calls succeed.
\<close>

record setup_env =
  se_environ :: environment
  se_manual :: "string option"
  se_upstream_base :: string
  se_urls :: "string \<Rightarrow> string \<Rightarrow> string \<times> string option"
  se_max_inflight :: nat
  se_model_override :: "string option"
  se_thread_aware :: bool
  se_sticky_conversation :: bool
  se_now :: int
  se_clock :: clock
  se_model_now :: nat

record setup_state =
  st_bindings :: binding_table
  st_route :: route_runtime
  st_quality :: route_quality_state
  st_marks :: model_marks
  st_inflight :: inflight_map

text \<open>A binding to an account known not to support the model is left out of the context.\<close>

definition drop_unsupported_binding ::
  "nat \<Rightarrow> string option \<Rightarrow> conversation_routing option \<Rightarrow> model_marks \<Rightarrow> conversation_routing option \<times> model_marks" where
  "drop_unsupported_binding now support_model routing marks =
     (case routing of
        None \<Rightarrow> (None, marks)
      | Some r \<Rightarrow>
          (case (cr_existing_binding r, trimmed_nonempty support_model) of
             (Some b, Some m) \<Rightarrow>
               (case is_unsupported (cb_account_id b) m now marks of
                  (True, marks1) \<Rightarrow> (Some (forget_binding r), marks1)
                | (False, marks1) \<Rightarrow> (Some r, marks1))
           | _ \<Rightarrow> (Some r, marks)))"

definition account_binding_counts ::
  "bool \<Rightarrow> string \<Rightarrow> conversation_routing option \<Rightarrow> binding_table \<Rightarrow> (string \<Rightarrow> nat option) option" where
  "account_binding_counts thread_aware platform_key_hash routing t =
     (if thread_aware
         \<and> (case routing of
              Some r \<Rightarrow> cr_existing_binding r = None \<and> allows_initial_binding_create (cr_source r)
            | None \<Rightarrow> False)
      then Some (active_conversation_binding_account_counts platform_key_hash t) else None)"

definition prepare_request_setup ::
  "setup_env \<Rightarrow> string \<Rightarrow> string \<Rightarrow> bool \<Rightarrow> string \<Rightarrow> candidate list \<Rightarrow> string \<Rightarrow> string \<Rightarrow> string option
    \<Rightarrow> route_conversation_source \<Rightarrow> conversation_binding option \<Rightarrow> string option \<Rightarrow> setup_state
    \<Rightarrow> request_setup \<times> candidate list \<times> setup_state" where
  "prepare_request_setup env path protocol_type has_prompt_cache_key body candidates key_id platform_key_hash
     route_conversation_id source conversation_binding model s =
     (let upstream_base = se_upstream_base env;
          (url, url_alt) = se_urls env upstream_base path;
          (routing, cs1) = prepare_conversation_routing_with_source platform_key_hash route_conversation_id
            conversation_binding (se_manual env) candidates source;
          support_model = (case se_model_override env of Some m \<Rightarrow> Some m | None \<Rightarrow> model);
          (routing1, marks) = drop_unsupported_binding (se_model_now env) support_model routing (st_marks s);
          counts = account_binding_counts (se_thread_aware env) platform_key_hash routing1 (st_bindings s);
          (plan, cs2, rt, q) = apply_candidate_rotation (se_environ env) (se_manual env) routing1 key_id model
            counts (st_inflight s) (se_clock env) cs1 (st_route s) (st_quality s);
          (claim, routing2, cs3, t) =
            claim_initial_conversation_binding routing1 cs2 model (se_now env) (st_bindings s);
          plan1 = (if selected_binding claim
                   then \<lparr>rp_source = RotConversationBinding, rp_strategy_label = claim_strategy_label claim,
                         rp_strategy_applied = True\<rparr>
                   else plan)
      in (\<lparr>rs_upstream_base = upstream_base,
           rs_upstream_fallback_base = resolve_upstream_fallback_base_url upstream_base,
           rs_url = url, rs_url_alt = url_alt, rs_candidate_count = length candidates,
           rs_account_max_inflight = se_max_inflight env,
           rs_anthropic_has_thread_anchor =
             (protocol_type = ''anthropic_native'' \<and> (has_prompt_cache_key \<or> routing1 \<noteq> None)),
           rs_has_sticky_fallback_session = False,
           rs_has_sticky_fallback_conversation = se_sticky_conversation env,
           rs_has_body_encrypted_content = body_has_encrypted_content_hint body,
           rs_conversation_routing = routing2,
           rs_route_strategy_for_log = rp_strategy_label plan1,
           rs_route_source_for_log = rotation_source_str (rp_source plan1)\<rparr>,
          cs3, s\<lparr>st_bindings := t, st_route := rt, st_quality := q, st_marks := marks\<rparr>))"


section \<open>Properties\<close>

lemma claim_initial_mset:
  assumes "claim_initial_conversation_binding routing cs model now t = (res, routing', cs', t')"
  shows "mset cs' = mset cs"
proof (cases routing)
  case None
  with assms show ?thesis by (simp add: claim_initial_conversation_binding_def)
next
  case (Some r)
  then obtain r' where "routing' = Some r'"
    using assms by (auto simp: claim_initial_conversation_binding_def split: if_splits list.splits prod.splits)
  with assms Some have "claim_initial_conversation_binding (Some r) cs model now t = (res, Some r', cs', t')" by simp
  then show ?thesis
  proof (cases rule: claim_cases)
    case (claim p e new sel)
    then show ?thesis using rotate_to_account_mset [of "cb_account_id e" cs] by (simp add: rotate_to_bound_account_def)
  qed simp
qed

text \<open>The stages of the preparation.\<close>

lemma setup_stages:
  assumes "prepare_request_setup env path protocol has_key body cs key_id k c src ex model s = (setup, cs', s')"
  obtains r0 cs1 r1 marks counts plan cs2 rt q res r2 t where
    "prepare_conversation_routing_with_source k c ex (se_manual env) cs src = (r0, cs1)"
    "drop_unsupported_binding (se_model_now env)
       (case se_model_override env of Some m \<Rightarrow> Some m | None \<Rightarrow> model) r0 (st_marks s) = (r1, marks)"
    "apply_candidate_rotation (se_environ env) (se_manual env) r1 key_id model counts (st_inflight s) (se_clock env)
       cs1 (st_route s) (st_quality s) = (plan, cs2, rt, q)"
    "claim_initial_conversation_binding r1 cs2 model (se_now env) (st_bindings s) = (res, r2, cs', t)"
    "rs_conversation_routing setup = r2" "rs_candidate_count setup = length cs" "st_bindings s' = t"
    "counts = account_binding_counts (se_thread_aware env) k r1 (st_bindings s)"
proof -
  obtain r0 cs1 where 1: "prepare_conversation_routing_with_source k c ex (se_manual env) cs src = (r0, cs1)" by fastforce
  obtain r1 marks where 2: "drop_unsupported_binding (se_model_now env)
       (case se_model_override env of Some m \<Rightarrow> Some m | None \<Rightarrow> model) r0 (st_marks s) = (r1, marks)" by fastforce
  let ?counts = "account_binding_counts (se_thread_aware env) k r1 (st_bindings s)"
  obtain plan cs2 rt q where 3: "apply_candidate_rotation (se_environ env) (se_manual env) r1 key_id model ?counts
       (st_inflight s) (se_clock env) cs1 (st_route s) (st_quality s) = (plan, cs2, rt, q)" by (metis prod_cases4)
  obtain res r2 cs3 t where 4: "claim_initial_conversation_binding r1 cs2 model (se_now env) (st_bindings s)
      = (res, r2, cs3, t)" by (metis prod_cases4)
  obtain u ua where 5: "se_urls env (se_upstream_base env) path = (u, ua)" by fastforce
  show ?thesis
    using assms by (intro that [OF 1 2 3]) (auto simp: prepare_request_setup_def Let_def 1 2 3 4 5)
qed

lemma rotation_mset:
  assumes "apply_candidate_rotation env preferred routing key_id model counts inflight clk cs rt q = (plan, out, rt', q')"
  shows "mset out = mset cs"
proof (cases "\<forall>r. routing = Some r \<longrightarrow> \<not> cr_binding_selected r \<and> cr_manual_preferred_account_id r = None")
  case True
  with rotation_without_binding [OF assms] show ?thesis by simp
next
  case False
  with assms show ?thesis by (auto simp: apply_candidate_rotation_def split: if_splits)
qed

lemma claim_existing:
  assumes "claim_initial_conversation_binding (Some r) cs model now t = (res, Some r', cs', t')"
    and "cr_existing_binding r = None" and "allows_initial_binding_create (cr_source r)"
    and "cs \<noteq> []" and "get_conversation_binding (cr_key r) t = Some b"
  shows "cr_existing_binding r' = Some b \<and> cr_next_thread_epoch r' = Some (cb_thread_epoch b + 1) \<and> t' = t
    \<and> cr_key r' = cr_key r \<and> cr_source r' = cr_source r"
  using assms(1)
proof (cases rule: claim_cases)
  case skip
  with assms show ?thesis by simp
next
  case (claim p e new sel)
  have "binding_key p = cr_key r" by (simp add: claim(4))
  then have "e = b" "t' = t" using claim(5) assms(5) by (auto simp: claim_conversation_binding_def)
  with claim(7) show ?thesis by simp
qed



definition setup_env_example :: setup_env where
  "setup_env_example = \<lparr>se_environ = (\<lambda>_. None), se_manual = None, se_upstream_base = ''u'',
     se_urls = (\<lambda>b p. (b @ p, None)), se_max_inflight = 0, se_model_override = None, se_thread_aware = False,
     se_sticky_conversation = False, se_now = 20, se_clock = \<lparr>clk_ts = 1, clk_instant = 1\<rparr>, se_model_now = 50\<rparr>"

definition setup_state_example :: setup_state where
  "setup_state_example = \<lparr>st_bindings = [claimed_example], st_route = balanced_runtime,
     st_quality = route_quality_default, st_marks = [mark_key ''b'' ''m'' \<mapsto> 100], st_inflight = Map.empty\<rparr>"


end
