(* ===== verification/Exchange.thy ===== *)
theory Exchange
  imports UpstreamPolicy
begin

text \<open>
  The state of one attempt on one account and the world it talks to. Sending a request,
  drawing random numbers, sleeping, the wall clock, the token endpoint, the agent identity
  and the storage lookups are the fields of \<open>flow_env\<close>; a reply may depend on how many
  requests were sent before, and comes with the time it took. The state keeps the
  monotonic clock, the cooldown table, the token, the requests sent and the events.
\<close>

section \<open>Requests, responses and the environment\<close>

text \<open>Header names of a response are lower case; \<open>HeaderMap::get\<close> returns the first value.\<close>

record upstream_response =
  ur_status :: nat
  ur_headers :: "(string \<times> string) list"
  ur_body :: byte_stream

definition header_get :: "string \<Rightarrow> upstream_response \<Rightarrow> string option" where
  "header_get name r = map_of (ur_headers r) name"

definition content_type_of :: "upstream_response \<Rightarrow> string option" where
  "content_type_of r = header_get ''content-type'' r"

text \<open>Reading the body may fail; otherwise the response is rebuilt with the bytes read.\<close>

definition into_buffered :: "upstream_response \<Rightarrow> (string + string \<times> upstream_response) \<times> duration" where
  "into_buffered r =
     (case read_all_bytes [] 0 (ur_body r) of
        (Inl err, elapsed) \<Rightarrow> (Inl err, elapsed)
      | (Inr body, elapsed) \<Rightarrow> (Inr (body, r\<lparr>ur_body := stream_from_bytes body\<rparr>), elapsed))"

datatype send_kind = SendPlain | SendWithoutCompression | SendWithoutSessionHeaders

record sent_request =
  sq_kind :: send_kind
  sq_url :: string
  sq_auth_token :: string
  sq_account :: account
  sq_fedramp :: bool
  sq_strip :: bool
  sq_body :: string

record agent_authorization =
  ag_value :: string
  ag_task_id :: string
  ag_is_fedramp :: bool
  ag_account_scope_id :: "string option"

record flow_env =
  fe_send :: "nat \<Rightarrow> sent_request \<Rightarrow> (string + upstream_response) \<times> duration"
  fe_openai :: "nat \<Rightarrow> string \<Rightarrow> account \<Rightarrow> token \<Rightarrow> (string + upstream_response option) \<times> token \<times> duration"
  fe_gen :: "instant \<Rightarrow> nat \<Rightarrow> nat"
  fe_sleep :: "instant \<Rightarrow> duration \<Rightarrow> bool \<times> duration"
  fe_wall :: "instant \<Rightarrow> int"
  fe_quota :: quota_guard_config
  fe_reserve :: "string option \<Rightarrow> bool"
  fe_lookup :: "string \<Rightarrow> string + usage_snapshot option"
  fe_client :: "string \<Rightarrow> string + unit"
  fe_find_agent :: "string \<Rightarrow> string + unit option"
  fe_resolve_agent :: "account \<Rightarrow> token \<Rightarrow> (string + agent_authorization option) \<times> duration"
  fe_recover_agent :: "account \<Rightarrow> token \<Rightarrow> string \<Rightarrow> (string + agent_authorization option) \<times> duration"
  fe_refresh_token :: "token \<Rightarrow> string \<Rightarrow> (string + unit) \<times> token \<times> duration"
  fe_default_issuer :: string
  fe_url_path :: "string \<Rightarrow> string option"
  fe_identity_code :: "(string \<times> string) list \<Rightarrow> string option"
  fe_error_hint :: "nat \<Rightarrow> string \<Rightarrow> string option"
  fe_is_json :: "string \<Rightarrow> bool"

record flow_state =
  fs_now :: instant
  fs_cooldown :: cooldown_state
  fs_token :: token
  fs_sent :: "sent_request list"
  fs_events :: "(int \<times> flow_event) list"

section \<open>Steps\<close>

definition outcome_env_at :: "flow_env \<Rightarrow> flow_state \<Rightarrow> outcome_env" where
  "outcome_env_at env s =
     \<lparr>oe_now = fe_wall env (fs_now s), oe_quota = fe_quota env, oe_reserve = fe_reserve env,
      oe_lookup = fe_lookup env\<rparr>"

text \<open>An event carries the reading of the wall clock.\<close>

definition log_event :: "flow_env \<Rightarrow> flow_event \<Rightarrow> flow_state \<Rightarrow> flow_state" where
  "log_event env e s = s\<lparr>fs_events := fs_events s @ [(fe_wall env (fs_now s), e)]\<rparr>"

definition log_gateway_result ::
  "flow_env \<Rightarrow> string option \<Rightarrow> nat \<Rightarrow> string option \<Rightarrow> flow_state \<Rightarrow> flow_state" where
  "log_gateway_result env url status err s = log_event env (GatewayResult url status err) s"

definition flow_mark :: "flow_env \<Rightarrow> string \<Rightarrow> cooldown_reason \<Rightarrow> flow_state \<Rightarrow> flow_state" where
  "flow_mark env account_id reason s =
     s\<lparr>fs_cooldown := mark_account_cooldown account_id reason (fe_wall env (fs_now s)) (fs_cooldown s)\<rparr>"

definition flow_mark_status :: "flow_env \<Rightarrow> string \<Rightarrow> nat \<Rightarrow> flow_state \<Rightarrow> flow_state" where
  "flow_mark_status env account_id status s =
     s\<lparr>fs_cooldown :=
         mark_account_cooldown_for_status account_id status (fe_wall env (fs_now s)) (fs_cooldown s)\<rparr>"

definition send_request ::
  "flow_env \<Rightarrow> sent_request \<Rightarrow> flow_state \<Rightarrow> (string + upstream_response) \<times> flow_state" where
  "send_request env req s =
     (let (reply, elapsed) = fe_send env (length (fs_sent s)) req
      in (reply, s\<lparr>fs_now := fs_now s + elapsed, fs_sent := fs_sent s @ [req]\<rparr>))"

text \<open>
  \<open>try_openai_fallback\<close> sends to the OpenAI API with a token of its own; it counts as one
  request of the attempt, to that base, and may change the token.
\<close>

definition openai_request :: "string \<Rightarrow> string \<Rightarrow> account \<Rightarrow> bool \<Rightarrow> sent_request" where
  "openai_request body base account strip =
     \<lparr>sq_kind = SendPlain, sq_url = base, sq_auth_token = [], sq_account = account,
      sq_fedramp = False, sq_strip = strip, sq_body = body\<rparr>"

definition try_openai_fallback ::
  "flow_env \<Rightarrow> string \<Rightarrow> string \<Rightarrow> account \<Rightarrow> bool \<Rightarrow> flow_state
    \<Rightarrow> (string + upstream_response option) \<times> flow_state" where
  "try_openai_fallback env body base account strip s =
     (let (reply, token, elapsed) = fe_openai env (length (fs_sent s)) base account (fs_token s)
      in (reply, s\<lparr>fs_now := fs_now s + elapsed, fs_token := token,
            fs_sent := fs_sent s @ [openai_request body base account strip]\<rparr>))"

definition sleep_with_exponential_jitter ::
  "flow_env \<Rightarrow> duration \<Rightarrow> duration \<Rightarrow> nat \<Rightarrow> instant option \<Rightarrow> flow_state \<Rightarrow> bool \<times> flow_state" where
  "sleep_with_exponential_jitter env base cap attempt deadline s =
     (case cap_wait (exponential_jitter_delay (fe_gen env (fs_now s)) base cap attempt) deadline (fs_now s) of
        None \<Rightarrow> (False, s)
      | Some delay \<Rightarrow>
          (let (ok, elapsed) = fe_sleep env (fs_now s) delay
           in (ok, s\<lparr>fs_now := fs_now s + elapsed\<rparr>)))"

definition read_body ::
  "upstream_response \<Rightarrow> flow_state \<Rightarrow> (string + string \<times> upstream_response) \<times> flow_state" where
  "read_body r s = (let (result, elapsed) = into_buffered r in (result, s\<lparr>fs_now := fs_now s + elapsed\<rparr>))"

definition total_timeout_message :: string where
  "total_timeout_message = ''upstream total timeout exceeded''"

definition flow_outcome ::
  "flow_env \<Rightarrow> string \<Rightarrow> upstream_response \<Rightarrow> string \<Rightarrow> bool \<Rightarrow> flow_state
    \<Rightarrow> upstream_outcome_decision \<times> flow_state" where
  "flow_outcome env account_id r url has_more s =
     (let (d, events, cooldown) =
            decide_upstream_outcome (outcome_env_at env s) account_id (ur_status r) (content_type_of r)
              url has_more (fs_cooldown s)
      in (d, s\<lparr>fs_cooldown := cooldown, 
            fs_events := fs_events s @ map (Pair (fe_wall env (fs_now s))) events\<rparr>))"

lemmas flow_steps [step_defs] =
  log_event_def log_gateway_result_def flow_mark_def flow_mark_status_def send_request_def
  try_openai_fallback_def sleep_with_exponential_jitter_def flow_outcome_def

section \<open>What a step of an attempt may do\<close>

text \<open>
  The relation between the states before and after a piece of the flow for account \<open>a\<close>:
  time and traces only grow, at most \<open>n\<close> requests are sent, and only \<open>a\<close> may change its
  place in the cooldown table (as seen from the present on, the wall clock being monotone).
\<close>

definition wall_monotone :: "flow_env \<Rightarrow> bool" where
  "wall_monotone env \<longleftrightarrow> (\<forall>t u. t \<le> u \<longrightarrow> fe_wall env t \<le> fe_wall env u)"

fun event_about :: "string \<Rightarrow> flow_event \<Rightarrow> bool" where
  "event_about a (GatewayResult url status err) = True"
| "event_about a (EnqueueUsageRefresh k) = (k = a)"
| "event_about a (RefreshTokenError k err) = (k = a)"

definition flow_ext :: "flow_env \<Rightarrow> string \<Rightarrow> nat \<Rightarrow> flow_state \<Rightarrow> flow_state \<Rightarrow> bool" where
  "flow_ext env a n s s' \<longleftrightarrow>
     fs_now s \<le> fs_now s' \<and>
     (\<exists>sent. fs_sent s' = fs_sent s @ sent \<and> length sent \<le> n) \<and>
     (\<exists>ev. fs_events s' = fs_events s @ ev
        \<and> (\<forall>(t, e)\<in>set ev. t \<le> fe_wall env (fs_now s') \<and> event_about a e)) \<and>
     (cooldown_wf (fs_cooldown s) \<longrightarrow> cooldown_wf (fs_cooldown s')) \<and>
     (\<forall>k t. k \<noteq> a \<longrightarrow> fe_wall env (fs_now s') \<le> t \<longrightarrow>
        cooling (fs_cooldown s') t k = cooling (fs_cooldown s) t k)"

lemma flow_ext_refl [simp, intro]: "flow_ext env a n s s"
  by (simp add: flow_ext_def)

lemma flow_ext_trans:
  assumes w: "wall_monotone env" and 1: "flow_ext env a m s s1" and 2: "flow_ext env a n s1 s2"
    and le: "m + n \<le> k"
  shows "flow_ext env a k s s2"
proof -
  from 1 obtain x e where s1: "fs_sent s1 = fs_sent s @ x" "length x \<le> m"
    "fs_events s1 = fs_events s @ e" "fs_now s \<le> fs_now s1"
    "\<forall>(t, v)\<in>set e. t \<le> fe_wall env (fs_now s1) \<and> event_about a v"
    by (auto simp: flow_ext_def)
  from 2 obtain y f where s2: "fs_sent s2 = fs_sent s1 @ y" "length y \<le> n"
    "fs_events s2 = fs_events s1 @ f" "fs_now s1 \<le> fs_now s2"
    "\<forall>(t, v)\<in>set f. t \<le> fe_wall env (fs_now s2) \<and> event_about a v"
    by (auto simp: flow_ext_def)
  have "cooling (fs_cooldown s2) t i = cooling (fs_cooldown s) t i"
    if "i \<noteq> a" "fe_wall env (fs_now s2) \<le> t" for i t
  proof -
    have "fe_wall env (fs_now s1) \<le> t"
      using w s2(4) that(2) order_trans unfolding wall_monotone_def by blast
    then show ?thesis using 1 2 that by (simp add: flow_ext_def)
  qed
  moreover have "length (x @ y) \<le> k" using s1(2) s2(2) le by simp
  moreover have "\<forall>(t, v)\<in>set (e @ f). t \<le> fe_wall env (fs_now s2) \<and> event_about a v"
  proof -
    have "fe_wall env (fs_now s1) \<le> fe_wall env (fs_now s2)"
      using w s2(4) unfolding wall_monotone_def by blast
    then show ?thesis using s1(5) s2(5) by fastforce
  qed
  moreover have "fs_sent s2 = fs_sent s @ x @ y" "fs_events s2 = fs_events s @ e @ f" "fs_now s \<le> fs_now s2"
    using s1 s2 by simp_all
  moreover have "cooldown_wf (fs_cooldown s) \<longrightarrow> cooldown_wf (fs_cooldown s2)"
    using 1 2 by (simp add: flow_ext_def)
  ultimately show ?thesis unfolding flow_ext_def by blast
qed

lemma flow_ext_mono:
  assumes "flow_ext env a m s s'" and "m \<le> n"
  shows "flow_ext env a n s s'"
proof -
  from assms have "\<exists>sent. fs_sent s' = fs_sent s @ sent \<and> length sent \<le> n"
    unfolding flow_ext_def by (meson order_trans)
  with assms(1) show ?thesis unfolding flow_ext_def by blast
qed

lemma ext_log [simp, intro]: "flow_ext env a n s (log_gateway_result env url st err s)"
  by (simp add: flow_ext_def log_gateway_result_def log_event_def)

lemma ext_mark [simp, intro]: "flow_ext env a n s (flow_mark env a r s)"
  using cooling_mark cooldown_wf_mark by (auto simp: flow_ext_def flow_mark_def)

lemma ext_mark_status [simp, intro]: "flow_ext env a n s (flow_mark_status env a st s)"
  using cooling_mark cooldown_wf_mark
  by (auto simp: flow_ext_def flow_mark_status_def mark_account_cooldown_for_status_def)

lemma ext_send:
  "send_request env req s = (r, s') \<Longrightarrow> flow_ext env a 1 s s'"
  by (auto simp: flow_ext_def send_request_def split: prod.splits)

lemma ext_read:
  "read_body r s = (x, s') \<Longrightarrow> flow_ext env a n s s'"
  by (auto simp: flow_ext_def read_body_def split: prod.splits)

lemma ext_openai:
  "try_openai_fallback env body base acc strip s = (r, s') \<Longrightarrow> flow_ext env a 1 s s'"
  by (auto simp: flow_ext_def try_openai_fallback_def split: prod.splits)

lemma ext_sleep:
  "sleep_with_exponential_jitter env base cap n deadline s = (ok, s') \<Longrightarrow> flow_ext env a 0 s s'"
  by (auto simp: flow_ext_def sleep_with_exponential_jitter_def split: prod.splits option.splits)

lemma outcome_events_about:
  assumes "decide_upstream_outcome oe a st ct url hm c = (d, ev, c')" and "e \<in> set ev"
  shows "event_about a e"
  using assms by (auto simp: decide_upstream_outcome_cases Let_def split: if_splits)

lemma ext_outcome:
  assumes "flow_outcome env a r url hm s = (d, s')"
  shows "flow_ext env a 0 s s'"
proof -
  obtain d' ev c where e: "decide_upstream_outcome (outcome_env_at env s) a (ur_status r)
      (content_type_of r) url hm (fs_cooldown s) = (d', ev, c)" by (metis prod_cases3)
  with assms have s': "s' = s\<lparr>fs_cooldown := c, 
      fs_events := fs_events s @ map (Pair (fe_wall env (fs_now s))) ev\<rparr>"
    by (simp add: flow_outcome_def)
  have "oe_now (outcome_env_at env s) = fe_wall env (fs_now s)" by (simp add: outcome_env_at_def)
  then show ?thesis
    using outcome_other_account [OF e] outcome_wf [OF e] outcome_events_about [OF e]
    by (auto simp: flow_ext_def s')
qed

end
