(* ===== verification/FallbackBranch.thy ===== *)
theory FallbackBranch
  imports Exchange
begin

text \<open>
  The branch that repeats a request against the OpenAI API
  (\<open>attempt_flow/fallback_branch.rs\<close>) with its classification and summary of an
  unsuccessful reply, and the attempt on an OpenAI base (\<open>attempt_flow/openai_base.rs\<close>).
  The extraction of an identity error code from headers, the hint from an error body and the
  test whether a body is JSON are fields of the environment.
\<close>

section \<open>UTF-8\<close>

text \<open>\<open>std::str::from_utf8\<close> on bytes.\<close>

definition utf8_cont :: "char \<Rightarrow> bool" where
  "utf8_cont c \<longleftrightarrow> 0x80 \<le> (of_char c :: nat) \<and> (of_char c :: nat) \<le> 0xBF"

fun utf8_head :: "string \<Rightarrow> nat option" where
  "utf8_head [] = None"
| "utf8_head (a # r) =
     (let x = (of_char a :: nat);
          second = (\<lambda>lo hi. case r of b # _ \<Rightarrow> lo \<le> (of_char b :: nat) \<and> (of_char b :: nat) \<le> hi | [] \<Rightarrow> False);
          nth_cont = (\<lambda>i. i < length r \<and> utf8_cont (r ! i))
      in if x < 0x80 then Some 1
         else if 0xC2 \<le> x \<and> x \<le> 0xDF \<and> second 0x80 0xBF then Some 2
         else if nth_cont 1 \<and> (x = 0xE0 \<and> second 0xA0 0xBF \<or> x = 0xED \<and> second 0x80 0x9F
            \<or> 0xE1 \<le> x \<and> x \<le> 0xEF \<and> x \<noteq> 0xED \<and> second 0x80 0xBF) then Some 3
         else if nth_cont 1 \<and> nth_cont 2 \<and> (x = 0xF0 \<and> second 0x90 0xBF \<or> x = 0xF4 \<and> second 0x80 0x8F
            \<or> 0xF1 \<le> x \<and> x \<le> 0xF3 \<and> second 0x80 0xBF) then Some 4
         else None)"

function from_utf8 :: "string \<Rightarrow> bool" where
  "from_utf8 s =
     (if s = [] then True
      else case utf8_head s of None \<Rightarrow> False | Some n \<Rightarrow> if n = 0 then False else from_utf8 (drop n s))"
  by auto
termination by (relation "measure length") auto

declare from_utf8.simps [simp del]

section \<open>Classification of a reply\<close>

definition fallback_failover_status :: "nat \<Rightarrow> bool \<Rightarrow> bool" where
  "fallback_failover_status status has_more_candidates \<longleftrightarrow>
     decide_follow_up (should_failover_after_fallback_non_success status) has_more_candidates
       = FollowFailover"

definition extract_response_header :: "(string \<times> string) list \<Rightarrow> string \<Rightarrow> string option" where
  "extract_response_header headers name =
     trimmed_nonempty (Option.bind (map_of headers name) header_to_str)"

definition looks_like_blocked_marker :: "string \<Rightarrow> bool" where
  "looks_like_blocked_marker v =
     (let normalized = to_ascii_lowercase (trim v)
      in contains normalized ''blocked''
         \<or> contains normalized ''unsupported_country_region_territory''
         \<or> contains normalized ''unsupported_country''
         \<or> contains normalized ''region_restricted'')"

definition body_as_trimmed_text :: "string \<Rightarrow> string option" where
  "body_as_trimmed_text body = (if from_utf8 body then trimmed_nonempty (Some body) else None)"

definition text_looks_like_html :: "string \<Rightarrow> bool" where
  "text_looks_like_html text =
     (let normalized = to_ascii_lowercase (trim text)
      in contains normalized ''<html'' \<or> contains normalized ''<!doctype html''
         \<or> contains normalized ''<body'' \<or> contains normalized ''</html>'')"

definition body_looks_like_html :: "string \<Rightarrow> bool" where
  "body_looks_like_html body =
     (case body_as_trimmed_text body of Some text \<Rightarrow> text_looks_like_html text | None \<Rightarrow> False)"

definition body_looks_like_cloudflare_challenge :: "nat \<Rightarrow> string \<Rightarrow> bool" where
  "body_looks_like_cloudflare_challenge status_code body =
     (case body_as_trimmed_text body of
        None \<Rightarrow> False
      | Some text \<Rightarrow>
          (let normalized = to_ascii_lowercase text;
               looks_like_challenge =
                 contains normalized ''cloudflare'' \<or> contains normalized ''cf-chl''
                 \<or> contains normalized ''just a moment'' \<or> contains normalized ''attention required''
                 \<or> contains normalized ''captcha'' \<or> contains normalized ''security check''
                 \<or> contains normalized ''access denied'' \<or> contains normalized ''waf''
           in looks_like_challenge
              \<or> (text_looks_like_html text \<and> (status_code = 401 \<or> status_code = 403))))"

definition classify_fallback_non_success_kind ::
  "(string \<Rightarrow> bool) \<Rightarrow> nat \<Rightarrow> string option \<Rightarrow> string \<Rightarrow> string option \<Rightarrow> string option \<Rightarrow> string option
    \<Rightarrow> string" where
  "classify_fallback_non_success_kind is_json fallback_status content_type body cf_ray auth_error
     identity_error_code =
     (let holds = (\<lambda>p o_v. case o_v of Some v \<Rightarrow> p v | None \<Rightarrow> False) in
      if fallback_status = 429 then ''rate_limited''
      else if fallback_status = 404 then ''not_found''
      else if holds looks_like_blocked_marker auth_error
           \<or> holds looks_like_blocked_marker identity_error_code then ''cloudflare_blocked''
      else if body_looks_like_cloudflare_challenge fallback_status body then ''cloudflare_challenge''
      else if body_looks_like_html body then ''html''
      else if holds is_html_content_type content_type then ''html''
      else if identity_error_code \<noteq> None then ''identity_error''
      else if auth_error \<noteq> None then ''auth_error''
      else if cf_ray \<noteq> None then ''cloudflare_edge''
      else if 500 \<le> fallback_status then ''server_error''
      else if is_json body then ''json_error''
      else if body = [] then ''empty'' else ''non_json'')"

section \<open>Summaries\<close>

fun join_details :: "string list \<Rightarrow> string" where
  "join_details [] = []"
| "join_details [x] = x"
| "join_details (x # y # r) = x @ '', '' @ join_details (y # r)"

definition detail :: "string \<Rightarrow> string option \<Rightarrow> string list" where
  "detail name v = (case v of Some x \<Rightarrow> [name @ ''='' @ x] | None \<Rightarrow> [])"

definition or_else :: "'a option \<Rightarrow> 'a option \<Rightarrow> 'a option" where
  "or_else x y = (case x of Some _ \<Rightarrow> x | None \<Rightarrow> y)"

definition summarize_fallback_non_success ::
  "flow_env \<Rightarrow> nat \<Rightarrow> nat \<Rightarrow> (string \<times> string) list \<Rightarrow> string \<Rightarrow> string" where
  "summarize_fallback_non_success env primary_status fallback_status headers body =
     (let request_id = or_else (extract_response_header headers ''x-request-id'')
            (extract_response_header headers ''x-oai-request-id'');
          cf_ray = extract_response_header headers ''cf-ray'';
          auth_error = extract_response_header headers ''x-openai-authorization-error'';
          identity_error_code = fe_identity_code env headers;
          content_type = extract_response_header headers ''content-type'';
          kind = classify_fallback_non_success_kind (fe_is_json env) fallback_status content_type body
            cf_ray auth_error identity_error_code;
          body_hint = (case or_else (fe_error_hint env fallback_status body)
              (body_as_trimmed_text body) of Some h \<Rightarrow> h | None \<Rightarrow> ''unknown error'');
          details = [''kind='' @ kind, ''primary_status='' @ show_nat primary_status]
            @ detail ''request_id'' request_id @ detail ''cf_ray'' cf_ray
            @ detail ''auth_error'' auth_error @ detail ''identity_error_code'' identity_error_code
      in ''upstream fallback non-success(status='' @ show_nat fallback_status @ '', body='' @ body_hint
         @ '', '' @ join_details details @ '')'')"

definition summarize_fallback_non_success_headers_only ::
  "flow_env \<Rightarrow> nat \<Rightarrow> nat \<Rightarrow> (string \<times> string) list \<Rightarrow> string" where
  "summarize_fallback_non_success_headers_only env primary_status fallback_status headers =
     (let request_id = or_else (extract_response_header headers ''x-request-id'')
            (extract_response_header headers ''x-oai-request-id'');
          cf_ray = extract_response_header headers ''cf-ray'';
          auth_error = extract_response_header headers ''x-openai-authorization-error'';
          identity_error_code = fe_identity_code env headers;
          content_type = extract_response_header headers ''content-type'';
          kind = classify_fallback_non_success_kind (fe_is_json env) fallback_status content_type []
            cf_ray auth_error identity_error_code;
          details = [''kind='' @ kind, ''primary_status='' @ show_nat primary_status]
            @ detail ''request_id'' request_id @ detail ''cf_ray'' cf_ray
            @ detail ''auth_error'' auth_error @ detail ''identity_error_code'' identity_error_code
            @ detail ''content_type'' content_type
      in ''upstream fallback non-success(status='' @ show_nat fallback_status @ '', ''
         @ join_details details @ '')'')"

section \<open>The branch\<close>

datatype fallback_branch_result =
    FallbackNotTriggered
  | FallbackRespond upstream_response
  | FallbackFailover
  | FallbackTerminal nat string

definition handle_openai_fallback_branch ::
  "flow_env \<Rightarrow> string \<Rightarrow> string \<Rightarrow> string \<Rightarrow> string option \<Rightarrow> account \<Rightarrow> bool \<Rightarrow> bool \<Rightarrow> nat \<Rightarrow> string option
    \<Rightarrow> bool \<Rightarrow> flow_state \<Rightarrow> fallback_branch_result \<times> flow_state" where
  "handle_openai_fallback_branch env body upstream_base path fallback_base acc strip allow status
     content_type has_more s =
     (case fallback_base of
        None \<Rightarrow> (FallbackNotTriggered, s)
      | Some fb \<Rightarrow>
        if \<not> allow then (FallbackNotTriggered, s)
        else if \<not> (should_try_openai_fallback upstream_base path content_type
                   \<or> should_try_openai_fallback_by_status upstream_base path status)
        then (FallbackNotTriggered, s)
        else
          (case try_openai_fallback env body fb acc strip s of
             (Inr (Some r), s1) \<Rightarrow>
               if status_is_success (ur_status r)
               then (FallbackRespond r,
                     log_gateway_result env (Some fb) (ur_status r) None
                       (s1\<lparr>fs_cooldown := clear_account_cooldown (acc_id acc) (fs_cooldown s1)\<rparr>))
               else
                 (let st = ur_status r;
                      s2 = flow_mark_status env (acc_id acc) st s1
                  in if fallback_failover_status st has_more
                     then (let (read, s3) = read_body r s2;
                               err_body = (case read of Inr (b, _) \<Rightarrow> b | Inl _ \<Rightarrow> [])
                           in (FallbackFailover,
                               log_gateway_result env (Some fb) st
                                 (Some (summarize_fallback_non_success env status st (ur_headers r) err_body)) s3))
                     else (FallbackRespond r,
                           log_gateway_result env (Some fb) st
                             (Some (summarize_fallback_non_success_headers_only env status st
                               (ur_headers r))) s2))
           | (Inr None, s1) \<Rightarrow>
               (if has_more then FallbackFailover
                else FallbackTerminal 502 ''upstream blocked by Cloudflare'',
                log_gateway_result env (Some fb) 502 (Some ''upstream fallback unavailable'')
                  (flow_mark env (acc_id acc) Network s1))
           | (Inl err, s1) \<Rightarrow>
               (if has_more then FallbackFailover
                else FallbackTerminal 502 (''upstream fallback error: '' @ err),
                log_gateway_result env (Some fb) 502 (Some err) (flow_mark env (acc_id acc) Network s1))))"

text \<open>Both tests for the fallback are constantly false, so the branch is never taken.\<close>

lemma fallback_not_triggered [simp]:
  "handle_openai_fallback_branch env body base path fb acc strip allow status ct hm s
     = (FallbackNotTriggered, s)"
  by (cases fb) (simp_all add: handle_openai_fallback_branch_def should_try_openai_fallback_def
      should_try_openai_fallback_by_status_def)

section \<open>An OpenAI base\<close>

datatype openai_attempt_result =
    OpenAiUpstream upstream_response
  | OpenAiFailover
  | OpenAiTerminal nat string

definition handle_openai_base_attempt ::
  "flow_env \<Rightarrow> string \<Rightarrow> string \<Rightarrow> account \<Rightarrow> bool \<Rightarrow> bool \<Rightarrow> flow_state \<Rightarrow> openai_attempt_result \<times> flow_state" where
  "handle_openai_base_attempt env body base acc strip has_more s =
     (case try_openai_fallback env body base acc strip s of
        (Inr (Some r), s1) \<Rightarrow>
          (case flow_outcome env (acc_id acc) r base has_more s1 of
             (OutcomeFailover, s2) \<Rightarrow> (OpenAiFailover, s2)
           | (OutcomeRespondUpstream, s2) \<Rightarrow> (OpenAiUpstream r, s2))
      | (Inr None, s1) \<Rightarrow>
          (OpenAiTerminal 502 ''openai upstream unavailable'',
           log_gateway_result env (Some base) 502 (Some ''openai upstream unavailable'')
             (flow_mark env (acc_id acc) Network s1))
      | (Inl err, s1) \<Rightarrow>
          (OpenAiTerminal 502 (''openai upstream error: '' @ err),
           log_gateway_result env (Some base) 502 (Some err) (flow_mark env (acc_id acc) Network s1)))"

end
