(* ===== verification/AttemptFlow.thy ===== *)
theory AttemptFlow
  imports FallbackBranch
begin

text \<open>
  One attempt of a request on one account: the first exchange
  (\<open>attempt_flow/primary_attempt.rs\<close>, \<open>primary_flow.rs\<close>), the retries on another path
  (\<open>support/retry.rs\<close>), without session affinity (\<open>stateless_retry.rs\<close>), after a server
  error, without compression and after a token refresh, and the final decision
  (\<open>postprocess.rs\<close>), composed as in \<open>executor/codex.rs\<close>. The status, content type and ray of
  the response at hand, kept in variables of their own by the code, are always those of the
  response and are read from it here.
\<close>

section \<open>An attempt\<close>

record attempt =
  at_base :: string
  at_path :: string
  at_url :: string
  at_alt_url :: "string option"
  at_deadline :: "instant option"
  at_request_path :: string
  at_protocol :: string
  at_is_stream :: bool
  at_fallback_base :: "string option"
  at_account :: account
  at_strip :: bool
  at_allow_fallback :: bool
  at_disable_challenge_retry :: bool
  at_has_more :: bool
  at_body :: string

abbreviation at_id :: "attempt \<Rightarrow> string" where "at_id att \<equiv> acc_id (at_account att)"

record primary_authorization =
  pa_value :: string
  pa_task_id :: "string option"
  pa_uses_agent_identity :: bool
  pa_is_fedramp :: bool
  pa_account_scope_id :: "string option"

definition protocol_openai_compat :: string where "protocol_openai_compat = ''openai_compat''"
definition protocol_anthropic_native :: string where
  "protocol_anthropic_native = ''anthropic_native''"

definition upstream_request ::
  "attempt \<Rightarrow> send_kind \<Rightarrow> string \<Rightarrow> string \<Rightarrow> account \<Rightarrow> bool \<Rightarrow> bool \<Rightarrow> sent_request" where
  "upstream_request att kind url auth acc fedramp strip =
     \<lparr>sq_kind = kind, sq_url = url, sq_auth_token = auth, sq_account = acc, sq_fedramp = fedramp,
      sq_strip = strip, sq_body = at_body att\<rparr>"

definition account_with_authorization_scope :: "account \<Rightarrow> primary_authorization \<Rightarrow> account" where
  "account_with_authorization_scope acc auth =
     (case trimmed_nonempty (pa_account_scope_id auth) of
        Some scope \<Rightarrow> acc\<lparr>acc_chatgpt_account_id := Some scope, acc_workspace_id := Some scope\<rparr>
      | None \<Rightarrow> acc)"

lemma account_scope_id [simp]: "acc_id (account_with_authorization_scope acc auth) = acc_id acc"
  by (simp add: account_with_authorization_scope_def split: option.splits)

section \<open>The first exchange\<close>

datatype primary_attempt_result =
    PrimaryUpstream upstream_response
  | PrimaryFailover
  | PrimaryTerminal nat string

definition should_failover_transport_error :: "string \<Rightarrow> bool \<Rightarrow> bool" where
  "should_failover_transport_error url has_more_candidates =
     (if \<not> has_more_candidates then False
      else is_chatgpt_backend_base url \<or> \<not> is_official_openai_target url)"

definition run_primary_upstream_attempt ::
  "flow_env \<Rightarrow> attempt \<Rightarrow> primary_authorization \<Rightarrow> flow_state \<Rightarrow> primary_attempt_result \<times> flow_state" where
  "run_primary_upstream_attempt env att auth s =
     (if is_expired (at_deadline att) (fs_now s)
      then (PrimaryTerminal 504 total_timeout_message,
            log_gateway_result env (Some (at_url att)) 504 (Some total_timeout_message) s)
      else
        let acc = account_with_authorization_scope (at_account att) auth in
        case send_request env (upstream_request att SendPlain (at_url att) (pa_value auth) acc
               (pa_is_fedramp auth) (at_strip att)) s of
          (Inr r, s1) \<Rightarrow> (PrimaryUpstream r, s1)
        | (Inl err, s1) \<Rightarrow>
            (if should_failover_transport_error (at_url att) (at_has_more att) then PrimaryFailover
             else PrimaryTerminal 502 (''upstream error: '' @ err),
             log_gateway_result env (Some (at_url att)) 502 (Some err) (flow_mark env (acc_id acc) Network s1)))"

definition resolve_chatgpt_primary_bearer :: "token \<Rightarrow> string option" where
  "resolve_chatgpt_primary_bearer tok = trimmed_nonempty (Some (tok_access_token tok))"

definition resolve_chatgpt_primary_authorization ::
  "flow_env \<Rightarrow> account \<Rightarrow> flow_state \<Rightarrow> (string + primary_authorization \<times> string) \<times> flow_state" where
  "resolve_chatgpt_primary_authorization env acc s =
     (let tok = fs_token s;
          (resolved, elapsed) = fe_resolve_agent env acc tok;
          s1 = s\<lparr>fs_now := fs_now s + elapsed\<rparr>;
          bearer = (case resolve_chatgpt_primary_bearer tok of
              Some access \<Rightarrow>
                Inr (\<lparr>pa_value = access, pa_task_id = None, pa_uses_agent_identity = False,
                      pa_is_fedramp = False, pa_account_scope_id = None\<rparr>, ''access_token'')
            | None \<Rightarrow> Inl ''missing chatgpt access token'')
      in case resolved of
           Inr (Some ag) \<Rightarrow>
             (Inr (\<lparr>pa_value = ag_value ag, pa_task_id = Some (ag_task_id ag),
                    pa_uses_agent_identity = True, pa_is_fedramp = ag_is_fedramp ag,
                    pa_account_scope_id = ag_account_scope_id ag\<rparr>, ''agent_identity''), s1)
         | Inr None \<Rightarrow> (bearer, s1)
         | Inl err \<Rightarrow> (if trim (tok_access_token tok) = [] then (Inl err, s1) else (bearer, s1)))"

datatype primary_flow_decision =
    PrimaryContinue upstream_response primary_authorization
  | PrimaryFlowRespond upstream_response
  | PrimaryFlowFailover
  | PrimaryFlowTerminal nat string

definition run_primary_upstream_flow ::
  "flow_env \<Rightarrow> attempt \<Rightarrow> flow_state \<Rightarrow> primary_flow_decision \<times> flow_state" where
  "run_primary_upstream_flow env att s =
     (case resolve_chatgpt_primary_authorization env (at_account att) s of
        (Inl err, s1) \<Rightarrow>
          (PrimaryFlowTerminal 401 err, log_gateway_result env (Some (at_url att)) 401 (Some err) s1)
      | (Inr (auth, _), s1) \<Rightarrow>
          (case run_primary_upstream_attempt env att auth s1 of
             (PrimaryFailover, s2) \<Rightarrow> (PrimaryFlowFailover, s2)
           | (PrimaryTerminal st msg, s2) \<Rightarrow> (PrimaryFlowTerminal st msg, s2)
           | (PrimaryUpstream r, s2) \<Rightarrow>
               (case handle_openai_fallback_branch env (at_body att) (at_base att) (at_path att) (at_fallback_base att)
                       (at_account att) (at_strip att)
                       (at_allow_fallback att \<and> \<not> pa_uses_agent_identity auth)
                       (ur_status r) (content_type_of r) (at_has_more att) s2 of
                  (FallbackNotTriggered, s3) \<Rightarrow> (PrimaryContinue r auth, s3)
                | (FallbackRespond r', s3) \<Rightarrow> (PrimaryFlowRespond r', s3)
                | (FallbackFailover, s3) \<Rightarrow> (PrimaryFlowFailover, s3)
                | (FallbackTerminal st msg, s3) \<Rightarrow> (PrimaryFlowTerminal st msg, s3))))"

section \<open>Retries\<close>

text \<open>What the retries of an attempt share: the bearer and the flags that go with it.\<close>

record retry_ctx =
  rc_account :: account
  rc_auth_token :: string
  rc_fedramp :: bool

definition retry_request :: "attempt \<Rightarrow> retry_ctx \<Rightarrow> send_kind \<Rightarrow> string \<Rightarrow> bool \<Rightarrow> sent_request" where
  "retry_request att rc kind url strip =
     upstream_request att kind url (rc_auth_token rc) (rc_account rc) (rc_fedramp rc) strip"

definition path_ends_with :: "flow_env \<Rightarrow> string \<Rightarrow> string \<Rightarrow> bool" where
  "path_ends_with env url suffix =
     (case fe_url_path env url of
        Some p \<Rightarrow> ends_with (to_ascii_lowercase (trim_end_slashes p)) suffix
      | None \<Rightarrow> False)"

definition should_skip_codex_v1_alt_for_responses :: "flow_env \<Rightarrow> attempt \<Rightarrow> string \<Rightarrow> bool" where
  "should_skip_codex_v1_alt_for_responses env att alt_url \<longleftrightarrow>
     at_protocol att = protocol_openai_compat
     \<and> path_ends_with env alt_url ''/backend-api/codex/v1/responses''"

datatype alt_path_retry_result =
    AltNotTriggered
  | AltUpstream upstream_response
  | AltFailover
  | AltTerminal nat string

definition retry_with_alternate_path ::
  "flow_env \<Rightarrow> attempt \<Rightarrow> retry_ctx \<Rightarrow> string option \<Rightarrow> nat \<Rightarrow> flow_state
    \<Rightarrow> alt_path_retry_result \<times> flow_state" where
  "retry_with_alternate_path env att rc alt_url status s =
     (case alt_url of
        None \<Rightarrow> (AltNotTriggered, s)
      | Some alt \<Rightarrow>
        if status \<notin> {400, 404} then (AltNotTriggered, s)
        else if should_skip_codex_v1_alt_for_responses env att alt then (AltNotTriggered, s)
        else if is_expired (at_deadline att) (fs_now s)
        then (AltTerminal 504 total_timeout_message, s)
        else
          (case sleep_with_exponential_jitter env (from_millis 40) (from_millis 200) 0 (at_deadline att) s of
             (False, s1) \<Rightarrow> (AltTerminal 504 total_timeout_message, s1)
           | (True, s1) \<Rightarrow>
               (case send_request env (retry_request att rc SendPlain alt (at_strip att)) s1 of
                  (Inr r, s2) \<Rightarrow> (AltUpstream r, s2)
                | (Inl err, s2) \<Rightarrow>
                    (if at_has_more att then AltFailover
                     else AltTerminal 502 (''upstream error: '' @ err),
                     log_gateway_result env (Some alt) 502 (Some err)
                       (flow_mark env (acc_id (rc_account rc)) Network s2)))))"

datatype stateless_retry_result =
    StatelessNotTriggered
  | StatelessUpstream upstream_response
  | StatelessTerminal nat string

definition should_trigger_stateless_retry :: "nat \<Rightarrow> bool \<Rightarrow> bool \<Rightarrow> bool" where
  "should_trigger_stateless_retry status strip_session_affinity disable_challenge_stateless_retry =
     (if strip_session_affinity
      then \<not> disable_challenge_stateless_retry \<and> status \<in> {403, 429}
      else if disable_challenge_stateless_retry then status = 404
      else status \<in> {403, 404, 429})"

text \<open>The second request, to the alternative path, if the retry came back with 400 or 404.\<close>

definition stateless_alt ::
  "flow_env \<Rightarrow> attempt \<Rightarrow> retry_ctx \<Rightarrow> string option \<Rightarrow> upstream_response \<Rightarrow> flow_state
    \<Rightarrow> stateless_retry_result \<times> flow_state" where
  "stateless_alt env att rc alt_url response s =
     (case alt_url of
        None \<Rightarrow> (StatelessUpstream response, s)
      | Some alt \<Rightarrow>
        if ur_status response \<notin> {400, 404} then (StatelessUpstream response, s)
        else
          (case sleep_with_exponential_jitter env (from_millis 80) (from_millis 500) 2 (at_deadline att) s of
             (False, s1) \<Rightarrow> (StatelessTerminal 504 total_timeout_message, s1)
           | (True, s1) \<Rightarrow>
               (case send_request env (retry_request att rc SendPlain alt True) s1 of
                  (Inr r, s2) \<Rightarrow> (StatelessUpstream r, s2)
                | (Inl _, s2) \<Rightarrow> (StatelessUpstream response, s2))))"

definition retry_stateless_then_optional_alt ::
  "flow_env \<Rightarrow> attempt \<Rightarrow> retry_ctx \<Rightarrow> string option \<Rightarrow> nat \<Rightarrow> flow_state
    \<Rightarrow> stateless_retry_result \<times> flow_state" where
  "retry_stateless_then_optional_alt env att rc alt_url status s =
     (if is_expired (at_deadline att) (fs_now s)
      then (StatelessTerminal 504 total_timeout_message, s)
      else if \<not> should_trigger_stateless_retry status (at_strip att) (at_disable_challenge_retry att)
      then (StatelessNotTriggered, s)
      else
        (case (if status \<in> {403, 429}
               then sleep_with_exponential_jitter env (from_millis 120) (from_millis 900) 1 (at_deadline att) s
               else (True, s)) of
           (False, s1) \<Rightarrow> (StatelessTerminal 504 total_timeout_message, s1)
         | (True, s1) \<Rightarrow>
             (case send_request env (retry_request att rc SendPlain (at_url att) True) s1 of
                (Inl _, s2) \<Rightarrow> (StatelessNotTriggered, s2)
              | (Inr r, s2) \<Rightarrow> stateless_alt env att rc alt_url r s2)))"

text \<open>\<open>Inl ()\<close> when the wait was refused or interrupted.\<close>

definition retry_upstream_server_error_once ::
  "flow_env \<Rightarrow> attempt \<Rightarrow> retry_ctx \<Rightarrow> nat \<Rightarrow> flow_state
    \<Rightarrow> (unit + upstream_response option) \<times> flow_state" where
  "retry_upstream_server_error_once env att rc status s =
     (if status \<noteq> 500 then (Inr None, s)
      else
        (case sleep_with_exponential_jitter env (from_millis 120) (from_millis 900) 1 (at_deadline att) s of
           (False, s1) \<Rightarrow> (Inl (), s1)
         | (True, s1) \<Rightarrow>
             (case send_request env (retry_request att rc SendPlain (at_url att) (at_strip att)) s1 of
                (Inr r, s2) \<Rightarrow> (Inr (Some r), s2)
              | (Inl _, s2) \<Rightarrow> (Inr None, s2))))"

definition cf_ray_of :: "upstream_response \<Rightarrow> string option" where
  "cf_ray_of r = Option.bind (header_get ''cf-ray'' r) header_to_str"

definition should_treat_as_challenge_for_retry :: "nat \<Rightarrow> string option \<Rightarrow> string option \<Rightarrow> bool" where
  "should_treat_as_challenge_for_retry status content_type cf_ray =
     (if status \<notin> {401, 403} then False
      else is_upstream_challenge_response status content_type \<or> cf_ray \<noteq> None)"

abbreviation is_challenge :: "upstream_response \<Rightarrow> bool" where
  "is_challenge r \<equiv>
     should_treat_as_challenge_for_retry (ur_status r) (content_type_of r) (cf_ray_of r)"

definition should_failover_immediately_for_cloudflare ::
  "nat \<Rightarrow> string option \<Rightarrow> string option \<Rightarrow> bool \<Rightarrow> bool" where
  "should_failover_immediately_for_cloudflare status content_type cf_ray has_more_candidates \<longleftrightarrow>
     has_more_candidates \<and> should_treat_as_challenge_for_retry status content_type cf_ray"

definition challenge_cooldown_reason :: "string \<Rightarrow> cooldown_reason" where
  "challenge_cooldown_reason protocol_type =
     (if protocol_type = protocol_anthropic_native then AnthropicChallenge else Challenge)"

definition retry_chatgpt_challenge_without_compression ::
  "flow_env \<Rightarrow> attempt \<Rightarrow> retry_ctx \<Rightarrow> upstream_response \<Rightarrow> flow_state
    \<Rightarrow> (unit + upstream_response option) \<times> flow_state" where
  "retry_chatgpt_challenge_without_compression env att rc r s =
     (if \<not> is_chatgpt_backend_base (at_base att) then (Inr None, s)
      else if \<not> at_is_stream att \<or> \<not> starts_with (at_request_path att) ''/v1/responses'' then (Inr None, s)
      else if \<not> is_challenge r then (Inr None, s)
      else
        (case send_request env (retry_request att rc SendWithoutCompression (at_url att) (at_strip att)) s of
           (Inr r', s1) \<Rightarrow> (Inr (if status_is_success (ur_status r') then Some r' else None), s1)
         | (Inl _, s1) \<Rightarrow> (Inr None, s1)))"

definition should_retry_chatgpt_responses_bad_request :: "flow_env \<Rightarrow> string \<Rightarrow> string \<Rightarrow> nat \<Rightarrow> bool" where
  "should_retry_chatgpt_responses_bad_request env upstream_base url status \<longleftrightarrow>
     status = 400 \<and> is_chatgpt_backend_base upstream_base
     \<and> path_ends_with env url ''/backend-api/codex/responses''"

definition retry_chatgpt_responses_bad_request_without_session_headers ::
  "flow_env \<Rightarrow> attempt \<Rightarrow> retry_ctx \<Rightarrow> nat \<Rightarrow> flow_state \<Rightarrow> upstream_response option \<times> flow_state" where
  "retry_chatgpt_responses_bad_request_without_session_headers env att rc status s =
     (if \<not> should_retry_chatgpt_responses_bad_request env (at_base att) (at_url att) status then (None, s)
      else
        (case send_request env (retry_request att rc SendWithoutSessionHeaders (at_url att) True) s of
           (Inr r, s1) \<Rightarrow> (if status_is_success (ur_status r) then Some r else None, s1)
         | (Inl _, s1) \<Rightarrow> (None, s1)))"

end
