(* ===== verification/PostRetry.thy ===== *)
theory PostRetry
  imports AttemptFlow
begin

text \<open>
  What follows the first exchange: \<open>process_upstream_post_retry_flow\<close> of
  \<open>attempt_flow/postprocess.rs\<close> as a chain of stages, each with the early returns of the code,
  and the executor of an attempt (\<open>executor/mod.rs\<close>, \<open>executor/codex.rs\<close>; the executors for
  Claude and Gemini delegate to it).
\<close>

datatype post_retry_decision =
    PostFailover
  | PostTerminal nat string
  | PostRespond upstream_response

text \<open>A stage ends the flow (\<open>Inl\<close>) or hands the response and the bearer on.\<close>

type_synonym 'a stage = "flow_state \<Rightarrow> (post_retry_decision + 'a) \<times> flow_state"

definition and_then :: "(post_retry_decision + 'a) \<times> flow_state \<Rightarrow> ('a \<Rightarrow> 'b stage) \<Rightarrow>
    (post_retry_decision + 'b) \<times> flow_state" where
  "and_then r k = (case r of (Inl d, s) \<Rightarrow> (Inl d, s) | (Inr x, s) \<Rightarrow> k x s)"

section \<open>Agent identity tasks\<close>

definition is_ascii_whitespace :: "char \<Rightarrow> bool" where
  "is_ascii_whitespace c \<longleftrightarrow> (of_char c :: nat) \<in> {9, 10, 12, 13, 32}"

text \<open>
  The markers are ASCII, so the lossy decoding of the body does not matter: it replaces bytes
  that are no part of a marker by bytes that are no part of a marker.
\<close>

definition is_agent_identity_task_invalid_response :: "nat \<Rightarrow> string \<Rightarrow> bool" where
  "is_agent_identity_task_invalid_response status body =
     (if status \<noteq> 401 then False
      else
        let lower = to_ascii_lowercase body;
            compact = filter (\<lambda>c. \<not> is_ascii_whitespace c) lower;
            q = CHR 0x22
        in (\<exists>m \<in> set [q # ''code'' @ [q] @ '':'' @ [q] @ ''invalid_task_id'' @ [q],
                     q # ''code'' @ [q] @ '':'' @ [q] @ ''task_not_found'' @ [q],
                     q # ''code'' @ [q] @ '':'' @ [q] @ ''task_expired'' @ [q],
                     q # ''error'' @ [q] @ '':'' @ [q] @ ''invalid_task_id'' @ [q]]. contains compact m)
           \<or> (\<exists>m \<in> set [''invalid_task_id'', ''task_not_found'', ''task_expired'', ''invalid task_id'',
                     ''invalid task id'', ''task_id is invalid'', ''task id is invalid'',
                     ''task not found'', ''task expired'', ''unknown task_id'', ''unknown task id''].
                contains lower m))"

definition recover_agent_task ::
  "flow_env \<Rightarrow> attempt \<Rightarrow> primary_authorization \<Rightarrow> retry_ctx \<Rightarrow> upstream_response \<Rightarrow>
    (upstream_response \<times> retry_ctx) stage" where
  "recover_agent_task env att auth rc upstream s =
     (if \<not> (ur_status upstream = 401 \<and> pa_uses_agent_identity auth) then (Inr (upstream, rc), s)
      else
        case read_body upstream s of
          (Inl err, s0) \<Rightarrow> (Inl (PostTerminal 502 err), s0)
        | (Inr (body, rebuilt), s0) \<Rightarrow>
          (case pa_task_id auth of
             None \<Rightarrow> (Inr (rebuilt, rc), s0)
           | Some failed \<Rightarrow>
             if \<not> is_agent_identity_task_invalid_response (ur_status upstream) body
             then (Inr (rebuilt, rc), s0)
             else
               let (recovered, elapsed) = fe_recover_agent env (rc_account rc) (fs_token s0) failed;
                   s1 = s0\<lparr>fs_now := fs_now s0 + elapsed\<rparr>
               in case recovered of
                    Inr (Some ag) \<Rightarrow>
                      (let rc' = rc\<lparr>rc_auth_token := ag_value ag, rc_fedramp := ag_is_fedramp ag\<rparr>
                       in case send_request env
                              (retry_request att rc' SendPlain (at_url att) (at_strip att)) s1 of
                            (Inr r, s2) \<Rightarrow> (Inr (r, rc'), s2)
                          | (Inl _, s2) \<Rightarrow> (Inr (rebuilt, rc'), s2))
                  | Inr None \<Rightarrow> (Inr (rebuilt, rc), s1)
                  | Inl _ \<Rightarrow> (Inr (rebuilt, rc), s1)))"

section \<open>The stages\<close>

definition cloudflare_failover ::
  "flow_env \<Rightarrow> attempt \<Rightarrow> upstream_response \<times> retry_ctx \<Rightarrow> (upstream_response \<times> retry_ctx) stage" where
  "cloudflare_failover env att x s =
     (let r = fst x in
      if should_failover_immediately_for_cloudflare (ur_status r) (content_type_of r) (cf_ray_of r)
           (at_has_more att)
      then (Inl PostFailover,
            log_gateway_result env (Some (at_url att)) (ur_status r) (Some ''upstream challenge blocked'')
              (flow_mark env (at_id att) (challenge_cooldown_reason (at_protocol att)) s))
      else (Inr x, s))"

text \<open>The token is left as the refresh leaves it, whether it succeeds or not.\<close>

definition try_refresh_chatgpt_access_token ::
  "flow_env \<Rightarrow> attempt \<Rightarrow> account \<Rightarrow> flow_state \<Rightarrow> (string + string option) \<times> flow_state" where
  "try_refresh_chatgpt_access_token env att acc s =
     (if is_openai_api_base (at_base att) then (Inr None, s)
      else if trim (tok_refresh_token (fs_token s)) = [] then (Inr None, s)
      else
        let issuer = (if trim (acc_issuer acc) = [] then fe_default_issuer env else acc_issuer acc);
            (result, tok, elapsed) = fe_refresh_token env (fs_token s) issuer;
            s1 = s\<lparr>fs_now := fs_now s + elapsed, fs_token := tok\<rparr>
        in case result of
             Inl err \<Rightarrow> (Inl err, s1)
           | Inr _ \<Rightarrow>
               if trim (tok_access_token tok) = []
               then (Inl ''refreshed chatgpt access token is empty'', s1)
               else (Inr (Some (trim (tok_access_token tok))), s1))"

definition refresh_unauthorized ::
  "flow_env \<Rightarrow> attempt \<Rightarrow> primary_authorization \<Rightarrow> upstream_response \<times> retry_ctx \<Rightarrow>
    (upstream_response \<times> retry_ctx) stage" where
  "refresh_unauthorized env att auth x s =
     (let (r, rc) = x in
      if \<not> (ur_status r = 401 \<and> \<not> pa_uses_agent_identity auth) then (Inr (r, rc), s)
      else
        case try_refresh_chatgpt_access_token env att (rc_account rc) s of
          (Inr (Some refreshed), s1) \<Rightarrow>
            (let rc' = rc\<lparr>rc_auth_token := refreshed\<rparr>
             in case send_request env (retry_request att rc' SendPlain (at_url att) (at_strip att)) s1 of
                  (Inr r', s2) \<Rightarrow> (Inr (r', rc'), s2)
                | (Inl _, s2) \<Rightarrow> (Inr (r, rc'), s2))
        | (Inr None, s1) \<Rightarrow> (Inr (r, rc), s1)
        | (Inl err, s1) \<Rightarrow>
            (Inr (r, rc), log_event env (RefreshTokenError (acc_id (rc_account rc)) err) s1))"

definition retry_bad_request ::
  "flow_env \<Rightarrow> attempt \<Rightarrow> upstream_response \<times> retry_ctx \<Rightarrow> (upstream_response \<times> retry_ctx) stage" where
  "retry_bad_request env att x s =
     (let (r, rc) = x in
      if at_strip att then (Inr (r, rc), s)
      else
        case retry_chatgpt_responses_bad_request_without_session_headers env att rc (ur_status r) s of
          (Some r', s1) \<Rightarrow> (Inr (r', rc), s1)
        | (None, s1) \<Rightarrow> (Inr (r, rc), s1))"

definition retry_alternate ::
  "flow_env \<Rightarrow> attempt \<Rightarrow> upstream_response \<times> retry_ctx \<Rightarrow> (upstream_response \<times> retry_ctx) stage" where
  "retry_alternate env att x s =
     (let (r, rc) = x in
      case at_alt_url att of
        None \<Rightarrow> (Inr (r, rc), s)
      | Some alt \<Rightarrow>
          (case retry_with_alternate_path env att rc (Some alt) (ur_status r) s of
             (AltNotTriggered, s1) \<Rightarrow> (Inr (r, rc), s1)
           | (AltUpstream r', s1) \<Rightarrow> (Inr (r', rc), s1)
           | (AltFailover, s1) \<Rightarrow> (Inl PostFailover, s1)
           | (AltTerminal st msg, s1) \<Rightarrow> (Inl (PostTerminal st msg), s1)))"

text \<open>An interrupted wait ends the flow; a reply replaces the response.\<close>

definition replace_or_timeout ::
  "upstream_response \<times> retry_ctx \<Rightarrow> (unit + upstream_response option) \<times> flow_state \<Rightarrow>
    (post_retry_decision + upstream_response \<times> retry_ctx) \<times> flow_state" where
  "replace_or_timeout x result =
     (case result of
        (Inr (Some r), s) \<Rightarrow> (Inr (r, snd x), s)
      | (Inr None, s) \<Rightarrow> (Inr x, s)
      | (Inl _, s) \<Rightarrow> (Inl (PostTerminal 504 total_timeout_message), s))"

definition retry_server_error ::
  "flow_env \<Rightarrow> attempt \<Rightarrow> upstream_response \<times> retry_ctx \<Rightarrow> (upstream_response \<times> retry_ctx) stage" where
  "retry_server_error env att x s =
     replace_or_timeout x (retry_upstream_server_error_once env att (snd x) (ur_status (fst x)) s)"

definition retry_challenge ::
  "flow_env \<Rightarrow> attempt \<Rightarrow> upstream_response \<times> retry_ctx \<Rightarrow> (upstream_response \<times> retry_ctx) stage" where
  "retry_challenge env att x s =
     (if is_challenge (fst x)
      then replace_or_timeout x (retry_chatgpt_challenge_without_compression env att (snd x) (fst x) s)
      else (Inr x, s))"

definition retry_stateless ::
  "flow_env \<Rightarrow> attempt \<Rightarrow> upstream_response \<times> retry_ctx \<Rightarrow> (upstream_response \<times> retry_ctx) stage" where
  "retry_stateless env att x s =
     (let (r, rc) = x in
      if \<not> is_chatgpt_backend_base (at_base att) \<and> \<not> is_challenge r
      then (case retry_stateless_then_optional_alt env att rc (at_alt_url att) (ur_status r) s of
              (StatelessNotTriggered, s1) \<Rightarrow> (Inr (r, rc), s1)
            | (StatelessUpstream r', s1) \<Rightarrow> (Inr (r', rc), s1)
            | (StatelessTerminal st msg, s1) \<Rightarrow> (Inl (PostTerminal st msg), s1))
      else (Inr (r, rc), s))"

definition is_compact_path :: "string \<Rightarrow> bool" where
  "is_compact_path path \<longleftrightarrow>
     path = ''/v1/responses/compact'' \<or> starts_with path ''/v1/responses/compact?''"

definition allow_openai_fallback_for_authorization :: "bool \<Rightarrow> primary_authorization \<Rightarrow> bool" where
  "allow_openai_fallback_for_authorization allow_openai_fallback auth \<longleftrightarrow>
     allow_openai_fallback \<and> \<not> pa_uses_agent_identity auth"

definition fallback_after_retries ::
  "flow_env \<Rightarrow> attempt \<Rightarrow> primary_authorization \<Rightarrow> upstream_response \<times> retry_ctx \<Rightarrow>
    (upstream_response \<times> retry_ctx) stage" where
  "fallback_after_retries env att auth x s =
     (let (r, rc) = x in
      if \<not> is_compact_path (at_path att) \<and> \<not> is_challenge r
      then (case handle_openai_fallback_branch env (at_body att) (at_base att) (at_path att) (at_fallback_base att)
                   (rc_account rc) (at_strip att)
                   (allow_openai_fallback_for_authorization (at_allow_fallback att) auth)
                   (ur_status r) (content_type_of r) (at_has_more att) s of
              (FallbackNotTriggered, s1) \<Rightarrow> (Inr (r, rc), s1)
            | (FallbackRespond r', s1) \<Rightarrow> (Inl (PostRespond r'), s1)
            | (FallbackFailover, s1) \<Rightarrow> (Inl PostFailover, s1)
            | (FallbackTerminal st msg, s1) \<Rightarrow> (Inl (PostTerminal st msg), s1))
      else (Inr (r, rc), s))"

definition decide_final ::
  "flow_env \<Rightarrow> attempt \<Rightarrow> upstream_response \<times> retry_ctx \<Rightarrow> flow_state \<Rightarrow> post_retry_decision \<times> flow_state" where
  "decide_final env att x s =
     (let r = fst x;
          s1 = (if at_protocol att = protocol_anthropic_native \<and> is_challenge r
                then flow_mark env (at_id att) (challenge_cooldown_reason (at_protocol att)) s
                else s)
      in case flow_outcome env (at_id att) r (at_url att) (at_has_more att) s1 of
           (OutcomeFailover, s2) \<Rightarrow> (PostFailover, s2)
         | (OutcomeRespondUpstream, s2) \<Rightarrow> (PostRespond r, s2))"

definition post_retry_stages ::
  "flow_env \<Rightarrow> attempt \<Rightarrow> primary_authorization \<Rightarrow> upstream_response \<Rightarrow>
    (upstream_response \<times> retry_ctx) stage" where
  "post_retry_stages env att auth upstream s =
     (let rc = \<lparr>rc_account = account_with_authorization_scope (at_account att) auth,
                rc_auth_token = pa_value auth, rc_fedramp = pa_is_fedramp auth\<rparr>
      in and_then (recover_agent_task env att auth rc upstream s) (\<lambda>x s.
         and_then (cloudflare_failover env att x s) (\<lambda>x s.
         and_then (refresh_unauthorized env att auth x s) (\<lambda>x s.
         and_then (retry_bad_request env att x s) (\<lambda>x s.
         and_then (retry_alternate env att x s) (\<lambda>x s.
         and_then (retry_server_error env att x s) (\<lambda>x s.
         and_then (retry_challenge env att x s) (\<lambda>x s.
         and_then (retry_stateless env att x s) (\<lambda>x s.
         fallback_after_retries env att auth x s)))))))))"

definition process_upstream_post_retry_flow ::
  "flow_env \<Rightarrow> attempt \<Rightarrow> primary_authorization \<Rightarrow> upstream_response \<Rightarrow> flow_state
    \<Rightarrow> post_retry_decision \<times> flow_state" where
  "process_upstream_post_retry_flow env att auth upstream s =
     (case post_retry_stages env att auth upstream s of
        (Inl d, s1) \<Rightarrow> (d, s1)
      | (Inr x, s1) \<Rightarrow> decide_final env att x s1)"

section \<open>The executor\<close>

datatype executor_kind = ExecCodexResponses | ExecClaude | ExecGemini
datatype route_kind = AccountRotation | AggregateApi | HybridAccountFirst | HybridAggregateFirst

definition protocol_gemini_native :: string where "protocol_gemini_native = ''gemini_native''"

definition resolve_gateway_upstream_executor_kind :: "string \<Rightarrow> executor_kind" where
  "resolve_gateway_upstream_executor_kind protocol_type =
     (if protocol_type = protocol_anthropic_native then ExecClaude
      else if protocol_type = protocol_gemini_native then ExecGemini
      else ExecCodexResponses)"

definition resolve_gateway_upstream_execution_plan :: "string \<Rightarrow> string \<Rightarrow> executor_kind \<times> route_kind" where
  "resolve_gateway_upstream_execution_plan protocol_type rotation_strategy =
     (resolve_gateway_upstream_executor_kind protocol_type,
      if rotation_strategy = ''aggregate_api_rotation'' then AggregateApi
      else if rotation_strategy = ''hybrid_rotation'' then HybridAccountFirst
      else if rotation_strategy = ''hybrid_aggregate_first_rotation'' then HybridAggregateFirst
      else AccountRotation)"

datatype candidate_upstream_decision =
    UpstreamRespond upstream_response
  | UpstreamFailover
  | UpstreamTerminal nat string

fun post_decision :: "post_retry_decision \<times> flow_state \<Rightarrow> candidate_upstream_decision \<times> flow_state" where
  "post_decision (PostFailover, s) = (UpstreamFailover, s)"
| "post_decision (PostTerminal st msg, s) = (UpstreamTerminal st msg, s)"
| "post_decision (PostRespond r, s) = (UpstreamRespond r, s)"

definition codex_execute :: "flow_env \<Rightarrow> attempt \<Rightarrow> flow_state \<Rightarrow> candidate_upstream_decision \<times> flow_state" where
  "codex_execute env att s =
     (case fe_client env (at_id att) of
        Inl err \<Rightarrow> (UpstreamTerminal 502 err, s)
      | Inr _ \<Rightarrow>
        if is_expired (at_deadline att) (fs_now s)
        then (UpstreamTerminal 504 total_timeout_message, s)
        else if is_openai_api_base (at_base att)
        then (case handle_openai_base_attempt env (at_body att) (at_base att) (at_account att) (at_strip att)
                     (at_has_more att) s of
                (OpenAiUpstream r, s1) \<Rightarrow> (UpstreamRespond r, s1)
              | (OpenAiFailover, s1) \<Rightarrow> (UpstreamFailover, s1)
              | (OpenAiTerminal st msg, s1) \<Rightarrow> (UpstreamTerminal st msg, s1))
        else
          case (if at_allow_fallback att
                then (case fe_find_agent env (at_id att) of
                        Inr (Some _) \<Rightarrow> Inr False
                      | Inr None \<Rightarrow> Inr True
                      | Inl err \<Rightarrow> Inl err)
                else Inr False) of
            Inl err \<Rightarrow> (UpstreamTerminal 500 (''load agent identity failed: '' @ err), s)
          | Inr allow \<Rightarrow>
            (let att' = att\<lparr>at_allow_fallback := allow\<rparr>
             in case run_primary_upstream_flow env att' s of
                  (PrimaryContinue r auth, s1) \<Rightarrow>
                    post_decision (process_upstream_post_retry_flow env att' auth r s1)
                | (PrimaryFlowRespond r, s1) \<Rightarrow> (UpstreamRespond r, s1)
                | (PrimaryFlowFailover, s1) \<Rightarrow> (UpstreamFailover, s1)
                | (PrimaryFlowTerminal st msg, s1) \<Rightarrow> (UpstreamTerminal st msg, s1)))"

definition execute_candidate_upstream_flow ::
  "executor_kind \<Rightarrow> flow_env \<Rightarrow> attempt \<Rightarrow> flow_state \<Rightarrow> candidate_upstream_decision \<times> flow_state" where
  "execute_candidate_upstream_flow kind env att s =
     (case kind of
        ExecCodexResponses \<Rightarrow> codex_execute env att s
      | ExecClaude \<Rightarrow> codex_execute env att s
      | ExecGemini \<Rightarrow> codex_execute env att s)"

end
