(* ===== verification/AttemptSafety.thy ===== *)
theory AttemptSafety
  imports PostRetry
begin

text \<open>
  What an attempt on one account may do, shown stage by stage: at most six requests, changes
  only to the cooldown of its own account, and a move to another account only when there is
  one and the account at hand is out of rotation.
\<close>

section \<open>Steps\<close>

definition cools_now :: "flow_env \<Rightarrow> string \<Rightarrow> flow_state \<Rightarrow> bool" where
  "cools_now env a s \<longleftrightarrow> cooling (fs_cooldown s) (fe_wall env (fs_now s)) a"

lemma cools_log [simp]: "cools_now env a (log_gateway_result env url st err s) = cools_now env a s"
  by (simp add: cools_now_def log_gateway_result_def log_event_def)

lemma cools_mark [simp]: "cools_now env a (flow_mark env a r s)"
  by (simp add: cools_now_def flow_mark_def mark_cools_now)

lemma ext_time [simp, intro]: "flow_ext env a n s (s\<lparr>fs_now := fs_now s + d\<rparr>)"
  by (simp add: flow_ext_def)

lemma ext_time_token [simp, intro]: "flow_ext env a n s (s\<lparr>fs_now := fs_now s + d, fs_token := tok\<rparr>)"
  by (simp add: flow_ext_def)

lemma ext_event [simp, intro]: "event_about a e \<Longrightarrow> flow_ext env a n s (log_event env e s)"
  by (simp add: flow_ext_def log_event_def)

lemma ext_then_time:
  assumes "flow_ext env a n s s1" and "wall_monotone env" and "event_about a e"
  shows "flow_ext env a n s (log_event env e s1)"
  using flow_ext_trans [OF assms(2,1) ext_event [of a e env 0]] assms(3) by simp

lemma ext_log_mark:
  assumes "flow_ext env a n s s1" and w: "wall_monotone env"
  shows "flow_ext env a n s (log_gateway_result env url st err (flow_mark env a r s1))"
proof -
  have "flow_ext env a n s (flow_mark env a r s1)"
    using flow_ext_trans [OF w assms(1) ext_mark [of env a 0]] by simp
  then show ?thesis using flow_ext_trans [OF w _ ext_log [of env a 0]] by simp
qed

lemma outcome_failover:
  "flow_outcome env a r url hm s = (OutcomeFailover, s') \<Longrightarrow> hm \<and> cools_now env a s'"
  using outcome_failover_cools
  by (auto simp: flow_outcome_def outcome_env_at_def cools_now_def split: prod.splits dest!: outcome_failover_cools)

lemma outcome_respond_success:
  "flow_outcome env a r url hm s = (OutcomeRespondUpstream, s') \<Longrightarrow> status_is_success (ur_status r) \<Longrightarrow>
     \<not> cools_now env a s'"
  by (auto simp: flow_outcome_def outcome_success cools_now_def cooling_clear)

section \<open>Retries\<close>

text \<open>A result of a stage of the flow: growth within \<open>n\<close> requests, and safe failover.\<close>

definition stage_ok ::
  "flow_env \<Rightarrow> attempt \<Rightarrow> nat \<Rightarrow> flow_state \<Rightarrow> (post_retry_decision + 'a) \<times> flow_state \<Rightarrow> bool" where
  "stage_ok env att n s result \<longleftrightarrow>
     flow_ext env (at_id att) n s (snd result) \<and>
     (fst result = Inl PostFailover \<longrightarrow> at_has_more att \<and> cools_now env (at_id att) (snd result)) \<and>
     (\<forall>r. fst result \<noteq> Inl (PostRespond r)) \<and>
     (\<forall>st msg. fst result = Inl (PostTerminal st msg) \<longrightarrow> st = 502 \<or> st = 504)"

lemma stage_ok_Inr [simp]: "stage_ok env att n s (Inr x, s') \<longleftrightarrow> flow_ext env (at_id att) n s s'"
  by (simp add: stage_ok_def)

lemma stage_ok_terminal [simp]:
  "stage_ok env att n s (Inl (PostTerminal st msg), s') \<longleftrightarrow>
     flow_ext env (at_id att) n s s' \<and> (st = 502 \<or> st = 504)"
  by (auto simp: stage_ok_def)

lemma stage_ok_failover [simp]:
  "stage_ok env att n s (Inl PostFailover, s') \<longleftrightarrow>
     flow_ext env (at_id att) n s s' \<and> at_has_more att \<and> cools_now env (at_id att) s'"
  by (auto simp: stage_ok_def)

lemma stage_ok_and_then:
  assumes w: "wall_monotone env" and 1: "stage_ok env att m s r"
    and 2: "\<And>x s1. r = (Inr x, s1) \<Longrightarrow> stage_ok env att n s1 (k x s1)"
  shows "stage_ok env att (m + n) s (and_then r k)"
proof (cases r)
  case (Pair d s1)
  show ?thesis
  proof (cases d)
    case (Inl e)
    then have "and_then r k = (Inl e, s1)" by (simp add: Pair and_then_def)
    with 1 Pair Inl show ?thesis
      using flow_ext_mono [of env "at_id att" m s s1 "m + n"] by (auto simp: stage_ok_def)
  next
    case (Inr x)
    with Pair have r: "and_then r k = k x s1" by (simp add: and_then_def)
    from 1 Pair Inr have e: "flow_ext env (at_id att) m s s1" by (simp add: stage_ok_def)
    from 2 [of x s1] Pair Inr have "stage_ok env att n s1 (k x s1)" by simp
    then show ?thesis
      unfolding r stage_ok_def using flow_ext_trans [OF w e _ order_refl] by blast
  qed
qed

lemma ext_sleep_send:
  assumes "wall_monotone env" and "sleep_with_exponential_jitter env b c n dl s = (ok, s1)"
    and "send_request env req s1 = (r, s2)"
  shows "flow_ext env a 1 s s2"
  using flow_ext_trans [OF assms(1) ext_sleep [OF assms(2)] ext_send [OF assms(3)]] by simp

lemma ext_sleep1:
  "sleep_with_exponential_jitter env b c n dl s = (ok, s1) \<Longrightarrow> flow_ext env a m s s1"
  using ext_sleep flow_ext_mono by blast

lemma alt_retry_ok:
  assumes w: "wall_monotone env" and "acc_id (rc_account rc) = at_id att"
    and r: "retry_with_alternate_path env att rc alt st s = (res, s')"
  shows "flow_ext env (at_id att) 1 s s' \<and>
    (res = AltFailover \<longrightarrow> at_has_more att \<and> cools_now env (at_id att) s') \<and>
    (\<forall>st msg. res = AltTerminal st msg \<longrightarrow> st = 502 \<or> st = 504)"
  using r assms(2)
  by (auto simp: retry_with_alternate_path_def
      split: option.splits if_splits prod.splits bool.splits sum.splits
      intro!: ext_log_mark [OF _ w] dest: ext_sleep1 ext_sleep_send [OF w])

lemma stateless_alt_ok:
  assumes w: "wall_monotone env" and r: "stateless_alt env att rc alt resp s = (res, s')"
  shows "flow_ext env a 1 s s' \<and> (\<forall>st msg. res = StatelessTerminal st msg \<longrightarrow> st = 504) \<and>
    res \<noteq> StatelessNotTriggered"
  using r
  by (auto simp: stateless_alt_def split: option.splits if_splits prod.splits bool.splits sum.splits
      dest: ext_sleep1 ext_sleep_send [OF w])

lemma stateless_ok:
  assumes w: "wall_monotone env" and r: "retry_stateless_then_optional_alt env att rc alt st s = (res, s')"
  shows "flow_ext env a 2 s s' \<and> (\<forall>st msg. res = StatelessTerminal st msg \<longrightarrow> st = 504)"
proof -
  obtain ok s1 where sl: "(if st \<in> {403, 429}
      then sleep_with_exponential_jitter env (from_millis 120) (from_millis 900) 1 (at_deadline att) s
      else (True, s)) = (ok, s1)" by (cases "if st \<in> {403, 429}
      then sleep_with_exponential_jitter env (from_millis 120) (from_millis 900) 1 (at_deadline att) s
      else (True, s)") auto
  have e1: "flow_ext env a 0 s s1" using sl ext_sleep by (auto split: if_splits)
  obtain x s2 where sd: "send_request env (retry_request att rc SendPlain (at_url att) True) s1 = (x, s2)"
    by (cases "send_request env (retry_request att rc SendPlain (at_url att) True) s1")
  have e2: "flow_ext env a 1 s s2" using flow_ext_trans [OF w e1 ext_send [OF sd]] by simp
  have r': "(if is_expired (at_deadline att) (fs_now s) then (StatelessTerminal 504 total_timeout_message, s)
     else if \<not> should_trigger_stateless_retry st (at_strip att) (at_disable_challenge_retry att)
     then (StatelessNotTriggered, s)
     else if ok then (case x of Inl _ \<Rightarrow> (StatelessNotTriggered, s2)
                      | Inr resp \<Rightarrow> stateless_alt env att rc alt resp s2)
     else (StatelessTerminal 504 total_timeout_message, s1)) = (res, s')"
    using r unfolding retry_stateless_then_optional_alt_def sl prod.case
    by (cases ok) (simp_all only: bool.case sd prod.case if_True if_False)
  show ?thesis
  proof (cases "is_expired (at_deadline att) (fs_now s)")
    case True
    with r' have "res = StatelessTerminal 504 total_timeout_message" "s' = s" by auto
    then show ?thesis by simp
  next
    case live: False
    show ?thesis
    proof (cases "should_trigger_stateless_retry st (at_strip att) (at_disable_challenge_retry att)")
      case False
      with r' live have "res = StatelessNotTriggered" "s' = s" by auto
      then show ?thesis by simp
    next
      case True
      with r' live have r2: "(if ok then (case x of Inl _ \<Rightarrow> (StatelessNotTriggered, s2)
                      | Inr resp \<Rightarrow> stateless_alt env att rc alt resp s2)
          else (StatelessTerminal 504 total_timeout_message, s1)) = (res, s')" by simp
      show ?thesis
      proof (cases ok)
        case False
        with r2 have "res = StatelessTerminal 504 total_timeout_message" "s' = s1" by auto
        then show ?thesis using flow_ext_mono [OF e1, of 2] by simp
      next
        case True
        show ?thesis
        proof (cases x)
          case (Inl err)
          with r2 True have "res = StatelessNotTriggered" "s' = s2" by auto
          then show ?thesis using flow_ext_mono [OF e2, of 2] by simp
        next
          case (Inr resp)
          with r2 True have "stateless_alt env att rc alt resp s2 = (res, s')" by simp
          from stateless_alt_ok [OF w this, of a] show ?thesis
            using flow_ext_trans [OF w e2, of 1 s' 2] by simp
        qed
      qed
    qed
  qed
qed

section \<open>Stages\<close>

text \<open>The requests each stage may send, depending on the bearer and the base address.\<close>

definition agent_sends :: "primary_authorization \<Rightarrow> nat" where
  "agent_sends auth = (if pa_uses_agent_identity auth then 1 else 0)"

definition backend_sends :: "attempt \<Rightarrow> nat" where
  "backend_sends att = (if is_chatgpt_backend_base (at_base att) then 1 else 0)"

text \<open>The bearer keeps its account: its id is that of the attempt.\<close>

abbreviation ctx_ok :: "attempt \<Rightarrow> upstream_response \<times> retry_ctx \<Rightarrow> bool" where
  "ctx_ok att x \<equiv> acc_id (rc_account (snd x)) = at_id att"

definition keeps_ctx :: "attempt \<Rightarrow> (post_retry_decision + upstream_response \<times> retry_ctx) \<times> flow_state \<Rightarrow> bool" where
  "keeps_ctx att result \<longleftrightarrow> (\<forall>x. fst result = Inr x \<longrightarrow> ctx_ok att x)"

lemma keeps_ctx_simps [simp]:
  "keeps_ctx att (Inr x, s) \<longleftrightarrow> ctx_ok att x" "keeps_ctx att (Inl d, s)"
  by (simp_all add: keeps_ctx_def)

lemma time_then_send:
  assumes "wall_monotone env" and "send_request env req (s\<lparr>fs_now := fs_now s + d\<rparr>) = (r, s2)"
  shows "flow_ext env a 1 s s2"
  using flow_ext_trans [OF assms(1) ext_time [of env a 0 s d] ext_send [OF assms(2)]] by simp

lemma read_time_send:
  assumes "wall_monotone env" and "read_body r s = (x, s0)"
    and "send_request env req (s0\<lparr>fs_now := fs_now s0 + d\<rparr>) = (y, s2)"
  shows "flow_ext env a 1 s s2"
  using flow_ext_trans [OF assms(1) ext_read [OF assms(2), of _ a 0] time_then_send [OF assms(1,3)]] by simp

lemma read_then_time:
  assumes "wall_monotone env" and "read_body r s = (x, s0)"
  shows "flow_ext env a n s (s0\<lparr>fs_now := fs_now s0 + d\<rparr>)"
  using flow_ext_trans [OF assms(1) ext_read [OF assms(2), of _ a n] ext_time [of env a 0]] by simp

lemma recover_agent_task_ok:
  assumes w: "wall_monotone env" and c: "acc_id (rc_account rc) = at_id att"
  shows "stage_ok env att (agent_sends auth) s (recover_agent_task env att auth rc r s) \<and>
    keeps_ctx att (recover_agent_task env att auth rc r s)"
proof (cases "ur_status r = 401 \<and> pa_uses_agent_identity auth")
  case False
  then show ?thesis using c by (auto simp: recover_agent_task_def)
next
  case True
  then have n: "agent_sends auth = 1" by (simp add: agent_sends_def)
  show ?thesis
    unfolding recover_agent_task_def n using True c
    by (auto simp: Let_def split: sum.splits option.splits prod.splits
        dest: read_time_send [OF w] ext_read intro: read_then_time [OF w])
qed

lemma cloudflare_failover_ok:
  assumes w: "wall_monotone env" and c: "ctx_ok att x"
  shows "stage_ok env att 0 s (cloudflare_failover env att x s) \<and> keeps_ctx att (cloudflare_failover env att x s)"
  using c by (auto simp: cloudflare_failover_def should_failover_immediately_for_cloudflare_def Let_def
      intro!: ext_log_mark [OF _ w])

lemma refresh_token_ext:
  "try_refresh_chatgpt_access_token env att acc s = (x, s1) \<Longrightarrow> flow_ext env a n s s1"
  by (auto simp: try_refresh_chatgpt_access_token_def Let_def split: if_splits prod.splits sum.splits)

lemma refresh_unauthorized_ok:
  assumes w: "wall_monotone env" and c: "ctx_ok att x"
  shows "stage_ok env att (1 - agent_sends auth) s (refresh_unauthorized env att auth x s) \<and>
    keeps_ctx att (refresh_unauthorized env att auth x s)"
proof (cases "ur_status (fst x) = 401 \<and> \<not> pa_uses_agent_identity auth")
  case False
  then show ?thesis using c by (auto simp: refresh_unauthorized_def split: prod.splits)
next
  case True
  then have n: "1 - agent_sends auth = 1" by (simp add: agent_sends_def)
  have send: "flow_ext env (at_id att) 1 s s2"
    if "try_refresh_chatgpt_access_token env att acc s = (y, s1)" and "send_request env req s1 = (z, s2)"
    for acc y s1 req z s2
    using flow_ext_trans [OF w refresh_token_ext [OF that(1), of _ 0] ext_send [OF that(2)]] by simp
  show ?thesis
    unfolding refresh_unauthorized_def n using True c
    by (auto simp: Let_def split: prod.splits sum.splits option.splits
        dest: send refresh_token_ext intro: ext_then_time [OF refresh_token_ext w])
qed

lemma retry_bad_request_ok:
  assumes c: "ctx_ok att x"
  shows "stage_ok env att (backend_sends att) s (retry_bad_request env att x s) \<and>
    keeps_ctx att (retry_bad_request env att x s)"
proof -
  have "flow_ext env (at_id att) (backend_sends att) s s1"
    if "retry_chatgpt_responses_bad_request_without_session_headers env att rc st s = (y, s1)" for rc st y s1
    using that ext_send flow_ext_refl
    by (auto simp: retry_chatgpt_responses_bad_request_without_session_headers_def backend_sends_def
        should_retry_chatgpt_responses_bad_request_def split: if_splits prod.splits sum.splits)
  then show ?thesis
    using c by (auto simp: retry_bad_request_def Let_def split: prod.splits option.splits)
qed

lemma retry_alternate_ok:
  assumes w: "wall_monotone env" and c: "ctx_ok att x"
  shows "stage_ok env att 1 s (retry_alternate env att x s) \<and> keeps_ctx att (retry_alternate env att x s)"
proof (cases "at_alt_url att")
  case None
  then show ?thesis using c by (auto simp: retry_alternate_def split: prod.splits)
next
  case (Some url)
  obtain r rc where x: "x = (r, rc)" by (cases x)
  obtain res s1 where e: "retry_with_alternate_path env att rc (Some url) (ur_status r) s = (res, s1)"
    by (cases "retry_with_alternate_path env att rc (Some url) (ur_status r) s")
  have "acc_id (rc_account rc) = at_id att" using c x by simp
  from alt_retry_ok [OF w this e] show ?thesis
    using c x Some e by (cases res) (auto simp: retry_alternate_def)
qed

lemma replace_or_timeout_ok:
  assumes "ctx_ok att x" and "flow_ext env (at_id att) n s (snd result)"
  shows "stage_ok env att n s (replace_or_timeout x result) \<and> keeps_ctx att (replace_or_timeout x result)"
  using assms by (auto simp: replace_or_timeout_def split: prod.splits sum.splits option.splits)

lemma retry_server_error_ok:
  assumes w: "wall_monotone env" and c: "ctx_ok att x"
  shows "stage_ok env att 1 s (retry_server_error env att x s) \<and> keeps_ctx att (retry_server_error env att x s)"
proof -
  have "flow_ext env (at_id att) 1 s (snd (retry_upstream_server_error_once env att (snd x) (ur_status (fst x)) s))"
    by (auto simp: retry_upstream_server_error_once_def split: prod.splits bool.splits sum.splits
        dest: ext_sleep1 ext_sleep_send [OF w])
  then show ?thesis unfolding retry_server_error_def by (rule replace_or_timeout_ok [OF c])
qed

lemma retry_challenge_ok:
  assumes c: "ctx_ok att x"
  shows "stage_ok env att (backend_sends att) s (retry_challenge env att x s) \<and>
    keeps_ctx att (retry_challenge env att x s)"
proof (cases "is_challenge (fst x)")
  case False
  then show ?thesis using c by (simp add: retry_challenge_def)
next
  case True
  have "flow_ext env (at_id att) (backend_sends att) s
      (snd (retry_chatgpt_challenge_without_compression env att (snd x) (fst x) s))"
    by (auto simp: retry_chatgpt_challenge_without_compression_def backend_sends_def
        split: prod.splits sum.splits dest: ext_send)
  with True show ?thesis unfolding retry_challenge_def by (simp add: replace_or_timeout_ok [OF c])
qed

lemma retry_stateless_ok:
  assumes w: "wall_monotone env" and c: "ctx_ok att x"
  shows "stage_ok env att (2 - 2 * backend_sends att) s (retry_stateless env att x s) \<and>
    keeps_ctx att (retry_stateless env att x s)"
proof (cases "\<not> is_chatgpt_backend_base (at_base att) \<and> \<not> is_challenge (fst x)")
  case False
  then show ?thesis using c by (cases x) (auto simp: retry_stateless_def)
next
  case True
  obtain r rc where x: "x = (r, rc)" by (cases x)
  obtain res s1 where
    e: "retry_stateless_then_optional_alt env att rc (at_alt_url att) (ur_status r) s = (res, s1)"
    by (cases "retry_stateless_then_optional_alt env att rc (at_alt_url att) (ur_status r) s")
  have "2 - 2 * backend_sends att = 2" using True by (simp add: backend_sends_def)
  with stateless_ok [OF w e, of "at_id att"] show ?thesis
    using c x True e by (cases res) (auto simp: retry_stateless_def)
qed

lemma fallback_after_retries_ok:
  "ctx_ok att x \<Longrightarrow> stage_ok env att 0 s (fallback_after_retries env att auth x s) \<and>
    keeps_ctx att (fallback_after_retries env att auth x s)"
  by (cases x) (auto simp: fallback_after_retries_def)

section \<open>The flow\<close>

definition stage_good ::
  "flow_env \<Rightarrow> attempt \<Rightarrow> nat \<Rightarrow> flow_state \<Rightarrow>
    (post_retry_decision + upstream_response \<times> retry_ctx) \<times> flow_state \<Rightarrow> bool" where
  "stage_good env att n s r \<longleftrightarrow> stage_ok env att n s r \<and> keeps_ctx att r"

lemma stage_good_and_then:
  assumes w: "wall_monotone env" and 1: "stage_good env att m s r"
    and 2: "\<And>x s1. ctx_ok att x \<Longrightarrow> stage_good env att n s1 (k x s1)"
  shows "stage_good env att (m + n) s (and_then r k)"
proof -
  have k: "stage_good env att n s1 (k x s1)" if "r = (Inr x, s1)" for x s1
    using 1 2 that by (simp add: stage_good_def)
  have "keeps_ctx att (and_then r k)"
    using k by (cases r) (auto simp: and_then_def stage_good_def split: sum.splits)
  with stage_ok_and_then [OF w, of att m s r n k] 1 k show ?thesis
    by (simp add: stage_good_def)
qed

lemmas stages_good =
  recover_agent_task_ok cloudflare_failover_ok refresh_unauthorized_ok retry_bad_request_ok
  retry_alternate_ok retry_server_error_ok retry_challenge_ok retry_stateless_ok
  fallback_after_retries_ok

lemma post_retry_stages_good:
  assumes w: "wall_monotone env"
  shows "stage_good env att 5 s (post_retry_stages env att auth r s)"
proof -
  let ?b = "backend_sends att" and ?a = "agent_sends auth"
  have "stage_good env att (?a + (0 + ((1 - ?a) + (?b + (1 + (1 + (?b + ((2 - 2 * ?b) + 0)))))))) s
      (post_retry_stages env att auth r s)"
    unfolding post_retry_stages_def Let_def
    by (intro stage_good_and_then [OF w];
        simp add: stage_good_def stages_good [unfolded One_nat_def] w)
  moreover have "?a + (0 + ((1 - ?a) + (?b + (1 + (1 + (?b + ((2 - 2 * ?b) + 0))))))) = 5"
    by (auto simp: agent_sends_def backend_sends_def)
  ultimately show ?thesis by simp
qed

lemma decide_final_ok:
  assumes w: "wall_monotone env" and r: "decide_final env att x s = (d, s')"
  shows "flow_ext env (at_id att) 0 s s' \<and>
    (d = PostFailover \<longrightarrow> at_has_more att \<and> cools_now env (at_id att) s') \<and>
    (\<forall>resp. d = PostRespond resp \<longrightarrow> status_is_success (ur_status resp) \<longrightarrow> \<not> cools_now env (at_id att) s') \<and>
    (\<forall>st msg. d \<noteq> PostTerminal st msg)"
proof -
  define s1 where "s1 = (if at_protocol att = protocol_anthropic_native \<and> is_challenge (fst x)
      then flow_mark env (at_id att) (challenge_cooldown_reason (at_protocol att)) s else s)"
  have e1: "flow_ext env (at_id att) 0 s s1" by (simp add: s1_def)
  obtain o1 s2 where o1: "flow_outcome env (at_id att) (fst x) (at_url att) (at_has_more att) s1 = (o1, s2)"
    by (cases "flow_outcome env (at_id att) (fst x) (at_url att) (at_has_more att) s1")
  have e: "flow_ext env (at_id att) 0 s s2" using flow_ext_trans [OF w e1 ext_outcome [OF o1]] by simp
  have "decide_final env att x s =
      (case o1 of OutcomeFailover \<Rightarrow> (PostFailover, s2) | OutcomeRespondUpstream \<Rightarrow> (PostRespond (fst x), s2))"
    by (simp add: decide_final_def s1_def [symmetric] o1 Let_def)
  moreover have "at_has_more att \<and> cools_now env (at_id att) s2" if "o1 = OutcomeFailover"
    using outcome_failover o1 that by blast
  moreover have "\<not> cools_now env (at_id att) s2"
    if "o1 = OutcomeRespondUpstream" "status_is_success (ur_status (fst x))"
    using outcome_respond_success o1 that by blast
  ultimately show ?thesis using r e by (cases o1) auto
qed

text \<open>The contract of an attempt, as its caller sees it.\<close>

definition attempt_ok ::
  "flow_env \<Rightarrow> attempt \<Rightarrow> nat \<Rightarrow> flow_state \<Rightarrow> candidate_upstream_decision \<times> flow_state \<Rightarrow> bool" where
  "attempt_ok env att n s result \<longleftrightarrow>
     flow_ext env (at_id att) n s (snd result) \<and>
     (fst result = UpstreamFailover \<longrightarrow> at_has_more att \<and> cools_now env (at_id att) (snd result)) \<and>
     (\<forall>r. fst result = UpstreamRespond r \<longrightarrow> status_is_success (ur_status r) \<longrightarrow>
        \<not> cools_now env (at_id att) (snd result)) \<and>
     (\<forall>st msg. fst result = UpstreamTerminal st msg \<longrightarrow> st \<in> {401, 500, 502, 504})"

lemma attempt_ok_terminal:
  "flow_ext env (at_id att) n s s' \<Longrightarrow> st \<in> {401, 500, 502, 504} \<Longrightarrow>
     attempt_ok env att n s (UpstreamTerminal st msg, s')"
  by (auto simp: attempt_ok_def)

lemma post_retry_attempt_ok:
  assumes w: "wall_monotone env"
  shows "attempt_ok env att 5 s (post_decision (process_upstream_post_retry_flow env att auth r s))"
proof -
  obtain y s1 where y: "post_retry_stages env att auth r s = (y, s1)"
    by (cases "post_retry_stages env att auth r s")
  with post_retry_stages_good [OF w, of att s auth r] have g: "stage_ok env att 5 s (y, s1)"
    by (simp add: stage_good_def)
  show ?thesis
  proof (cases y)
    case (Inl d)
    then show ?thesis
      using g y by (cases d) (auto simp: process_upstream_post_retry_flow_def attempt_ok_def stage_ok_def)
  next
    case (Inr x)
    obtain d s2 where d: "decide_final env att x s1 = (d, s2)" by (cases "decide_final env att x s1")
    from g Inr have "flow_ext env (at_id att) 5 s s1" by simp
    with decide_final_ok [OF w d] have "flow_ext env (at_id att) 5 s s2"
      using flow_ext_trans [OF w, of "at_id att" 5 s s1 0 s2 5] by simp
    then show ?thesis
      using y Inr d decide_final_ok [OF w d]
      by (cases d) (auto simp: process_upstream_post_retry_flow_def attempt_ok_def)
  qed
qed

lemma primary_flow_ok:
  assumes w: "wall_monotone env" and r: "run_primary_upstream_flow env att s = (d, s')"
  shows "flow_ext env (at_id att) 1 s s' \<and>
    (d = PrimaryFlowFailover \<longrightarrow> at_has_more att \<and> cools_now env (at_id att) s') \<and>
    (\<forall>st msg. d = PrimaryFlowTerminal st msg \<longrightarrow> st \<in> {401, 502, 504}) \<and>
    (\<forall>resp. d \<noteq> PrimaryFlowRespond resp)"
proof -
  obtain y s1 where y: "resolve_chatgpt_primary_authorization env (at_account att) s = (y, s1)"
    by (cases "resolve_chatgpt_primary_authorization env (at_account att) s")
  have "s1 = s\<lparr>fs_now := fs_now s + snd (fe_resolve_agent env (at_account att) (fs_token s))\<rparr>"
    using y by (auto simp: resolve_chatgpt_primary_authorization_def Let_def
        split: prod.splits sum.splits option.splits if_splits)
  then have e1: "flow_ext env (at_id att) 0 s s1" by simp
  show ?thesis
  proof (cases y)
    case (Inl err)
    then show ?thesis
      using r y flow_ext_trans [OF w e1 ext_log [of env _ 1]]
      by (auto simp: run_primary_upstream_flow_def)
  next
    case (Inr p)
    obtain auth src where p: "p = (auth, src)" by (cases p)
    obtain q s2 where q: "run_primary_upstream_attempt env att auth s1 = (q, s2)"
      by (cases "run_primary_upstream_attempt env att auth s1")
    have "flow_ext env (at_id att) 1 s1 s2 \<and>
      (q = PrimaryFailover \<longrightarrow> at_has_more att \<and> cools_now env (at_id att) s2) \<and>
      (\<forall>st msg. q = PrimaryTerminal st msg \<longrightarrow> st \<in> {401, 502, 504})"
      using q by (auto simp: run_primary_upstream_attempt_def should_failover_transport_error_def Let_def
          split: if_splits prod.splits sum.splits intro!: ext_log_mark [OF _ w] dest: ext_send)
    moreover have "flow_ext env (at_id att) 1 s s2" if "flow_ext env (at_id att) 1 s1 s2"
      using flow_ext_trans [OF w e1 that] by simp
    ultimately show ?thesis
      using r y Inr p q by (cases q) (auto simp: run_primary_upstream_flow_def)
  qed
qed

lemma openai_base_ok:
  assumes w: "wall_monotone env"
    and r: "handle_openai_base_attempt env (at_body att) (at_base att) (at_account att) (at_strip att) (at_has_more att) s = (d, s')"
  shows "flow_ext env (at_id att) 1 s s' \<and>
    (d = OpenAiFailover \<longrightarrow> at_has_more att \<and> cools_now env (at_id att) s') \<and>
    (\<forall>resp. d = OpenAiUpstream resp \<longrightarrow> status_is_success (ur_status resp) \<longrightarrow>
       \<not> cools_now env (at_id att) s') \<and>
    (\<forall>st msg. d = OpenAiTerminal st msg \<longrightarrow> st = 502)"
proof -
  obtain x s1 where x: "try_openai_fallback env (at_body att) (at_base att) (at_account att) (at_strip att) s = (x, s1)"
    by (cases "try_openai_fallback env (at_body att) (at_base att) (at_account att) (at_strip att) s")
  note e1 = ext_openai [OF x, of "at_id att"]
  show ?thesis
  proof (cases "\<exists>resp. x = Inr (Some resp)")
    case False
    then show ?thesis
      using r x e1 by (auto simp: handle_openai_base_attempt_def split: sum.splits option.splits
          intro!: ext_log_mark [OF _ w])
  next
    case True
    then obtain resp where resp: "x = Inr (Some resp)" by blast
    obtain o1 s2 where o1: "flow_outcome env (at_id att) resp (at_base att) (at_has_more att) s1 = (o1, s2)"
      by (cases "flow_outcome env (at_id att) resp (at_base att) (at_has_more att) s1")
    have e: "flow_ext env (at_id att) 1 s s2" using flow_ext_trans [OF w e1 ext_outcome [OF o1]] by simp
    have "at_has_more att \<and> cools_now env (at_id att) s2" if "o1 = OutcomeFailover"
      using outcome_failover o1 that by blast
    moreover have "\<not> cools_now env (at_id att) s2"
      if "o1 = OutcomeRespondUpstream" "status_is_success (ur_status resp)"
      using outcome_respond_success o1 that by blast
    ultimately show ?thesis
      using r x resp o1 e by (cases o1) (auto simp: handle_openai_base_attempt_def)
  qed
qed

lemma codex_execute_ok:
  assumes w: "wall_monotone env"
  shows "attempt_ok env att 6 s (codex_execute env att s)"
proof -
  have primary: "attempt_ok env att 6 s
      (case run_primary_upstream_flow env (att\<lparr>at_allow_fallback := allow\<rparr>) s of
         (PrimaryContinue r auth, s1) \<Rightarrow>
           post_decision (process_upstream_post_retry_flow env (att\<lparr>at_allow_fallback := allow\<rparr>) auth r s1)
       | (PrimaryFlowRespond r, s1) \<Rightarrow> (UpstreamRespond r, s1)
       | (PrimaryFlowFailover, s1) \<Rightarrow> (UpstreamFailover, s1)
       | (PrimaryFlowTerminal st msg, s1) \<Rightarrow> (UpstreamTerminal st msg, s1))" for allow
  proof -
    let ?att = "att\<lparr>at_allow_fallback := allow\<rparr>"
    obtain d s1 where d: "run_primary_upstream_flow env ?att s = (d, s1)"
      by (cases "run_primary_upstream_flow env ?att s")
    note p = primary_flow_ok [OF w d, simplified]
    show ?thesis
    proof (cases d)
      case (PrimaryContinue r auth)
      obtain d2 s2 where d2: "post_decision (process_upstream_post_retry_flow env ?att auth r s1) = (d2, s2)"
        by (cases "post_decision (process_upstream_post_retry_flow env ?att auth r s1)")
      from post_retry_attempt_ok [OF w, of ?att s1 auth r] d2
      have "attempt_ok env att 5 s1 (d2, s2)" by (simp add: attempt_ok_def)
      then show ?thesis
        using PrimaryContinue d d2 flow_ext_trans [OF w conjunct1 [OF p], of 5 s2 6]
        by (simp add: attempt_ok_def)
    qed (use d p flow_ext_mono [of env "at_id att" 1 s s1 6] in \<open>auto simp: attempt_ok_def\<close>)
  qed
  show ?thesis
  proof (cases "is_openai_api_base (at_base att)")
    case True
    obtain d s1 where d: "handle_openai_base_attempt env (at_body att) (at_base att) (at_account att) (at_strip att)
        (at_has_more att) s = (d, s1)"
      by (cases "handle_openai_base_attempt env (at_body att) (at_base att) (at_account att) (at_strip att) (at_has_more att) s")
    note h = openai_base_ok [OF w d]
    then have "flow_ext env (at_id att) 6 s s1" using flow_ext_mono [of env "at_id att" 1 s s1 6] by simp
    with True d h show ?thesis
      by (cases d) (auto simp: codex_execute_def attempt_ok_def split: sum.splits)
  next
    case False
    show ?thesis
      unfolding codex_execute_def Let_def
      using False primary by (auto split: sum.splits option.splits intro: attempt_ok_terminal)
  qed
qed

lemma execute_candidate_ok:
  "wall_monotone env \<Longrightarrow> attempt_ok env att 6 s (execute_candidate_upstream_flow kind env att s)"
  by (cases kind) (simp_all add: execute_candidate_upstream_flow_def codex_execute_ok)

section \<open>Properties\<close>


text \<open>
  C11: Failover is safe. An attempt moves on to another account only when there is one, and
  then its own account is out of rotation from that moment, so that the next selection does
  not come back to it; a successful response leaves its account out of cooldown; and no
  attempt changes whether another account is cooling from now on.
\<close>

theorem attempt_failover_safe:
  assumes "wall_monotone env" and "execute_candidate_upstream_flow kind env att s = (d, s')"
  shows "(d = UpstreamFailover \<longrightarrow> at_has_more att
        \<and> cooling (fs_cooldown s') (fe_wall env (fs_now s')) (at_id att))
    \<and> (\<forall>r. d = UpstreamRespond r \<longrightarrow> status_is_success (ur_status r) \<longrightarrow>
        \<not> cooling (fs_cooldown s') (fe_wall env (fs_now s')) (at_id att))
    \<and> (\<forall>k t. k \<noteq> at_id att \<longrightarrow> fe_wall env (fs_now s') \<le> t \<longrightarrow>
        cooling (fs_cooldown s') t k = cooling (fs_cooldown s) t k)"
  using execute_candidate_ok [OF assms(1), of att s kind] assms(2)
  by (simp add: attempt_ok_def flow_ext_def cools_now_def)

subsection \<open>A concrete attempt\<close>

text \<open>A mirror that cannot be reached, with a second account at hand.\<close>

definition refusing_env :: flow_env where
  "refusing_env =
     \<lparr>fe_send = (\<lambda>_ _. (Inl ''refused'', 5)), fe_openai = (\<lambda>_ _ _ tok. (Inr None, tok, 0)),
      fe_gen = (\<lambda>_ n. n), fe_sleep = (\<lambda>_ d. (True, d)), fe_wall = (\<lambda>t. int t),
      fe_quota = quota_guard_default, fe_reserve = (\<lambda>_. False), fe_lookup = (\<lambda>_. Inr None),
      fe_client = (\<lambda>_. Inr ()), fe_find_agent = (\<lambda>_. Inr None),
      fe_resolve_agent = (\<lambda>_ _. (Inr None, 0)), fe_recover_agent = (\<lambda>_ _ _. (Inr None, 0)),
      fe_refresh_token = (\<lambda>tok _. (Inr (), tok, 0)), fe_default_issuer = [],
      fe_url_path = (\<lambda>_. None), fe_identity_code = (\<lambda>_. None), fe_error_hint = (\<lambda>_ _. None),
      fe_is_json = (\<lambda>_. False)\<rparr>"

definition mirror_attempt :: attempt where
  "mirror_attempt =
     \<lparr>at_base = ''https://mirror.example/v1'', at_path = ''/v1/responses'',
      at_url = ''https://mirror.example/v1/responses'', at_alt_url = None, at_deadline = None,
      at_request_path = ''/v1/responses'', at_protocol = protocol_openai_compat,
      at_is_stream = True, at_fallback_base = None, at_account = account_named ''a'',
      at_strip = False, at_allow_fallback = False, at_disable_challenge_retry = False,
      at_has_more = True, at_body = []\<rparr>"

definition fresh_flow_state :: flow_state where
  "fresh_flow_state =
     \<lparr>fs_now = 100, fs_cooldown = cooldown_default,
      fs_token = (snd (candidate_named ''a''))\<lparr>tok_access_token := ''at''\<rparr>, fs_sent = [],
      fs_events = []\<rparr>"

lemma refusing_monotone: "wall_monotone refusing_env"
  by (simp add: wall_monotone_def refusing_env_def)

lemma mirror_fails:
  assumes tok: "tok_access_token (fs_token s) = ''at''"
  shows "\<exists>s'. execute_candidate_upstream_flow ExecCodexResponses refusing_env mirror_attempt s
     = (UpstreamFailover, s') \<and> fs_token s' = fs_token s"
proof -
  have b: "\<not> is_openai_api_base ''https://mirror.example/v1''"
    "\<not> is_official_openai_target ''https://mirror.example/v1/responses''" "trim ''at'' = ''at''"
    by code_simp+
  let ?acc = "account_named ''a''"
  have auth: "resolve_chatgpt_primary_authorization refusing_env ?acc s =
    (Inr (\<lparr>pa_value = ''at'', pa_task_id = None, pa_uses_agent_identity = False,
           pa_is_fedramp = False, pa_account_scope_id = None\<rparr>, ''access_token''), s)"
    using tok by (simp add: resolve_chatgpt_primary_authorization_def resolve_chatgpt_primary_bearer_def
        trimmed_nonempty_def refusing_env_def b)
  let ?att = "mirror_attempt\<lparr>at_allow_fallback := False\<rparr>"
  have "\<exists>s1. run_primary_upstream_flow refusing_env ?att s = (PrimaryFlowFailover, s1) \<and> fs_token s1 = fs_token s"
    using auth b
    by (simp add: run_primary_upstream_flow_def run_primary_upstream_attempt_def mirror_attempt_def
        is_expired_def remaining_def send_request_def refusing_env_def Let_def
        should_failover_transport_error_def log_gateway_result_def log_event_def flow_mark_def)
  then obtain s1 where s1: "run_primary_upstream_flow refusing_env ?att s = (PrimaryFlowFailover, s1)"
      "fs_token s1 = fs_token s" by blast
  have "\<not> is_expired (at_deadline mirror_attempt) n" "\<not> is_openai_api_base (at_base mirror_attempt)"
    "\<not> at_allow_fallback mirror_attempt" "fe_client refusing_env i = Inr ()" for n i
    using b by (simp_all add: mirror_attempt_def is_expired_def remaining_def refusing_env_def)
  then show ?thesis
    by (simp add: execute_candidate_upstream_flow_def codex_execute_def s1 Let_def)
qed

lemma mirror_execute:
  "\<exists>s'. execute_candidate_upstream_flow ExecCodexResponses refusing_env mirror_attempt fresh_flow_state
     = (UpstreamFailover, s')"
  using mirror_fails [of fresh_flow_state] by (auto simp: fresh_flow_state_def)


theorem attempt_failover_safe_witness:
  "\<exists>s'. execute_candidate_upstream_flow ExecCodexResponses refusing_env mirror_attempt fresh_flow_state
     = (UpstreamFailover, s') \<and> cooling (fs_cooldown s') (int (fs_now s')) ''a''"
proof -
  from mirror_execute obtain s' where s': "execute_candidate_upstream_flow ExecCodexResponses refusing_env
      mirror_attempt fresh_flow_state = (UpstreamFailover, s')" ..
  have "fe_wall refusing_env t = int t" "at_id mirror_attempt = ''a''" for t
    by (simp_all add: refusing_env_def mirror_attempt_def)
  with attempt_failover_safe [OF refusing_monotone s'] s' show ?thesis by auto
qed

end
