(* ===== verification/AccountStatus.thy ===== *)
theory AccountStatus
  imports StorageData
begin

text \<open>
  The status of an account and what changes it (\<open>account/account_status.rs\<close>), with the
  storage operations it uses (\<open>core/src/storage/accounts.rs\<close> and \<open>core/src/storage/events.rs\<close>). The
  store keeps status and update time per account, the status events in the order of their
  ids, and how often the candidate cache was invalidated. Storage calls succeed.
\<close>

section \<open>Error messages\<close>

definition contains_any :: "string \<Rightarrow> string list \<Rightarrow> bool" where
  "contains_any s ps = list_ex (contains s) ps"

definition deactivation_reason_from_message :: "string \<Rightarrow> string option" where
  "deactivation_reason_from_message message =
     (let normalized = to_ascii_lowercase (trim message) in
      if contains_any normalized [''workspace_deactivated'', ''deactivated_workspace'',
           ''workspace deactivated'', ''workspace-deactivated'', ''deactivated workspace'']
      then Some ''workspace_deactivated''
      else if contains_any normalized [''account_deactivated'', ''account deactivated'', ''deactivated'']
      then Some ''account_deactivated''
      else None)"

definition is_word_char :: "char \<Rightarrow> bool" where
  "is_word_char c \<longleftrightarrow>
     (let n = (of_char c :: nat) in
       48 \<le> n \<and> n \<le> 57 \<or> 65 \<le> n \<and> n \<le> 90 \<or> 97 \<le> n \<and> n \<le> 122 \<or> c = CHR ''_'')"

text \<open>\<open>split\<close> at every character that does not satisfy the test; empty pieces are kept.\<close>

fun split_words :: "string \<Rightarrow> string \<Rightarrow> string list" where
  "split_words acc [] = [rev acc]"
| "split_words acc (c # s) =
     (if is_word_char c then split_words (c # acc) s else rev acc # split_words [] s)"

definition usage_limit_reason_from_message :: "string \<Rightarrow> string option" where
  "usage_limit_reason_from_message message =
     (let normalized = to_ascii_lowercase (trim message);
          has_usage_limit_code = list_ex
            (\<lambda>w. w \<in> {''usage_limit_reached'', ''usage_limit_exceeded'', ''usage_limit_exhausted''})
            (split_words [] normalized)
      in if contains normalized (''you'' @ CHR 0x27 # ''ve hit your usage limit'')
            \<or> contains normalized ''you have hit your usage limit''
            \<or> contains normalized ''usage limit has been reached''
            \<or> has_usage_limit_code
            \<or> contains normalized ''insufficient_quota''
            \<or> contains normalized ''quota exceeded''
            \<or> contains normalized ''usage exhausted''
            \<or> (contains normalized ''usage limit'' \<and> contains normalized ''try again'')
         then Some ''usage_limit_exhausted'' else None)"

datatype gateway_error_kind = ErrDeactivation | ErrUsageLimit | ErrOther

record gateway_error_follow_up =
  gf_kind :: gateway_error_kind
  gf_should_failover :: bool
  gf_mark_unavailable :: bool
  gf_mark_default_cooldown :: bool

definition analyze_gateway_error :: "string \<Rightarrow> bool \<Rightarrow> gateway_error_follow_up" where
  "analyze_gateway_error err has_more_candidates =
     (let kind = (if deactivation_reason_from_message err \<noteq> None then ErrDeactivation
                  else if usage_limit_reason_from_message err \<noteq> None then ErrUsageLimit
                  else ErrOther);
          is_actionable = (kind \<noteq> ErrOther);
          should_failover = (has_more_candidates \<and> is_actionable)
      in \<lparr>gf_kind = kind, gf_should_failover = should_failover,
          gf_mark_unavailable = is_actionable,
          gf_mark_default_cooldown = (kind = ErrUsageLimit \<and> should_failover)\<rparr>)"

section \<open>Signals of other endpoints\<close>

datatype refresh_token_reason =
  RtExpired | RtReused | RtInvalidated | RtInvalidGrant | RtAppSessionTerminated | RtUnknown401

fun refresh_token_reason_code :: "refresh_token_reason \<Rightarrow> string" where
  "refresh_token_reason_code RtExpired = ''refresh_token_expired''"
| "refresh_token_reason_code RtReused = ''refresh_token_reused''"
| "refresh_token_reason_code RtInvalidated = ''refresh_token_invalidated''"
| "refresh_token_reason_code RtInvalidGrant = ''invalid_grant''"
| "refresh_token_reason_code RtAppSessionTerminated = ''app_session_terminated''"
| "refresh_token_reason_code RtUnknown401 = ''refresh_token_unknown_401''"

datatype availability_signal =
    SigRefreshToken refresh_token_reason
  | SigRefreshTokenRegionBlocked
  | SigDeactivation string
  | SigUsageHttp nat

definition is_region_blocked_error_message :: "string \<Rightarrow> bool" where
  "is_region_blocked_error_message message =
     contains_any (to_ascii_lowercase (trim message))
       [''unsupported_country_region_territory'', ''unsupported_country'', ''region_restricted'',
        ''kind=cloudflare_blocked'', ''access blocked by cloudflare'',
        ''country, region, or territory not supported'']"

definition is_refresh_token_region_blocked_error_message :: "string \<Rightarrow> bool" where
  "is_refresh_token_region_blocked_error_message message \<longleftrightarrow>
     contains (to_ascii_lowercase (trim message)) ''refresh token failed''
     \<and> is_region_blocked_error_message message"

definition strip_first_prefix :: "string list \<Rightarrow> string \<Rightarrow> string option" where
  "strip_first_prefix ps s =
     (case filter (starts_with s) ps of [] \<Rightarrow> None | p # _ \<Rightarrow> Some (drop (length p) s))"

definition extract_usage_http_status_code :: "string \<Rightarrow> nat option" where
  "extract_usage_http_status_code message =
     (case strip_first_prefix [''usage endpoint status '', ''usage endpoint failed: status='',
             ''subscription endpoint status '', ''subscription endpoint failed: status=''] (trim message) of
        None \<Rightarrow> None
      | Some rest \<Rightarrow>
          (let digits = takeWhile is_ascii_digit rest
           in if digits = [] then None else parse_unsigned 65535 digits))"

text \<open>The reason in the message of the token endpoint is an argument.\<close>

definition classify_account_availability_signal ::
  "(string \<Rightarrow> refresh_token_reason option) \<Rightarrow> string \<Rightarrow> availability_signal option" where
  "classify_account_availability_signal token_reason err =
     (if is_refresh_token_region_blocked_error_message err then Some SigRefreshTokenRegionBlocked
      else case token_reason err of
        Some reason \<Rightarrow> Some (SigRefreshToken reason)
      | None \<Rightarrow>
          (case deactivation_reason_from_message err of
             Some reason \<Rightarrow> Some (SigDeactivation reason)
           | None \<Rightarrow> map_option SigUsageHttp (extract_usage_http_status_code err)))"

section \<open>The store\<close>

record status_store =
  ss_accounts :: "string \<rightharpoonup> string \<times> int"
  ss_events :: "(string \<times> string \<times> int) list"
  ss_cache_invalidations :: nat

definition find_account_status_by_id :: "string \<Rightarrow> status_store \<Rightarrow> string option" where
  "find_account_status_by_id a s = map_option fst (ss_accounts s a)"

definition update_account_status_if_changed_with_existence ::
  "string \<Rightarrow> string \<Rightarrow> int \<Rightarrow> status_store \<Rightarrow> (bool \<times> bool) \<times> status_store" where
  "update_account_status_if_changed_with_existence a status now s =
     (case ss_accounts s a of
        None \<Rightarrow> ((False, False), s)
      | Some (old, t) \<Rightarrow>
          if old \<noteq> status
          then ((True, True), s\<lparr>ss_accounts := (ss_accounts s)(a \<mapsto> (status, now))\<rparr>)
          else ((True, False), s))"

definition update_account_status_if_context_matches ::
  "string \<Rightarrow> string \<Rightarrow> int \<Rightarrow> string \<Rightarrow> int \<Rightarrow> status_store \<Rightarrow> bool \<times> status_store" where
  "update_account_status_if_context_matches a expected_status expected_updated_at status now s =
     (let updated_at = max now (min i64_max (expected_updated_at + 1))
      in if ss_accounts s a = Some (expected_status, expected_updated_at)
         then (True, s\<lparr>ss_accounts := (ss_accounts s)(a \<mapsto> (status, updated_at))\<rparr>)
         else (False, s))"

fun find_str :: "string \<Rightarrow> string \<Rightarrow> nat option" where
  "find_str p [] = (if p = [] then Some 0 else None)"
| "find_str p (c # s) = (if starts_with (c # s) p then Some 0 else map_option Suc (find_str p s))"

definition extract_status_reason_from_event_message :: "string \<Rightarrow> string option" where
  "extract_status_reason_from_event_message message =
     (case find_str '' reason='' message of
        None \<Rightarrow> None
      | Some i \<Rightarrow> trimmed_nonempty (Some (drop (i + length '' reason='') message)))"

text \<open>\<open>ORDER BY created_at DESC, id DESC\<close>: of equally late events the last one.\<close>

definition latest_event :: "string \<Rightarrow> (string \<times> string \<times> int) list \<Rightarrow> (string \<times> string \<times> int) option" where
  "latest_event a evs =
     fold (\<lambda>e best. case best of
         None \<Rightarrow> Some e
       | Some b \<Rightarrow> if snd (snd b) \<le> snd (snd e) then Some e else best)
       (filter (\<lambda>e. fst e = a) evs) None"

definition latest_status_reason :: "string \<Rightarrow> status_store \<Rightarrow> string option" where
  "latest_status_reason a s =
     Option.bind (latest_event a (ss_events s)) (\<lambda>e. extract_status_reason_from_event_message (fst (snd e)))"

definition insert_status_event :: "string \<Rightarrow> string \<Rightarrow> string \<Rightarrow> int \<Rightarrow> status_store \<Rightarrow> status_store" where
  "insert_status_event a status reason now s =
     s\<lparr>ss_events := ss_events s @ [(a, ''status='' @ status @ '' reason='' @ reason, now)]\<rparr>"

definition invalidate_candidate_cache :: "status_store \<Rightarrow> status_store" where
  "invalidate_candidate_cache s = s\<lparr>ss_cache_invalidations := ss_cache_invalidations s + 1\<rparr>"

section \<open>Setting the status\<close>

record status_context =
  sc_status :: string
  sc_reason :: "string option"
  sc_updated_at :: "int option"

definition load_account_status_context :: "string \<Rightarrow> status_store \<Rightarrow> status_context" where
  "load_account_status_context a s =
     \<lparr>sc_status = (case ss_accounts s a of Some (st, _) \<Rightarrow> st | None \<Rightarrow> []),
      sc_reason = latest_status_reason a s,
      sc_updated_at = map_option snd (ss_accounts s a)\<rparr>"

definition set_account_status_with_context ::
  "string \<Rightarrow> string \<Rightarrow> string \<Rightarrow> status_context option \<Rightarrow> int \<Rightarrow> status_store \<Rightarrow> bool \<times> status_store" where
  "set_account_status_with_context a status reason context now s =
     (let ((account_exists, changed), s1) =
            update_account_status_if_changed_with_existence a status now s;
          s2 = (if changed then invalidate_candidate_cache s1 else s1);
          known = (case context of
              Some c \<Rightarrow> if eq_ignore_ascii_case (trim (sc_status c)) status then sc_reason c else None
            | None \<Rightarrow> None);
          should_insert_event =
            (if \<not> account_exists \<or> changed then account_exists
             else (case known of Some r \<Rightarrow> Some r | None \<Rightarrow> latest_status_reason a s2) \<noteq> Some reason)
      in (changed, if should_insert_event then insert_status_event a status reason now s2 else s2))"

definition set_account_status :: "string \<Rightarrow> string \<Rightarrow> string \<Rightarrow> int \<Rightarrow> status_store \<Rightarrow> status_store" where
  "set_account_status a status reason now s =
     snd (set_account_status_with_context a status reason None now s)"

definition status_is_one_of :: "string list \<Rightarrow> string \<Rightarrow> status_store \<Rightarrow> bool" where
  "status_is_one_of names a s =
     (case find_account_status_by_id a s of
        Some status \<Rightarrow> list_ex (eq_ignore_ascii_case (trim status)) names
      | None \<Rightarrow> False)"

definition should_preserve_manual_account_status :: "string \<Rightarrow> status_store \<Rightarrow> bool" where
  "should_preserve_manual_account_status a s = status_is_one_of [''disabled'', ''inactive''] a s"

definition should_preserve_usage_limit_status :: "string \<Rightarrow> status_store \<Rightarrow> bool" where
  "should_preserve_usage_limit_status a s =
     status_is_one_of [''disabled'', ''inactive'', ''force_enabled''] a s"

definition set_account_unavailable_with_reason ::
  "string \<Rightarrow> string \<Rightarrow> int \<Rightarrow> status_store \<Rightarrow> bool \<times> status_store" where
  "set_account_unavailable_with_reason a reason now s =
     (if should_preserve_manual_account_status a s then (False, s)
      else (True, set_account_status a ''unavailable'' reason now s))"

definition set_account_limited_with_reason ::
  "string \<Rightarrow> string \<Rightarrow> int \<Rightarrow> status_store \<Rightarrow> bool \<times> status_store" where
  "set_account_limited_with_reason a reason now s =
     (if should_preserve_usage_limit_status a s then (False, s)
      else (True, set_account_status a ''limited'' reason now s))"

definition set_account_banned_with_reason ::
  "string \<Rightarrow> string \<Rightarrow> int \<Rightarrow> status_store \<Rightarrow> bool \<times> status_store" where
  "set_account_banned_with_reason a reason now s =
     (if should_preserve_manual_account_status a s then (False, s)
      else (True, set_account_status a ''banned'' reason now s))"

definition mark_account_unavailable_for_gateway_error ::
  "string \<Rightarrow> string \<Rightarrow> int \<Rightarrow> status_store \<Rightarrow> bool \<times> status_store" where
  "mark_account_unavailable_for_gateway_error a err now s =
     (case deactivation_reason_from_message err of
        Some reason \<Rightarrow> set_account_banned_with_reason a reason now s
      | None \<Rightarrow>
          if usage_limit_reason_from_message err \<noteq> None
          then set_account_limited_with_reason a ''usage_limit_exhausted'' now s
          else (False, s))"

definition mark_account_unavailable_for_usage_http_error ::
  "(string \<Rightarrow> refresh_token_reason option) \<Rightarrow> string \<Rightarrow> string \<Rightarrow> int \<Rightarrow> status_store \<Rightarrow> bool \<times> status_store" where
  "mark_account_unavailable_for_usage_http_error token_reason a err now s =
     (case classify_account_availability_signal token_reason err of
        Some (SigUsageHttp code) \<Rightarrow>
          if code = 401 \<or> code = 403
          then set_account_unavailable_with_reason a (''usage_http_'' @ show_nat code) now s
          else (False, s)
      | _ \<Rightarrow> (False, s))"

definition mark_account_unavailable_for_deactivation_error ::
  "(string \<Rightarrow> refresh_token_reason option) \<Rightarrow> string \<Rightarrow> string \<Rightarrow> int \<Rightarrow> status_store \<Rightarrow> bool \<times> status_store" where
  "mark_account_unavailable_for_deactivation_error token_reason a err now s =
     (case classify_account_availability_signal token_reason err of
        Some (SigDeactivation reason) \<Rightarrow> set_account_banned_with_reason a reason now s
      | _ \<Rightarrow> (False, s))"

definition mark_account_unavailable_for_refresh_token_error ::
  "(string \<Rightarrow> refresh_token_reason option) \<Rightarrow> string \<Rightarrow> string \<Rightarrow> int \<Rightarrow> status_store \<Rightarrow> bool \<times> status_store" where
  "mark_account_unavailable_for_refresh_token_error token_reason a err now s =
     (case classify_account_availability_signal token_reason err of
        Some SigRefreshTokenRegionBlocked \<Rightarrow>
          set_account_unavailable_with_reason a ''refresh_token_region_blocked'' now s
      | Some (SigRefreshToken reason) \<Rightarrow>
          set_account_unavailable_with_reason a
            (''refresh_token_invalid:'' @ refresh_token_reason_code reason) now s
      | _ \<Rightarrow> (False, s))"

definition mark_account_unavailable_for_auth_error ::
  "(string \<Rightarrow> refresh_token_reason option) \<Rightarrow> string \<Rightarrow> string \<Rightarrow> int \<Rightarrow> status_store \<Rightarrow> bool \<times> status_store" where
  "mark_account_unavailable_for_auth_error token_reason a err now s =
     (case classify_account_availability_signal token_reason err of
        None \<Rightarrow> (False, s)
      | Some SigRefreshTokenRegionBlocked \<Rightarrow>
          set_account_unavailable_with_reason a ''refresh_token_region_blocked'' now s
      | Some (SigRefreshToken reason) \<Rightarrow>
          set_account_unavailable_with_reason a
            (''refresh_token_invalid:'' @ refresh_token_reason_code reason) now s
      | Some (SigDeactivation reason) \<Rightarrow> set_account_banned_with_reason a reason now s
      | Some (SigUsageHttp _) \<Rightarrow> (False, s))"

section \<open>Results of an account test\<close>

definition set_account_status_after_test_if_context_matches ::
  "string \<Rightarrow> string \<Rightarrow> string \<Rightarrow> status_context \<Rightarrow> int \<Rightarrow> status_store \<Rightarrow> bool \<times> status_store" where
  "set_account_status_after_test_if_context_matches a status reason context now s =
     (let normalized = to_ascii_lowercase (trim (sc_status context)) in
      if normalized \<in> {''disabled'', ''inactive'', ''banned''} then (False, s)
      else if normalized = ''force_enabled'' \<and> status = ''limited'' then (False, s)
      else if load_account_status_context a s \<noteq> context then (False, s)
      else case sc_updated_at context of
             None \<Rightarrow> (False, s)
           | Some expected \<Rightarrow>
               (case update_account_status_if_context_matches a (sc_status context) expected status now s of
                  (False, s1) \<Rightarrow> (False, s1)
                | (True, s1) \<Rightarrow>
                    (True, insert_status_event a status reason now (invalidate_candidate_cache s1))))"

definition mark_account_unavailable_for_test_auth_status ::
  "string \<Rightarrow> nat \<Rightarrow> status_context \<Rightarrow> int \<Rightarrow> status_store \<Rightarrow> bool \<times> status_store" where
  "mark_account_unavailable_for_test_auth_status a status_code context now s =
     set_account_status_after_test_if_context_matches a ''unavailable''
       (''test_http_'' @ show_nat status_code) context now s"

definition mark_account_limited_for_test_rate_limit ::
  "string \<Rightarrow> status_context \<Rightarrow> int \<Rightarrow> status_store \<Rightarrow> bool \<times> status_store" where
  "mark_account_limited_for_test_rate_limit a context now s =
     set_account_status_after_test_if_context_matches a ''limited'' ''test_rate_limited'' context now s"

definition restore_account_active_after_test ::
  "string \<Rightarrow> status_context \<Rightarrow> int \<Rightarrow> status_store \<Rightarrow> bool \<times> status_store" where
  "restore_account_active_after_test a context now s =
     (if to_ascii_lowercase (trim (sc_status context)) \<notin> {''unavailable'', ''limited''} then (False, s)
      else set_account_status_after_test_if_context_matches a ''active'' ''test_ok'' context now s)"

section \<open>Lemmas\<close>

lemma latest_event_append:
  "latest_event a (evs @ [e]) =
     (if fst e = a
      then (case latest_event a evs of
              None \<Rightarrow> Some e
            | Some b \<Rightarrow> if snd (snd b) \<le> snd (snd e) then Some e else Some b)
      else latest_event a evs)"
  by (simp add: latest_event_def split: option.splits)

lemma latest_event_mem: "latest_event a evs = Some b \<Longrightarrow> b \<in> set evs \<and> fst b = a"
proof (induction evs arbitrary: b rule: rev_induct)
  case Nil
  then show ?case by (simp add: latest_event_def)
next
  case (snoc e evs)
  then show ?case by (auto simp: latest_event_append split: if_splits option.splits)
qed

lemma find_str_reason:
  assumes "CHR '' '' \<notin> set u"
  shows "find_str '' reason='' (u @ '' reason='' @ r) = Some (length u)"
  using assms
proof (induction u)
  case Nil
  have "starts_with ('' reason='' @ r) '' reason=''" by (rule starts_with_append)
  then show ?case by simp
next
  case (Cons c u)
  then have "c \<noteq> CHR '' ''" by auto
  then have "\<not> starts_with (c # u @ '' reason='' @ r) '' reason=''"
    by (simp add: starts_with_def)
  with Cons show ?case by simp
qed

lemma extract_reason:
  assumes "CHR '' '' \<notin> set status" and "trim r = r" and "r \<noteq> []"
  shows "extract_status_reason_from_event_message (''status='' @ status @ '' reason='' @ r) = Some r"
proof -
  have "CHR '' '' \<notin> set (''status='' @ status)" using assms(1) by auto
  from find_str_reason [OF this, of r]
  have f: "find_str '' reason='' (''status='' @ status @ '' reason='' @ r) = Some (length (''status='' @ status))"
    by simp
  have d: "drop (length (''status='' @ status) + length '' reason='') (''status='' @ status @ '' reason='' @ r) = r"
    by simp
  show ?thesis
    unfolding extract_status_reason_from_event_message_def f option.case d
    using assms by (simp add: trimmed_nonempty_def)
qed

text \<open>Events of an account are not later than the present.\<close>

definition events_past :: "string \<Rightarrow> int \<Rightarrow> status_store \<Rightarrow> bool" where
  "events_past a now s \<longleftrightarrow> list_all (\<lambda>e. fst e = a \<longrightarrow> snd (snd e) \<le> now) (ss_events s)"

lemma latest_reason_insert:
  assumes "events_past a now s" and "CHR '' '' \<notin> set status" and "trim r = r" and "r \<noteq> []"
  shows "latest_status_reason a (insert_status_event a status r now s) = Some r"
proof -
  have "latest_event a (ss_events s @ [(a, ''status='' @ status @ '' reason='' @ r, now)])
      = Some (a, ''status='' @ status @ '' reason='' @ r, now)"
  proof (cases "latest_event a (ss_events s)")
    case None
    then show ?thesis by (simp add: latest_event_append)
  next
    case (Some b)
    from latest_event_mem [OF this] assms(1) have "snd (snd b) \<le> now"
      by (auto simp: events_past_def list_all_iff)
    with Some show ?thesis by (simp add: latest_event_append)
  qed
  then show ?thesis
    using extract_reason [OF assms(2-4)] by (simp add: latest_status_reason_def insert_status_event_def)
qed

lemma set_status_accounts:
  "ss_accounts (set_account_status a status reason now s) k =
     (if k = a then map_option (\<lambda>(old, t). if old = status then (old, t) else (status, now)) (ss_accounts s a)
      else ss_accounts s k)"
  by (auto simp: set_account_status_def set_account_status_with_context_def Let_def
      update_account_status_if_changed_with_existence_def invalidate_candidate_cache_def
      insert_status_event_def split: option.splits)

lemma set_status_cache:
  "ss_cache_invalidations (set_account_status a status reason now s) =
     ss_cache_invalidations s +
       (case ss_accounts s a of Some (old, _) \<Rightarrow> if old = status then 0 else 1 | None \<Rightarrow> 0)"
  by (auto simp: set_account_status_def set_account_status_with_context_def Let_def
      update_account_status_if_changed_with_existence_def invalidate_candidate_cache_def
      insert_status_event_def split: option.splits)

lemma set_status_reason:
  assumes "ss_accounts s a \<noteq> None" and "events_past a now s" and "CHR '' '' \<notin> set status"
    and "trim r = r" and "r \<noteq> []"
  shows "latest_status_reason a (set_account_status a status r now s) = Some r"
proof -
  obtain old t where acc: "ss_accounts s a = Some (old, t)" using assms(1) by auto
  show ?thesis
  proof (cases "old = status")
    case False
    let ?s2 = "invalidate_candidate_cache (s\<lparr>ss_accounts := (ss_accounts s)(a \<mapsto> (status, now))\<rparr>)"
    have "set_account_status a status r now s = insert_status_event a status r now ?s2"
      using False acc by (simp add: set_account_status_def set_account_status_with_context_def
          update_account_status_if_changed_with_existence_def)
    moreover have "events_past a now ?s2"
      using assms(2) by (simp add: events_past_def invalidate_candidate_cache_def)
    ultimately show ?thesis using latest_reason_insert [OF _ assms(3-5)] by simp
  next
    case True
    then have "set_account_status a status r now s =
        (if latest_status_reason a s \<noteq> Some r then insert_status_event a status r now s else s)"
      using acc by (simp add: set_account_status_def set_account_status_with_context_def
          update_account_status_if_changed_with_existence_def)
    then show ?thesis using latest_reason_insert [OF assms(2-5)] by auto
  qed
qed

lemma set_status_again:
  assumes "latest_status_reason a s = Some r" and "find_account_status_by_id a s = Some status"
  shows "set_account_status a status r now s = s"
proof -
  from assms(2) obtain t where "ss_accounts s a = Some (status, t)"
    by (auto simp: find_account_status_by_id_def)
  with assms(1) show ?thesis
    by (simp add: set_account_status_def set_account_status_with_context_def
        update_account_status_if_changed_with_existence_def)
qed

lemma set_status_found:
  "ss_accounts s a \<noteq> None \<Longrightarrow> find_account_status_by_id a (set_account_status a status r now s) = Some status"
  by (cases "ss_accounts s a")
    (auto simp: find_account_status_by_id_def set_status_accounts split: prod.splits)

lemma after_test_cases:
  "set_account_status_after_test_if_context_matches a status reason ctx now s =
     (if to_ascii_lowercase (trim (sc_status ctx)) \<in> {''disabled'', ''inactive'', ''banned''}
         \<or> (to_ascii_lowercase (trim (sc_status ctx)) = ''force_enabled'' \<and> status = ''limited'')
         \<or> load_account_status_context a s \<noteq> ctx \<or> sc_updated_at ctx = None
      then (False, s)
      else
        (True, insert_status_event a status reason now (invalidate_candidate_cache
           (s\<lparr>ss_accounts := (ss_accounts s)(a \<mapsto>
               (status, max now (min i64_max (the (sc_updated_at ctx) + 1))))\<rparr>))))"
proof -
  have "ss_accounts s a = Some (sc_status ctx, t)"
    if "load_account_status_context a s = ctx" "sc_updated_at ctx = Some t" for t
    using that by (auto simp: load_account_status_context_def split: option.splits)
  then show ?thesis
    by (auto simp: set_account_status_after_test_if_context_matches_def Let_def
        update_account_status_if_context_matches_def split: option.splits)
qed

section \<open>Properties\<close>

text \<open>
  C30: What an upstream error does to the status of an account. A deactivation bans the
  account and an exhausted usage limit limits it, with the reason on record as the latest
  one and the candidate cache invalidated whenever the status really changed; an account
  disabled or set inactive by hand is never touched, one forced on by hand is not limited,
  other errors change nothing, and neither does any of this to another account. Reporting
  the same error again leaves the store as it is.
\<close>

theorem gateway_error_status:
  assumes "mark_account_unavailable_for_gateway_error a err now s = (applied, s')"
    and "ss_accounts s a \<noteq> None" and "events_past a now s"
  shows "(\<forall>k. k \<noteq> a \<longrightarrow> ss_accounts s' k = ss_accounts s k)
    \<and> (applied \<longleftrightarrow> gf_mark_unavailable (analyze_gateway_error err more_left)
         \<and> \<not> (if deactivation_reason_from_message err \<noteq> None
              then should_preserve_manual_account_status a s
              else should_preserve_usage_limit_status a s))
    \<and> (\<not> applied \<longrightarrow> s' = s)
    \<and> (applied \<longrightarrow>
         find_account_status_by_id a s' =
           Some (if deactivation_reason_from_message err \<noteq> None then ''banned'' else ''limited'')
         \<and> latest_status_reason a s' =
             (case deactivation_reason_from_message err of
                Some r \<Rightarrow> Some r | None \<Rightarrow> Some ''usage_limit_exhausted'')
         \<and> (ss_cache_invalidations s' = ss_cache_invalidations s
              \<longleftrightarrow> find_account_status_by_id a s' = find_account_status_by_id a s))"
proof -
  have reason: "r = ''workspace_deactivated'' \<or> r = ''account_deactivated''"
    if "deactivation_reason_from_message err = Some r" for r
    using that by (auto simp: deactivation_reason_from_message_def Let_def split: if_splits)
  have trims: "trim ''workspace_deactivated'' = ''workspace_deactivated''"
    "trim ''account_deactivated'' = ''account_deactivated''"
    "trim ''usage_limit_exhausted'' = ''usage_limit_exhausted''" by code_simp+
  have setting: "(\<forall>k. k \<noteq> a \<longrightarrow> ss_accounts (set_account_status a st r now s) k = ss_accounts s k)
      \<and> find_account_status_by_id a (set_account_status a st r now s) = Some st
      \<and> latest_status_reason a (set_account_status a st r now s) = Some r
      \<and> (ss_cache_invalidations (set_account_status a st r now s) = ss_cache_invalidations s
          \<longleftrightarrow> Some st = find_account_status_by_id a s)"
    if "CHR '' '' \<notin> set st" "trim r = r" "r \<noteq> []" for st r
    using set_status_found [OF assms(2), of st r now] set_status_reason [OF assms(2,3) that] assms(2)
    by (auto simp: set_status_accounts set_status_cache find_account_status_by_id_def split: if_splits)
  show ?thesis
  proof (cases "deactivation_reason_from_message err")
    case (Some r)
    then have "r \<noteq> []" "trim r = r" using reason trims by auto
    from setting [of "''banned''", OF _ this(2,1)] Some assms(1) show ?thesis
      by (auto simp: mark_account_unavailable_for_gateway_error_def set_account_banned_with_reason_def
          analyze_gateway_error_def Let_def split: if_splits)
  next
    case None
    then show ?thesis
      using assms(1) setting [of "''limited''" "''usage_limit_exhausted''"] trims
      by (auto simp: mark_account_unavailable_for_gateway_error_def set_account_limited_with_reason_def
          analyze_gateway_error_def Let_def split: if_splits)
  qed
qed

definition status_store_example :: status_store where
  "status_store_example =
     \<lparr>ss_accounts = [''a'' \<mapsto> (''active'', 10)], ss_events = [], ss_cache_invalidations = 0\<rparr>"

theorem gateway_error_status_witness:
  "\<exists>s'. mark_account_unavailable_for_gateway_error ''a'' ''insufficient_quota'' 50 status_store_example
      = (True, s')
    \<and> find_account_status_by_id ''a'' s' = Some ''limited''
    \<and> latest_status_reason ''a'' s' = Some ''usage_limit_exhausted''"
proof -
  have e: "deactivation_reason_from_message ''insufficient_quota'' = None"
    "usage_limit_reason_from_message ''insufficient_quota'' \<noteq> None"
    "\<not> should_preserve_usage_limit_status ''a'' status_store_example"
    by code_simp+
  then obtain s' where s': "mark_account_unavailable_for_gateway_error ''a'' ''insufficient_quota'' 50
      status_store_example = (True, s')"
    by (simp add: mark_account_unavailable_for_gateway_error_def set_account_limited_with_reason_def)
  have "ss_accounts status_store_example ''a'' \<noteq> None" "events_past ''a'' 50 status_store_example"
    by (simp_all add: status_store_example_def events_past_def)
  from gateway_error_status [OF s' this] e s' show ?thesis by auto
qed



end
