(* ===== verification/StreamPreflight.thy ===== *)
theory StreamPreflight
  imports SseFrames Exchange ModelSupport AccountStatus
begin

text \<open>
  The look at the beginning of a response before it is delivered
  (\<open>gateway/upstream/proxy_pipeline/stream_preflight.rs\<close>): which errors are actionable, the
  classification of a prefix of server-sent events and the decision between delivering the response
  and moving on to another account. Parsing JSON and the hint taken from an error body are arguments.
\<close>

section \<open>Actionable errors\<close>

datatype prefix_decision =
    NeedMore
  | Deliver
  | PrefixFailover string
  | PrefixRetryUsageNotice string

definition usage_limit_notice_prefixes :: "string list" where
  "usage_limit_notice_prefixes =
     [''you'' @ CHR 0x27 # ''ve hit your usage limit'', ''you have hit your usage limit'',
      ''the usage limit has been reached'', ''usage limit has been reached'', ''quota exceeded'',
      ''usage exhausted'']"

definition usage_limit_codes :: "string list" where
  "usage_limit_codes =
     [''usage_limit_reached'', ''usage_limit_exceeded'', ''usage_limit_exhausted'', ''insufficient_quota'']"

definition should_prefetch_actionable_error_body :: "nat \<Rightarrow> bool" where
  "should_prefetch_actionable_error_body status_code \<longleftrightarrow> status_code \<in> {401, 403, 429}"

definition is_actionable_gateway_error :: "string \<Rightarrow> bool" where
  "is_actionable_gateway_error message \<longleftrightarrow>
     usage_limit_reason_from_message message \<noteq> None \<or> deactivation_reason_from_message message \<noteq> None"

text \<open>The first of the three fields that holds a string with an actionable error.\<close>

definition actionable_field :: "json \<Rightarrow> string option" where
  "actionable_field v =
     find is_actionable_gateway_error
       (List.map_filter (\<lambda>key. Option.bind (json_get v key) as_str) [''message'', ''code'', ''type''])"

definition actionable_message_from_error_value :: "json \<Rightarrow> string option" where
  "actionable_message_from_error_value error =
     (case as_str error of
        Some message \<Rightarrow> if is_actionable_gateway_error message then Some message else None
      | None \<Rightarrow> if as_object error = None then None else actionable_field error)"

fun find_map :: "('a \<Rightarrow> 'b option) \<Rightarrow> 'a list \<Rightarrow> 'b option" where
  "find_map f [] = None"
| "find_map f (x # xs) = (case f x of Some y \<Rightarrow> Some y | None \<Rightarrow> find_map f xs)"

definition actionable_message_from_explicit_error :: "json \<Rightarrow> string option" where
  "actionable_message_from_explicit_error v =
     (let response = json_get v ''response'';
          top_level_error = json_get v ''error'';
          response_error = Option.bind response (\<lambda>r. json_get r ''error'');
          status_details_error = Option.bind (Option.bind response (\<lambda>r. json_get r ''status_details''))
            (\<lambda>d. json_get d ''error'')
      in find_map actionable_message_from_error_value
           (List.map_filter id [top_level_error, response_error, status_details_error]))"

definition is_error_event :: "string \<Rightarrow> bool" where
  "is_error_event event_type \<longleftrightarrow>
     to_ascii_lowercase (trim event_type) \<in> {''error'', ''response.failed'', ''response.incomplete''}"

definition actionable_message_from_error_event :: "json \<Rightarrow> string option" where
  "actionable_message_from_error_event v =
     (case actionable_message_from_explicit_error v of Some m \<Rightarrow> Some m | None \<Rightarrow> actionable_field v)"

definition actionable_message_from_error_body :: "(string \<Rightarrow> json option) \<Rightarrow> string \<Rightarrow> string option" where
  "actionable_message_from_error_body parse body =
     (case Option.bind (parse body) actionable_message_from_error_event of
        Some m \<Rightarrow> Some m
      | None \<Rightarrow>
          (case from_utf8 body of
             None \<Rightarrow> None
           | Some s \<Rightarrow>
               let text_only = trim s
               in if text_only \<noteq> [] \<and> is_actionable_gateway_error text_only then Some text_only else None))"

definition summarize_non_200_status_failover ::
  "(nat \<Rightarrow> string \<Rightarrow> string option) \<Rightarrow> nat \<Rightarrow> string option \<Rightarrow> string" where
  "summarize_non_200_status_failover hint status_code body =
     ''upstream non-200 status='' @ show_nat status_code @
     (case Option.bind body (hint status_code) of Some h \<Rightarrow> '' body='' @ h | None \<Rightarrow> [])"

definition is_strong_usage_limit_delta :: "string \<Rightarrow> bool" where
  "is_strong_usage_limit_delta message \<longleftrightarrow>
     (let normalized = to_ascii_lowercase (trim message);
          ends = (\<lambda>suffix. case suffix of [] \<Rightarrow> True
                  | c # _ \<Rightarrow> c \<in> {CHR ''.'', CHR ''!'', CHR '':'', CHR '','', lf, cr})
      in (list_ex (\<lambda>p. case strip_prefix p normalized of Some suffix \<Rightarrow> ends suffix | None \<Rightarrow> False)
             usage_limit_notice_prefixes
          \<or> normalized \<in> set usage_limit_codes)
         \<and> usage_limit_reason_from_message message \<noteq> None)"

definition is_possible_usage_limit_delta_prefix :: "string \<Rightarrow> bool" where
  "is_possible_usage_limit_delta_prefix message \<longleftrightarrow>
     (let normalized = to_ascii_lowercase (trim_start message)
      in normalized \<noteq> []
         \<and> list_ex (\<lambda>notice. starts_with notice normalized) (usage_limit_notice_prefixes @ usage_limit_codes))"

definition is_metadata_only_event :: "string \<Rightarrow> bool" where
  "is_metadata_only_event event_type \<longleftrightarrow> to_ascii_lowercase (trim event_type) \<in>
     {''response.created'', ''response.in_progress'', ''response.queued'', ''response.output_item.added'',
      ''response.content_part.added'', ''response.reasoning_summary_part.added'', ''ping''}"

definition is_usage_notice_followup_event :: "string \<Rightarrow> bool" where
  "is_usage_notice_followup_event event_type \<longleftrightarrow> to_ascii_lowercase (trim event_type) \<in>
     {''response.output_text.done'', ''response.output_item.done'', ''response.content_part.done''}"

definition is_usage_notice_terminal_event :: "string \<Rightarrow> bool" where
  "is_usage_notice_terminal_event event_type \<longleftrightarrow> to_ascii_lowercase (trim event_type) \<in>
     {''error'', ''response.failed'', ''response.incomplete''}"

definition is_sse_stream_response :: "upstream_response \<Rightarrow> bool" where
  "is_sse_stream_response r \<longleftrightarrow>
     (case Option.bind (content_type_of r) header_to_str of
        None \<Rightarrow> False
      | Some v \<Rightarrow> eq_ignore_ascii_case (trim (takeWhile (\<lambda>c. c \<noteq> CHR '';'') v)) ''text/event-stream'')"

section \<open>Classification of a prefix\<close>

text \<open>
  One frame, given the pending notice and the text collected so far: a decision, or the state for
  the next frame. \<open>trailing\<close> says that the frame is the last one and incomplete.
\<close>

type_synonym notice_state = "string option \<times> string"

definition classify_event :: "string option \<Rightarrow> notice_state \<Rightarrow> prefix_decision + notice_state" where
  "classify_event event_type st =
     (case event_type of
        None \<Rightarrow> Inl Deliver
      | Some e \<Rightarrow>
          if is_metadata_only_event e then Inr st
          else (case fst st of
              Some notice \<Rightarrow>
                if is_usage_notice_terminal_event e then Inl (PrefixRetryUsageNotice notice)
                else if is_usage_notice_followup_event e then Inr st
                else Inl Deliver
            | None \<Rightarrow> Inl Deliver))"

definition classify_frame ::
  "(string \<Rightarrow> json option) \<Rightarrow> bool \<Rightarrow> notice_state \<Rightarrow> string \<Rightarrow> prefix_decision + notice_state" where
  "classify_frame parse trailing st frame =
     (case frame_event_and_data frame of
        (_, None) \<Rightarrow> Inr st
      | (declared, Some data) \<Rightarrow>
        if trim data = ''[DONE]''
        then Inl (case fst st of Some notice \<Rightarrow> PrefixRetryUsageNotice notice | None \<Rightarrow> Deliver)
        else
          let parsed = parse data in
          if trailing \<and> parsed = None
             \<and> (case trim_start data of c # _ \<Rightarrow> c = CHR ''{'' \<or> c = CHR ''['' | [] \<Rightarrow> False)
          then Inl NeedMore
          else
            let payload_type = Option.bind (Option.bind parsed (\<lambda>v. json_get v ''type'')) as_str;
                event_type = (case payload_type of Some e \<Rightarrow> Some e | None \<Rightarrow> declared);
                has_error_event = (case declared of Some e \<Rightarrow> is_error_event e | None \<Rightarrow> False)
                  \<or> (case payload_type of Some e \<Rightarrow> is_error_event e | None \<Rightarrow> False);
                message =
                  (case Option.bind parsed actionable_message_from_explicit_error of
                     Some m \<Rightarrow> Some m
                   | None \<Rightarrow>
                       if has_error_event
                       then (case parsed of
                               Some v \<Rightarrow> actionable_message_from_error_event v
                             | None \<Rightarrow> if is_actionable_gateway_error data then Some data else None)
                       else None)
            in case message of
                 Some m \<Rightarrow> Inl (PrefixFailover m)
               | None \<Rightarrow>
                   (case (if event_type = Some ''response.output_text.delta''
                          then Option.bind (Option.bind parsed (\<lambda>v. json_get v ''delta'')) as_str else None) of
                      None \<Rightarrow> classify_event event_type st
                    | Some delta \<Rightarrow>
                        let candidate = snd st @ delta in
                        if is_strong_usage_limit_delta candidate then Inr (Some candidate, candidate)
                        else if fst st = None \<and> is_possible_usage_limit_delta_prefix candidate
                        then Inr (None, candidate)
                        else classify_event event_type (fst st, candidate)))"

fun classify_frames ::
  "(string \<Rightarrow> json option) \<Rightarrow> bool \<Rightarrow> notice_state \<Rightarrow> string list \<Rightarrow> prefix_decision + notice_state" where
  "classify_frames parse trailing st [] = Inr st"
| "classify_frames parse trailing st (f # fs) =
     (case classify_frame parse (trailing \<and> fs = []) st f of
        Inl d \<Rightarrow> Inl d
      | Inr st' \<Rightarrow> classify_frames parse trailing st' fs)"

definition classify_prefix :: "(string \<Rightarrow> json option) \<Rightarrow> string \<Rightarrow> bool \<Rightarrow> prefix_decision" where
  "classify_prefix parse prefix include_incomplete_frame =
     (let (frames, trailing) = normalized_frames prefix include_incomplete_frame
      in if frames = [] then NeedMore
         else (case classify_frames parse trailing (None, []) frames of
                 Inl d \<Rightarrow> d
               | Inr (pending, _) \<Rightarrow>
                   (case pending of
                      Some notice \<Rightarrow>
                        if include_incomplete_frame then PrefixRetryUsageNotice notice else NeedMore
                    | None \<Rightarrow> NeedMore)))"

section \<open>The preflight\<close>

datatype preflight_outcome =
    PreflightReady upstream_response
  | PreflightFailover string
  | PreflightStatusFailover nat string
  | PreflightRetryUsageNotice string
  | PreflightModelUnsupported string upstream_response
  | PreflightTransportFailover string

definition stream_preflight_max_bytes :: nat where "stream_preflight_max_bytes = 64 * 1024"

definition stream_preflight_wall_clock_timeout :: duration where
  "stream_preflight_wall_clock_timeout = from_millis 10000"

record preflight_env =
  pe_parse :: "string \<Rightarrow> json option"
  pe_hint :: "nat \<Rightarrow> string \<Rightarrow> string option"

definition prefetch_response ::
  "duration option \<Rightarrow> duration option \<Rightarrow> (string \<Rightarrow> bool) \<Rightarrow> upstream_response
    \<Rightarrow> (string \<times> upstream_response \<times> prefetch_terminal) \<times> duration" where
  "prefetch_response idle wall stop r =
     (case prefetch_until stream_preflight_max_bytes idle wall stop (ur_body r) of
        ((prefix, body, terminal), elapsed) \<Rightarrow> ((prefix, r\<lparr>ur_body := body\<rparr>, terminal), elapsed))"

definition opt_min :: "duration option \<Rightarrow> duration \<Rightarrow> duration" where
  "opt_min t d = min (case t of Some x \<Rightarrow> x | None \<Rightarrow> d) d"

text \<open>What becomes of a prefix that is classified at the end of the prefetch.\<close>

definition decide_prefix ::
  "prefix_decision \<Rightarrow> prefetch_terminal \<Rightarrow> upstream_response \<Rightarrow> preflight_outcome" where
  "decide_prefix decision terminal response =
     (case decision of
        PrefixFailover message \<Rightarrow> PreflightFailover message
      | PrefixRetryUsageNotice message \<Rightarrow> PreflightRetryUsageNotice message
      | Deliver \<Rightarrow> PreflightReady response
      | NeedMore \<Rightarrow>
          (case terminal of
             PrefetchOpen \<Rightarrow> PreflightTransportFailover
               ''upstream response stream preflight stopped before producing deliverable content''
           | PrefixLimit \<Rightarrow> PreflightReady response
           | IdleTimeout \<Rightarrow> PreflightTransportFailover
               ''upstream response stream idle timeout before producing deliverable content''
           | WallClockTimeout \<Rightarrow> PreflightReady response
           | PrefetchEof \<Rightarrow> PreflightTransportFailover
               ''upstream response stream ended before producing deliverable content''
           | PrefetchError err \<Rightarrow> PreflightTransportFailover
               (''upstream response stream failed before producing deliverable content: '' @ err)
           | PrefetchDisconnected \<Rightarrow> PreflightTransportFailover
               ''upstream response stream disconnected before producing deliverable content''))"

definition preflight_stream_response_with_timeouts ::
  "preflight_env \<Rightarrow> upstream_response \<Rightarrow> string \<Rightarrow> bool \<Rightarrow> bool \<Rightarrow> duration option \<Rightarrow> duration option
    \<Rightarrow> preflight_outcome \<times> duration" where
  "preflight_stream_response_with_timeouts env response request_path upstream_is_stream has_more_candidates
     idle_timeout wall_clock_timeout =
     (let status_code = ur_status response;
          status_failover = (\<lambda>body. PreflightStatusFailover status_code
            (summarize_non_200_status_failover (pe_hint env) status_code body))
      in
      if status_code = 400 then
        (case prefetch_response (Some (opt_min idle_timeout (from_millis 2000)))
             (Some (opt_min wall_clock_timeout stream_preflight_wall_clock_timeout)) (\<lambda>_. False) response of
           ((body, response', terminal), elapsed) \<Rightarrow>
             ((case (if terminal = PrefetchEof then account_model_rejection_message (pe_parse env body) else None) of
                 Some message \<Rightarrow> PreflightModelUnsupported message response'
               | None \<Rightarrow>
                   if has_more_candidates then status_failover (Some body) else PreflightReady response'),
              elapsed))
      else if has_more_candidates \<and> \<not> (200 \<le> status_code \<and> status_code \<le> 299) then
        (if should_prefetch_actionable_error_body status_code
         then (case into_buffered response of
                 (Inr (body, _), elapsed) \<Rightarrow>
                   (case actionable_message_from_error_body (pe_parse env) body of
                      Some message \<Rightarrow> PreflightFailover message
                    | None \<Rightarrow> status_failover (Some body), elapsed)
               | (Inl err, elapsed) \<Rightarrow>
                   (PreflightStatusFailover status_code
                      (''upstream non-200 status='' @ show_nat status_code
                       @ ''; read response body failed: '' @ err), elapsed))
         else (status_failover None, 0))
      else if \<not> upstream_is_stream \<or> \<not> has_more_candidates \<or> \<not> starts_with request_path ''/v1/responses''
           \<or> 400 \<le> status_code \<or> \<not> is_sse_stream_response response
      then (PreflightReady response, 0)
      else
        (case prefetch_response idle_timeout wall_clock_timeout
             (\<lambda>prefix. classify_prefix (pe_parse env) prefix False \<noteq> NeedMore) response of
           ((prefix, response', terminal), elapsed) \<Rightarrow>
             (let include_incomplete_frame =
                (case terminal of PrefetchEof \<Rightarrow> True | PrefetchError _ \<Rightarrow> True | PrefetchDisconnected \<Rightarrow> True
                 | _ \<Rightarrow> False)
              in (decide_prefix (classify_prefix (pe_parse env) prefix include_incomplete_frame) terminal response',
                  elapsed))))"

definition preflight_stream_response ::
  "preflight_env \<Rightarrow> duration option \<Rightarrow> upstream_response \<Rightarrow> string \<Rightarrow> bool \<Rightarrow> bool
    \<Rightarrow> preflight_outcome \<times> duration" where
  "preflight_stream_response env idle_timeout response request_path upstream_is_stream has_more_candidates =
     preflight_stream_response_with_timeouts env response request_path upstream_is_stream has_more_candidates
       idle_timeout (Some stream_preflight_wall_clock_timeout)"


section \<open>Longer prefixes\<close>

lemma classify_frames_append:
  "classify_frames parse False st (fs @ gs) =
     (case classify_frames parse False st fs of Inl d \<Rightarrow> Inl d | Inr st' \<Rightarrow> classify_frames parse False st' gs)"
  by (induction fs arbitrary: st) (auto split: sum.split)

lemma classify_frames_append_trailing:
  "gs \<noteq> [] \<Longrightarrow> classify_frames parse trailing st (fs @ gs) =
     (case classify_frames parse False st fs of Inl d \<Rightarrow> Inl d | Inr st' \<Rightarrow> classify_frames parse trailing st' gs)"
  by (induction fs arbitrary: st) (auto split: sum.split)

lemma classify_no_data: "list_all no_data fs \<Longrightarrow> classify_frames parse trailing st fs = Inr st"
  by (induction fs arbitrary: st) (auto simp: classify_frame_def no_data_def split: prod.splits)

lemma classify_prefix_stable:
  assumes "classify_prefix parse p False = d" and "d \<noteq> NeedMore"
  shows "classify_prefix parse (p @ q) incl = d"
proof -
  obtain fs rest m1 m2 where f: "normalized_frames p False = (fs @ rest, False)" "list_all no_data rest"
    "fst (normalized_frames (p @ q) False) = fs @ m1" "m2 \<noteq> []" "fst (normalized_frames (p @ q) True) = fs @ m2"
    using frames_of_longer_prefix [of p q] by metis
  have c: "classify_frames parse False (None, []) fs = Inl d"
  proof (cases "classify_frames parse False (None, []) fs")
    case (Inl d')
    then have "fs \<noteq> []" by (cases fs) simp_all
    then have "classify_prefix parse p False = d'"
      by (simp add: classify_prefix_def f(1) classify_frames_append Inl)
    with assms(1) Inl show ?thesis by simp
  next
    case (Inr st)
    have "classify_prefix parse p False = NeedMore"
      by (simp add: classify_prefix_def f(1) classify_frames_append classify_no_data [OF f(2)] Inr split: prod.split option.split)
    with assms show ?thesis by simp
  qed
  then have ne: "fs \<noteq> []" by (cases fs) simp_all
  show ?thesis
  proof (cases incl)
    case True
    obtain tr where "normalized_frames (p @ q) True = (fs @ m2, tr)" using f(5) by (metis prod.collapse)
    with c ne f(4) True show ?thesis by (simp add: classify_prefix_def classify_frames_append_trailing)
  next
    case False
    have "snd (normalized_frames (p @ q) False) = False" by (simp add: normalized_frames_def Let_def)
    with f(3) have "normalized_frames (p @ q) False = (fs @ m1, False)" by (simp add: prod_eq_iff)
    with c ne False show ?thesis by (simp add: classify_prefix_def classify_frames_append)
  qed
qed

section \<open>Properties of the preflight\<close>

text \<open>The same response, perhaps with parts of its body put back for the next reader.\<close>

definition same_response :: "upstream_response \<Rightarrow> upstream_response \<Rightarrow> bool" where
  "same_response r r' \<longleftrightarrow>
     (\<exists>body. r' = r\<lparr>ur_body := body\<rparr> \<and> stream_items body = stream_items (ur_body r))"

lemma same_response_refl [simp]: "same_response r r"
  by (simp add: same_response_def exI [of _ "ur_body r"])

lemma same_response_status: "same_response r r' \<Longrightarrow> ur_status r' = ur_status r \<and> ur_headers r' = ur_headers r
    \<and> stream_items (ur_body r') = stream_items (ur_body r)"
  by (auto simp: same_response_def)

lemma prefetch_response_spec:
  assumes "prefetch_response idle wall stop r = ((p, r', trm), el)"
  shows "same_response r r'
    \<and> (\<exists>body. prefetch_until stream_preflight_max_bytes idle wall stop (ur_body r) = ((p, body, trm), el))"
  using assms prefetch_until_items
  by (auto simp: prefetch_response_def same_response_def split: prod.splits)

lemma prefetch_response_time:
  assumes "prefetch_response idle (Some w) stop r = ((p, r', trm), el)"
  shows "el \<le> w"
proof -
  from prefetch_response_spec [OF assms] obtain body where
    "prefetch_until stream_preflight_max_bytes idle (Some w) stop (ur_body r) = ((p, body, trm), el)" by blast
  from prefetch_until_loop [OF this] prefetch_loop_time show ?thesis by blast
qed

text \<open>The response an outcome keeps for delivery.\<close>

fun kept_response :: "preflight_outcome \<Rightarrow> upstream_response option" where
  "kept_response (PreflightReady r) = Some r"
| "kept_response (PreflightModelUnsupported _ r) = Some r"
| "kept_response _ = None"

lemma decide_prefix_kept: "kept_response (decide_prefix d trm r) \<in> {None, Some r}"
  by (auto simp: decide_prefix_def split: prefix_decision.splits prefetch_terminal.splits)

lemma preflight_kept:
  assumes "preflight_stream_response_with_timeouts env r path streaming has_more idle (Some wall) = (out, el)"
  shows "(\<forall>r'. kept_response out = Some r' \<longrightarrow> same_response r r')
    \<and> (kept_response out = None \<longrightarrow> has_more)
    \<and> (ur_status r \<notin> {401, 403, 429} \<longrightarrow> el \<le> max wall stream_preflight_wall_clock_timeout)"
proof -
  consider (bad) "ur_status r = 400" | (failed) "ur_status r \<noteq> 400" "has_more" "\<not> (200 \<le> ur_status r \<and> ur_status r \<le> 299)"
    | (plain) "ur_status r \<noteq> 400" "\<not> (has_more \<and> \<not> (200 \<le> ur_status r \<and> ur_status r \<le> 299))"
       "\<not> streaming \<or> \<not> has_more \<or> \<not> starts_with path ''/v1/responses'' \<or> 400 \<le> ur_status r \<or> \<not> is_sse_stream_response r"
    | (sse) "ur_status r \<noteq> 400" "\<not> (has_more \<and> \<not> (200 \<le> ur_status r \<and> ur_status r \<le> 299))" "has_more"
       "\<not> (\<not> streaming \<or> \<not> has_more \<or> \<not> starts_with path ''/v1/responses'' \<or> 400 \<le> ur_status r \<or> \<not> is_sse_stream_response r)"
    by blast
  then show ?thesis
  proof cases
    case bad
    let ?w = "opt_min (Some wall) stream_preflight_wall_clock_timeout"
    obtain p r' trm el' where e: "prefetch_response (Some (opt_min idle (from_millis 2000))) (Some ?w) (\<lambda>_. False) r
        = ((p, r', trm), el')" by (metis prod.exhaust)
    from prefetch_response_time [OF e] have "el' \<le> wall" by (simp add: opt_min_def)
    then show ?thesis
      using assms e bad prefetch_response_spec [OF e]
      by (auto simp: preflight_stream_response_with_timeouts_def split: option.splits if_splits)
  next
    case failed
    then show ?thesis
      using assms by (auto simp: preflight_stream_response_with_timeouts_def Let_def
          should_prefetch_actionable_error_body_def split: option.splits if_splits prod.splits sum.splits)
  next
    case plain
    then show ?thesis
      using assms by (auto simp: preflight_stream_response_with_timeouts_def)
  next
    case sse
    obtain p r' trm el' where e: "prefetch_response idle (Some wall)
        (\<lambda>prefix. classify_prefix (pe_parse env) prefix False \<noteq> NeedMore) r = ((p, r', trm), el')"
      by (metis prod.exhaust)
    have res: "\<exists>d. out = decide_prefix d trm r'" "el = el'"
      using assms e sse(1,2,4) by (auto simp: preflight_stream_response_with_timeouts_def Let_def)
    then obtain d where d: "out = decide_prefix d trm r'" by blast
    show ?thesis
      using decide_prefix_kept [of d trm r'] d res(2) prefetch_response_spec [OF e] prefetch_response_time [OF e] sse(3)
      by auto
  qed
qed


text \<open>
  C17: the preflight loses nothing and gives up nothing it should keep. A response that is kept,
  because it is delivered or rejects only the model, has its status and headers and reads to the
  same body as before, whatever part of it was looked at. Without another candidate every response
  is kept; with one, an answer outside 2xx other than 400 never is. Except where the whole body of
  an error is read, the preflight ends within ten seconds.
\<close>

theorem preflight_keeps_response:
  assumes "preflight_stream_response env idle r path streaming has_more = (out, elapsed)"
  shows "(\<forall>r'. kept_response out = Some r' \<longrightarrow>
       ur_status r' = ur_status r \<and> ur_headers r' = ur_headers r
       \<and> fst (read_all_bytes [] 0 (ur_body r')) = fst (read_all_bytes [] 0 (ur_body r)))
    \<and> (\<not> has_more \<longrightarrow> kept_response out \<noteq> None)
    \<and> (has_more \<and> ur_status r \<notin> {200..299} \<and> ur_status r \<noteq> 400 \<longrightarrow> kept_response out = None)
    \<and> (ur_status r \<notin> {401, 403, 429} \<longrightarrow> elapsed \<le> from_millis 10000)"
proof -
  note kept = preflight_kept [OF assms [unfolded preflight_stream_response_def]]
  show ?thesis
  proof (intro conjI allI impI)
    fix r' assume "kept_response out = Some r'"
    with kept have same: "same_response r r'" by blast
    then show "ur_status r' = ur_status r" "ur_headers r' = ur_headers r"
      by (simp_all add: same_response_status)
    show "fst (read_all_bytes [] 0 (ur_body r')) = fst (read_all_bytes [] 0 (ur_body r))"
      using same_response_status [OF same] by (simp add: read_all_body)
  next
    show "kept_response out \<noteq> None" if "\<not> has_more" using kept that by blast
    show "elapsed \<le> from_millis 10000" if "ur_status r \<notin> {401, 403, 429}"
      using kept that by (simp add: stream_preflight_wall_clock_timeout_def)
    show "kept_response out = None" if "has_more \<and> ur_status r \<notin> {200..299} \<and> ur_status r \<noteq> 400"
      using assms that
      by (auto simp: preflight_stream_response_def preflight_stream_response_with_timeouts_def Let_def
          split: option.splits if_splits prod.splits sum.splits)
  qed
qed

text \<open>
  C18: how the body is cut into chunks does not matter. For a stream of server-sent events that
  ends in time and below the limit, the decision is the one taken on the whole body at once,
  wherever the chunks end, even inside a line, an end of line or a character.
\<close>

theorem preflight_ignores_chunking:
  assumes "arrives_in_time idle (Some (from_millis 10000)) (ur_body r)"
    and "length (chunk_text (stream_items (ur_body r))) < stream_preflight_max_bytes"
    and "ur_status r \<in> {200..299}" and "starts_with path ''/v1/responses''" and "is_sse_stream_response r"
  shows "\<exists>r'. same_response r r' \<and> fst (preflight_stream_response env idle r path True True) =
    decide_prefix (classify_prefix (pe_parse env) (chunk_text (stream_items (ur_body r))) True) PrefetchEof r'"
proof -
  let ?body = "chunk_text (stream_items (ur_body r))"
  let ?stop = "\<lambda>prefix. classify_prefix (pe_parse env) prefix False \<noteq> NeedMore"
  let ?w = "stream_preflight_wall_clock_timeout"
  obtain p r' trm el where e: "prefetch_response idle (Some ?w) ?stop r = ((p, r', trm), el)"
    by (metis prod.exhaust)
  from prefetch_response_spec [OF e] obtain b where same: "same_response r r'" and
    u: "prefetch_until stream_preflight_max_bytes idle (Some ?w) ?stop (ur_body r) = ((p, b, trm), el)" by blast
  from prefetch_until_loop [OF u] obtain rp t where
    l: "prefetch_loop stream_preflight_max_bytes idle (Some ?w) ?stop [] [] 0 (ur_body r) = ((p, rp, t, trm), el)" by blast
  from assms(1) obtain cs d where cs: "bs_replay (ur_body r) = []"
    "bs_input (ur_body r) = map (\<lambda>(d, b). (d, Chunk b)) cs @ [(d, StreamEof)]"
    "\<forall>x. idle = Some x \<longrightarrow> d \<le> x \<and> (\<forall>c \<in> set cs. fst c \<le> x)" "sum_list (map fst cs) + d < from_millis 10000"
    by (auto simp: arrives_in_time_def)
  have items: "stream_items (ur_body r) = map (\<lambda>c. Chunk (snd c)) cs @ [StreamEof]"
    by (simp add: stream_items_def cs(1,2) case_prod_beta)
  have body: "?body = concat (map snd cs)" unfolding items by (induction cs) simp_all
  have fin: "trm = PrefetchOpen \<or> trm = PrefetchEof \<and> p = ?body"
    using prefetch_loop_in_time [OF cs(1,2,3) _ _ l] cs(4) assms(2) body
    by (simp add: stream_preflight_wall_clock_timeout_def)
  have dec: "fst (preflight_stream_response env idle r path True True) =
      decide_prefix (classify_prefix (pe_parse env) p (trm \<noteq> PrefetchOpen)) trm r'"
    using assms(3,4,5) e fin by (auto simp: preflight_stream_response_def
        preflight_stream_response_with_timeouts_def Let_def)
  show ?thesis
  proof (cases "trm = PrefetchOpen")
    case False
    with fin dec same show ?thesis by auto
  next
    case True
    then have st: "classify_prefix (pe_parse env) p False \<noteq> NeedMore"
      using prefetch_loop_terminal [OF l] by simp
    from prefetch_until_prefix [OF u] obtain rest where "?body = p @ rest" by blast
    with classify_prefix_stable [OF refl st] have
      "classify_prefix (pe_parse env) ?body True = classify_prefix (pe_parse env) p False" by simp
    with dec True st same show ?thesis
      by (auto simp: decide_prefix_def split: prefix_decision.splits)
  qed
qed

subsection \<open>A concrete stream\<close>

definition preflight_env_example :: preflight_env where
  "preflight_env_example = \<lparr>pe_parse = (\<lambda>s. if s = ''{}'' then None
     else Some (JObject [(''type'', JString ''response.failed''),
       (''response'', JObject [(''error'', JObject [(''code'', JString ''usage_limit_reached'')])])])),
     pe_hint = (\<lambda>_ _. None)\<rparr>"

definition stream_example :: upstream_response where
  "stream_example = \<lparr>ur_status = 200, ur_headers = [(''content-type'', ''text/event-stream; charset=utf-8'')],
     ur_body = \<lparr>bs_replay = [], bs_input = [(5, Chunk ''data: failu''), (7, Chunk ([CHR 0x72, CHR 0x65, cr])),
       (7, Chunk [lf, cr]), (1, Chunk [lf]), (2, StreamEof)], bs_end = 0\<rparr>\<rparr>"

lemma stream_example_facts:
  "arrives_in_time None (Some (from_millis 10000)) (ur_body stream_example)"
  "length (chunk_text (stream_items (ur_body stream_example))) < stream_preflight_max_bytes"
  "ur_status stream_example = 200" "is_sse_stream_response stream_example"
  "classify_prefix (pe_parse preflight_env_example) (chunk_text (stream_items (ur_body stream_example))) True
     = PrefixFailover ''usage_limit_reached''"
proof -
  show "arrives_in_time None (Some (from_millis 10000)) (ur_body stream_example)"
    unfolding arrives_in_time_def
    by (auto simp: stream_example_def from_millis_def
        intro!: exI [of _ "[(5, ''data: failu''), (7, [CHR 0x72, CHR 0x65, cr]), (7, [lf, cr]), (1, [lf])]"] exI [of _ 2])
  show "length (chunk_text (stream_items (ur_body stream_example))) < stream_preflight_max_bytes"
    by (simp add: stream_example_def stream_items_def stream_preflight_max_bytes_def)
qed code_simp+

theorem preflight_ignores_chunking_witness:
  "fst (preflight_stream_response preflight_env_example None stream_example ''/v1/responses'' True True)
     = PreflightFailover ''usage_limit_reached''"
proof -
  have "starts_with ''/v1/responses'' ''/v1/responses''" by code_simp
  with preflight_ignores_chunking [OF stream_example_facts(1,2) _ _ stream_example_facts(4),
      of "''/v1/responses''" preflight_env_example] stream_example_facts(3,5)
  show ?thesis by (simp add: decide_prefix_def)
qed

theorem preflight_keeps_response_witness:
  "kept_response (fst (preflight_stream_response preflight_env_example None
     (stream_example\<lparr>ur_status := 503\<rparr>) ''/v1/responses'' True True)) = None
   \<and> kept_response (fst (preflight_stream_response preflight_env_example None stream_example ''/v1/responses'' True False)) \<noteq> None"
proof -
  obtain o1 e1 where 1: "preflight_stream_response preflight_env_example None
     (stream_example\<lparr>ur_status := 503\<rparr>) ''/v1/responses'' True True = (o1, e1)" by fastforce
  obtain o2 e2 where 2: "preflight_stream_response preflight_env_example None
     stream_example ''/v1/responses'' True False = (o2, e2)" by fastforce
  have "kept_response o1 = None"
    by (rule preflight_keeps_response [OF 1, THEN conjunct2, THEN conjunct2, THEN conjunct1, rule_format]) simp
  moreover have "kept_response o2 \<noteq> None"
    by (rule preflight_keeps_response [OF 2, THEN conjunct2, THEN conjunct1, rule_format]) simp
  ultimately show ?thesis by (simp only: 1 2 fst_conv simp_thms)
qed

end
