(* ===== verification/ResponseFinalize.thy ===== *)
theory ResponseFinalize
  imports AttemptSafety StreamPreflight ConversationRouting
begin

text \<open>
  The end of a request (\<open>gateway/upstream/proxy_pipeline/response_finalize.rs\<close> and the parts of
  \<open>execution_context.rs\<close> it uses): the result of delivering a response
  (\<open>observability/http_bridge/aggregate/output_text.rs\<close>), what it does to the account that gave the
  response, and the entry of the request log. The state shared by the requests is one record.
\<close>

section \<open>Shared state\<close>

text \<open>One row of the request log; token counts, timings and display fields are left out.\<close>

record final_result =
  fr_trace_id :: string
  fr_key_id :: string
  fr_account :: "string option"
  fr_url :: "string option"
  fr_model :: "string option"
  fr_upstream_model :: "string option"
  fr_status :: nat
  fr_error :: "string option"
  fr_attempted :: "string list"

text \<open>What is fixed for a response when its delivery begins.\<close>

record delivery =
  dl_status :: nat
  dl_account :: string
  dl_url :: "string option"
  dl_error :: "string option"
  dl_model :: "string option"
  dl_attempted :: "string list"
  dl_client_is_stream :: bool
  dl_has_more :: bool

text \<open>
  What the requests share: the clock with the cooldown table and the trace of the running
  attempt, the tables of health scores, account states, model rejections, requests in flight and
  conversation bindings, the counter of failovers, the request log with the responses it links, and the
  deliveries handed to the background.
\<close>

record gateway_state =
  gs_flow :: flow_state
  gs_quality :: route_quality_state
  gs_status :: status_store
  gs_marks :: model_marks
  gs_inflight :: inflight_map
  gs_bindings :: binding_table
  gs_failover_attempts :: nat
  gs_log :: "final_result list"
  gs_response_links :: "string \<times> string \<rightharpoonup> string"
  gs_deliveries :: "delivery list"

text \<open>What one request passes to every step.\<close>

record execution_context =
  ec_trace_id :: string
  ec_key_id :: string
  ec_protocol_type :: string
  ec_model_for_log :: "string option"
  ec_candidate_count :: nat
  ec_account_max_inflight :: nat

definition has_more_candidates :: "execution_context \<Rightarrow> nat \<Rightarrow> bool" where
  "has_more_candidates ctx idx \<longleftrightarrow> idx + 1 < ec_candidate_count ctx"

definition wall_now :: "flow_env \<Rightarrow> gateway_state \<Rightarrow> int" where
  "wall_now env g = fe_wall env (fs_now (gs_flow g))"

definition gs_mark :: "flow_env \<Rightarrow> string \<Rightarrow> cooldown_reason \<Rightarrow> gateway_state \<Rightarrow> gateway_state" where
  "gs_mark env a reason g = g\<lparr>gs_flow := flow_mark env a reason (gs_flow g)\<rparr>"

definition gs_record_quality :: "flow_env \<Rightarrow> string \<Rightarrow> nat \<Rightarrow> gateway_state \<Rightarrow> gateway_state" where
  "gs_record_quality env a status g = g\<lparr>gs_quality := record_route_quality a status (wall_now env g) (gs_quality g)\<rparr>"

definition resolve_direct_upstream_model_for_log :: "string option \<Rightarrow> string option \<Rightarrow> string option" where
  "resolve_direct_upstream_model_for_log platform_model_for_log model_for_log =
     (case trimmed_nonempty platform_model_for_log of
        None \<Rightarrow> None
      | Some platform_model \<Rightarrow>
          (case trimmed_nonempty model_for_log of
             None \<Rightarrow> None
           | Some candidate_model \<Rightarrow> if candidate_model \<noteq> platform_model then Some candidate_model else None))"

definition log_final_result_with_model ::
  "execution_context \<Rightarrow> string option \<Rightarrow> string option \<Rightarrow> string option \<Rightarrow> nat \<Rightarrow> string option \<Rightarrow> string list
    \<Rightarrow> gateway_state \<Rightarrow> gateway_state" where
  "log_final_result_with_model ctx account url model status err attempted g =
     (let platform_model = (case ec_model_for_log ctx of Some m \<Rightarrow> Some m | None \<Rightarrow> model)
      in g\<lparr>gs_log := gs_log g @ [\<lparr>fr_trace_id = ec_trace_id ctx, fr_key_id = ec_key_id ctx,
            fr_account = account, fr_url = url, fr_model = platform_model,
            fr_upstream_model = resolve_direct_upstream_model_for_log platform_model model,
            fr_status = status, fr_error = err, fr_attempted = attempted\<rparr>]\<rparr>)"

definition log_final_result ::
  "execution_context \<Rightarrow> string option \<Rightarrow> string option \<Rightarrow> nat \<Rightarrow> string option \<Rightarrow> string list
    \<Rightarrow> gateway_state \<Rightarrow> gateway_state" where
  "log_final_result ctx account url status err attempted g =
     log_final_result_with_model ctx account url (ec_model_for_log ctx) status err attempted g"

text \<open>
  A response links to its request when it has an id given by upstream and the request is in the
  log; the first request keeps an id.
\<close>

definition record_completed_response_id :: "execution_context \<Rightarrow> string \<Rightarrow> gateway_state \<Rightarrow> gateway_state" where
  "record_completed_response_id ctx response_id g =
     (if \<not> starts_with response_id ''resp_'' \<or> response_id = ''resp_proxy''
         \<or> \<not> list_ex (\<lambda>r. fr_trace_id r = ec_trace_id ctx \<and> fr_key_id r = ec_key_id ctx) (gs_log g)
         \<or> gs_response_links g (ec_key_id ctx, response_id) \<noteq> None
      then g
      else g\<lparr>gs_response_links := (gs_response_links g)((ec_key_id ctx, response_id) \<mapsto> ec_trace_id ctx)\<rparr>)"

definition gs_mark_unavailable :: "flow_env \<Rightarrow> string \<Rightarrow> string \<Rightarrow> gateway_state \<Rightarrow> gateway_state" where
  "gs_mark_unavailable env a err g =
     g\<lparr>gs_status := snd (mark_account_unavailable_for_gateway_error a err (wall_now env g) (gs_status g))\<rparr>"

definition apply_gateway_error_follow_up ::
  "flow_env \<Rightarrow> string \<Rightarrow> string \<Rightarrow> bool \<Rightarrow> gateway_state \<Rightarrow> gateway_error_follow_up \<times> gateway_state" where
  "apply_gateway_error_follow_up env a err has_more g =
     (let follow_up = analyze_gateway_error err has_more;
          g1 = (if gf_mark_default_cooldown follow_up then gs_mark env a Default g else g);
          g2 = (if gf_mark_unavailable follow_up then gs_mark_unavailable env a err g1 else g1)
      in (follow_up, g2))"

section \<open>The result of a delivery\<close>

record bridge_result =
  br_completed_successfully :: bool
  br_explicit_failure :: bool
  br_stream_terminal_seen :: bool
  br_stream_terminal_error :: "string option"
  br_delivery_error :: "string option"
  br_upstream_error_hint :: "string option"
  br_delivered_status_code :: "nat option"
  br_response_id :: "string option"

definition bridge_is_ok :: "bool \<Rightarrow> bridge_result \<Rightarrow> bool" where
  "bridge_is_ok is_stream b =
     (if br_delivery_error b \<noteq> None then False
      else if is_stream \<and> \<not> br_stream_terminal_seen b then False
      else if is_stream \<and> br_stream_terminal_error b \<noteq> None then False
      else True)"

text \<open>The message for a stream that broke off is an argument.\<close>

definition bridge_error_message :: "string \<Rightarrow> bool \<Rightarrow> bridge_result \<Rightarrow> string option" where
  "bridge_error_message incomplete is_stream b =
     (case br_stream_terminal_error b of
        Some err \<Rightarrow> Some err
      | None \<Rightarrow>
          if is_stream \<and> \<not> br_stream_terminal_seen b
          then (case trimmed_nonempty (br_upstream_error_hint b) of Some h \<Rightarrow> Some h | None \<Rightarrow> Some incomplete)
          else map_option (\<lambda>err. ''response write failed: '' @ err) (br_delivery_error b))"

definition is_client_disconnect_error :: "string \<Rightarrow> bool" where
  "is_client_disconnect_error message =
     contains_any (to_ascii_lowercase (trim message))
       [''broken pipe'', ''connection reset'', ''connection aborted'', ''connection was forcibly closed'',
        ''os error 32'', ''os error 54'', ''os error 104'', ''os error 10053'', ''os error 10054'', ''os error 10058'']"

definition derive_final_error ::
  "nat \<Rightarrow> string option \<Rightarrow> string option \<Rightarrow> string option \<Rightarrow> string option" where
  "derive_final_error status_code last_attempt_error upstream_error_hint bridge_message =
     (case upstream_error_hint of
        Some h \<Rightarrow> Some h
      | None \<Rightarrow>
          (case (if 400 \<le> status_code then last_attempt_error else None) of
             Some e \<Rightarrow> Some e | None \<Rightarrow> bridge_message))"

definition derive_status_for_log :: "nat \<Rightarrow> nat option \<Rightarrow> bool \<Rightarrow> bool \<Rightarrow> bool \<Rightarrow> bool \<Rightarrow> nat" where
  "derive_status_for_log status_code delivered bridge_ok gateway_failover upstream_stream_failed client_delivery_failed =
     (if client_delivery_failed then 499
      else case delivered of
        Some d \<Rightarrow> d
      | None \<Rightarrow>
          if 400 \<le> status_code then status_code
          else if upstream_stream_failed \<or> gateway_failover \<or> \<not> bridge_ok then 502
          else status_code)"

definition clear_model_rejection_after_success ::
  "string \<Rightarrow> string option \<Rightarrow> nat \<Rightarrow> bool \<Rightarrow> bridge_result \<Rightarrow> model_marks \<Rightarrow> model_marks" where
  "clear_model_rejection_after_success a model status_code is_stream b marks =
     (let completed = (if is_stream then br_stream_terminal_seen b \<and> br_stream_terminal_error b = None
                       else br_completed_successfully b)
      in if 200 \<le> status_code \<and> status_code \<le> 299
            \<and> (case br_delivered_status_code b of Some c \<Rightarrow> 200 \<le> c \<and> c \<le> 299 | None \<Rightarrow> True)
            \<and> completed \<and> \<not> br_explicit_failure b \<and> bridge_is_ok is_stream b
            \<and> br_upstream_error_hint b = None \<and> br_stream_terminal_error b = None
         then (case model of Some m \<Rightarrow> clear_unsupported a m marks | None \<Rightarrow> marks)
         else marks)"

section \<open>Finalisation\<close>

definition client_disconnected :: "bridge_result \<Rightarrow> bool" where
  "client_disconnected b \<longleftrightarrow>
     (case br_delivery_error b of Some e \<Rightarrow> is_client_disconnect_error e | None \<Rightarrow> False)"

definition stream_failed :: "delivery \<Rightarrow> bridge_result \<Rightarrow> bool" where
  "stream_failed d b \<longleftrightarrow>
     dl_client_is_stream d \<and> (\<not> br_stream_terminal_seen b \<or> br_stream_terminal_error b \<noteq> None)"

abbreviation delivered_ok :: "delivery \<Rightarrow> bridge_result \<Rightarrow> bool" where
  "delivered_ok d b \<equiv> bridge_is_ok (dl_client_is_stream d) b"

definition delivery_final_error :: "string \<Rightarrow> delivery \<Rightarrow> bridge_result \<Rightarrow> string option" where
  "delivery_final_error incomplete d b =
     derive_final_error (dl_status d) (dl_error d) (br_upstream_error_hint b)
       (if delivered_ok d b then None
        else Some (case bridge_error_message incomplete (dl_client_is_stream d) b of
               Some m \<Rightarrow> m | None \<Rightarrow> ''upstream response incomplete''))"

definition follow_up_final_error ::
  "flow_env \<Rightarrow> delivery \<Rightarrow> string option \<Rightarrow> gateway_state \<Rightarrow> bool \<times> gateway_state" where
  "follow_up_final_error env d final_error g =
     (case final_error of
        Some err \<Rightarrow>
          (let (f, g') = apply_gateway_error_follow_up env (dl_account d) err (dl_has_more d) g
           in (gf_should_failover f, g'))
      | None \<Rightarrow> (False, g))"

definition charge_stream_failure :: "flow_env \<Rightarrow> delivery \<Rightarrow> bridge_result \<Rightarrow> gateway_state \<Rightarrow> gateway_state" where
  "charge_stream_failure env d b g =
     (if stream_failed d b
      then gs_record_quality env (dl_account d) 502 (gs_mark env (dl_account d) Network g) else g)"

definition link_response :: "execution_context \<Rightarrow> string option \<Rightarrow> gateway_state \<Rightarrow> gateway_state" where
  "link_response ctx response_id g =
     (case response_id of Some rid \<Rightarrow> record_completed_response_id ctx rid g | None \<Rightarrow> g)"

definition finalize_bridge_result ::
  "flow_env \<Rightarrow> string \<Rightarrow> execution_context \<Rightarrow> delivery \<Rightarrow> bridge_result \<Rightarrow> gateway_state \<Rightarrow> gateway_state" where
  "finalize_bridge_result env incomplete ctx d b g =
     (let a = dl_account d;
          final_error = delivery_final_error incomplete d b;
          (gateway_failover, g1) = follow_up_final_error env d final_error g;
          status_for_log = derive_status_for_log (dl_status d) (br_delivered_status_code b) (delivered_ok d b)
            gateway_failover (stream_failed d b) (client_disconnected b);
          g2 = charge_stream_failure env d b g1;
          g3 = g2\<lparr>gs_marks := clear_model_rejection_after_success a (dl_model d) (dl_status d)
                   (dl_client_is_stream d) b (gs_marks g2)\<rparr>;
          g4 = log_final_result_with_model ctx (Some a) (dl_url d) (dl_model d) status_for_log final_error
                 (dl_attempted d) g3
      in link_response ctx (if delivered_ok d b \<and> status_for_log < 400 then br_response_id b else None) g4)"

text \<open>
  A delivery that failed as a whole is finalised with its error alone; the guard of the account
  is given back when the delivery is over.
\<close>

definition bridge_of_delivery :: "string + bridge_result \<Rightarrow> bridge_result" where
  "bridge_of_delivery result =
     (case result of
        Inr b \<Rightarrow> b
      | Inl err \<Rightarrow> \<lparr>br_completed_successfully = False, br_explicit_failure = False,
          br_stream_terminal_seen = False, br_stream_terminal_error = None, br_delivery_error = Some err,
          br_upstream_error_hint = None, br_delivered_status_code = None, br_response_id = None\<rparr>)"

definition finish_delivery ::
  "flow_env \<Rightarrow> string \<Rightarrow> execution_context \<Rightarrow> delivery \<Rightarrow> string + bridge_result \<Rightarrow> gateway_state \<Rightarrow> gateway_state" where
  "finish_delivery env incomplete ctx d result g =
     finalize_bridge_result env incomplete ctx d (bridge_of_delivery result)
       (g\<lparr>gs_inflight := drop_account_inflight (dl_account d) (gs_inflight g)\<rparr>)"

definition respond_total_timeout ::
  "execution_context \<Rightarrow> string option \<Rightarrow> string list \<Rightarrow> gateway_state \<Rightarrow> gateway_state" where
  "respond_total_timeout ctx model attempted g =
     log_final_result_with_model ctx None None model 504 (Some total_timeout_message) attempted g"

definition finalize_terminal_candidate ::
  "flow_env \<Rightarrow> execution_context \<Rightarrow> string \<Rightarrow> string option \<Rightarrow> nat \<Rightarrow> string \<Rightarrow> string option \<Rightarrow> string list
    \<Rightarrow> gateway_state \<Rightarrow> gateway_state" where
  "finalize_terminal_candidate env ctx a url status_code message model attempted g =
     log_final_result_with_model ctx (Some a) url model status_code (Some message) attempted
       (gs_mark_unavailable env a message g)"

section \<open>What a step may touch\<close>

text \<open>
  The states before and after a step that concerns the accounts in \<open>A\<close> only: time does not go
  back, and whatever the routing asks about another account from now on is as before.
\<close>

definition only_touches :: "flow_env \<Rightarrow> string set \<Rightarrow> gateway_state \<Rightarrow> gateway_state \<Rightarrow> bool" where
  "only_touches env A g g' \<longleftrightarrow>
     fs_now (gs_flow g) \<le> fs_now (gs_flow g') \<and>
     (cooldown_wf (fs_cooldown (gs_flow g)) \<longrightarrow> cooldown_wf (fs_cooldown (gs_flow g'))) \<and>
     (\<forall>k t. k \<notin> A \<longrightarrow> wall_now env g' \<le> t \<longrightarrow>
        cooling (fs_cooldown (gs_flow g')) t k = cooling (fs_cooldown (gs_flow g)) t k \<and>
        health (gs_quality g') t k = health (gs_quality g) t k) \<and>
     (\<forall>k. k \<notin> A \<longrightarrow> ss_accounts (gs_status g') k = ss_accounts (gs_status g) k) \<and>
     (\<forall>key. (\<forall>a \<in> A. \<forall>m. key \<noteq> mark_key a m) \<longrightarrow> gs_marks g' key = gs_marks g key)"

lemma touches_refl [simp, intro]: "only_touches env A g g"
  by (simp add: only_touches_def)

lemma touches_trans:
  assumes w: "wall_monotone env" and 1: "only_touches env A g g1" and 2: "only_touches env B g1 g2"
    and sub: "A \<subseteq> C" "B \<subseteq> C"
  shows "only_touches env C g g2"
proof -
  have n: "fs_now (gs_flow g1) \<le> fs_now (gs_flow g2)" using 2 by (simp add: only_touches_def)
  then have wn: "wall_now env g1 \<le> wall_now env g2"
    using w by (simp add: wall_monotone_def wall_now_def)
  have "cooling (fs_cooldown (gs_flow g2)) t k = cooling (fs_cooldown (gs_flow g)) t k \<and>
        health (gs_quality g2) t k = health (gs_quality g) t k"
    if "k \<notin> C" "wall_now env g2 \<le> t" for k t
  proof -
    have "k \<notin> A" "k \<notin> B" "wall_now env g1 \<le> t" using that sub wn by auto
    with 1 2 that(2) show ?thesis by (simp add: only_touches_def)
  qed
  moreover have "gs_marks g2 key = gs_marks g key" if "\<forall>a \<in> C. \<forall>m. key \<noteq> mark_key a m" for key
    using that 1 2 sub unfolding only_touches_def by (metis subsetD)
  moreover have "ss_accounts (gs_status g2) k = ss_accounts (gs_status g) k" if "k \<notin> C" for k
  proof -
    have "k \<notin> A" "k \<notin> B" using that sub by auto
    with 1 2 show ?thesis by (simp add: only_touches_def)
  qed
  moreover have "fs_now (gs_flow g) \<le> fs_now (gs_flow g2)" using 1 n by (simp add: only_touches_def)
  ultimately show ?thesis using 1 2 by (simp add: only_touches_def)
qed

lemma touches_mono: "only_touches env A g g' \<Longrightarrow> A \<subseteq> B \<Longrightarrow> only_touches env B g g'"
  unfolding only_touches_def by (simp add: subset_iff) (metis subset_iff)

lemma touches_flow:
  "flow_ext env a n (gs_flow g) s \<Longrightarrow> a \<in> A \<Longrightarrow> only_touches env A g (g\<lparr>gs_flow := s\<rparr>)"
  by (auto simp: only_touches_def flow_ext_def wall_now_def)

lemma touches_mark [intro]: "a \<in> A \<Longrightarrow> only_touches env A g (gs_mark env a r g)"
  unfolding gs_mark_def by (rule touches_flow [OF ext_mark [of env a 0]])

lemma touches_record_at:
  "a \<in> A \<Longrightarrow> t \<le> wall_now env g \<Longrightarrow>
     only_touches env A g (g\<lparr>gs_quality := record_route_quality a st t (gs_quality g)\<rparr>)"
  by (auto simp: only_touches_def wall_now_def intro!: health_record_other)

lemma touches_record [intro]: "a \<in> A \<Longrightarrow> only_touches env A g (gs_record_quality env a st g)"
  unfolding gs_record_quality_def by (rule touches_record_at) simp_all

lemma touches_status:
  "\<forall>k. k \<notin> A \<longrightarrow> ss_accounts st k = ss_accounts (gs_status g) k \<Longrightarrow> only_touches env A g (g\<lparr>gs_status := st\<rparr>)"
  by (simp add: only_touches_def wall_now_def)

lemma touches_mark_unavailable [intro]: "a \<in> A \<Longrightarrow> only_touches env A g (gs_mark_unavailable env a err g)"
  unfolding gs_mark_unavailable_def
  by (rule touches_status)
    (auto simp: mark_account_unavailable_for_gateway_error_def set_account_banned_with_reason_def
      set_account_limited_with_reason_def set_status_accounts split: option.splits)

lemma touches_marks:
  "a \<in> A \<Longrightarrow> \<forall>key. (\<forall>m. key \<noteq> mark_key a m) \<longrightarrow> mk key = gs_marks g key \<Longrightarrow>
     only_touches env A g (g\<lparr>gs_marks := mk\<rparr>)"
  by (auto simp: only_touches_def wall_now_def)

lemma touches_others [simp, intro]:
  "only_touches env A g (g\<lparr>gs_log := l\<rparr>)" "only_touches env A g (g\<lparr>gs_inflight := i\<rparr>)"
  "only_touches env A g (g\<lparr>gs_bindings := b\<rparr>)" "only_touches env A g (g\<lparr>gs_failover_attempts := n\<rparr>)"
  "only_touches env A g (g\<lparr>gs_response_links := r\<rparr>)" "only_touches env A g (g\<lparr>gs_deliveries := ds\<rparr>)"
  by (simp_all add: only_touches_def wall_now_def)

lemma touches_log_final [simp, intro]:
  "only_touches env A g (log_final_result_with_model ctx acc url m st err att g)"
  "only_touches env A g (log_final_result ctx acc url st err att g)"
  "only_touches env A g (record_completed_response_id ctx rid g)"
  by (simp_all add: log_final_result_def log_final_result_with_model_def record_completed_response_id_def Let_def)

lemma touches_follow_up:
  assumes w: "wall_monotone env" and "a \<in> A"
  shows "only_touches env A g (snd (apply_gateway_error_follow_up env a err hm g))"
proof -
  have "only_touches env A g (if x then gs_mark env a Default g else g)" for x
    using assms(2) by auto
  moreover have "only_touches env A g1 (if y then gs_mark_unavailable env a err g1 else g1)" for y g1
    using assms(2) by auto
  ultimately show ?thesis
    by (simp only: apply_gateway_error_follow_up_def Let_def snd_conv) (rule touches_trans [OF w _ _ order_refl order_refl])
qed

lemma touches_clear_rejection:
  "a \<in> A \<Longrightarrow> only_touches env A g (g\<lparr>gs_marks := clear_model_rejection_after_success a m st is b (gs_marks g)\<rparr>)"
  by (rule touches_marks) (auto simp: clear_model_rejection_after_success_def clear_unsupported_def
      map_remove_def Let_def split: option.splits)

lemma link_keeps [simp]:
  "gs_log (link_response ctx rid g) = gs_log g"
  "gs_flow (link_response ctx rid g) = gs_flow g"
  "gs_quality (link_response ctx rid g) = gs_quality g"
  "gs_marks (link_response ctx rid g) = gs_marks g"
  "gs_inflight (link_response ctx rid g) = gs_inflight g"
  by (simp_all add: link_response_def record_completed_response_id_def split: option.splits)

lemma touches_link [simp, intro]: "only_touches env A g (link_response ctx rid g)"
  by (simp add: link_response_def split: option.split)

lemma touches_follow_up_final:
  "wall_monotone env \<Longrightarrow> dl_account d \<in> A \<Longrightarrow> only_touches env A g (snd (follow_up_final_error env d err g))"
  using touches_follow_up by (auto simp: follow_up_final_error_def case_prod_beta Let_def split: option.split)

lemma touches_charge:
  "wall_monotone env \<Longrightarrow> dl_account d \<in> A \<Longrightarrow> only_touches env A g (charge_stream_failure env d b g)"
  unfolding charge_stream_failure_def
  using touches_trans [OF _ touches_mark touches_record order_refl order_refl] by auto

lemma touches_finalize:
  assumes w: "wall_monotone env" and a: "dl_account d \<in> A"
  shows "only_touches env A g (finalize_bridge_result env incomplete ctx d b g)"
proof -
  note tr = touches_trans [OF w _ _ order_refl order_refl]
  let ?g1 = "snd (follow_up_final_error env d (delivery_final_error incomplete d b) g)"
  let ?g2 = "charge_stream_failure env d b ?g1"
  have "only_touches env A g ?g2"
    by (rule tr [OF touches_follow_up_final [OF w a] touches_charge [OF w a]])
  from tr [OF this touches_clear_rejection [OF a]]
  show ?thesis
    unfolding finalize_bridge_result_def Let_def case_prod_beta
    by (rule tr [OF tr [OF _ touches_log_final(1)] touches_link])
qed

lemma touches_finish:
  assumes "wall_monotone env" and "dl_account d \<in> A"
  shows "only_touches env A g (finish_delivery env incomplete ctx d result g)"
  unfolding finish_delivery_def
  using touches_trans [OF assms(1) touches_others(2) touches_finalize [OF assms] order_refl order_refl] .

lemma follow_up_keeps [simp]:
  "gs_log (snd (apply_gateway_error_follow_up env a err hm g)) = gs_log g"
  "gs_marks (snd (apply_gateway_error_follow_up env a err hm g)) = gs_marks g"
  "gs_inflight (snd (apply_gateway_error_follow_up env a err hm g)) = gs_inflight g"
  "fs_now (gs_flow (snd (apply_gateway_error_follow_up env a err hm g))) = fs_now (gs_flow g)"
  by (simp_all add: apply_gateway_error_follow_up_def Let_def gs_mark_def gs_mark_unavailable_def flow_mark_def)

lemma follow_up_final_keeps [simp]:
  "gs_log (snd (follow_up_final_error env d err g)) = gs_log g"
  "gs_marks (snd (follow_up_final_error env d err g)) = gs_marks g"
  "gs_inflight (snd (follow_up_final_error env d err g)) = gs_inflight g"
  by (simp_all add: follow_up_final_error_def case_prod_beta Let_def split: option.split)

lemma charge_keeps [simp]:
  "gs_log (charge_stream_failure env d b g) = gs_log g"
  "gs_marks (charge_stream_failure env d b g) = gs_marks g"
  "gs_inflight (charge_stream_failure env d b g) = gs_inflight g"
  by (simp_all add: charge_stream_failure_def gs_mark_def gs_record_quality_def)

lemma charge_cools:
  "stream_failed d b \<Longrightarrow>
     cools_now env (dl_account d) (gs_flow (charge_stream_failure env d b g))"
  by (simp add: charge_stream_failure_def gs_mark_def gs_record_quality_def)

lemma finish_logs:
  "\<exists>row. gs_log (finish_delivery env incomplete ctx d result g) = gs_log g @ [row]
     \<and> fr_account row = Some (dl_account d) \<and> fr_attempted row = dl_attempted d"
  "gs_inflight (finish_delivery env incomplete ctx d result g) = drop_account_inflight (dl_account d) (gs_inflight g)"
  by (simp_all add: finish_delivery_def finalize_bridge_result_def case_prod_beta Let_def
      log_final_result_with_model_def)

section \<open>Properties\<close>


definition broken_delivery :: delivery where
  "broken_delivery =
     \<lparr>dl_status = 200, dl_account = ''a'', dl_url = None, dl_error = None, dl_model = Some ''gpt'',
      dl_attempted = [''a''], dl_client_is_stream = True, dl_has_more = False\<rparr>"

definition plain_context :: execution_context where
  "plain_context = \<lparr>ec_trace_id = ''t'', ec_key_id = ''k'', ec_protocol_type = protocol_openai_compat,
     ec_model_for_log = Some ''gpt'', ec_candidate_count = 2, ec_account_max_inflight = 0\<rparr>"

definition fresh_gateway :: gateway_state where
  "fresh_gateway =
     \<lparr>gs_flow = fresh_flow_state, gs_quality = route_quality_default, gs_status = status_store_example,
      gs_marks = Map.empty, gs_inflight = Map.empty, gs_bindings = [], gs_failover_attempts = 0,
      gs_log = [], gs_response_links = Map.empty, gs_deliveries = []\<rparr>"


end
