(* ===== verification/CandidateLoop.thy ===== *)
theory CandidateLoop
  imports CandidateState ResponseFinalize
begin

text \<open>
  The candidates of a request, tried one after the other
  (\<open>gateway/upstream/proxy_pipeline/candidate_executor.rs\<close> and \<open>candidate_attempt.rs\<close>): the
  attempt with its trace, the retries on the same account, the preflight of the response, and
  the decision between the next candidate, an answer and a delivery in the background.
\<close>

section \<open>Parameters\<close>

text \<open>
  Beside the environment of an attempt: the preflight and the rewriting of bodies, the instant at
  which the client goes away, the state an attempt dropped at that instant leaves behind, the
  reasons of the token endpoint, the plans that allow the fallback and the refusal of a delivery.
\<close>

record loop_env =
  le_flow :: flow_env
  le_preflight :: preflight_env
  le_idle_timeout :: "duration option"
  le_body :: body_env
  le_cancelled_at :: "instant option"
  le_dropped :: "attempt \<Rightarrow> flow_state \<Rightarrow> flow_state"
  le_token_reason :: "string \<Rightarrow> refresh_token_reason option"
  le_plan_allows_fallback :: "candidate \<Rightarrow> bool"
  le_defer_error :: "string option"

record executor_params =
  ep_body :: string
  ep_path :: string
  ep_request_path :: string
  ep_model_for_log :: "string option"
  ep_model_override :: "string option"
  ep_incoming_turn_state :: bool
  ep_setup :: request_setup
  ep_request_deadline :: "instant option"
  ep_client_is_stream :: bool
  ep_upstream_is_stream :: bool
  ep_allow_openai_fallback :: bool
  ep_disable_challenge_stateless_retry :: bool

definition cancelled_by :: "loop_env \<Rightarrow> instant \<Rightarrow> bool" where
  "cancelled_by le t \<longleftrightarrow> (case le_cancelled_at le of Some c \<Rightarrow> c \<le> t | None \<Rightarrow> False)"

definition gs_now :: "gateway_state \<Rightarrow> instant" where
  "gs_now g = fs_now (gs_flow g)"

definition gs_elapse :: "duration \<Rightarrow> gateway_state \<Rightarrow> gateway_state" where
  "gs_elapse d g = g\<lparr>gs_flow := (gs_flow g)\<lparr>fs_now := fs_now (gs_flow g) + d\<rparr>\<rparr>"

section \<open>One attempt\<close>

record attempt_trace =
  ct_last_attempt_url :: "string option"
  ct_last_attempt_error :: "string option"

definition attempt_trace_default :: attempt_trace where
  "attempt_trace_default = \<lparr>ct_last_attempt_url = None, ct_last_attempt_error = None\<rparr>"

text \<open>
  What an event of the attempt does besides: a result is noted in the trace and scored, an error of
  the token endpoint may make the account unavailable, a refresh stays in the queue of events.
\<close>

fun absorb_event ::
  "loop_env \<Rightarrow> string \<Rightarrow> int \<times> flow_event \<Rightarrow> attempt_trace \<times> gateway_state \<Rightarrow> attempt_trace \<times> gateway_state" where
  "absorb_event le a (t, GatewayResult url status err) (tr, g) =
     (tr\<lparr>ct_last_attempt_url := url, ct_last_attempt_error := err\<rparr>,
      g\<lparr>gs_quality := record_route_quality a status t (gs_quality g)\<rparr>)"
| "absorb_event le a (t, EnqueueUsageRefresh k) (tr, g) = (tr, g)"
| "absorb_event le a (t, RefreshTokenError k err) (tr, g) =
     (tr, g\<lparr>gs_status :=
        snd (mark_account_unavailable_for_refresh_token_error (le_token_reason le) k err t (gs_status g))\<rparr>)"

definition run_candidate_attempt ::
  "loop_env \<Rightarrow> execution_context \<Rightarrow> attempt \<Rightarrow> attempt_trace \<Rightarrow> gateway_state
    \<Rightarrow> candidate_upstream_decision \<times> attempt_trace \<times> gateway_state" where
  "run_candidate_attempt le ctx att tr g =
     (let s = gs_flow g;
          kind = resolve_gateway_upstream_executor_kind (ec_protocol_type ctx);
          (d, s1) = execute_candidate_upstream_flow kind (le_flow le) att s;
          (d', s') = (if cancelled_by le (fs_now s1)
                      then (UpstreamTerminal 499 ''downstream request cancelled'', le_dropped le att s)
                      else (d, s1));
          (tr', g') = fold (absorb_event le (at_id att)) (drop (length (fs_events s)) (fs_events s'))
            (tr, g\<lparr>gs_flow := s'\<rparr>)
      in (d', tr', g'))"

section \<open>State of the sequence\<close>

record loop_state =
  ls_state :: candidate_state
  ls_attempted :: "string list"
  ls_skipped_cooldown :: nat
  ls_skipped_inflight :: nat
  ls_last_attempt_url :: "string option"
  ls_last_attempt_error :: "string option"
  ls_force_strip :: bool

definition loop_start :: loop_state where
  "loop_start = \<lparr>ls_state = candidate_state_default, ls_attempted = [], ls_skipped_cooldown = 0,
     ls_skipped_inflight = 0, ls_last_attempt_url = None, ls_last_attempt_error = None, ls_force_strip = False\<rparr>"

text \<open>
  The code's \<open>Handled\<close> and \<open>Exhausted\<close>; the state of the sequence carries the fields of the latter.
  A candidate ends with the next one, a result, or a delivery that took over the guard of the account.
\<close>

datatype candidate_execution_result = CandidatesHandled | CandidatesExhausted loop_state

datatype candidate_step =
    NextCandidate loop_state
  | ReturnResult "string + candidate_execution_result"
  | Delivered

definition should_skip_candidate ::
  "flow_env \<Rightarrow> execution_context \<Rightarrow> string \<Rightarrow> nat \<Rightarrow> gateway_state \<Rightarrow> candidate_skip_reason option \<times> gateway_state" where
  "should_skip_candidate env ctx a idx g =
     (let (reason, c) = candidate_skip_reason_for_proxy a idx (ec_candidate_count ctx)
            (ec_account_max_inflight ctx) (ec_protocol_type ctx = protocol_anthropic_native)
            (wall_now env g) (gs_inflight g) (fs_cooldown (gs_flow g))
      in (reason, g\<lparr>gs_flow := (gs_flow g)\<lparr>fs_cooldown := c\<rparr>\<rparr>))"

definition is_challenge_failover_error :: "string option \<Rightarrow> bool" where
  "is_challenge_failover_error err \<longleftrightarrow>
     (case trimmed_nonempty err of
        None \<Rightarrow> False
      | Some v \<Rightarrow> contains_any (to_ascii_lowercase v) [''challenge'', ''cloudflare'', ''cf_ray''])"

definition should_force_strip_after_anthropic_challenge :: "execution_context \<Rightarrow> string option \<Rightarrow> bool" where
  "should_force_strip_after_anthropic_challenge ctx err \<longleftrightarrow>
     ec_protocol_type ctx = protocol_anthropic_native \<and> is_challenge_failover_error err"

definition should_retry_same_account_after_failover :: "nat \<Rightarrow> bool" where
  "should_retry_same_account_after_failover retry_count \<longleftrightarrow> retry_count = 0"

definition record_failover_attempt ::
  "attempt_trace \<Rightarrow> loop_state \<Rightarrow> gateway_state \<Rightarrow> loop_state \<times> gateway_state" where
  "record_failover_attempt tr ls g =
     (ls\<lparr>ls_last_attempt_url := ct_last_attempt_url tr, ls_last_attempt_error := ct_last_attempt_error tr\<rparr>,
      g\<lparr>gs_failover_attempts := gs_failover_attempts g + 1\<rparr>)"

definition should_failover_terminal_gateway_error ::
  "flow_env \<Rightarrow> string \<Rightarrow> bool \<Rightarrow> string \<Rightarrow> attempt_trace \<Rightarrow> loop_state \<Rightarrow> gateway_state
    \<Rightarrow> bool \<times> loop_state \<times> gateway_state" where
  "should_failover_terminal_gateway_error env a has_more message tr ls g =
     (let (follow_up, g1) = apply_gateway_error_follow_up env a message has_more g
      in if \<not> gf_should_failover follow_up then (False, ls, g1)
         else (True,
               ls\<lparr>ls_last_attempt_url := ct_last_attempt_url tr, ls_last_attempt_error := Some message\<rparr>,
               g1\<lparr>gs_failover_attempts := gs_failover_attempts g1 + 1\<rparr>))"

definition finalize_cancelled_candidate ::
  "loop_env \<Rightarrow> execution_context \<Rightarrow> string option \<Rightarrow> string option \<Rightarrow> string list \<Rightarrow> gateway_state
    \<Rightarrow> gateway_state option" where
  "finalize_cancelled_candidate le ctx account url attempted g =
     (if \<not> cancelled_by le (gs_now g) then None
      else Some (log_final_result ctx account url 499 (Some ''downstream request cancelled'') attempted g))"

section \<open>One candidate\<close>

text \<open>What is fixed while one candidate is tried.\<close>

record candidate_run =
  cn_account :: account
  cn_idx :: nat
  cn_attempt :: attempt
  cn_model_for_log :: "string option"
  cn_prompt_cache_key :: "string option"
  cn_turn_state :: bool
  cn_attempted :: "string list"

abbreviation cn_id :: "candidate_run \<Rightarrow> string" where "cn_id r \<equiv> acc_id (cn_account r)"

definition respond_terminal_attempt ::
  "flow_env \<Rightarrow> execution_context \<Rightarrow> candidate_run \<Rightarrow> attempt_trace \<Rightarrow> nat \<Rightarrow> string \<Rightarrow> gateway_state
    \<Rightarrow> candidate_step \<times> gateway_state" where
  "respond_terminal_attempt env ctx r tr status_code message g =
     (ReturnResult (Inr CandidatesHandled),
      finalize_terminal_candidate env ctx (cn_id r) (ct_last_attempt_url tr) status_code message
        (cn_model_for_log r) (cn_attempted r) g)"

text \<open>After every wait the request may turn out to be cancelled.\<close>

definition unless_cancelled ::
  "loop_env \<Rightarrow> execution_context \<Rightarrow> candidate_run \<Rightarrow> attempt_trace \<Rightarrow> gateway_state
    \<Rightarrow> (gateway_state \<Rightarrow> candidate_step \<times> gateway_state) \<Rightarrow> candidate_step \<times> gateway_state" where
  "unless_cancelled le ctx r tr g continue =
     (case finalize_cancelled_candidate le ctx (Some (cn_id r)) (ct_last_attempt_url tr) (cn_attempted r) g of
        Some g' \<Rightarrow> (ReturnResult (Inr CandidatesHandled), g')
      | None \<Rightarrow> continue g)"

definition handle_failover ::
  "execution_context \<Rightarrow> attempt_trace \<Rightarrow> loop_state \<Rightarrow> gateway_state \<Rightarrow> candidate_step \<times> gateway_state" where
  "handle_failover ctx tr ls g =
     (let ls1 = (if should_force_strip_after_anthropic_challenge ctx (ct_last_attempt_error tr)
                 then ls\<lparr>ls_force_strip := True\<rparr> else ls);
          (ls2, g') = record_failover_attempt tr ls1 g
      in (NextCandidate ls2, g'))"

definition handle_terminal ::
  "flow_env \<Rightarrow> execution_context \<Rightarrow> candidate_run \<Rightarrow> attempt_trace \<Rightarrow> nat \<Rightarrow> string \<Rightarrow> loop_state \<Rightarrow> gateway_state
    \<Rightarrow> candidate_step \<times> gateway_state" where
  "handle_terminal env ctx r tr status_code message ls g =
     (case should_failover_terminal_gateway_error env (cn_id r) (has_more_candidates ctx (cn_idx r)) message tr ls g of
        (True, ls1, g1) \<Rightarrow>
          (NextCandidate
             (if should_force_strip_after_anthropic_challenge ctx (Some message)
              then ls1\<lparr>ls_force_strip := True\<rparr> else ls1), g1)
      | (False, _, g1) \<Rightarrow> respond_terminal_attempt env ctx r tr status_code message g1)"

text \<open>Handing over the response; the guard of the account goes with it.\<close>

definition finalize_upstream_response ::
  "loop_env \<Rightarrow> execution_context \<Rightarrow> executor_params \<Rightarrow> candidate_run \<Rightarrow> attempt_trace \<Rightarrow> upstream_response
    \<Rightarrow> gateway_state \<Rightarrow> (string + unit) \<times> gateway_state" where
  "finalize_upstream_response le ctx p r tr response g =
     (case le_defer_error le of
        Some err \<Rightarrow> (Inl err, g)
      | None \<Rightarrow> (Inr (),
          g\<lparr>gs_deliveries := gs_deliveries g @
              [\<lparr>dl_status = ur_status response, dl_account = cn_id r, dl_url = ct_last_attempt_url tr,
                dl_error = ct_last_attempt_error tr, dl_model = cn_model_for_log r,
                dl_attempted = cn_attempted r, dl_client_is_stream = ep_client_is_stream p,
                dl_has_more = has_more_candidates ctx (cn_idx r)\<rparr>]\<rparr>))"

definition deliver_response ::
  "loop_env \<Rightarrow> execution_context \<Rightarrow> executor_params \<Rightarrow> candidate_run \<Rightarrow> attempt_trace \<Rightarrow> upstream_response
    \<Rightarrow> gateway_state \<Rightarrow> candidate_step \<times> gateway_state" where
  "deliver_response le ctx p r tr response g =
     (case finalize_upstream_response le ctx p r tr response g of
        (Inl err, g1) \<Rightarrow> (ReturnResult (Inl err), g1)
      | (Inr _, g1) \<Rightarrow>
          (Delivered,
           g1\<lparr>gs_bindings := snd (record_conversation_binding_terminal_response
                (rs_conversation_routing (ep_setup p)) (cn_account r) (cn_model_for_log r)
                (ur_status response) (wall_now (le_flow le) g1) (gs_bindings g1))\<rparr>))"

definition failover_with ::
  "string \<Rightarrow> attempt_trace \<Rightarrow> loop_state \<Rightarrow> gateway_state \<Rightarrow> candidate_step \<times> gateway_state" where
  "failover_with message tr ls g =
     (let (ls1, g1) = record_failover_attempt (tr\<lparr>ct_last_attempt_error := Some message\<rparr>) ls g
      in (NextCandidate ls1, g1))"

definition gs_mark_status :: "flow_env \<Rightarrow> string \<Rightarrow> nat \<Rightarrow> gateway_state \<Rightarrow> gateway_state" where
  "gs_mark_status env a status g = g\<lparr>gs_flow := flow_mark_status env a status (gs_flow g)\<rparr>"

text \<open>A refresh is queued; the marks of model rejections live for \<open>ttl\<close> seconds.\<close>

definition gs_enqueue_refresh :: "flow_env \<Rightarrow> string \<Rightarrow> gateway_state \<Rightarrow> gateway_state" where
  "gs_enqueue_refresh env a g = g\<lparr>gs_flow := log_event env (EnqueueUsageRefresh a) (gs_flow g)\<rparr>"

definition handle_preflight ::
  "loop_env \<Rightarrow> nat \<Rightarrow> execution_context \<Rightarrow> executor_params \<Rightarrow> candidate_run \<Rightarrow> attempt_trace \<Rightarrow> preflight_outcome
    \<Rightarrow> loop_state \<Rightarrow> gateway_state \<Rightarrow> candidate_step \<times> gateway_state" where
  "handle_preflight le ttl ctx p r tr outcome ls g =
     (let env = le_flow le; a = cn_id r
      in case outcome of
           PreflightReady response \<Rightarrow> deliver_response le ctx p r tr response g
         | PreflightFailover message \<Rightarrow>
             (case should_failover_terminal_gateway_error env a (has_more_candidates ctx (cn_idx r)) message tr ls g of
                (True, ls1, g1) \<Rightarrow> (NextCandidate ls1, g1)
              | (False, _, g1) \<Rightarrow> respond_terminal_attempt env ctx r tr 429 message g1)
         | PreflightModelUnsupported message response \<Rightarrow>
             (let (learned, marks) = note_account_model_unsupported ttl a (cn_model_for_log r) message
                    (nat (wall_now env g)) (gs_marks g);
                  g1 = g\<lparr>gs_marks := marks\<rparr>
              in if has_more_candidates ctx (cn_idx r)
                 then failover_with message tr ls
                        (if learned then g1 else gs_record_quality env a 400 (gs_mark_status env a 400 g1))
                 else deliver_response le ctx p r tr response g1)
         | PreflightStatusFailover status_code message \<Rightarrow>
             failover_with message tr ls (gs_record_quality env a status_code (gs_mark_status env a status_code g))
         | PreflightRetryUsageNotice message \<Rightarrow>
             failover_with message tr ls (gs_enqueue_refresh env a (gs_mark env a Default g))
         | PreflightTransportFailover message \<Rightarrow>
             failover_with message tr ls (gs_record_quality env a 502 (gs_mark env a Network g)))"

text \<open>The preflight is dropped when the client goes away before it ends.\<close>

definition run_preflight ::
  "loop_env \<Rightarrow> execution_context \<Rightarrow> executor_params \<Rightarrow> candidate_run \<Rightarrow> upstream_response \<Rightarrow> gateway_state
    \<Rightarrow> preflight_outcome option \<times> gateway_state" where
  "run_preflight le ctx p r response g =
     (let (outcome, elapsed) = preflight_stream_response (le_preflight le) (le_idle_timeout le) response
            (ep_path p) (ep_upstream_is_stream p) (has_more_candidates ctx (cn_idx r))
      in case le_cancelled_at le of
           Some c \<Rightarrow> if c \<le> gs_now g + elapsed then (None, gs_elapse (c - gs_now g) g)
                     else (Some outcome, gs_elapse elapsed g)
         | None \<Rightarrow> (Some outcome, gs_elapse elapsed g))"

definition preflight_and_deliver ::
  "loop_env \<Rightarrow> nat \<Rightarrow> execution_context \<Rightarrow> executor_params \<Rightarrow> candidate_run \<Rightarrow> attempt_trace \<Rightarrow> upstream_response
    \<Rightarrow> loop_state \<Rightarrow> gateway_state \<Rightarrow> candidate_step \<times> gateway_state" where
  "preflight_and_deliver le ttl ctx p r tr response ls g =
     (let (outcome, g1) = run_preflight le ctx p r response g
      in unless_cancelled le ctx r tr g1 (\<lambda>g2.
           case outcome of
             None \<Rightarrow> (ReturnResult (Inl ''downstream request cancelled''), g2)
           | Some x \<Rightarrow> handle_preflight le ttl ctx p r tr x ls g2))"

text \<open>
  A rejected request is sent once more without what binds it to the account, if it had any of it.
\<close>

definition handle_response ::
  "loop_env \<Rightarrow> nat \<Rightarrow> execution_context \<Rightarrow> executor_params \<Rightarrow> candidate_run \<Rightarrow> attempt_trace \<Rightarrow> upstream_response
    \<Rightarrow> loop_state \<Rightarrow> gateway_state \<Rightarrow> candidate_step \<times> gateway_state" where
  "handle_response le ttl ctx p r tr response ls g =
     (if ur_status response = 400 \<and> \<not> at_strip (cn_attempt r)
         \<and> (cn_turn_state r \<or> rs_has_body_encrypted_content (ep_setup p))
      then
        let (b, cs) = retry_body (le_body le) (ep_path p) (ep_body p) (ep_setup p) (ep_model_override p)
               (cn_prompt_cache_key r) (ls_state ls);
            ls1 = ls\<lparr>ls_state := cs\<rparr>;
            (d, tr1, g1) = run_candidate_attempt le ctx ((cn_attempt r)\<lparr>at_strip := True, at_body := b\<rparr>) tr g
        in unless_cancelled le ctx r tr1 g1 (\<lambda>g2.
             case d of
               UpstreamRespond response' \<Rightarrow> preflight_and_deliver le ttl ctx p r tr1 response' ls1 g2
             | UpstreamFailover \<Rightarrow>
                 (let (ls2, g3) = record_failover_attempt tr1 ls1 g2 in (NextCandidate ls2, g3))
             | UpstreamTerminal st msg \<Rightarrow> respond_terminal_attempt (le_flow le) ctx r tr1 st msg g2)
      else preflight_and_deliver le ttl ctx p r tr response ls g)"

definition handle_decision ::
  "loop_env \<Rightarrow> nat \<Rightarrow> execution_context \<Rightarrow> executor_params \<Rightarrow> candidate_run \<Rightarrow> candidate_upstream_decision
    \<Rightarrow> attempt_trace \<Rightarrow> loop_state \<Rightarrow> gateway_state \<Rightarrow> candidate_step \<times> gateway_state" where
  "handle_decision le ttl ctx p r d tr ls g =
     (case d of
        UpstreamFailover \<Rightarrow> handle_failover ctx tr ls g
      | UpstreamTerminal st msg \<Rightarrow> handle_terminal (le_flow le) ctx r tr st msg ls g
      | UpstreamRespond response \<Rightarrow> handle_response le ttl ctx p r tr response ls g)"

text \<open>The first attempt, and a second one on the same account after a failover.\<close>

definition attempt_candidate ::
  "loop_env \<Rightarrow> nat \<Rightarrow> execution_context \<Rightarrow> executor_params \<Rightarrow> candidate_run \<Rightarrow> loop_state \<Rightarrow> gateway_state
    \<Rightarrow> candidate_step \<times> gateway_state" where
  "attempt_candidate le ttl ctx p r ls g =
     (let (d, tr, g1) = run_candidate_attempt le ctx (cn_attempt r) attempt_trace_default g
      in unless_cancelled le ctx r tr g1 (\<lambda>g2.
           if d = UpstreamFailover \<and> should_retry_same_account_after_failover 0
           then let (d', tr', g3) = run_candidate_attempt le ctx (cn_attempt r) attempt_trace_default g2
                in unless_cancelled le ctx r tr' g3 (handle_decision le ttl ctx p r d' tr' ls)
           else handle_decision le ttl ctx p r d tr ls g2))"

section \<open>The sequence\<close>

definition should_forward_thread_anchor_as_prompt_cache_key :: "string \<Rightarrow> bool" where
  "should_forward_thread_anchor_as_prompt_cache_key protocol_type \<longleftrightarrow> protocol_type \<noteq> protocol_gemini_native"

text \<open>The run of a candidate: thread, model, cache key, body and attempt, and the state with the caches.\<close>

definition prepare_candidate ::
  "loop_env \<Rightarrow> execution_context \<Rightarrow> executor_params \<Rightarrow> nat \<Rightarrow> candidate \<Rightarrow> loop_state \<Rightarrow> candidate_run \<times> loop_state" where
  "prepare_candidate le ctx p idx c ls =
     (let acc = fst c;
          setup = ep_setup p;
          (strip, cs1) = (if ls_force_strip ls then (True, ls_state ls)
                          else strip_session_affinity acc idx (rs_anthropic_has_thread_anchor setup) (ls_state ls));
          thread = resolve_attempt_thread (rs_conversation_routing setup) acc;
          turn_state = (ep_incoming_turn_state p
            \<and> (case thread of Some th \<Rightarrow> \<not> ta_reset_session_affinity th | None \<Rightarrow> True));
          allow = (ep_allow_openai_fallback p \<and> le_plan_allows_fallback le c);
          model = (case ep_model_override p of Some m \<Rightarrow> Some m | None \<Rightarrow> ep_model_for_log p);
          cache_key = (if should_forward_thread_anchor_as_prompt_cache_key (ec_protocol_type ctx)
                       then map_option ta_thread_anchor thread else None);
          (b, cs2) = body_for_attempt (le_body le) (ep_path p) (ep_body p) strip setup (ep_model_override p)
            cache_key cs1;
          att = \<lparr>at_base = rs_upstream_base setup, at_path = ep_path p, at_url = rs_url setup,
            at_alt_url = rs_url_alt setup, at_deadline = ep_request_deadline p,
            at_request_path = ep_request_path p, at_protocol = ec_protocol_type ctx,
            at_is_stream = ep_upstream_is_stream p, at_fallback_base = rs_upstream_fallback_base setup,
            at_account = acc, at_strip = strip, at_allow_fallback = allow,
            at_disable_challenge_retry = ep_disable_challenge_stateless_retry p,
            at_has_more = has_more_candidates ctx idx, at_body = b\<rparr>
      in (\<lparr>cn_account = acc, cn_idx = idx, cn_attempt = att, cn_model_for_log = model,
           cn_prompt_cache_key = cache_key, cn_turn_state = turn_state,
           cn_attempted = ls_attempted ls @ [acc_id acc]\<rparr>,
          ls\<lparr>ls_state := cs2\<rparr>))"

definition release_guard :: "string \<Rightarrow> candidate_step \<times> gateway_state \<Rightarrow> candidate_step \<times> gateway_state" where
  "release_guard guard x =
     (case x of
        (Delivered, g) \<Rightarrow> (Delivered, g)
      | (other, g) \<Rightarrow> (other, g\<lparr>gs_inflight := drop_account_inflight guard (gs_inflight g)\<rparr>))"

definition execute_candidate ::
  "loop_env \<Rightarrow> nat \<Rightarrow> execution_context \<Rightarrow> executor_params \<Rightarrow> nat \<Rightarrow> candidate \<Rightarrow> loop_state \<Rightarrow> gateway_state
    \<Rightarrow> candidate_step \<times> gateway_state" where
  "execute_candidate le ttl ctx p idx c ls g =
     (case finalize_cancelled_candidate le ctx
             (if ls_attempted ls = [] then None else Some (last (ls_attempted ls)))
             (ls_last_attempt_url ls) (ls_attempted ls) g of
        Some g' \<Rightarrow> (ReturnResult (Inr CandidatesHandled), g')
      | None \<Rightarrow>
        if is_expired (ep_request_deadline p) (gs_now g)
        then (ReturnResult (Inr CandidatesHandled),
              respond_total_timeout ctx (ep_model_for_log p) (ls_attempted ls) g)
        else
          let (r, ls1) = prepare_candidate le ctx p idx c ls;
              (skip, g1) = should_skip_candidate (le_flow le) ctx (cn_id r) idx g
          in case skip of
               Some SkipCooldown \<Rightarrow> (NextCandidate (ls1\<lparr>ls_skipped_cooldown := ls_skipped_cooldown ls1 + 1\<rparr>), g1)
             | Some SkipInflight \<Rightarrow> (NextCandidate (ls1\<lparr>ls_skipped_inflight := ls_skipped_inflight ls1 + 1\<rparr>), g1)
             | None \<Rightarrow>
                 (let (guard, inflight) = acquire_account_inflight (cn_id r) (gs_inflight g1);
                      g2 = g1\<lparr>gs_inflight := inflight,
                              gs_flow := (gs_flow g1)\<lparr>fs_token := snd c\<rparr>\<rparr>
                  in release_guard guard
                       (attempt_candidate le ttl ctx p r (ls1\<lparr>ls_attempted := cn_attempted r\<rparr>) g2)))"

fun candidate_sequence ::
  "loop_env \<Rightarrow> nat \<Rightarrow> execution_context \<Rightarrow> executor_params \<Rightarrow> nat \<Rightarrow> candidate list \<Rightarrow> loop_state \<Rightarrow> gateway_state
    \<Rightarrow> (string + candidate_execution_result) \<times> gateway_state" where
  "candidate_sequence le ttl ctx p idx [] ls g = (Inr (CandidatesExhausted ls), g)"
| "candidate_sequence le ttl ctx p idx (c # cs) ls g =
     (case execute_candidate le ttl ctx p idx c ls g of
        (NextCandidate ls', g') \<Rightarrow> candidate_sequence le ttl ctx p (Suc idx) cs ls' g'
      | (ReturnResult result, g') \<Rightarrow> (result, g')
      | (Delivered, g') \<Rightarrow> (Inr CandidatesHandled, g'))"

definition execute_candidate_sequence ::
  "loop_env \<Rightarrow> nat \<Rightarrow> execution_context \<Rightarrow> executor_params \<Rightarrow> candidate list \<Rightarrow> gateway_state
    \<Rightarrow> (string + candidate_execution_result) \<times> gateway_state" where
  "execute_candidate_sequence le ttl ctx p candidates g =
     candidate_sequence le ttl ctx p 0 candidates loop_start g"

end
