(* ===== verification/CandidateSafety.thy ===== *)
theory CandidateSafety
  imports CandidateLoop "HOL-Library.Sublist"
begin

text \<open>
  What the sequence of candidates guarantees: bounded work on the accounts it tries, one answer to
  the client, and an answer from the last candidate at the latest.
\<close>

section \<open>One attempt\<close>

text \<open>
  The wall clock is monotone, and an attempt dropped half way has done part of what it may do,
  until the client went away.
\<close>

definition loop_ok :: "loop_env \<Rightarrow> bool" where
  "loop_ok le \<longleftrightarrow> wall_monotone (le_flow le) \<and>
     (\<forall>att s. flow_ext (le_flow le) (at_id att) 6 s (le_dropped le att s)
        \<and> (\<forall>c. le_cancelled_at le = Some c \<longrightarrow> c \<le> fs_now (le_dropped le att s)))"

text \<open>What no attempt changes: the log, the deliveries, the guards, the bindings.\<close>

definition quiet :: "gateway_state \<Rightarrow> gateway_state \<Rightarrow> bool" where
  "quiet g g' \<longleftrightarrow> gs_log g' = gs_log g \<and> gs_deliveries g' = gs_deliveries g \<and> gs_inflight g' = gs_inflight g"

lemma quiet_refl [simp]: "quiet g g"
  by (simp add: quiet_def)

lemma quiet_trans: "quiet g g1 \<Longrightarrow> quiet g1 g2 \<Longrightarrow> quiet g g2"
  by (simp add: quiet_def)

definition progress :: "flow_env \<Rightarrow> string \<Rightarrow> nat \<Rightarrow> gateway_state \<Rightarrow> gateway_state \<Rightarrow> bool" where
  "progress env a n g g' \<longleftrightarrow> only_touches env {a} g g' \<and>
     (\<exists>sent. fs_sent (gs_flow g') = fs_sent (gs_flow g) @ sent \<and> length sent \<le> n)"

lemma progress_trans:
  assumes "wall_monotone env" and 1: "progress env a m g g1" and 2: "progress env a n g1 g2" and "m + n \<le> k"
  shows "progress env a k g g2"
proof -
  from 1 obtain x where x: "fs_sent (gs_flow g1) = fs_sent (gs_flow g) @ x" "length x \<le> m"
    by (auto simp: progress_def)
  from 2 obtain y where y: "fs_sent (gs_flow g2) = fs_sent (gs_flow g1) @ y" "length y \<le> n"
    by (auto simp: progress_def)
  have "only_touches env {a} g g2"
    using touches_trans [OF assms(1) _ _ order_refl order_refl] 1 2 by (auto simp: progress_def)
  moreover have "fs_sent (gs_flow g2) = fs_sent (gs_flow g) @ x @ y" "length (x @ y) \<le> k"
    using x y assms(4) by simp_all
  ultimately show ?thesis unfolding progress_def by blast
qed

lemma progress_quietly: "only_touches env {a} g g' \<Longrightarrow> fs_sent (gs_flow g') = fs_sent (gs_flow g) \<Longrightarrow> progress env a n g g'"
  by (auto simp: progress_def)

lemma progress_mono: "progress env a m g g' \<Longrightarrow> m \<le> n \<Longrightarrow> progress env a n g g'"
  unfolding progress_def by (meson order_trans)

lemma refresh_error_other:
  "k \<noteq> a \<Longrightarrow> ss_accounts (snd (mark_account_unavailable_for_refresh_token_error f a err t s)) k = ss_accounts s k"
  by (auto simp: mark_account_unavailable_for_refresh_token_error_def set_account_unavailable_with_reason_def
      set_status_accounts split: option.splits availability_signal.splits)

lemma absorb_step:
  assumes "t \<le> wall_now env g" and "event_about a e" and "absorb_event le a (t, e) (tr, g) = (tr', g')"
  shows "only_touches env {a} g g' \<and> quiet g g' \<and> gs_flow g' = gs_flow g"
proof (cases e)
  case (GatewayResult url st err)
  with assms show ?thesis by (auto simp: quiet_def intro: touches_record_at)
next
  case (EnqueueUsageRefresh k)
  with assms show ?thesis by (auto simp: quiet_def)
next
  case (RefreshTokenError k err)
  with assms show ?thesis by (auto simp: quiet_def intro!: touches_status refresh_error_other)
qed

lemma absorb_events:
  assumes "wall_monotone env" and "\<forall>(t, e)\<in>set ev. t \<le> wall_now env g \<and> event_about a e"
    and "fold (absorb_event le a) ev (tr, g) = (tr', g')"
  shows "only_touches env {a} g g' \<and> quiet g g' \<and> gs_flow g' = gs_flow g"
  using assms(2,3)
proof (induction ev arbitrary: tr g)
  case Nil
  then show ?case by simp
next
  case (Cons x ev)
  obtain t e where x: "x = (t, e)" by fastforce
  obtain tr1 g1 where 1: "absorb_event le a (t, e) (tr, g) = (tr1, g1)" by fastforce
  have s: "only_touches env {a} g g1 \<and> quiet g g1 \<and> gs_flow g1 = gs_flow g"
    using absorb_step [where env = env, OF _ _ 1] Cons.prems(1) x by simp
  then have "wall_now env g1 = wall_now env g" by (simp add: wall_now_def)
  then have "only_touches env {a} g1 g' \<and> quiet g1 g' \<and> gs_flow g' = gs_flow g1"
    using Cons.IH [of g1 tr1] Cons.prems x 1 by simp
  with s show ?case
    using touches_trans [OF assms(1) _ _ order_refl order_refl] quiet_trans by metis
qed

lemma run_attempt_ok:
  assumes "loop_ok le" and "run_candidate_attempt le ctx att tr g = (d, tr', g')"
  shows "progress (le_flow le) (at_id att) 6 g g' \<and> quiet g g' \<and>
    (d = UpstreamFailover \<longrightarrow> at_has_more att \<and> cools_now (le_flow le) (at_id att) (gs_flow g'))"
proof -
  let ?env = "le_flow le" and ?a = "at_id att"
  have w: "wall_monotone ?env" using assms(1) by (simp add: loop_ok_def)
  let ?kind = "resolve_gateway_upstream_executor_kind (ec_protocol_type ctx)"
  obtain d1 s1 where e: "execute_candidate_upstream_flow ?kind ?env att (gs_flow g) = (d1, s1)" by fastforce
  obtain s' where s': "flow_ext ?env ?a 6 (gs_flow g) s'"
      "d = UpstreamFailover \<longrightarrow> at_has_more att \<and> cools_now ?env ?a s'"
    and f: "fold (absorb_event le ?a) (drop (length (fs_events (gs_flow g))) (fs_events s')) (tr, g\<lparr>gs_flow := s'\<rparr>) = (tr', g')"
  proof (cases "cancelled_by le (fs_now s1)")
    case True
    have "flow_ext ?env ?a 6 (gs_flow g) (le_dropped le att (gs_flow g))" using assms(1) by (simp add: loop_ok_def)
    then show ?thesis
      using that [of "le_dropped le att (gs_flow g)"] assms(2) True
      by (auto simp: run_candidate_attempt_def e Let_def split: prod.splits)
  next
    case False
    have "attempt_ok ?env att 6 (gs_flow g) (d1, s1)"
      using execute_candidate_ok [OF w, of att "gs_flow g" ?kind] e by simp
    then show ?thesis
      using that [of s1] assms(2) False
      by (auto simp: run_candidate_attempt_def e Let_def attempt_ok_def split: prod.splits)
  qed
  from s'(1) obtain ev where ev: "fs_events s' = fs_events (gs_flow g) @ ev"
    "\<forall>(t, e)\<in>set ev. t \<le> fe_wall ?env (fs_now s') \<and> event_about ?a e"
    by (auto simp: flow_ext_def)
  have a: "only_touches ?env {?a} (g\<lparr>gs_flow := s'\<rparr>) g' \<and> quiet (g\<lparr>gs_flow := s'\<rparr>) g' \<and> gs_flow g' = s'"
    using absorb_events [OF w, of ev "g\<lparr>gs_flow := s'\<rparr>" ?a le tr tr' g'] f ev by (simp add: wall_now_def)
  have t: "only_touches ?env {?a} g (g\<lparr>gs_flow := s'\<rparr>)" using touches_flow [OF s'(1)] by simp
  have "only_touches ?env {?a} g g'"
    using touches_trans [OF w t _ order_refl order_refl] a by blast
  moreover have "\<exists>sent. fs_sent s' = fs_sent (gs_flow g) @ sent \<and> length sent \<le> 6"
    using s'(1) by (auto simp: flow_ext_def)
  ultimately show ?thesis using a s'(2) by (auto simp: progress_def quiet_def)
qed

section \<open>One candidate\<close>

text \<open>Why a request moves on from an account.\<close>

definition at_fault :: "loop_env \<Rightarrow> candidate_run \<Rightarrow> loop_state \<Rightarrow> gateway_state \<Rightarrow> bool" where
  "at_fault le r ls g \<longleftrightarrow>
     cools_now (le_flow le) (cn_id r) (gs_flow g)
     \<or> (\<exists>msg. ls_last_attempt_error ls = Some msg \<and>
          (deactivation_reason_from_message msg \<noteq> None \<or>
           (\<exists>m. rejected_model msg = Some m \<and> map_option trim (trimmed_nonempty (cn_model_for_log r)) = Some (trim m))))"

abbreviation same_counts :: "loop_state \<Rightarrow> loop_state \<Rightarrow> bool" where
  "same_counts ls ls' \<equiv> ls_attempted ls' = ls_attempted ls \<and> ls_skipped_cooldown ls' = ls_skipped_cooldown ls
     \<and> ls_skipped_inflight ls' = ls_skipped_inflight ls"

text \<open>How a candidate may end, given the loop state and the gateway before it.\<close>

definition step_ok ::
  "loop_env \<Rightarrow> execution_context \<Rightarrow> candidate_run \<Rightarrow> loop_state \<Rightarrow> gateway_state \<Rightarrow> candidate_step \<times> gateway_state \<Rightarrow> bool" where
  "step_ok le ctx r ls g x \<longleftrightarrow>
     (case x of
        (NextCandidate ls', g') \<Rightarrow> quiet g g' \<and> same_counts ls ls' \<and> has_more_candidates ctx (cn_idx r) \<and> at_fault le r ls' g'
      | (ReturnResult (Inr CandidatesHandled), g') \<Rightarrow>
          (\<exists>row. gs_log g' = gs_log g @ [row] \<and> fr_attempted row = cn_attempted r)
          \<and> gs_deliveries g' = gs_deliveries g \<and> gs_inflight g' = gs_inflight g
      | (ReturnResult (Inr (CandidatesExhausted _)), g') \<Rightarrow> False
      | (ReturnResult (Inl err), g') \<Rightarrow> quiet g g' \<and> le_defer_error le = Some err
      | (Delivered, g') \<Rightarrow> gs_log g' = gs_log g \<and> gs_inflight g' = gs_inflight g
          \<and> (\<exists>d. gs_deliveries g' = gs_deliveries g @ [d] \<and> dl_account d = cn_id r \<and> dl_attempted d = cn_attempted r))"

definition candidate_ok ::
  "loop_env \<Rightarrow> execution_context \<Rightarrow> candidate_run \<Rightarrow> nat \<Rightarrow> loop_state \<Rightarrow> gateway_state \<Rightarrow> candidate_step \<times> gateway_state \<Rightarrow> bool" where
  "candidate_ok le ctx r n ls g x \<longleftrightarrow> progress (le_flow le) (cn_id r) n g (snd x) \<and> step_ok le ctx r ls g x"

lemma step_ok_quiet:
  assumes "quiet g g1" and "same_counts ls ls1" and "step_ok le ctx r ls1 g1 x"
  shows "step_ok le ctx r ls g x"
  using assms by (auto simp: step_ok_def quiet_def split: prod.splits candidate_step.splits sum.splits
      candidate_execution_result.splits)

lemma candidate_ok_after:
  assumes "loop_ok le" and "progress (le_flow le) (cn_id r) m g g1" and "quiet g g1" and "same_counts ls ls1"
    and "candidate_ok le ctx r n ls1 g1 x" and "m + n \<le> k"
  shows "candidate_ok le ctx r k ls g x"
  using assms progress_trans [of "le_flow le" "cn_id r" m g g1 n "snd x" k] step_ok_quiet [OF assms(3,4), of le ctx r x]
  by (auto simp: candidate_ok_def loop_ok_def)

lemma log_final_answers:
  "\<exists>row. gs_log (log_final_result_with_model ctx acc url m st err att g) = gs_log g @ [row] \<and> fr_attempted row = att"
  "gs_deliveries (log_final_result_with_model ctx acc url m st err att g) = gs_deliveries g"
  "gs_inflight (log_final_result_with_model ctx acc url m st err att g) = gs_inflight g"
  "gs_flow (log_final_result_with_model ctx acc url m st err att g) = gs_flow g"
  by (simp_all add: log_final_result_with_model_def Let_def)

lemma unless_cancelled_ok:
  assumes "loop_ok le" and "\<not> cancelled_by le (gs_now g) \<Longrightarrow> candidate_ok le ctx r n ls g (k g)"
  shows "candidate_ok le ctx r n ls g (unless_cancelled le ctx r tr g k)"
proof (cases "cancelled_by le (gs_now g)")
  case True
  have "only_touches (le_flow le) {cn_id r} g
      (log_final_result ctx (Some (cn_id r)) (ct_last_attempt_url tr) 499 (Some ''downstream request cancelled'') (cn_attempted r) g)"
    by simp
  then show ?thesis using True log_final_answers
    by (auto simp: unless_cancelled_def finalize_cancelled_candidate_def candidate_ok_def step_ok_def
        log_final_result_def intro!: progress_quietly)
next
  case False
  then show ?thesis using assms(2) by (simp add: unless_cancelled_def finalize_cancelled_candidate_def)
qed

lemma respond_terminal_ok:
  "candidate_ok le ctx r n ls g (respond_terminal_attempt (le_flow le) ctx r tr st msg g)"
proof -
  let ?g = "gs_mark_unavailable (le_flow le) (cn_id r) msg g"
  have t: "only_touches (le_flow le) {cn_id r} g ?g" by auto
  have k: "gs_log ?g = gs_log g" "gs_deliveries ?g = gs_deliveries g" "gs_inflight ?g = gs_inflight g"
    "gs_flow ?g = gs_flow g"
    by (simp_all add: gs_mark_unavailable_def)
  have "only_touches (le_flow le) {cn_id r} g (finalize_terminal_candidate (le_flow le) ctx (cn_id r)
      (ct_last_attempt_url tr) st msg (cn_model_for_log r) (cn_attempted r) g)"
    using t k(4) by (simp add: finalize_terminal_candidate_def only_touches_def wall_now_def
        log_final_result_with_model_def Let_def)
  then show ?thesis
    using k
    by (auto simp: respond_terminal_attempt_def candidate_ok_def step_ok_def finalize_terminal_candidate_def
        log_final_result_with_model_def Let_def intro!: progress_quietly)
qed

lemma failover_attempt_quiet:
  "record_failover_attempt tr ls g = (ls', g') \<Longrightarrow> quiet g g' \<and> gs_flow g' = gs_flow g \<and>
     only_touches env A g g' \<and> same_counts ls ls' \<and> ls_last_attempt_error ls' = ct_last_attempt_error tr"
  by (auto simp: record_failover_attempt_def quiet_def)

lemma next_candidate_ok:
  assumes "loop_ok le" and "progress (le_flow le) (cn_id r) n g g'" and "quiet g g'"
    and "has_more_candidates ctx (cn_idx r)" and "same_counts ls ls'" and "at_fault le r ls' g'"
  shows "candidate_ok le ctx r n ls g (NextCandidate ls', g')"
  using assms by (simp add: candidate_ok_def step_ok_def)

lemma handle_failover_ok:
  assumes "loop_ok le" and "has_more_candidates ctx (cn_idx r)" and "cools_now (le_flow le) (cn_id r) (gs_flow g)"
  shows "candidate_ok le ctx r n ls g (handle_failover ctx tr ls g)"
proof -
  let ?ls = "if should_force_strip_after_anthropic_challenge ctx (ct_last_attempt_error tr)
    then ls\<lparr>ls_force_strip := True\<rparr> else ls"
  obtain ls2 g' where e: "record_failover_attempt tr ?ls g = (ls2, g')" by fastforce
  note f = failover_attempt_quiet [OF e, of "le_flow le" "{cn_id r}"]
  have "progress (le_flow le) (cn_id r) n g g'" using f by (auto intro: progress_quietly)
  moreover have "same_counts ls ls2" using f by simp
  moreover have "at_fault le r ls2 g'" using f assms(3) by (simp add: at_fault_def)
  ultimately show ?thesis
    using next_candidate_ok [OF assms(1) _ _ assms(2)] f e by (simp add: handle_failover_def Let_def)
qed

lemma cools_after_mark [simp]: "cools_now env a (gs_flow (gs_mark env a reason g))"
  by (simp add: gs_mark_def)

lemma terminal_failover_ok:
  assumes l: "loop_ok le" and "should_failover_terminal_gateway_error (le_flow le) (cn_id r) hm msg tr ls g = (b, ls', g')"
  shows "progress (le_flow le) (cn_id r) n g g' \<and> quiet g g' \<and> (b \<longrightarrow> hm \<and> same_counts ls ls'
    \<and> at_fault le r ls' g' \<and> at_fault le r (ls'\<lparr>ls_force_strip := True\<rparr>) g')"
proof -
  let ?env = "le_flow le" and ?a = "cn_id r"
  have w: "wall_monotone ?env" using l by (simp add: loop_ok_def)
  let ?f = "analyze_gateway_error msg hm"
  let ?g1 = "snd (apply_gateway_error_follow_up ?env ?a msg hm g)"
  have t: "only_touches ?env {?a} g ?g1" by (rule touches_follow_up [OF w]) simp
  have k: "quiet g ?g1" "fs_sent (gs_flow ?g1) = fs_sent (gs_flow g)"
    by (simp_all add: quiet_def apply_gateway_error_follow_up_def Let_def gs_mark_def gs_mark_unavailable_def flow_mark_def)
  have e: "(b, ls', g') = (if \<not> gf_should_failover ?f then (False, ls, ?g1)
      else (True, ls\<lparr>ls_last_attempt_url := ct_last_attempt_url tr, ls_last_attempt_error := Some msg\<rparr>,
            ?g1\<lparr>gs_failover_attempts := gs_failover_attempts ?g1 + 1\<rparr>))"
  proof -
    have f: "apply_gateway_error_follow_up ?env ?a msg hm g = (?f, ?g1)"
      by (simp add: apply_gateway_error_follow_up_def Let_def)
    show ?thesis
      using assms(2) unfolding should_failover_terminal_gateway_error_def by (subst (asm) f) (simp add: Let_def)
  qed
  have c: "cools_now ?env ?a (gs_flow ?g1) \<or> deactivation_reason_from_message msg \<noteq> None" and c2: "hm"
    if "gf_should_failover ?f"
  proof -
    have "cools_now ?env ?a (gs_flow (gs_mark_unavailable ?env ?a msg g)) = cools_now ?env ?a (gs_flow g)" for g
      by (simp add: gs_mark_unavailable_def)
    then show "cools_now ?env ?a (gs_flow ?g1) \<or> deactivation_reason_from_message msg \<noteq> None" "hm"
      using that by (auto simp: apply_gateway_error_follow_up_def Let_def analyze_gateway_error_def split: if_splits)
  qed
  have p: "progress ?env ?a n g ?g1" using t k(2) by (rule progress_quietly)
  show ?thesis
  proof (cases "gf_should_failover ?f")
    case False
    with e p k show ?thesis by simp
  next
    case True
    then have g': "g' = ?g1\<lparr>gs_failover_attempts := gs_failover_attempts ?g1 + 1\<rparr>" "b"
      "ls' = ls\<lparr>ls_last_attempt_url := ct_last_attempt_url tr, ls_last_attempt_error := Some msg\<rparr>"
      using e by simp_all
    have "progress ?env ?a 0 ?g1 g'" using g' by (auto intro!: progress_quietly)
    then have "progress ?env ?a n g g'" using progress_trans [OF w p] by simp
    then show ?thesis using g' k(1) c [OF True] c2 [OF True] by (auto simp: quiet_def at_fault_def)
  qed
qed

lemma handle_terminal_ok:
  assumes "loop_ok le"
  shows "candidate_ok le ctx r n ls g (handle_terminal (le_flow le) ctx r tr st msg ls g)"
proof -
  define hm where "hm = has_more_candidates ctx (cn_idx r)"
  obtain b ls1 g1 where e: "should_failover_terminal_gateway_error (le_flow le) (cn_id r) hm msg tr ls g
      = (b, ls1, g1)" by (metis prod_cases3)
  note f = terminal_failover_ok [OF assms e, of n] and f0 = terminal_failover_ok [OF assms e, of 0]
  show ?thesis
  proof (cases b)
    case True
    let ?ls = "if should_force_strip_after_anthropic_challenge ctx (Some msg) then ls1\<lparr>ls_force_strip := True\<rparr> else ls1"
    have "same_counts ls ?ls" "at_fault le r ?ls g1" using f True by simp_all
    with next_candidate_ok [OF assms, where r = r and n = n and ctx = ctx and ls = ls and ls' = ?ls] f True
    show ?thesis unfolding handle_terminal_def hm_def [symmetric] e by (simp add: hm_def [symmetric])
  next
    case False
    then show ?thesis
      using candidate_ok_after [OF assms _ _ _ respond_terminal_ok [where ls = ls], where m = 0 and n = n and k = n] f0
      unfolding handle_terminal_def hm_def [symmetric] e by simp
  qed
qed

lemma deliver_response_ok:
  "candidate_ok le ctx r n ls g (deliver_response le ctx p r tr response g)"
proof (cases "le_defer_error le")
  case None
  have t: "progress (le_flow le) (cn_id r) n g (g\<lparr>gs_deliveries := ds, gs_bindings := bs\<rparr>)" for ds bs
    by (rule progress_quietly) (simp_all add: only_touches_def wall_now_def)
  show ?thesis
    by (simp add: None deliver_response_def finalize_upstream_response_def candidate_ok_def step_ok_def t)
next
  case (Some err)
  then show ?thesis
    by (auto simp: deliver_response_def finalize_upstream_response_def candidate_ok_def step_ok_def
        intro!: progress_quietly)
qed

lemma progress_steps:
  "progress env a n g (gs_mark env a reason g)" "quiet g (gs_mark env a reason g)"
  "progress env a n g (gs_record_quality env a st g)" "quiet g (gs_record_quality env a st g)"
  "progress env a n g (gs_mark_status env a st g)" "quiet g (gs_mark_status env a st g)"
  "progress env a n g (gs_enqueue_refresh env a g)" "quiet g (gs_enqueue_refresh env a g)"
proof -
  have "only_touches env {a} g (gs_mark_status env a st g)" "only_touches env {a} g (gs_enqueue_refresh env a g)"
    unfolding gs_mark_status_def gs_enqueue_refresh_def
    by (rule touches_flow [of env a 0], simp_all add: ext_event)+
  then show "progress env a n g (gs_mark env a reason g)" "quiet g (gs_mark env a reason g)"
  "progress env a n g (gs_record_quality env a st g)" "quiet g (gs_record_quality env a st g)"
  "progress env a n g (gs_mark_status env a st g)" "quiet g (gs_mark_status env a st g)"
  "progress env a n g (gs_enqueue_refresh env a g)" "quiet g (gs_enqueue_refresh env a g)"
    by (auto simp: quiet_def gs_mark_def gs_record_quality_def gs_mark_status_def gs_enqueue_refresh_def
        flow_mark_def flow_mark_status_def log_event_def intro!: progress_quietly
        intro: touches_mark [unfolded gs_mark_def flow_mark_def] touches_record [unfolded gs_record_quality_def])
qed

lemma cools_after_steps [simp]:
  "cools_now env a (gs_flow (gs_record_quality env b st g)) = cools_now env a (gs_flow g)"
  "cools_now env a (gs_flow (gs_mark_status env a st g))"
  "cools_now env a (gs_flow (gs_enqueue_refresh env b g)) = cools_now env a (gs_flow g)"
  by (simp_all add: gs_record_quality_def gs_mark_status_def gs_enqueue_refresh_def log_event_def
      flow_mark_status_def mark_account_cooldown_for_status_def cools_now_def mark_cools_now)

lemma failover_with_ok:
  assumes l: "loop_ok le" and "has_more_candidates ctx (cn_idx r)" and p: "progress (le_flow le) (cn_id r) n g g1"
    and "quiet g g1"
    and f: "cools_now (le_flow le) (cn_id r) (gs_flow g1)
      \<or> (\<exists>m. rejected_model message = Some m
           \<and> map_option trim (trimmed_nonempty (cn_model_for_log r)) = Some (trim m))"
  shows "candidate_ok le ctx r n ls g (failover_with message tr ls g1)"
proof -
  obtain ls1 g2 where e: "record_failover_attempt (tr\<lparr>ct_last_attempt_error := Some message\<rparr>) ls g1 = (ls1, g2)"
    by fastforce
  note q = failover_attempt_quiet [OF e, of "le_flow le" "{cn_id r}"]
  have "progress (le_flow le) (cn_id r) 0 g1 g2" using q by (auto intro: progress_quietly)
  then have "progress (le_flow le) (cn_id r) n g g2"
    using progress_trans [OF _ p] l by (simp add: loop_ok_def)
  moreover have "at_fault le r ls1 g2" using q f by (auto simp: at_fault_def)
  ultimately show ?thesis
    using next_candidate_ok [OF l _ _ assms(2)] q quiet_trans [OF assms(4)] e by (simp add: failover_with_def)
qed

lemma preflight_last_delivers:
  assumes "preflight_stream_response pe idle response path us False = (x, t)"
  shows "(\<exists>y. x = PreflightReady y) \<or> (\<exists>m y. x = PreflightModelUnsupported m y)"
proof (cases "ur_status response = 400")
  case True
  obtain z elapsed where p: "prefetch_response (Some (opt_min idle (from_millis 2000)))
      (Some (opt_min (Some stream_preflight_wall_clock_timeout) stream_preflight_wall_clock_timeout))
      (\<lambda>_. False) response = (z, elapsed)" by fastforce
  obtain body y trm where z: "z = (body, y, trm)" by (metis prod_cases3)
  let ?m = "if trm = PrefetchEof then account_model_rejection_message (pe_parse pe body) else None"
  have "x = (case ?m of Some message \<Rightarrow> PreflightModelUnsupported message y | None \<Rightarrow> PreflightReady y)"
    using assms True p z
    unfolding preflight_stream_response_def preflight_stream_response_with_timeouts_def Let_def
    by (auto cong: option.case_cong)
  then show ?thesis by (cases ?m) simp_all
next
  case False
  with assms have "x = PreflightReady response"
    by (simp add: preflight_stream_response_def preflight_stream_response_with_timeouts_def Let_def)
  then show ?thesis by simp
qed

lemma note_model_learns:
  "note_account_model_unsupported ttl a model message now marks = (learned, marks') \<Longrightarrow>
     (learned \<longrightarrow> (\<exists>m. rejected_model message = Some m \<and> map_option trim (trimmed_nonempty model) = Some (trim m)))
     \<and> (\<forall>key. (\<forall>m. key \<noteq> mark_key a m) \<longrightarrow> marks' key = marks key)"
  by (auto simp: note_account_model_unsupported_def mark_unsupported_with_ttl_def
      split: option.splits if_splits)

lemma handle_preflight_ok:
  assumes l: "loop_ok le"
    and hm: "has_more_candidates ctx (cn_idx r) \<or> (\<exists>y. x = PreflightReady y) \<or> (\<exists>m y. x = PreflightModelUnsupported m y)"
  shows "candidate_ok le ctx r n ls g (handle_preflight le ttl ctx p r tr x ls g)"
proof (cases x)
  case (PreflightReady y)
  then show ?thesis by (simp add: handle_preflight_def Let_def deliver_response_ok)
next
  case (PreflightFailover msg)
  obtain b ls1 g1 where e: "should_failover_terminal_gateway_error (le_flow le) (cn_id r)
      (has_more_candidates ctx (cn_idx r)) msg tr ls g = (b, ls1, g1)" by (metis prod_cases3)
  note f = terminal_failover_ok [OF l e, of n] and f0 = terminal_failover_ok [OF l e, of 0]
  show ?thesis
  proof (cases b)
    case True
    with f have "candidate_ok le ctx r n ls g (NextCandidate ls1, g1)"
      by (intro next_candidate_ok [OF l]) simp_all
    with True show ?thesis
      unfolding handle_preflight_def PreflightFailover Let_def preflight_outcome.case e by simp
  next
    case False
    have "candidate_ok le ctx r n ls g (respond_terminal_attempt (le_flow le) ctx r tr 429 msg g1)"
      using candidate_ok_after [OF l _ _ _ respond_terminal_ok [where ls = ls], where m = 0 and n = n and k = n] f0
      by simp
    with False show ?thesis
      unfolding handle_preflight_def PreflightFailover Let_def preflight_outcome.case e by simp
  qed
next
  case (PreflightStatusFailover st msg)
  let ?g1 = "gs_mark_status (le_flow le) (cn_id r) st g"
  let ?g2 = "gs_record_quality (le_flow le) (cn_id r) st ?g1"
  have "progress (le_flow le) (cn_id r) n g ?g2" "quiet g ?g2"
    using progress_trans [OF _ progress_steps(5) progress_steps(3), of "le_flow le" n 0 n] l
      quiet_trans [OF progress_steps(6) progress_steps(4)] by (auto simp: loop_ok_def)
  then show ?thesis
    using failover_with_ok [OF l, where r = r and ctx = ctx and n = n and ls = ls] hm PreflightStatusFailover
    by (simp add: handle_preflight_def Let_def)
next
  case (PreflightRetryUsageNotice msg)
  let ?g1 = "gs_mark (le_flow le) (cn_id r) Default g"
  let ?g2 = "gs_enqueue_refresh (le_flow le) (cn_id r) ?g1"
  have "progress (le_flow le) (cn_id r) n g ?g2" "quiet g ?g2"
    using progress_trans [OF _ progress_steps(1) progress_steps(7), of "le_flow le" n 0 n] l
      quiet_trans [OF progress_steps(2) progress_steps(8)] by (auto simp: loop_ok_def)
  then show ?thesis
    using failover_with_ok [OF l, where r = r and ctx = ctx and n = n and ls = ls] hm PreflightRetryUsageNotice
    by (simp add: handle_preflight_def Let_def)
next
  case (PreflightTransportFailover msg)
  let ?g1 = "gs_mark (le_flow le) (cn_id r) Network g"
  let ?g2 = "gs_record_quality (le_flow le) (cn_id r) 502 ?g1"
  have "progress (le_flow le) (cn_id r) n g ?g2" "quiet g ?g2"
    using progress_trans [OF _ progress_steps(1) progress_steps(3), of "le_flow le" n 0 n] l
      quiet_trans [OF progress_steps(2) progress_steps(4)] by (auto simp: loop_ok_def)
  then show ?thesis
    using failover_with_ok [OF l, where r = r and ctx = ctx and n = n and ls = ls] hm PreflightTransportFailover
    by (simp add: handle_preflight_def Let_def)
next
  case (PreflightModelUnsupported msg y)
  let ?env = "le_flow le" and ?a = "cn_id r"
  obtain learned marks where e: "note_account_model_unsupported ttl ?a (cn_model_for_log r) msg
      (nat (wall_now ?env g)) (gs_marks g) = (learned, marks)" by fastforce
  let ?g1 = "g\<lparr>gs_marks := marks\<rparr>"
  let ?g2 = "if learned then ?g1 else gs_record_quality ?env ?a 400 (gs_mark_status ?env ?a 400 ?g1)"
  note nl = note_model_learns [OF e]
  have p1: "progress ?env ?a n g ?g1" "quiet g ?g1" for n
    using nl by (auto simp: quiet_def intro!: progress_quietly touches_marks)
  have w: "wall_monotone ?env" using l by (simp add: loop_ok_def)
  have p2: "progress ?env ?a 0 ?g1 (gs_record_quality ?env ?a 400 (gs_mark_status ?env ?a 400 ?g1))"
    by (rule progress_trans [OF w progress_steps(5) [where n = 0] progress_steps(3) [where n = 0]]) simp
  have "progress ?env ?a n g ?g2" "quiet g ?g2"
    using p1 progress_trans [OF w p1(1) p2, of n n]
      quiet_trans [OF p1(2) quiet_trans [OF progress_steps(6) progress_steps(4)]] by auto
  moreover have "cools_now ?env ?a (gs_flow ?g2) \<or> (\<exists>m. rejected_model msg = Some m
      \<and> map_option trim (trimmed_nonempty (cn_model_for_log r)) = Some (trim m))"
    using nl by simp
  ultimately have "candidate_ok le ctx r n ls g (failover_with msg tr ls ?g2)"
    if "has_more_candidates ctx (cn_idx r)"
    using failover_with_ok [OF l that] by blast
  moreover have "candidate_ok le ctx r n ls g (deliver_response le ctx p r tr y ?g1)"
    using candidate_ok_after [OF l p1(1) [of 0] p1(2) _ deliver_response_ok [where ls = ls and n = n], where k = n] by simp
  ultimately show ?thesis by (simp add: handle_preflight_def Let_def PreflightModelUnsupported e)
qed

lemma preflight_and_deliver_ok:
  assumes l: "loop_ok le"
  shows "candidate_ok le ctx r n ls g (preflight_and_deliver le ttl ctx p r tr response ls g)"
proof -
  obtain x t where x: "preflight_stream_response (le_preflight le) (le_idle_timeout le) response (ep_path p)
      (ep_upstream_is_stream p) (has_more_candidates ctx (cn_idx r)) = (x, t)" by fastforce
  have hm: "has_more_candidates ctx (cn_idx r) \<or> (\<exists>y. x = PreflightReady y) \<or> (\<exists>m y. x = PreflightModelUnsupported m y)"
  proof (cases "has_more_candidates ctx (cn_idx r)")
    case False
    with x show ?thesis using preflight_last_delivers by simp
  qed simp
  obtain outcome g1 where o: "run_preflight le ctx p r response g = (outcome, g1)" by fastforce
  have cases: "(outcome = None \<and> cancelled_by le (gs_now g1)) \<or> outcome = Some x"
    and elapsed: "\<exists>d. g1 = gs_elapse d g"
    using o x by (auto simp: run_preflight_def cancelled_by_def gs_now_def gs_elapse_def split: option.splits if_splits)
  have q: "quiet g g1" "progress (le_flow le) (cn_id r) 0 g g1"
    using elapsed touches_flow [OF ext_time [of _ "cn_id r" 0]]
    by (auto simp: gs_elapse_def quiet_def intro!: progress_quietly)
  have "candidate_ok le ctx r n ls g1 (unless_cancelled le ctx r tr g1 (\<lambda>g2.
           case outcome of
             None \<Rightarrow> (ReturnResult (Inl ''downstream request cancelled''), g2)
           | Some x \<Rightarrow> handle_preflight le ttl ctx p r tr x ls g2))"
    using cases handle_preflight_ok [OF l hm] by (intro unless_cancelled_ok [OF l]) auto
  then show ?thesis
    using candidate_ok_after [OF l q(2,1)] by (simp add: preflight_and_deliver_def o)
qed

text \<open>The attempt of a run is for its account and knows whether other candidates are left.\<close>

definition run_fits :: "execution_context \<Rightarrow> candidate_run \<Rightarrow> bool" where
  "run_fits ctx r \<longleftrightarrow> at_id (cn_attempt r) = cn_id r
     \<and> at_has_more (cn_attempt r) = has_more_candidates ctx (cn_idx r)"

lemma plain_failover_ok:
  assumes "loop_ok le" and "has_more_candidates ctx (cn_idx r)" and "cools_now (le_flow le) (cn_id r) (gs_flow g)"
    and e: "record_failover_attempt tr ls g = (ls', g')"
  shows "candidate_ok le ctx r n ls g (NextCandidate ls', g')"
proof -
  note f = failover_attempt_quiet [OF e, of "le_flow le" "{cn_id r}"]
  have "progress (le_flow le) (cn_id r) n g g'" using f by (auto intro: progress_quietly)
  moreover have "at_fault le r ls' g'" using f assms(3) by (simp add: at_fault_def)
  ultimately show ?thesis using next_candidate_ok [OF assms(1) _ _ assms(2)] f by simp
qed

lemma handle_response_ok:
  assumes l: "loop_ok le" and fit: "run_fits ctx r"
  shows "candidate_ok le ctx r 6 ls g (handle_response le ttl ctx p r tr response ls g)"
proof (cases "ur_status response = 400 \<and> \<not> at_strip (cn_attempt r)
         \<and> (cn_turn_state r \<or> rs_has_body_encrypted_content (ep_setup p))")
  case False
  then show ?thesis
    using preflight_and_deliver_ok [OF l, of ctx r 6 ls g ttl p tr response]
    unfolding handle_response_def by (simp only: if_False)
next
  case True
  obtain b cs where b: "retry_body (le_body le) (ep_path p) (ep_body p) (ep_setup p) (ep_model_override p)
      (cn_prompt_cache_key r) (ls_state ls) = (b, cs)" by fastforce
  let ?att = "(cn_attempt r)\<lparr>at_strip := True, at_body := b\<rparr>" and ?ls = "ls\<lparr>ls_state := cs\<rparr>"
  obtain d tr1 g1 where d: "run_candidate_attempt le ctx ?att tr g = (d, tr1, g1)" by (metis prod_cases3)
  have run: "progress (le_flow le) (cn_id r) 6 g g1" "quiet g g1"
    "d = UpstreamFailover \<Longrightarrow> has_more_candidates ctx (cn_idx r) \<and> cools_now (le_flow le) (cn_id r) (gs_flow g1)"
    using run_attempt_ok [OF l d] fit by (auto simp: run_fits_def)
  let ?k = "\<lambda>g2. case d of
               UpstreamRespond response' \<Rightarrow> preflight_and_deliver le ttl ctx p r tr1 response' ?ls g2
             | UpstreamFailover \<Rightarrow>
                 (let (ls2, g3) = record_failover_attempt tr1 ?ls g2 in (NextCandidate ls2, g3))
             | UpstreamTerminal st msg \<Rightarrow> respond_terminal_attempt (le_flow le) ctx r tr1 st msg g2"
  have after: "candidate_ok le ctx r 0 ?ls g1 (?k g1)"
  proof (cases d)
    case (UpstreamRespond response')
    then show ?thesis using preflight_and_deliver_ok [OF l] by simp
  next
    case UpstreamFailover
    then show ?thesis using plain_failover_ok [OF l] run(3) by (auto split: prod.splits)
  next
    case (UpstreamTerminal st msg)
    then show ?thesis using respond_terminal_ok by simp
  qed
  from after have "candidate_ok le ctx r 0 ?ls g1 (unless_cancelled le ctx r tr1 g1 ?k)"
    by (rule unless_cancelled_ok [OF l])
  then have "candidate_ok le ctx r 6 ls g (unless_cancelled le ctx r tr1 g1 ?k)"
    by (rule candidate_ok_after [OF l run(1,2), rotated]) simp_all
  then show ?thesis using True unfolding handle_response_def b by (simp add: d Let_def)
qed

lemma handle_decision_ok:
  assumes "loop_ok le" and "run_fits ctx r"
    and "d = UpstreamFailover \<Longrightarrow> has_more_candidates ctx (cn_idx r) \<and> cools_now (le_flow le) (cn_id r) (gs_flow g)"
  shows "candidate_ok le ctx r 6 ls g (handle_decision le ttl ctx p r d tr ls g)"
proof (cases d)
  case (UpstreamRespond response)
  then show ?thesis using handle_response_ok [OF assms(1,2)] by (simp add: handle_decision_def)
next
  case UpstreamFailover
  then show ?thesis using handle_failover_ok [OF assms(1)] assms(3) by (simp add: handle_decision_def)
next
  case (UpstreamTerminal st msg)
  then show ?thesis using handle_terminal_ok [OF assms(1)] by (simp add: handle_decision_def)
qed

lemma attempt_candidate_ok:
  assumes l: "loop_ok le" and fit: "run_fits ctx r"
  shows "candidate_ok le ctx r 18 ls g (attempt_candidate le ttl ctx p r ls g)"
proof -
  note run = run_attempt_ok [OF l]
  have fit': "at_id (cn_attempt r) = cn_id r" "at_has_more (cn_attempt r) = has_more_candidates ctx (cn_idx r)"
    using fit by (simp_all add: run_fits_def)
  obtain d tr g1 where d: "run_candidate_attempt le ctx (cn_attempt r) attempt_trace_default g = (d, tr, g1)"
    by (metis prod_cases3)
  obtain d' tr' g3 where d': "run_candidate_attempt le ctx (cn_attempt r) attempt_trace_default g1 = (d', tr', g3)"
    by (metis prod_cases3)
  have run1: "progress (le_flow le) (cn_id r) 6 g g1" "quiet g g1"
    and run2: "progress (le_flow le) (cn_id r) 6 g1 g3" "quiet g1 g3"
    using run [OF d] run [OF d'] fit' by simp_all
  let ?second = "unless_cancelled le ctx r tr' g3 (handle_decision le ttl ctx p r d' tr' ls)"
  have "candidate_ok le ctx r 6 ls g3 ?second"
    using handle_decision_ok [OF l fit] run [OF d'] fit' by (intro unless_cancelled_ok [OF l]) auto
  then have second: "candidate_ok le ctx r 12 ls g1 ?second"
    by (rule candidate_ok_after [OF l run2, rotated]) simp_all
  have first: "candidate_ok le ctx r 12 ls g1 (handle_decision le ttl ctx p r d tr ls g1)" if "d \<noteq> UpstreamFailover"
  proof -
    have "candidate_ok le ctx r 6 ls g1 (handle_decision le ttl ctx p r d tr ls g1)"
      using handle_decision_ok [OF l fit] that by blast
    then show ?thesis unfolding candidate_ok_def using progress_mono by fastforce
  qed
  let ?k = "\<lambda>g2. if d = UpstreamFailover \<and> should_retry_same_account_after_failover 0
       then let (d', tr', g3) = run_candidate_attempt le ctx (cn_attempt r) attempt_trace_default g2
            in unless_cancelled le ctx r tr' g3 (handle_decision le ttl ctx p r d' tr' ls)
       else handle_decision le ttl ctx p r d tr ls g2"
  have "candidate_ok le ctx r 12 ls g1 (?k g1)"
    using first second by (simp add: d' should_retry_same_account_after_failover_def)
  then have "candidate_ok le ctx r 12 ls g1 (unless_cancelled le ctx r tr g1 ?k)"
    by (rule unless_cancelled_ok [OF l])
  then have "candidate_ok le ctx r 18 ls g (unless_cancelled le ctx r tr g1 ?k)"
    by (rule candidate_ok_after [OF l run1, rotated]) simp_all
  then show ?thesis unfolding attempt_candidate_def d by simp
qed

section \<open>The sequence\<close>

lemma prepare_candidate_fits:
  assumes "prepare_candidate le ctx p idx c ls = (r, ls1)"
  shows "run_fits ctx r \<and> cn_id r = cand_id c \<and> cn_idx r = idx
    \<and> cn_attempted r = ls_attempted ls @ [cand_id c] \<and> same_counts ls ls1"
  using assms by (auto simp: prepare_candidate_def run_fits_def Let_def split: prod.splits)

text \<open>No account has an entry with a count of zero, as in every reachable table of guards.\<close>

definition counts_positive :: "inflight_map \<Rightarrow> bool" where
  "counts_positive m \<longleftrightarrow> (\<forall>a. m a \<noteq> Some 0)"

lemma reachable_counts_positive: "inflight_reachable m gs \<Longrightarrow> counts_positive m"
  by (auto simp: counts_positive_def inflight_counts not_in_iff)

lemma acquire_drop:
  "counts_positive m \<Longrightarrow> drop_account_inflight a (snd (acquire_account_inflight a m)) = m"
  by (cases "m a") (auto simp: counts_positive_def acquire_account_inflight_def drop_account_inflight_def map_remove_def)

text \<open>What a candidate does to the state of the sequence, the guard included.\<close>

definition turn_ok ::
  "loop_env \<Rightarrow> execution_context \<Rightarrow> nat \<Rightarrow> string \<Rightarrow> loop_state \<Rightarrow> gateway_state \<Rightarrow> candidate_step \<Rightarrow> gateway_state \<Rightarrow> bool" where
  "turn_ok le ctx idx a ls g step g' \<longleftrightarrow>
     (case step of
        NextCandidate ls' \<Rightarrow> quiet g g' \<and>
          (has_more_candidates ctx idx \<and> ls_attempted ls' = ls_attempted ls @ [a]
             \<and> ls_skipped_cooldown ls' + ls_skipped_inflight ls' = ls_skipped_cooldown ls + ls_skipped_inflight ls
           \<or> ls_attempted ls' = ls_attempted ls
             \<and> ls_skipped_cooldown ls' + ls_skipped_inflight ls' = ls_skipped_cooldown ls + ls_skipped_inflight ls + 1
             \<and> (\<not> has_more_candidates ctx idx \<longrightarrow>
                  ec_protocol_type ctx = protocol_anthropic_native \<and> cools_now (le_flow le) a (gs_flow g')))
      | ReturnResult (Inr CandidatesHandled) \<Rightarrow>
          (\<exists>row. gs_log g' = gs_log g @ [row] \<and> fr_attempted row \<in> {ls_attempted ls, ls_attempted ls @ [a]})
          \<and> gs_deliveries g' = gs_deliveries g \<and> gs_inflight g' = gs_inflight g
      | ReturnResult (Inr (CandidatesExhausted _)) \<Rightarrow> False
      | ReturnResult (Inl err) \<Rightarrow> quiet g g' \<and> le_defer_error le = Some err
      | Delivered \<Rightarrow> gs_log g' = gs_log g \<and> gs_inflight g' = snd (acquire_account_inflight a (gs_inflight g))
          \<and> (\<exists>d. gs_deliveries g' = gs_deliveries g @ [d] \<and> dl_account d = a
                \<and> dl_attempted d = ls_attempted ls @ [a]))"

lemma release_guard_ok:
  assumes "counts_positive (gs_inflight g)" and a: "cn_id r = a" "cn_idx r = idx" "cn_attempted r = ls_attempted ls @ [a]"
    and s: "step_ok le ctx r ls1 (g\<lparr>gs_inflight := snd (acquire_account_inflight a (gs_inflight g)), gs_flow := f\<rparr>) x"
    and ls1: "ls_attempted ls1 = cn_attempted r" "ls_skipped_cooldown ls1 = ls_skipped_cooldown ls"
      "ls_skipped_inflight ls1 = ls_skipped_inflight ls"
    and x: "release_guard a x = (step, g')"
  shows "turn_ok le ctx idx a ls g step g'"
proof -
  note d = acquire_drop [OF assms(1), of a]
  obtain st g1 where x1: "x = (st, g1)" by fastforce
  show ?thesis
  proof (cases st)
    case (NextCandidate ls2)
    then show ?thesis using s x x1 a ls1 d by (auto simp: step_ok_def turn_ok_def release_guard_def quiet_def)
  next
    case (ReturnResult res)
    then show ?thesis using s x x1 a d
      by (cases res) (auto simp: step_ok_def turn_ok_def release_guard_def quiet_def split: candidate_execution_result.splits)
  next
    case Delivered
    then show ?thesis using s x x1 a by (auto simp: step_ok_def turn_ok_def release_guard_def)
  qed
qed

lemma release_guard_progress:
  assumes p: "progress env a n g (snd x)" and w: "wall_monotone env"
  shows "progress env a n g (snd (release_guard b x))"
proof -
  have "progress env a 0 (snd x) (snd (release_guard b x))"
    by (cases x; cases "fst x") (auto simp: release_guard_def intro!: progress_quietly)
  from progress_trans [OF w p this] show ?thesis by simp
qed

lemma skip_effects:
  assumes "should_skip_candidate env ctx a idx g = (skip, g1)"
  shows "quiet g g1 \<and> progress env k n g g1
    \<and> (skip \<noteq> None \<longrightarrow> \<not> has_more_candidates ctx idx \<longrightarrow>
         skip = Some SkipCooldown \<and> ec_protocol_type ctx = protocol_anthropic_native \<and> cools_now env a (gs_flow g1))"
proof -
  let ?c = "candidate_skip_reason_for_proxy a idx (ec_candidate_count ctx) (ec_account_max_inflight ctx)
     (ec_protocol_type ctx = protocol_anthropic_native) (wall_now env g) (gs_inflight g) (fs_cooldown (gs_flow g))"
  have e: "skip = fst ?c" "g1 = g\<lparr>gs_flow := (gs_flow g)\<lparr>fs_cooldown := snd ?c\<rparr>\<rparr>"
    using assms by (simp_all add: should_skip_candidate_def case_prod_beta Let_def)
  have k: "cooling (snd ?c) t i = cooling (fs_cooldown (gs_flow g)) t i" if "wall_now env g \<le> t" for t i
    by (rule skip_keeps_cooling [OF that])
  have "only_touches env {k} g g1"
    using k skip_wf by (auto simp: e only_touches_def wall_now_def)
  then have "progress env k n g g1" by (rule progress_quietly) (simp add: e)
  moreover have "skip \<noteq> None \<longrightarrow> \<not> has_more_candidates ctx idx \<longrightarrow>
      skip = Some SkipCooldown \<and> ec_protocol_type ctx = protocol_anthropic_native \<and> cools_now env a (gs_flow g1)"
    using k [of "wall_now env g" a] unfolding e(1) skip_cases
    by (auto simp: has_more_candidates_def cools_now_def wall_now_def e(2))
  ultimately show ?thesis by (simp add: e quiet_def)
qed

lemma early_answer_ok:
  assumes "att = ls_attempted ls"
  shows "progress env a n g (log_final_result_with_model ctx acc url m st err att g)
   \<and> turn_ok le ctx idx a ls g (ReturnResult (Inr CandidatesHandled))
       (log_final_result_with_model ctx acc url m st err att g)"
proof -
  have "progress env a n g (log_final_result_with_model ctx acc url m st err att g)"
    by (rule progress_quietly) (simp_all add: log_final_answers(4))
  then show ?thesis
    using assms by (auto simp: turn_ok_def log_final_result_with_model_def Let_def)
qed

lemma candidate_turn_ok:
  assumes l: "loop_ok le" and pos: "counts_positive (gs_inflight g)"
    and e: "execute_candidate le ttl ctx p idx c ls g = (step, g')"
  shows "progress (le_flow le) (cand_id c) 18 g g' \<and> turn_ok le ctx idx (cand_id c) ls g step g'"
proof -
  let ?a = "cand_id c" and ?env = "le_flow le"
  have w: "wall_monotone ?env" using l by (simp add: loop_ok_def)
  show ?thesis
  proof (cases "cancelled_by le (gs_now g) \<or> is_expired (ep_request_deadline p) (gs_now g)")
    case True
    then show ?thesis
      using e early_answer_ok [of _ ls]
      by (auto simp: execute_candidate_def finalize_cancelled_candidate_def log_final_result_def
          respond_total_timeout_def split: if_splits)
  next
    case False
    obtain r ls1 where r: "prepare_candidate le ctx p idx c ls = (r, ls1)" by fastforce
    note fit = prepare_candidate_fits [OF r]
    obtain skip g1 where sk: "should_skip_candidate ?env ctx ?a idx g = (skip, g1)" by fastforce
    note se = skip_effects [OF sk, of ?a 18]
    have start: "execute_candidate le ttl ctx p idx c ls g =
        (case skip of
           Some SkipCooldown \<Rightarrow> (NextCandidate (ls1\<lparr>ls_skipped_cooldown := ls_skipped_cooldown ls1 + 1\<rparr>), g1)
         | Some SkipInflight \<Rightarrow> (NextCandidate (ls1\<lparr>ls_skipped_inflight := ls_skipped_inflight ls1 + 1\<rparr>), g1)
         | None \<Rightarrow> release_guard ?a (attempt_candidate le ttl ctx p r (ls1\<lparr>ls_attempted := cn_attempted r\<rparr>)
             (g1\<lparr>gs_inflight := snd (acquire_account_inflight ?a (gs_inflight g1)),
                 gs_flow := (gs_flow g1)\<lparr>fs_token := snd c\<rparr>\<rparr>)))"
      using False sk fit
      by (simp add: execute_candidate_def finalize_cancelled_candidate_def r acquire_account_inflight_def Let_def
          split: option.split candidate_skip_reason.split)
    show ?thesis
    proof (cases skip)
      case (Some reason)
      then show ?thesis
        using start e se fit by (cases reason) (auto simp: turn_ok_def)
    next
      case None
      let ?g2 = "g1\<lparr>gs_inflight := snd (acquire_account_inflight ?a (gs_inflight g1)),
        gs_flow := (gs_flow g1)\<lparr>fs_token := snd c\<rparr>\<rparr>"
      let ?ls = "ls1\<lparr>ls_attempted := cn_attempted r\<rparr>"
      let ?x = "attempt_candidate le ttl ctx p r ?ls ?g2"
      have ok: "progress ?env ?a 18 ?g2 (snd ?x)" "step_ok le ctx r ?ls ?g2 ?x"
        using attempt_candidate_ok [OF l, of ctx r ?ls ?g2 ttl p] fit by (simp_all add: candidate_ok_def)
      have g2: "progress ?env ?a 0 g1 ?g2"
        by (rule progress_quietly) (simp_all add: only_touches_def wall_now_def)
      have "progress ?env ?a 0 g g1" using skip_effects [OF sk, of ?a 0] by simp
      from progress_trans [OF w this g2] have g02: "progress ?env ?a 0 g ?g2" by simp
      have x: "release_guard ?a ?x = (step, g')" using e start None by simp
      have "progress ?env ?a 18 ?g2 g'" using release_guard_progress [OF ok(1) w, of ?a] x by simp
      from progress_trans [OF w g02 this] have pr: "progress ?env ?a 18 g g'" by simp
      have pos1: "counts_positive (gs_inflight g1)" using pos se by (simp add: quiet_def)
      have "turn_ok le ctx idx ?a ls g1 step g'"
        using fit by (intro release_guard_ok [OF pos1 _ _ _ ok(2) _ _ _ x]) simp_all
      then have "turn_ok le ctx idx ?a ls g step g'"
        using se unfolding turn_ok_def quiet_def
        by (cases step; simp split: sum.splits candidate_execution_result.splits)
      with pr show ?thesis by simp
    qed
  qed
qed

text \<open>
  What the sequence does after some candidates: \<open>tried\<close> are the accounts it still tries, \<open>seen\<close> counts
  the candidates it has dealt with.
\<close>

definition seen :: "loop_state \<Rightarrow> nat" where
  "seen ls = length (ls_attempted ls) + (ls_skipped_cooldown ls + ls_skipped_inflight ls)"

definition handed_over :: "string list \<Rightarrow> gateway_state \<Rightarrow> gateway_state \<Rightarrow> bool" where
  "handed_over attempted g g' \<longleftrightarrow> gs_log g' = gs_log g \<and>
     (\<exists>d. gs_deliveries g' = gs_deliveries g @ [d] \<and> dl_attempted d = attempted \<and> attempted \<noteq> []
        \<and> dl_account d = last attempted
        \<and> gs_inflight g' = snd (acquire_account_inflight (dl_account d) (gs_inflight g)))"

definition answered :: "string list \<Rightarrow> gateway_state \<Rightarrow> gateway_state \<Rightarrow> bool" where
  "answered attempted g g' \<longleftrightarrow> gs_deliveries g' = gs_deliveries g \<and> gs_inflight g' = gs_inflight g \<and>
     (\<exists>row. gs_log g' = gs_log g @ [row] \<and> fr_attempted row = attempted)"

definition sequence_ok ::
  "loop_env \<Rightarrow> execution_context \<Rightarrow> nat \<Rightarrow> candidate list \<Rightarrow> loop_state \<Rightarrow> gateway_state \<Rightarrow> string list
    \<Rightarrow> string + candidate_execution_result \<Rightarrow> gateway_state \<Rightarrow> bool" where
  "sequence_ok le ctx idx cs ls g tried res g' \<longleftrightarrow>
     (case res of
        Inl err \<Rightarrow> quiet g g' \<and> le_defer_error le = Some err
      | Inr CandidatesHandled \<Rightarrow>
          answered (ls_attempted ls @ tried) g g' \<or> handed_over (ls_attempted ls @ tried) g g'
      | Inr (CandidatesExhausted ls') \<Rightarrow> quiet g g' \<and> ls_attempted ls' = ls_attempted ls @ tried
          \<and> seen ls' = seen ls + length cs
          \<and> (cs \<noteq> [] \<longrightarrow> ec_candidate_count ctx = idx + length cs \<longrightarrow>
               ec_protocol_type ctx = protocol_anthropic_native
               \<and> cools_now (le_flow le) (cand_id (last cs)) (gs_flow g')))"

lemma sequence_after_turn:
  assumes "quiet g g1" and "sequence_ok le ctx (Suc idx) cs ls1 g1 tried res g'"
    and "ls_attempted ls @ now = ls_attempted ls1" and "seen ls1 = Suc (seen ls)"
    and "cs = [] \<Longrightarrow> \<not> has_more_candidates ctx idx \<Longrightarrow>
      ec_protocol_type ctx = protocol_anthropic_native \<and> cools_now (le_flow le) (cand_id c) (gs_flow g1)"
    and "cs = [] \<Longrightarrow> g' = g1"
  shows "sequence_ok le ctx idx (c # cs) ls g (now @ tried) res g'"
  using assms unfolding sequence_ok_def
  by (auto simp: quiet_def answered_def handed_over_def has_more_candidates_def simp flip: append_assoc
      split: sum.splits candidate_execution_result.splits)

lemma candidate_sequence_ok:
  assumes l: "loop_ok le"
  shows "counts_positive (gs_inflight g) \<Longrightarrow> candidate_sequence le ttl ctx p idx cs ls g = (res, g') \<Longrightarrow>
    \<exists>tried. subseq tried (map cand_id cs) \<and> sequence_ok le ctx idx cs ls g tried res g'"
proof (induction cs arbitrary: idx ls g)
  case Nil
  then show ?case by (auto simp: sequence_ok_def)
next
  case (Cons c cs)
  let ?a = "cand_id c"
  obtain step g1 where e: "execute_candidate le ttl ctx p idx c ls g = (step, g1)" by fastforce
  have t: "turn_ok le ctx idx ?a ls g step g1"
    using candidate_turn_ok [OF l Cons.prems(1) e] by simp
  show ?case
  proof (cases step)
    case (NextCandidate ls1)
    have q: "quiet g g1" using t NextCandidate by (simp add: turn_ok_def)
    have next_run: "candidate_sequence le ttl ctx p (Suc idx) cs ls1 g1 = (res, g')"
      using Cons.prems(2) e NextCandidate by simp
    have "counts_positive (gs_inflight g1)" using q Cons.prems(1) by (simp add: quiet_def)
    from Cons.IH [OF this next_run] obtain tried where
      tried: "subseq tried (map cand_id cs)" "sequence_ok le ctx (Suc idx) cs ls1 g1 tried res g'" by blast
    have nil: "cs = [] \<Longrightarrow> g' = g1" using next_run by simp
    have alts: "ls_attempted ls1 = ls_attempted ls @ [?a] \<and> has_more_candidates ctx idx \<and> seen ls1 = Suc (seen ls)
      \<or> ls_attempted ls1 = ls_attempted ls \<and> seen ls1 = Suc (seen ls) \<and> (\<not> has_more_candidates ctx idx \<longrightarrow>
          ec_protocol_type ctx = protocol_anthropic_native \<and> cools_now (le_flow le) ?a (gs_flow g1))"
      using t NextCandidate by (auto simp: turn_ok_def seen_def)
    show ?thesis
    proof (cases "ls_attempted ls1 = ls_attempted ls @ [?a]")
      case True
      have "sequence_ok le ctx idx (c # cs) ls g ([?a] @ tried) res g'"
        by (rule sequence_after_turn [OF q tried(2)]) (use True alts nil in auto)
      with tried(1) show ?thesis by (intro exI [of _ "?a # tried"]) simp
    next
      case False
      have "sequence_ok le ctx idx (c # cs) ls g ([] @ tried) res g'"
        by (rule sequence_after_turn [OF q tried(2)]) (use False alts nil in auto)
      with tried(1) show ?thesis by (intro exI [of _ tried]) (simp add: list_emb_Cons)
    qed
  next
    case (ReturnResult r)
    then have r: "res = r" "g' = g1" using Cons.prems(2) e by simp_all
    show ?thesis
    proof (cases r)
      case (Inl err)
      then show ?thesis using t ReturnResult r by (auto simp: turn_ok_def sequence_ok_def intro: exI [of _ "[]"])
    next
      case (Inr h)
      then have h: "h = CandidatesHandled" using t ReturnResult
        by (cases h) (auto simp: turn_ok_def)
      then obtain tried where "tried \<in> {[], [?a]}" "answered (ls_attempted ls @ tried) g g1"
        using t ReturnResult Inr by (auto simp: turn_ok_def answered_def)
      then show ?thesis using r Inr h by (intro exI [of _ tried]) (auto simp: sequence_ok_def)
    qed
  next
    case Delivered
    then have "res = Inr CandidatesHandled" "g' = g1" using Cons.prems(2) e by simp_all
    with t Delivered show ?thesis
      by (intro exI [of _ "[?a]"]) (auto simp: turn_ok_def sequence_ok_def handed_over_def)
  qed
qed

lemma candidate_sequence_progress:
  assumes l: "loop_ok le"
  shows "counts_positive (gs_inflight g) \<Longrightarrow> candidate_sequence le ttl ctx p idx cs ls g = (res, g') \<Longrightarrow>
    only_touches (le_flow le) (cand_id ` set cs) g g' \<and>
    (\<exists>sent. fs_sent (gs_flow g') = fs_sent (gs_flow g) @ sent \<and> length sent \<le> 18 * length cs)"
proof (induction cs arbitrary: idx ls g)
  case Nil
  then show ?case by simp
next
  case (Cons c cs)
  let ?env = "le_flow le" and ?A = "cand_id ` set (c # cs)"
  have w: "wall_monotone ?env" using l by (simp add: loop_ok_def)
  obtain step g1 where e: "execute_candidate le ttl ctx p idx c ls g = (step, g1)" by fastforce
  note ok = candidate_turn_ok [OF l Cons.prems(1) e]
  then obtain s1 where s1: "only_touches ?env {cand_id c} g g1"
    "fs_sent (gs_flow g1) = fs_sent (gs_flow g) @ s1" "length s1 \<le> 18" by (auto simp: progress_def)
  show ?case
  proof (cases "\<exists>ls1. step = NextCandidate ls1")
    case True
    then obtain ls1 where ls1: "step = NextCandidate ls1" by blast
    then have "counts_positive (gs_inflight g1)" using ok Cons.prems(1) by (simp add: turn_ok_def quiet_def)
    then have rest: "only_touches ?env (cand_id ` set cs) g1 g'"
      "\<exists>sent. fs_sent (gs_flow g') = fs_sent (gs_flow g1) @ sent \<and> length sent \<le> 18 * length cs"
      using Cons.IH [of g1 "Suc idx" ls1] Cons.prems(2) e ls1 by simp_all
    then obtain s2 where "fs_sent (gs_flow g') = fs_sent (gs_flow g) @ s1 @ s2" "length s2 \<le> 18 * length cs"
      using s1(2) by auto
    moreover have "only_touches ?env ?A g g'" by (rule touches_trans [OF w s1(1) rest(1)]) auto
    ultimately show ?thesis using s1(3) by (intro conjI exI [of _ "s1 @ s2"]) simp_all
  next
    case False
    then have "g' = g1" using Cons.prems(2) e by (cases step) simp_all
    with s1 touches_mono [OF s1(1), of ?A] show ?thesis by (intro conjI exI [of _ s1]) simp_all
  qed
qed

text \<open>The end of the delivery the sequence began, if it began one.\<close>

definition settle ::
  "flow_env \<Rightarrow> string \<Rightarrow> execution_context \<Rightarrow> string + bridge_result \<Rightarrow> gateway_state \<Rightarrow> gateway_state \<Rightarrow> gateway_state" where
  "settle env incomplete ctx result g g' =
     (if gs_deliveries g' = gs_deliveries g then g'
      else finish_delivery env incomplete ctx (last (gs_deliveries g')) result g')"

lemma settle_logs:
  assumes "counts_positive (gs_inflight g)" and "answered att g g' \<or> handed_over att g g'"
  shows "(\<exists>row. gs_log (settle env incomplete ctx result g g') = gs_log g @ [row] \<and> fr_attempted row = att)
    \<and> gs_inflight (settle env incomplete ctx result g g') = gs_inflight g"
  using assms(2)
proof
  assume "answered att g g'"
  then show ?thesis by (auto simp: answered_def settle_def)
next
  assume h: "handed_over att g g'"
  then obtain d where d: "gs_deliveries g' = gs_deliveries g @ [d]" "dl_attempted d = att"
    "gs_inflight g' = snd (acquire_account_inflight (dl_account d) (gs_inflight g))" "gs_log g' = gs_log g"
    by (auto simp: handed_over_def)
  have "settle env incomplete ctx result g g' = finish_delivery env incomplete ctx d result g'"
    by (simp add: settle_def d(1))
  then show ?thesis
    using finish_logs [of env incomplete ctx d result g'] d acquire_drop [OF assms(1), of "dl_account d"] by auto
qed

section \<open>Properties\<close>


text \<open>
  C2: the sequence never answers a client twice, and never says it did without doing so. Handled
  means one row in the log and no delivery, or one delivery, for the account tried last, that keeps
  the slot of that account, and no row. Exhausted means neither, with every candidate tried or
  skipped, which takes an Anthropic client and a last account that cools. An error means that the
  response service refused the delivery, and that nothing was answered.
\<close>

theorem sequence_answers_once:
  assumes l: "loop_ok le" and r: "inflight_reachable (gs_inflight g) gs"
    and c: "ec_candidate_count ctx = length candidates"
    and e: "execute_candidate_sequence le ttl ctx p candidates g = (res, g')"
  shows "case res of
      Inr CandidatesHandled \<Rightarrow>
        gs_deliveries g' = gs_deliveries g \<and> gs_inflight g' = gs_inflight g
          \<and> (\<exists>row. gs_log g' = gs_log g @ [row] \<and> subseq (fr_attempted row) (map cand_id candidates))
        \<or> gs_log g' = gs_log g
          \<and> (\<exists>d. gs_deliveries g' = gs_deliveries g @ [d]
                \<and> subseq (dl_attempted d) (map cand_id candidates)
                \<and> dl_attempted d \<noteq> [] \<and> dl_account d = last (dl_attempted d)
                \<and> gs_inflight g' = snd (acquire_account_inflight (dl_account d) (gs_inflight g)))
    | Inr (CandidatesExhausted ls) \<Rightarrow>
        gs_log g' = gs_log g \<and> gs_deliveries g' = gs_deliveries g \<and> gs_inflight g' = gs_inflight g
          \<and> subseq (ls_attempted ls) (map cand_id candidates)
          \<and> length (ls_attempted ls) + ls_skipped_cooldown ls + ls_skipped_inflight ls = length candidates
          \<and> (candidates \<noteq> [] \<longrightarrow> ec_protocol_type ctx = protocol_anthropic_native
               \<and> cools_now (le_flow le) (cand_id (last candidates)) (gs_flow g'))
    | Inl err \<Rightarrow>
        le_defer_error le = Some err
          \<and> gs_log g' = gs_log g \<and> gs_deliveries g' = gs_deliveries g \<and> gs_inflight g' = gs_inflight g"
proof -
  obtain tried where t: "subseq tried (map cand_id candidates)"
    "sequence_ok le ctx 0 candidates loop_start g tried res g'"
    using candidate_sequence_ok [OF l reachable_counts_positive [OF r] e [unfolded execute_candidate_sequence_def]]
    by blast
  then show ?thesis
    using c by (auto simp: sequence_ok_def loop_start_def seen_def quiet_def answered_def handed_over_def
        split: sum.splits candidate_execution_result.splits)
qed


text \<open>
  C4: a request leaves an account only for a reason. When an attempt ends by going on to the next
  candidate, one is left; and the account cools now, or its last error names a deactivation, or the
  rejection of the very model the request asked for. Nothing was answered and no slot changed.
\<close>

theorem moves_on_for_a_reason:
  assumes l: "loop_ok le" and fit: "run_fits ctx r"
    and e: "attempt_candidate le ttl ctx p r ls g = (NextCandidate ls', g')"
  shows "has_more_candidates ctx (cn_idx r)
    \<and> (cools_now (le_flow le) (cn_id r) (gs_flow g')
       \<or> (\<exists>msg. ls_last_attempt_error ls' = Some msg \<and>
            (deactivation_reason_from_message msg \<noteq> None \<or>
             (\<exists>m. rejected_model msg = Some m
                \<and> map_option trim (trimmed_nonempty (cn_model_for_log r)) = Some (trim m)))))
    \<and> gs_log g' = gs_log g \<and> gs_deliveries g' = gs_deliveries g \<and> gs_inflight g' = gs_inflight g"
  using attempt_candidate_ok [OF l fit, of ls g ttl p] e
  by (simp add: candidate_ok_def step_ok_def at_fault_def quiet_def)

section \<open>A concrete request\<close>

text \<open>Two accounts behind a mirror that refuses every connection.\<close>

definition loop_example :: loop_env where
  "loop_example =
     \<lparr>le_flow = refusing_env, le_preflight = preflight_env_example, le_idle_timeout = None,
      le_body = \<lparr>be_parse = (\<lambda>_. None), be_print = (\<lambda>_. None), be_rewrite = (\<lambda>_ _ b _ _. b)\<rparr>,
      le_cancelled_at = None, le_dropped = (\<lambda>_ s. s), le_token_reason = (\<lambda>_. None),
      le_plan_allows_fallback = (\<lambda>_. False), le_defer_error = None\<rparr>"

definition params_example :: executor_params where
  "params_example =
     \<lparr>ep_body = ''{}'', ep_path = ''/v1/responses'', ep_request_path = ''/v1/responses'',
      ep_model_for_log = Some ''gpt'', ep_model_override = None, ep_incoming_turn_state = False,
      ep_setup =
        \<lparr>rs_upstream_base = ''https://mirror.example/v1'', rs_upstream_fallback_base = None,
         rs_url = ''https://mirror.example/v1/responses'', rs_url_alt = None, rs_candidate_count = 2,
         rs_account_max_inflight = 0, rs_anthropic_has_thread_anchor = False,
         rs_has_sticky_fallback_session = False, rs_has_sticky_fallback_conversation = False,
         rs_has_body_encrypted_content = False, rs_conversation_routing = None,
         rs_route_strategy_for_log = ''ordered'', rs_route_source_for_log = ''route_strategy''\<rparr>,
      ep_request_deadline = None, ep_client_is_stream = True, ep_upstream_is_stream = True,
      ep_allow_openai_fallback = False, ep_disable_challenge_stateless_retry = False\<rparr>"

lemma loop_example_ok: "loop_ok loop_example"
  by (simp add: loop_ok_def loop_example_def refusing_monotone)

lemma fresh_reachable: "inflight_reachable (gs_inflight fresh_gateway) {#}"
  using inflight_start by (simp add: fresh_gateway_def)


theorem sequence_answers_once_witness:
  "\<exists>res g'. execute_candidate_sequence loop_example 1800 plain_context params_example
        [candidate_named ''a'', candidate_named ''b''] fresh_gateway = (res, g')
     \<and> length (gs_log g') + length (gs_deliveries g') = (if res = Inr CandidatesHandled then 1 else 0)"
proof -
  let ?cs = "[candidate_named ''a'', candidate_named ''b'']"
  obtain res g' where e: "execute_candidate_sequence loop_example 1800 plain_context params_example ?cs fresh_gateway
      = (res, g')" by fastforce
  have "ec_candidate_count plain_context = length ?cs" by (simp add: plain_context_def)
  from sequence_answers_once [OF loop_example_ok fresh_reachable this e]
  have "length (gs_log g') + length (gs_deliveries g') = (if res = Inr CandidatesHandled then 1 else 0)"
    by (auto simp: fresh_gateway_def split: sum.splits candidate_execution_result.splits)
  with e show ?thesis by blast
qed


definition run_example :: candidate_run where
  "run_example =
     \<lparr>cn_account = account_named ''a'', cn_idx = 0, cn_attempt = mirror_attempt, cn_model_for_log = Some ''gpt'',
      cn_prompt_cache_key = None, cn_turn_state = False, cn_attempted = [''a'']\<rparr>"

lemma mirror_run:
  assumes "tok_access_token (fs_token (gs_flow g)) = ''at''"
  shows "\<exists>tr' g'. run_candidate_attempt loop_example plain_context mirror_attempt tr g = (UpstreamFailover, tr', g')
    \<and> tok_access_token (fs_token (gs_flow g')) = ''at''"
proof -
  obtain s' where s': "execute_candidate_upstream_flow ExecCodexResponses refusing_env mirror_attempt (gs_flow g)
      = (UpstreamFailover, s')" "tok_access_token (fs_token s') = ''at''"
    using mirror_fails [OF assms] assms by auto
  have k: "resolve_gateway_upstream_executor_kind (ec_protocol_type plain_context) = ExecCodexResponses"
    by (simp add: plain_context_def resolve_gateway_upstream_executor_kind_def protocol_openai_compat_def
        protocol_anthropic_native_def protocol_gemini_native_def)
  have c: "\<not> cancelled_by loop_example t" "le_flow loop_example = refusing_env" for t
    by (simp_all add: cancelled_by_def loop_example_def)
  have keep: "gs_flow (snd (fold (absorb_event le a) ev x)) = gs_flow (snd x)" for le a ev x
  proof (induction ev arbitrary: x)
    case (Cons e ev)
    have "gs_flow (snd (absorb_event le a e x)) = gs_flow (snd x)"
      by (cases e; cases x; cases "snd e") auto
    with Cons show ?case by simp
  qed simp
  obtain tr' g' where f: "fold (absorb_event loop_example (at_id mirror_attempt))
      (drop (length (fs_events (gs_flow g))) (fs_events s')) (tr, g\<lparr>gs_flow := s'\<rparr>) = (tr', g')" by fastforce
  then have "gs_flow g' = s'"
    using keep [of loop_example "at_id mirror_attempt"
        "drop (length (fs_events (gs_flow g))) (fs_events s')" "(tr, g\<lparr>gs_flow := s'\<rparr>)"] by simp
  then show ?thesis
    using s' c k f by (auto simp: run_candidate_attempt_def Let_def case_prod_beta)
qed

theorem moves_on_for_a_reason_witness:
  "\<exists>ls' g'. attempt_candidate loop_example 1800 plain_context params_example run_example loop_start fresh_gateway
       = (NextCandidate ls', g')
     \<and> has_more_candidates plain_context 0"
proof -
  have fit: "run_fits plain_context run_example"
    by (simp add: run_fits_def run_example_def mirror_attempt_def has_more_candidates_def plain_context_def)
  have u: "unless_cancelled loop_example plain_context r tr g k = k g" for r tr g k
    by (simp add: unless_cancelled_def finalize_cancelled_candidate_def cancelled_by_def loop_example_def)
  have "tok_access_token (fs_token (gs_flow fresh_gateway)) = ''at''"
    by (simp add: fresh_gateway_def fresh_flow_state_def)
  then obtain tr1 g1 where 1: "run_candidate_attempt loop_example plain_context mirror_attempt attempt_trace_default
      fresh_gateway = (UpstreamFailover, tr1, g1)" "tok_access_token (fs_token (gs_flow g1)) = ''at''"
    using mirror_run by blast
  then obtain tr2 g2 where 2: "run_candidate_attempt loop_example plain_context mirror_attempt attempt_trace_default
      g1 = (UpstreamFailover, tr2, g2)"
    using mirror_run by blast
  have a: "cn_attempt run_example = mirror_attempt" "cn_idx run_example = 0" by (simp_all add: run_example_def)
  obtain ls' g' where e: "attempt_candidate loop_example 1800 plain_context params_example run_example loop_start fresh_gateway
      = (NextCandidate ls', g')"
    using 1(1) 2 by (auto simp: attempt_candidate_def u a should_retry_same_account_after_failover_def
        handle_decision_def handle_failover_def record_failover_attempt_def Let_def)
  from moves_on_for_a_reason [OF loop_example_ok fit e] e a show ?thesis by auto
qed

end
