(* ===== verification/ResetCreditStore.thy ===== *)
theory ResetCreditStore
  imports Prelude "HOL-Library.Char_ord" "HOL-Library.List_Lexorder" "HOL-Library.Product_Lexorder"
begin

text \<open>
  The durable journal of reset-credit redemptions (\<open>core/src/storage/reset_credit_operations.rs\<close>,
  tables of the migrations 135 and 136): one row per operation, and one guard row per account whose
  operation is pending. A transaction that returns an error is rolled back, and transactions are
  serialised; statements fail only where a constraint of the schema is violated.
\<close>

section \<open>Rows and operations\<close>

datatype operation_status = OpPending | OpCompleted | OpFailed

fun status_as_str :: "operation_status \<Rightarrow> string" where
  "status_as_str OpPending = ''pending''"
| "status_as_str OpCompleted = ''completed''"
| "status_as_str OpFailed = ''failed''"

definition status_from_storage :: "string \<Rightarrow> operation_status option" where
  "status_from_storage value =
     (if value = ''pending'' then Some OpPending
      else if value = ''completed'' then Some OpCompleted
      else if value = ''failed'' then Some OpFailed
      else None)"

record reset_credit_operation =
  ro_operation_id :: string
  ro_account_id :: string
  ro_redeem_request_id :: string
  ro_status :: operation_status
  ro_result_json :: "string option"
  ro_error :: "string option"
  ro_created_at :: int
  ro_updated_at :: int

datatype operation_claim =
    ClaimCreated reset_credit_operation
  | ClaimExisting reset_credit_operation
  | ClaimPendingAccount reset_credit_operation
  | ClaimAccountConflict reset_credit_operation

fun claim_operation :: "operation_claim \<Rightarrow> reset_credit_operation" where
  "claim_operation (ClaimCreated x) = x"
| "claim_operation (ClaimExisting x) = x"
| "claim_operation (ClaimPendingAccount x) = x"
| "claim_operation (ClaimAccountConflict x) = x"

datatype operation_update =
    UpdateUpdated reset_credit_operation
  | UpdateExisting reset_credit_operation
  | UpdateAccountConflict reset_credit_operation
  | UpdateNotFound

fun update_operation :: "operation_update \<Rightarrow> reset_credit_operation option" where
  "update_operation (UpdateUpdated x) = Some x"
| "update_operation (UpdateExisting x) = Some x"
| "update_operation (UpdateAccountConflict x) = Some x"
| "update_operation UpdateNotFound = None"

text \<open>The rows as they are stored; the status is text.\<close>

record operation_row =
  or_operation_id :: string
  or_account_id :: string
  or_redeem_request_id :: string
  or_status :: string
  or_result_json :: "string option"
  or_error :: "string option"
  or_created_at :: int
  or_updated_at :: int

record guard_row =
  gr_account_id :: string
  gr_operation_id :: string
  gr_created_at :: int

record reset_db =
  rd_operations :: "operation_row list"
  rd_guards :: "guard_row list"

section \<open>Transactions\<close>

datatype store_error =
    FromSql string
  | InvalidParameterName string
  | QueryReturnedNoRows
  | ConstraintViolation
  | DbCustom string

type_synonym 'a tx = "reset_db \<Rightarrow> store_error + ('a \<times> reset_db)"

definition tx_return :: "'a \<Rightarrow> 'a tx" where "tx_return x db = Inr (x, db)"

definition tx_fail :: "store_error \<Rightarrow> 'a tx" where "tx_fail e db = Inl e"

definition tx_bind :: "'a tx \<Rightarrow> ('a \<Rightarrow> 'b tx) \<Rightarrow> 'b tx" where
  "tx_bind m f db = (case m db of Inl e \<Rightarrow> Inl e | Inr (x, db') \<Rightarrow> f x db')"

definition run_transaction :: "'a tx \<Rightarrow> reset_db \<Rightarrow> (store_error + 'a) \<times> reset_db" where
  "run_transaction m db = (case m db of Inl e \<Rightarrow> (Inl e, db) | Inr (x, db') \<Rightarrow> (Inr x, db'))"

section \<open>Statements\<close>

definition invalid_stored_status :: "string \<Rightarrow> store_error" where
  "invalid_stored_status value = FromSql (''invalid reset credit operation status: '' @ value)"

definition operation_from_row :: "operation_row \<Rightarrow> store_error + reset_credit_operation" where
  "operation_from_row row =
     (case status_from_storage (or_status row) of
        None \<Rightarrow> Inl (invalid_stored_status (or_status row))
      | Some status \<Rightarrow> Inr
          \<lparr>ro_operation_id = or_operation_id row, ro_account_id = or_account_id row,
           ro_redeem_request_id = or_redeem_request_id row, ro_status = status,
           ro_result_json = or_result_json row, ro_error = or_error row,
           ro_created_at = or_created_at row, ro_updated_at = or_updated_at row\<rparr>)"

definition row_from_operation :: "reset_credit_operation \<Rightarrow> operation_row" where
  "row_from_operation x =
     \<lparr>or_operation_id = ro_operation_id x, or_account_id = ro_account_id x,
      or_redeem_request_id = ro_redeem_request_id x, or_status = status_as_str (ro_status x),
      or_result_json = ro_result_json x, or_error = ro_error x,
      or_created_at = ro_created_at x, or_updated_at = ro_updated_at x\<rparr>"

definition validate_identifier :: "string \<Rightarrow> string \<Rightarrow> unit tx" where
  "validate_identifier name value =
     (if value = [] \<or> trim value \<noteq> value
      then tx_fail (InvalidParameterName (name @ '' must be non-empty and trimmed''))
      else tx_return ())"

definition read_row :: "operation_row option \<Rightarrow> reset_credit_operation option tx" where
  "read_row row =
     (case row of
        None \<Rightarrow> tx_return None
      | Some r \<Rightarrow> (case operation_from_row r of Inl e \<Rightarrow> tx_fail e | Inr x \<Rightarrow> tx_return (Some x)))"

definition operation_in_transaction :: "string \<Rightarrow> reset_credit_operation option tx" where
  "operation_in_transaction operation_id db =
     read_row (find (\<lambda>r. or_operation_id r = operation_id) (rd_operations db)) db"

definition find_guard :: "string \<Rightarrow> reset_db \<Rightarrow> guard_row option" where
  "find_guard account_id db = find (\<lambda>g. gr_account_id g = account_id) (rd_guards db)"

definition delete_guard :: "string \<Rightarrow> string \<Rightarrow> unit tx" where
  "delete_guard account_id operation_id db =
     Inr ((), db\<lparr>rd_guards := filter (\<lambda>g. \<not> (gr_account_id g = account_id \<and> gr_operation_id g = operation_id))
        (rd_guards db)\<rparr>)"

text \<open>\<open>INSERT OR IGNORE\<close>: the account is the primary key, the operation is unique.\<close>

definition insert_guard :: "string \<Rightarrow> string \<Rightarrow> int \<Rightarrow> bool tx" where
  "insert_guard account_id operation_id created_at db =
     (if list_ex (\<lambda>g. gr_account_id g = account_id \<or> gr_operation_id g = operation_id) (rd_guards db)
      then Inr (False, db)
      else Inr (True, db\<lparr>rd_guards := rd_guards db @
        [\<lparr>gr_account_id = account_id, gr_operation_id = operation_id, gr_created_at = created_at\<rparr>]\<rparr>))"

definition insert_operation :: "operation_row \<Rightarrow> unit tx" where
  "insert_operation row db =
     (if list_ex (\<lambda>r. or_operation_id r = or_operation_id row) (rd_operations db)
      then Inl ConstraintViolation
      else Inr ((), db\<lparr>rd_operations := rd_operations db @ [row]\<rparr>))"

text \<open>\<open>UPDATE ... WHERE\<close> on the operations; how many rows it changed.\<close>

definition update_operations ::
  "(operation_row \<Rightarrow> bool) \<Rightarrow> (operation_row \<Rightarrow> operation_row) \<Rightarrow> nat tx" where
  "update_operations p f db =
     Inr (length (filter p (rd_operations db)),
          db\<lparr>rd_operations := map (\<lambda>r. if p r then f r else r) (rd_operations db)\<rparr>)"

definition pending_operation_for_guard :: "string \<Rightarrow> reset_credit_operation option tx" where
  "pending_operation_for_guard account_id db =
     (case find_guard account_id db of
        None \<Rightarrow> Inr (None, db)
      | Some g \<Rightarrow>
          tx_bind (operation_in_transaction (gr_operation_id g)) (\<lambda>operation.
            case operation of
              Some x \<Rightarrow>
                if ro_account_id x = account_id \<and> ro_status x = OpPending then tx_return (Some x)
                else tx_bind (delete_guard account_id (gr_operation_id g)) (\<lambda>_. tx_return None)
            | None \<Rightarrow> tx_bind (delete_guard account_id (gr_operation_id g)) (\<lambda>_. tx_return None)) db)"

section \<open>The operations of the store\<close>

definition get_reset_credit_operation :: "string \<Rightarrow> reset_credit_operation option tx" where
  "get_reset_credit_operation operation_id =
     tx_bind (validate_identifier ''operationId'' operation_id) (\<lambda>_. operation_in_transaction operation_id)"

definition find_pending_reset_credit_operation :: "string \<Rightarrow> reset_credit_operation option tx" where
  "find_pending_reset_credit_operation account_id =
     tx_bind (validate_identifier ''accountId'' account_id) (\<lambda>_ db.
       let rows = sort_key (\<lambda>r. (or_created_at r, or_operation_id r))
             (filter (\<lambda>r. or_account_id r = account_id \<and> or_status r = ''pending'') (rd_operations db))
       in read_row (case rows of [] \<Rightarrow> None | r # _ \<Rightarrow> Some r) db)"

text \<open>A claim of an operation that exists: a missing guard of a pending operation is repaired.\<close>

definition claim_existing ::
  "string \<Rightarrow> string \<Rightarrow> reset_credit_operation \<Rightarrow> operation_claim tx" where
  "claim_existing operation_id account_id x =
     (if ro_account_id x \<noteq> account_id then tx_return (ClaimAccountConflict x)
      else if ro_status x = OpPending then
        tx_bind (pending_operation_for_guard account_id) (\<lambda>guarded.
          case guarded of
            Some y \<Rightarrow>
              if ro_operation_id y \<noteq> operation_id then tx_return (ClaimPendingAccount y)
              else tx_return (ClaimExisting x)
          | None \<Rightarrow>
              tx_bind (insert_guard account_id operation_id (ro_created_at x)) (\<lambda>_.
                tx_bind (pending_operation_for_guard account_id) (\<lambda>again.
                  case again of
                    Some y \<Rightarrow>
                      if ro_operation_id y \<noteq> operation_id then tx_return (ClaimPendingAccount y)
                      else tx_return (ClaimExisting x)
                  | None \<Rightarrow> tx_return (ClaimExisting x))))
      else tx_bind (pending_operation_for_guard account_id) (\<lambda>_. tx_return (ClaimExisting x)))"

definition new_operation :: "string \<Rightarrow> string \<Rightarrow> string \<Rightarrow> int \<Rightarrow> reset_credit_operation" where
  "new_operation operation_id account_id redeem_request_id now =
     \<lparr>ro_operation_id = operation_id, ro_account_id = account_id, ro_redeem_request_id = redeem_request_id,
      ro_status = OpPending, ro_result_json = None, ro_error = None, ro_created_at = now, ro_updated_at = now\<rparr>"

definition claim_new :: "string \<Rightarrow> string \<Rightarrow> string \<Rightarrow> int \<Rightarrow> operation_claim tx" where
  "claim_new operation_id account_id redeem_request_id now =
     tx_bind (pending_operation_for_guard account_id) (\<lambda>pending.
       case pending of
         Some y \<Rightarrow> tx_return (ClaimPendingAccount y)
       | None \<Rightarrow>
           tx_bind (insert_guard account_id operation_id now) (\<lambda>guard_created.
             if \<not> guard_created then
               tx_bind (pending_operation_for_guard account_id) (\<lambda>again.
                 case again of
                   None \<Rightarrow> tx_fail QueryReturnedNoRows
                 | Some y \<Rightarrow> tx_return (ClaimPendingAccount y))
             else
               tx_bind (insert_operation (row_from_operation
                   (new_operation operation_id account_id redeem_request_id now))) (\<lambda>_.
                 tx_bind (operation_in_transaction operation_id) (\<lambda>operation.
                   case operation of
                     None \<Rightarrow> tx_fail QueryReturnedNoRows
                   | Some x \<Rightarrow> tx_return (ClaimCreated x)))))"

definition claim_reset_credit_operation :: "string \<Rightarrow> string \<Rightarrow> string \<Rightarrow> int \<Rightarrow> operation_claim tx" where
  "claim_reset_credit_operation operation_id account_id redeem_request_id now =
     tx_bind (validate_identifier ''operationId'' operation_id) (\<lambda>_.
     tx_bind (validate_identifier ''accountId'' account_id) (\<lambda>_.
     tx_bind (validate_identifier ''redeemRequestId'' redeem_request_id) (\<lambda>_.
     tx_bind (operation_in_transaction operation_id) (\<lambda>operation.
       case operation of
         Some x \<Rightarrow> claim_existing operation_id account_id x
       | None \<Rightarrow> claim_new operation_id account_id redeem_request_id now))))"

text \<open>What both updates end with: the operation, and its guard released.\<close>

definition release_and_report :: "string \<Rightarrow> string \<Rightarrow> nat \<Rightarrow> operation_update tx" where
  "release_and_report operation_id account_id updated =
     tx_bind (operation_in_transaction operation_id) (\<lambda>operation.
       case operation of
         None \<Rightarrow> tx_return UpdateNotFound
       | Some x \<Rightarrow>
           if ro_account_id x \<noteq> account_id then tx_return (UpdateAccountConflict x)
           else tx_bind (delete_guard account_id operation_id) (\<lambda>_.
             tx_return (if updated = 1 then UpdateUpdated x else UpdateExisting x)))"

definition finish_reset_credit_operation ::
  "string \<Rightarrow> string \<Rightarrow> operation_status \<Rightarrow> string option \<Rightarrow> string option \<Rightarrow> int \<Rightarrow> operation_update tx" where
  "finish_reset_credit_operation operation_id account_id status result_json error now =
     tx_bind (validate_identifier ''operationId'' operation_id) (\<lambda>_.
     tx_bind (validate_identifier ''accountId'' account_id) (\<lambda>_.
     tx_bind (update_operations
         (\<lambda>r. or_operation_id r = operation_id \<and> or_account_id r = account_id \<and> or_status r = ''pending'')
         (\<lambda>r. r\<lparr>or_status := status_as_str status, or_result_json := result_json, or_error := error,
                or_updated_at := now\<rparr>))
       (release_and_report operation_id account_id)))"

definition complete_reset_credit_operation :: "string \<Rightarrow> string \<Rightarrow> string \<Rightarrow> int \<Rightarrow> operation_update tx" where
  "complete_reset_credit_operation operation_id account_id result_json now =
     finish_reset_credit_operation operation_id account_id OpCompleted (Some result_json) None now"

definition fail_reset_credit_operation :: "string \<Rightarrow> string \<Rightarrow> string \<Rightarrow> int \<Rightarrow> operation_update tx" where
  "fail_reset_credit_operation operation_id account_id error now =
     finish_reset_credit_operation operation_id account_id OpFailed None (Some error) now"

definition update_completed_reset_credit_operation_result ::
  "string \<Rightarrow> string \<Rightarrow> string \<Rightarrow> int \<Rightarrow> operation_update tx" where
  "update_completed_reset_credit_operation_result operation_id account_id result_json now =
     tx_bind (validate_identifier ''operationId'' operation_id) (\<lambda>_.
     tx_bind (validate_identifier ''accountId'' account_id) (\<lambda>_.
     tx_bind (update_operations
         (\<lambda>r. or_operation_id r = operation_id \<and> or_account_id r = account_id \<and> or_status r = ''completed'')
         (\<lambda>r. r\<lparr>or_result_json := Some result_json, or_updated_at := now\<rparr>))
       (release_and_report operation_id account_id)))"

end
