(* ===== verification/ResetCreditRepo.thy ===== *)
theory ResetCreditRepo
  imports ResetCreditStore
begin

text \<open>
  The second implementation of the journal of reset credits, for a database reached through
  SeaORM (\<open>crates/storage-seaorm/src/reset_credit_operations.rs\<close>). Its statements work on the same
  tables; a status that cannot be read has another error, an insertion ignores only a conflict on
  the account, and a transaction that meets a lock is retried.
\<close>

section \<open>Statements\<close>

definition repo_try_from :: "operation_row \<Rightarrow> store_error + reset_credit_operation" where
  "repo_try_from row =
     (case status_from_storage (or_status row) of
        None \<Rightarrow> Inl (DbCustom ''invalid stored reset credit operation status'')
      | Some status \<Rightarrow> Inr
          \<lparr>ro_operation_id = or_operation_id row, ro_account_id = or_account_id row,
           ro_redeem_request_id = or_redeem_request_id row, ro_status = status,
           ro_result_json = or_result_json row, ro_error = or_error row,
           ro_created_at = or_created_at row, ro_updated_at = or_updated_at row\<rparr>)"

definition repo_validate_identifier :: "string \<Rightarrow> string \<Rightarrow> unit tx" where
  "repo_validate_identifier name value =
     (if value = [] \<or> trim value \<noteq> value
      then tx_fail (DbCustom (name @ '' must be non-empty and trimmed''))
      else tx_return ())"

definition repo_read :: "operation_row option \<Rightarrow> reset_credit_operation option tx" where
  "repo_read row =
     (case row of
        None \<Rightarrow> tx_return None
      | Some r \<Rightarrow> (case repo_try_from r of Inl e \<Rightarrow> tx_fail e | Inr x \<Rightarrow> tx_return (Some x)))"

definition repo_get :: "string \<Rightarrow> reset_credit_operation option tx" where
  "repo_get operation_id =
     tx_bind (repo_validate_identifier ''operationId'' operation_id) (\<lambda>_ db.
       repo_read (find (\<lambda>r. or_operation_id r = operation_id) (rd_operations db)) db)"

definition repo_find_pending :: "string \<Rightarrow> reset_credit_operation option tx" where
  "repo_find_pending account_id =
     tx_bind (repo_validate_identifier ''accountId'' account_id) (\<lambda>_ db.
       let rows = sort_key (\<lambda>r. (or_created_at r, or_operation_id r))
             (filter (\<lambda>r. or_account_id r = account_id \<and> or_status r = status_as_str OpPending) (rd_operations db))
       in repo_read (case rows of [] \<Rightarrow> None | r # _ \<Rightarrow> Some r) db)"

definition repo_find_guard :: "string \<Rightarrow> guard_row option tx" where
  "repo_find_guard account_id db = Inr (find_guard account_id db, db)"

definition repo_delete_guard :: "string \<Rightarrow> unit tx" where
  "repo_delete_guard account_id db =
     Inr ((), db\<lparr>rd_guards := filter (\<lambda>g. gr_account_id g \<noteq> account_id) (rd_guards db)\<rparr>)"

text \<open>\<open>ON CONFLICT (account_id) DO NOTHING\<close>: a second guard of an operation violates its uniqueness.\<close>

definition repo_insert_guard :: "string \<Rightarrow> string \<Rightarrow> int \<Rightarrow> bool tx" where
  "repo_insert_guard account_id operation_id created_at db =
     (if find_guard account_id db \<noteq> None then Inr (False, db)
      else if list_ex (\<lambda>g. gr_operation_id g = operation_id) (rd_guards db) then Inl ConstraintViolation
      else Inr (True, db\<lparr>rd_guards := rd_guards db @
        [\<lparr>gr_account_id = account_id, gr_operation_id = operation_id, gr_created_at = created_at\<rparr>]\<rparr>))"

section \<open>The claim\<close>

definition blocking_for :: "string \<Rightarrow> reset_credit_operation option \<Rightarrow> reset_credit_operation option" where
  "blocking_for account_id operation =
     (case operation of
        Some x \<Rightarrow> if ro_status x = OpPending \<and> ro_account_id x = account_id then Some x else None
      | None \<Rightarrow> None)"

text \<open>
  A guard of another operation that is in the way: the operation that blocks the claim, or the
  guard is stale and removed.
\<close>

definition repo_other_guard ::
  "string \<Rightarrow> string \<Rightarrow> guard_row option \<Rightarrow> reset_credit_operation option tx" where
  "repo_other_guard operation_id account_id guard =
     (case guard of
        None \<Rightarrow> tx_return None
      | Some g \<Rightarrow>
          if gr_operation_id g = operation_id then tx_return None
          else tx_bind (repo_get (gr_operation_id g)) (\<lambda>operation.
            case blocking_for account_id operation of
              Some x \<Rightarrow> tx_return (Some x)
            | None \<Rightarrow> tx_bind (repo_delete_guard account_id) (\<lambda>_. tx_return None)))"

definition repo_claim_existing ::
  "string \<Rightarrow> string \<Rightarrow> reset_credit_operation \<Rightarrow> operation_claim tx" where
  "repo_claim_existing operation_id account_id x =
     (if ro_account_id x \<noteq> account_id then tx_return (ClaimAccountConflict x)
      else if ro_status x = OpPending then
        tx_bind (repo_find_guard account_id) (\<lambda>guard.
        tx_bind (repo_other_guard operation_id account_id guard) (\<lambda>blocking.
          case blocking of
            Some y \<Rightarrow> tx_return (ClaimPendingAccount y)
          | None \<Rightarrow>
              tx_bind (repo_insert_guard account_id operation_id (ro_created_at x)) (\<lambda>inserted.
                if inserted then tx_return (ClaimExisting x)
                else
                  tx_bind (repo_find_guard account_id) (\<lambda>guard2.
                  tx_bind (repo_other_guard operation_id account_id guard2) (\<lambda>blocking2.
                    case blocking2 of
                      Some y \<Rightarrow> tx_return (ClaimPendingAccount y)
                    | None \<Rightarrow> tx_return (ClaimExisting x))))))
      else
        tx_bind (repo_find_guard account_id) (\<lambda>guard.
          case guard of
            None \<Rightarrow> tx_return (ClaimExisting x)
          | Some g \<Rightarrow>
              tx_bind (repo_get (gr_operation_id g)) (\<lambda>operation.
                if (case operation of None \<Rightarrow> True | Some y \<Rightarrow> ro_status y \<noteq> OpPending)
                then tx_bind (repo_delete_guard account_id) (\<lambda>_. tx_return (ClaimExisting x))
                else tx_return (ClaimExisting x))))"

definition repo_insert_new :: "reset_credit_operation \<Rightarrow> operation_claim tx" where
  "repo_insert_new candidate =
     tx_bind (insert_operation (row_from_operation candidate)) (\<lambda>_. tx_return (ClaimCreated candidate))"

text \<open>What follows an insertion of the guard that another transaction won.\<close>

definition repo_guard_conflict ::
  "reset_credit_operation \<Rightarrow> operation_claim tx" where
  "repo_guard_conflict candidate =
     (let a = ro_account_id candidate
      in tx_bind (repo_find_guard a) (\<lambda>guard.
         case guard of
           None \<Rightarrow> tx_fail (DbCustom ''reset credit account guard disappeared'')
         | Some g \<Rightarrow>
             tx_bind (repo_get (gr_operation_id g)) (\<lambda>operation.
               case operation of
                 None \<Rightarrow> tx_fail (DbCustom ''reset credit account guard has no operation'')
               | Some x \<Rightarrow>
                   if ro_status x = OpPending \<and> ro_account_id x = a then tx_return (ClaimPendingAccount x)
                   else
                     tx_bind (repo_delete_guard a) (\<lambda>_.
                     tx_bind (repo_insert_guard a (ro_operation_id candidate) (ro_created_at candidate)) (\<lambda>retry.
                       if retry then repo_insert_new candidate
                       else
                         tx_bind (repo_find_guard a) (\<lambda>guard2.
                           case guard2 of
                             None \<Rightarrow> tx_fail (DbCustom ''reset credit account guard disappeared'')
                           | Some g2 \<Rightarrow>
                               tx_bind (repo_get (gr_operation_id g2)) (\<lambda>operation2.
                                 case operation2 of
                                   None \<Rightarrow> tx_fail (DbCustom ''reset credit account guard has no operation'')
                                 | Some y \<Rightarrow> tx_return (ClaimPendingAccount y))))))))"

definition repo_claim_new :: "string \<Rightarrow> string \<Rightarrow> string \<Rightarrow> int \<Rightarrow> operation_claim tx" where
  "repo_claim_new operation_id account_id redeem_request_id now =
     (let candidate = new_operation operation_id account_id redeem_request_id now;
          insert = tx_bind (repo_insert_guard account_id operation_id now) (\<lambda>inserted.
            if inserted then repo_insert_new candidate else repo_guard_conflict candidate)
      in tx_bind (repo_find_guard account_id) (\<lambda>guard.
         case guard of
           None \<Rightarrow> insert
         | Some g \<Rightarrow>
             tx_bind (repo_get (gr_operation_id g)) (\<lambda>operation.
               case blocking_for account_id operation of
                 Some x \<Rightarrow> tx_return (ClaimPendingAccount x)
               | None \<Rightarrow> tx_bind (repo_delete_guard account_id) (\<lambda>_. insert))))"

definition repo_claim_once :: "string \<Rightarrow> string \<Rightarrow> string \<Rightarrow> int \<Rightarrow> operation_claim tx" where
  "repo_claim_once operation_id account_id redeem_request_id now =
     tx_bind (repo_validate_identifier ''operationId'' operation_id) (\<lambda>_.
     tx_bind (repo_validate_identifier ''accountId'' account_id) (\<lambda>_.
     tx_bind (repo_validate_identifier ''redeemRequestId'' redeem_request_id) (\<lambda>_.
     tx_bind (repo_get operation_id) (\<lambda>operation.
       case operation of
         Some x \<Rightarrow> repo_claim_existing operation_id account_id x
       | None \<Rightarrow> repo_claim_new operation_id account_id redeem_request_id now))))"

text \<open>
  Attempts that meet a lock of the database fail and change nothing; \<open>locks\<close> are the errors of the
  attempts to come, and attempts beyond the list run undisturbed.
\<close>

definition is_retryable_lock_error :: "store_error \<Rightarrow> bool" where
  "is_retryable_lock_error error =
     (case error of
        DbCustom message \<Rightarrow>
          list_ex (contains (to_ascii_lowercase message))
            [''deadlock'', ''database is locked'', ''database is deadlocked'', ''sqlite_busy'']
      | _ \<Rightarrow> False)"

fun repo_claim_attempts ::
  "nat \<Rightarrow> store_error option list \<Rightarrow> string \<Rightarrow> string \<Rightarrow> string \<Rightarrow> int \<Rightarrow> operation_claim tx" where
  "repo_claim_attempts n (Some e # locks) oid a rid now db =
     (if n = 0 \<or> \<not> is_retryable_lock_error e then Inl e
      else repo_claim_attempts (n - 1) locks oid a rid now db)"
| "repo_claim_attempts n _ oid a rid now db =
     (case repo_claim_once oid a rid now db of
        Inl e \<Rightarrow> if n = 0 \<or> \<not> is_retryable_lock_error e then Inl e
                 else repo_claim_attempts (n - 1) [] oid a rid now db
      | Inr r \<Rightarrow> Inr r)"

definition repo_claim :: "store_error option list \<Rightarrow> string \<Rightarrow> string \<Rightarrow> string \<Rightarrow> int \<Rightarrow> operation_claim tx" where
  "repo_claim locks = repo_claim_attempts 32 locks"

section \<open>The updates\<close>

definition repo_release_and_report :: "string \<Rightarrow> string \<Rightarrow> nat \<Rightarrow> operation_update tx" where
  "repo_release_and_report operation_id account_id updated =
     tx_bind (repo_get operation_id) (\<lambda>operation.
       case operation of
         None \<Rightarrow> tx_return UpdateNotFound
       | Some x \<Rightarrow>
           if ro_account_id x \<noteq> account_id then tx_return (UpdateAccountConflict x)
           else tx_bind (delete_guard account_id operation_id) (\<lambda>_.
             tx_return (if updated = 1 then UpdateUpdated x else UpdateExisting x)))"

definition repo_finish ::
  "string \<Rightarrow> string \<Rightarrow> operation_status \<Rightarrow> string option \<Rightarrow> string option \<Rightarrow> int \<Rightarrow> operation_update tx" where
  "repo_finish operation_id account_id status result_json error now =
     tx_bind (repo_validate_identifier ''operationId'' operation_id) (\<lambda>_.
     tx_bind (repo_validate_identifier ''accountId'' account_id) (\<lambda>_.
     tx_bind (update_operations
         (\<lambda>r. or_operation_id r = operation_id \<and> or_account_id r = account_id
              \<and> or_status r = status_as_str OpPending)
         (\<lambda>r. r\<lparr>or_status := status_as_str status, or_result_json := result_json, or_error := error,
                or_updated_at := now\<rparr>))
       (repo_release_and_report operation_id account_id)))"

definition repo_complete :: "string \<Rightarrow> string \<Rightarrow> string \<Rightarrow> int \<Rightarrow> operation_update tx" where
  "repo_complete operation_id account_id result_json now =
     repo_finish operation_id account_id OpCompleted (Some result_json) None now"

definition repo_fail :: "string \<Rightarrow> string \<Rightarrow> string \<Rightarrow> int \<Rightarrow> operation_update tx" where
  "repo_fail operation_id account_id error now =
     repo_finish operation_id account_id OpFailed None (Some error) now"

definition repo_update_completed_result :: "string \<Rightarrow> string \<Rightarrow> string \<Rightarrow> int \<Rightarrow> operation_update tx" where
  "repo_update_completed_result operation_id account_id result_json now =
     tx_bind (repo_validate_identifier ''operationId'' operation_id) (\<lambda>_.
     tx_bind (repo_validate_identifier ''accountId'' account_id) (\<lambda>_.
     tx_bind (update_operations
         (\<lambda>r. or_operation_id r = operation_id \<and> or_account_id r = account_id
              \<and> or_status r = status_as_str OpCompleted)
         (\<lambda>r. r\<lparr>or_result_json := Some result_json, or_updated_at := now\<rparr>))
       (repo_release_and_report operation_id account_id)))"

end
