(* ===== verification/ResetJournal.thy ===== *)
theory ResetJournal
  imports ResetCreditRepo
begin

text \<open>
  What both implementations of the journal of reset credits promise: an abstract journal without
  guards, in which an account has at most one pending operation, and the refinement of it by the
  tables. The locale \<open>reset_journal\<close> is the contract the service relies on.
\<close>

section \<open>The abstract journal\<close>

type_synonym journal = "reset_credit_operation list"

abbreviation is_pending :: "reset_credit_operation \<Rightarrow> bool" where
  "is_pending x \<equiv> ro_status x = OpPending"

definition journal_find :: "string \<Rightarrow> journal \<Rightarrow> reset_credit_operation option" where
  "journal_find oid J = find (\<lambda>x. ro_operation_id x = oid) J"

definition journal_pending :: "string \<Rightarrow> journal \<Rightarrow> reset_credit_operation option" where
  "journal_pending a J = find (\<lambda>x. ro_account_id x = a \<and> is_pending x) J"

definition journal_claim ::
  "string \<Rightarrow> string \<Rightarrow> string \<Rightarrow> int \<Rightarrow> journal \<Rightarrow> operation_claim \<times> journal" where
  "journal_claim oid a rid now J =
     (case journal_find oid J of
        Some x \<Rightarrow> (if ro_account_id x \<noteq> a then ClaimAccountConflict x else ClaimExisting x, J)
      | None \<Rightarrow>
          (case journal_pending a J of
             Some y \<Rightarrow> (ClaimPendingAccount y, J)
           | None \<Rightarrow> (ClaimCreated (new_operation oid a rid now), J @ [new_operation oid a rid now])))"

definition journal_put :: "reset_credit_operation \<Rightarrow> journal \<Rightarrow> journal" where
  "journal_put y J = map (\<lambda>x. if ro_operation_id x = ro_operation_id y then y else x) J"

text \<open>An update of an operation that is in the status \<open>expected\<close>.\<close>

definition journal_change ::
  "operation_status \<Rightarrow> (reset_credit_operation \<Rightarrow> reset_credit_operation) \<Rightarrow> string \<Rightarrow> string \<Rightarrow> journal
    \<Rightarrow> operation_update \<times> journal" where
  "journal_change expected f oid a J =
     (case journal_find oid J of
        None \<Rightarrow> (UpdateNotFound, J)
      | Some x \<Rightarrow>
          if ro_account_id x \<noteq> a then (UpdateAccountConflict x, J)
          else if ro_status x = expected then (UpdateUpdated (f x), journal_put (f x) J)
          else (UpdateExisting x, J))"

definition finished ::
  "operation_status \<Rightarrow> string option \<Rightarrow> string option \<Rightarrow> int \<Rightarrow> reset_credit_operation \<Rightarrow> reset_credit_operation" where
  "finished status result_json error now x =
     x\<lparr>ro_status := status, ro_result_json := result_json, ro_error := error, ro_updated_at := now\<rparr>"

definition enriched :: "string \<Rightarrow> int \<Rightarrow> reset_credit_operation \<Rightarrow> reset_credit_operation" where
  "enriched result_json now x = x\<lparr>ro_result_json := Some result_json, ro_updated_at := now\<rparr>"

definition valid_id :: "string \<Rightarrow> bool" where
  "valid_id s \<longleftrightarrow> s \<noteq> [] \<and> trim s = s"

definition journal_wf :: "journal \<Rightarrow> bool" where
  "journal_wf J \<longleftrightarrow> distinct (map ro_operation_id J) \<and> distinct (map ro_account_id (filter is_pending J))
     \<and> (\<forall>x\<in>set J. valid_id (ro_operation_id x) \<and> valid_id (ro_account_id x) \<and> valid_id (ro_redeem_request_id x))"

text \<open>Later journals: operations keep their identity, and a finished one stays as it ended.\<close>

definition same_operation :: "reset_credit_operation \<Rightarrow> reset_credit_operation \<Rightarrow> bool" where
  "same_operation x y \<longleftrightarrow> ro_operation_id y = ro_operation_id x \<and> ro_account_id y = ro_account_id x
     \<and> ro_redeem_request_id y = ro_redeem_request_id x \<and> ro_created_at y = ro_created_at x
     \<and> (\<not> is_pending x \<longrightarrow> ro_status y = ro_status x \<and> ro_error y = ro_error x)"

definition journal_le :: "journal \<Rightarrow> journal \<Rightarrow> bool" where
  "journal_le J J' \<longleftrightarrow> (\<forall>oid x. journal_find oid J = Some x \<longrightarrow>
     (\<exists>y. journal_find oid J' = Some y \<and> same_operation x y))"

lemma same_operation_refl [simp]: "same_operation x x"
  by (simp add: same_operation_def)

lemma same_operation_trans: "same_operation x y \<Longrightarrow> same_operation y z \<Longrightarrow> same_operation x z"
  by (auto simp: same_operation_def)

lemma journal_le_refl [simp]: "journal_le J J"
  by (simp add: journal_le_def)

lemma journal_le_trans: "journal_le J K \<Longrightarrow> journal_le K L \<Longrightarrow> journal_le J L"
  unfolding journal_le_def by (meson same_operation_trans)

lemma journal_findD: "journal_find oid J = Some x \<Longrightarrow> x \<in> set J \<and> ro_operation_id x = oid"
  by (auto simp: journal_find_def find_Some_iff)

lemma journal_find_None: "journal_find oid J = None \<longleftrightarrow> oid \<notin> ro_operation_id ` set J"
  by (auto simp: journal_find_def find_None_iff)

lemma journal_find_mem: "journal_wf J \<Longrightarrow> x \<in> set J \<Longrightarrow> journal_find (ro_operation_id x) J = Some x"
proof -
  have "distinct (map ro_operation_id K) \<Longrightarrow> x \<in> set K \<Longrightarrow> find (\<lambda>z. ro_operation_id z = ro_operation_id x) K = Some x" for K
    by (induction K) auto
  then show "journal_wf J \<Longrightarrow> x \<in> set J \<Longrightarrow> journal_find (ro_operation_id x) J = Some x"
    by (simp add: journal_wf_def journal_find_def)
qed

lemma journal_pendingD: "journal_pending a J = Some x \<Longrightarrow> x \<in> set J \<and> ro_account_id x = a \<and> is_pending x"
  by (auto simp: journal_pending_def find_Some_iff)

lemma journal_pending_None: "journal_pending a J = None \<longleftrightarrow> (\<forall>x\<in>set J. is_pending x \<longrightarrow> ro_account_id x \<noteq> a)"
  by (auto simp: journal_pending_def find_None_iff)

lemma pending_unique:
  assumes "journal_wf J" and "x \<in> set J" "y \<in> set J" and "is_pending x" "is_pending y"
    and "ro_account_id x = ro_account_id y"
  shows "x = y"
  using assms by (auto simp: journal_wf_def distinct_map dest: inj_onD)

lemma journal_pending_mem: "journal_wf J \<Longrightarrow> x \<in> set J \<Longrightarrow> is_pending x \<Longrightarrow> journal_pending (ro_account_id x) J = Some x"
  by (metis journal_pendingD journal_pending_None not_Some_eq pending_unique)

lemma journal_find_append:
  "journal_find oid (J @ [x]) =
     (case journal_find oid J of Some y \<Rightarrow> Some y | None \<Rightarrow> if ro_operation_id x = oid then Some x else None)"
  by (induction J) (auto simp: journal_find_def)

lemma journal_find_put:
  "journal_find oid (journal_put y J) =
     (if oid = ro_operation_id y then map_option (\<lambda>_. y) (journal_find oid J) else journal_find oid J)"
  by (induction J) (auto simp: journal_find_def journal_put_def)

lemma map_id_put: "map ro_operation_id (journal_put y J) = map ro_operation_id J"
  by (induction J) (auto simp: journal_put_def)

subsection \<open>The operations keep the journal well-formed and only grow it\<close>

lemma new_operation_simps [simp]:
  "ro_operation_id (new_operation oid a rid now) = oid" "ro_account_id (new_operation oid a rid now) = a"
  "ro_redeem_request_id (new_operation oid a rid now) = rid" "ro_status (new_operation oid a rid now) = OpPending"
  by (simp_all add: new_operation_def)

lemma claim_journal:
  assumes w: "journal_wf J" and v: "valid_id oid" "valid_id a" "valid_id rid"
  shows "journal_wf (snd (journal_claim oid a rid now J)) \<and> journal_le J (snd (journal_claim oid a rid now J))"
proof (cases "journal_find oid J = None \<and> journal_pending a J = None")
  case True
  then have "snd (journal_claim oid a rid now J) = J @ [new_operation oid a rid now]"
    by (simp add: journal_claim_def)
  moreover have "journal_wf (J @ [new_operation oid a rid now])"
    using w v True by (auto simp: journal_wf_def journal_find_None journal_pending_None)
  moreover have "journal_le J (J @ [new_operation oid a rid now])"
    by (auto simp: journal_le_def journal_find_append)
  ultimately show ?thesis by simp
next
  case False
  then have "snd (journal_claim oid a rid now J) = J"
    by (auto simp: journal_claim_def split: option.splits)
  with w show ?thesis by simp
qed

lemma put_journal:
  assumes w: "journal_wf J" and x: "journal_find oid J = Some x" and s: "same_operation x y"
    and p: "is_pending y \<Longrightarrow> is_pending x"
  shows "journal_wf (journal_put y J) \<and> journal_le J (journal_put y J)"
proof -
  have y: "ro_operation_id y = oid" "ro_account_id y = ro_account_id x" "x \<in> set J"
    using s journal_findD [OF x] by (auto simp: same_operation_def)
  have ids: "ro_operation_id z = oid \<Longrightarrow> z \<in> set J \<Longrightarrow> z = x" for z
    using journal_find_mem [OF w] x by fastforce
  have "\<forall>z\<in>set K. ro_operation_id z = oid \<longrightarrow> z = x \<Longrightarrow>
      map ro_account_id (filter is_pending (journal_put y K)) =
      (if is_pending y then map ro_account_id (filter is_pending K)
       else map ro_account_id (filter (\<lambda>z. is_pending z \<and> ro_operation_id z \<noteq> oid) K))" for K
    using p y(1,2) by (induction K) (auto simp: journal_put_def)
  then have acc: "map ro_account_id (filter is_pending (journal_put y J)) =
      (if is_pending y then map ro_account_id (filter is_pending J)
       else map ro_account_id (filter (\<lambda>z. is_pending z \<and> ro_operation_id z \<noteq> oid) J))"
    using ids by blast
  have "distinct (map ro_account_id (filter is_pending (journal_put y J)))"
    using w unfolding acc by (auto simp: journal_wf_def distinct_map inj_on_def)
  moreover have "distinct (map ro_operation_id (journal_put y J))"
    using w by (simp add: map_id_put journal_wf_def)
  moreover have "\<forall>z\<in>set (journal_put y J). valid_id (ro_operation_id z) \<and> valid_id (ro_account_id z)
      \<and> valid_id (ro_redeem_request_id z)"
    using w s y by (auto simp: journal_wf_def journal_put_def same_operation_def)
  moreover have "journal_le J (journal_put y J)"
    using x s y by (auto simp: journal_le_def journal_find_put)
  ultimately show ?thesis by (simp add: journal_wf_def)
qed

lemma change_journal:
  assumes w: "journal_wf J" and f: "\<And>x. ro_status x = expected \<Longrightarrow> same_operation x (f x) \<and> (is_pending (f x) \<longrightarrow> is_pending x)"
  shows "journal_wf (snd (journal_change expected f oid a J)) \<and> journal_le J (snd (journal_change expected f oid a J))"
  using put_journal [OF w] f w by (auto simp: journal_change_def split: option.splits)

section \<open>The tables of a journal\<close>

definition guards_match :: "reset_db \<Rightarrow> journal \<Rightarrow> bool" where
  "guards_match db J \<longleftrightarrow> distinct (map gr_account_id (rd_guards db)) \<and>
     (\<lambda>g. (gr_account_id g, gr_operation_id g)) ` set (rd_guards db) =
     (\<lambda>x. (ro_account_id x, ro_operation_id x)) ` {x \<in> set J. is_pending x}"

definition stores :: "reset_db \<Rightarrow> journal \<Rightarrow> bool" where
  "stores db J \<longleftrightarrow> journal_wf J \<and> rd_operations db = map row_from_operation J \<and> guards_match db J"

lemma status_roundtrip [simp]: "status_from_storage (status_as_str s) = Some s"
  by (cases s) (simp_all add: status_from_storage_def)

lemma status_as_str_inject [simp]: "status_as_str s = status_as_str t \<longleftrightarrow> s = t"
  by (metis option.inject status_roundtrip)

lemma row_roundtrip [simp]: "operation_from_row (row_from_operation x) = Inr x"
  by (simp add: operation_from_row_def row_from_operation_def)

lemma row_simps [simp]:
  "or_operation_id (row_from_operation x) = ro_operation_id x" "or_account_id (row_from_operation x) = ro_account_id x"
  "or_status (row_from_operation x) = status_as_str (ro_status x)" "or_redeem_request_id (row_from_operation x) = ro_redeem_request_id x"
  by (simp_all add: row_from_operation_def)

lemma find_rows: "find (\<lambda>r. or_operation_id r = oid) (map row_from_operation J) = map_option row_from_operation (journal_find oid J)"
  by (induction J) (auto simp: journal_find_def)

lemma read_operation [simp]: "stores db J \<Longrightarrow> operation_in_transaction oid db = Inr (journal_find oid J, db)"
  by (simp add: operation_in_transaction_def stores_def find_rows read_row_def tx_return_def split: option.split)

lemma repo_read_operation [simp]: "stores db J \<Longrightarrow> valid_id oid \<Longrightarrow> repo_get oid db = Inr (journal_find oid J, db)"
  by (simp add: repo_get_def repo_validate_identifier_def valid_id_def tx_bind_def stores_def find_rows repo_read_def
      tx_return_def repo_try_from_def split: option.split)
    (simp add: row_from_operation_def)

lemma stores_wf: "stores db J \<Longrightarrow> journal_wf J"
  by (simp add: stores_def)

lemma guard_of_pending:
  assumes "stores db J"
  shows "(case journal_pending a J of
      None \<Rightarrow> find_guard a db = None
    | Some x \<Rightarrow> \<exists>g. find_guard a db = Some g \<and> gr_account_id g = a \<and> gr_operation_id g = ro_operation_id x)"
proof (cases "journal_pending a J")
  case None
  then have "\<forall>g\<in>set (rd_guards db). gr_account_id g \<noteq> a"
    using assms by (force simp: stores_def guards_match_def journal_pending_None set_eq_iff image_iff)
  with None show ?thesis by (simp add: find_guard_def find_None_iff)
next
  case (Some x)
  note x = journal_pendingD [OF Some]
  have eq: "(\<lambda>g. (gr_account_id g, gr_operation_id g)) ` set (rd_guards db) =
     (\<lambda>x. (ro_account_id x, ro_operation_id x)) ` {x \<in> set J. is_pending x}"
    using assms by (simp add: stores_def guards_match_def)
  have "(ro_account_id x, ro_operation_id x) \<in> (\<lambda>x. (ro_account_id x, ro_operation_id x)) ` {x \<in> set J. is_pending x}"
    using x by blast
  then have "\<exists>g\<in>set (rd_guards db). gr_account_id g = a" using x unfolding eq [symmetric] by auto
  then obtain g where g: "find_guard a db = Some g"
    unfolding find_guard_def by (metis (mono_tags, lifting) find_None_iff not_Some_eq)
  then have ga: "g \<in> set (rd_guards db)" "gr_account_id g = a"
    by (auto simp: find_guard_def find_Some_iff)
  then have "(gr_account_id g, gr_operation_id g) \<in> (\<lambda>x. (ro_account_id x, ro_operation_id x)) ` {x \<in> set J. is_pending x}"
    unfolding eq [symmetric] by blast
  then obtain y where "y \<in> set J" "is_pending y" "ro_account_id y = a" "gr_operation_id g = ro_operation_id y"
    using ga by auto
  then have "y = x" using x pending_unique [OF stores_wf [OF assms]] by auto
  with \<open>gr_operation_id g = ro_operation_id y\<close> g ga Some show ?thesis by simp
qed

lemma guard_operation [simp]:
  assumes s: "stores db J"
  shows "pending_operation_for_guard a db = Inr (journal_pending a J, db)"
proof (cases "journal_pending a J")
  case None
  with guard_of_pending [OF s, of a] show ?thesis by (simp add: pending_operation_for_guard_def)
next
  case (Some x)
  note x = journal_pendingD [OF Some]
  obtain g where "find_guard a db = Some g" "gr_operation_id g = ro_operation_id x"
    using guard_of_pending [OF s, of a] Some by auto
  moreover have "journal_find (ro_operation_id x) J = Some x"
    using journal_find_mem [OF stores_wf [OF s]] x by blast
  ultimately show ?thesis
    using x Some by (simp add: pending_operation_for_guard_def tx_bind_def tx_return_def read_operation [OF s])
qed

subsection \<open>Insertions and updates\<close>

lemma no_guard_of_new:
  assumes "stores db J" and "journal_find oid J = None" and that: "g \<in> set (rd_guards db)"
  shows "gr_operation_id g \<noteq> oid"
proof -
  have "(gr_account_id g, gr_operation_id g) \<in> (\<lambda>x. (ro_account_id x, ro_operation_id x)) ` {x \<in> set J. is_pending x}"
    using assms(1) that unfolding stores_def guards_match_def by blast
  then show ?thesis using assms(2) by (auto simp: journal_find_None)
qed

lemma stores_new:
  assumes s: "stores db J" and v: "valid_id oid" "valid_id a" "valid_id rid"
    and n: "journal_find oid J = None" "journal_pending a J = None"
  shows "stores (db\<lparr>rd_guards := rd_guards db @ [\<lparr>gr_account_id = a, gr_operation_id = oid, gr_created_at = t\<rparr>],
      rd_operations := rd_operations db @ [row_from_operation (new_operation oid a rid now)]\<rparr>)
    (J @ [new_operation oid a rid now])"
proof -
  have "snd (journal_claim oid a rid now J) = J @ [new_operation oid a rid now]"
    using n by (simp add: journal_claim_def)
  then have "journal_wf (J @ [new_operation oid a rid now])"
    using claim_journal [OF stores_wf [OF s] v] by metis
  moreover have "\<forall>g\<in>set (rd_guards db). gr_account_id g \<noteq> a"
    using guard_of_pending [OF s, of a] n by (simp add: find_guard_def find_None_iff)
  then have "guards_match (db\<lparr>rd_guards := rd_guards db @ [\<lparr>gr_account_id = a, gr_operation_id = oid, gr_created_at = t\<rparr>],
      rd_operations := rd_operations db @ [row_from_operation (new_operation oid a rid now)]\<rparr>)
    (J @ [new_operation oid a rid now])"
    using s by (auto simp: stores_def guards_match_def conj_disj_distribR Collect_disj_eq image_Un)
  ultimately show ?thesis using s by (simp add: stores_def)
qed

lemma update_rows:
  assumes s: "stores db J" and f: "\<And>x. g (row_from_operation x) = row_from_operation (f x)" "\<And>x. ro_operation_id (f x) = ro_operation_id x"
  shows "update_operations (\<lambda>r. or_operation_id r = oid \<and> or_account_id r = a \<and> or_status r = status_as_str expected) g db =
    (case journal_find oid J of
       Some x \<Rightarrow> if ro_account_id x = a \<and> ro_status x = expected
                then Inr (1, db\<lparr>rd_operations := map row_from_operation (journal_put (f x) J)\<rparr>) else Inr (0, db)
     | None \<Rightarrow> Inr (0, db))"
proof -
  let ?p = "\<lambda>x. ro_operation_id x = oid \<and> ro_account_id x = a \<and> ro_status x = expected"
  have rows: "rd_operations db = map row_from_operation J" and d: "distinct (map ro_operation_id J)"
    using s by (simp_all add: stores_def journal_wf_def)
  have none: "\<forall>x\<in>set J. \<not> ?p x \<Longrightarrow> update_operations (\<lambda>r. or_operation_id r = oid \<and> or_account_id r = a
      \<and> or_status r = status_as_str expected) g db = Inr (0, db)"
  proof -
    assume n: "\<forall>x\<in>set J. \<not> ?p x"
    let ?f = "\<lambda>r. if or_operation_id r = oid \<and> or_account_id r = a \<and> or_status r = status_as_str expected then g r else r"
    have "map ?f (rd_operations db) = rd_operations db" using n rows by (intro map_idI) auto
    then have "db\<lparr>rd_operations := map ?f (rd_operations db)\<rparr> = db" by simp
    moreover have "filter (\<lambda>r. or_operation_id r = oid \<and> or_account_id r = a \<and> or_status r = status_as_str expected)
        (rd_operations db) = []" using n rows by (auto simp: filter_empty_conv)
    ultimately show ?thesis by (simp only: update_operations_def list.size)
  qed
  show ?thesis
  proof (cases "\<exists>x. journal_find oid J = Some x \<and> ?p x")
    case True
    then obtain x where x: "journal_find oid J = Some x" "?p x" "x \<in> set J" by (auto dest: journal_findD)
    have u: "y \<in> set J \<Longrightarrow> ro_operation_id y = oid \<Longrightarrow> y = x" for y
      using journal_find_mem [OF stores_wf [OF s]] x(1) by fastforce
    have "filter ?p J = filter (\<lambda>y. ro_operation_id y = oid) J"
      by (rule filter_cong [OF refl]) (use u x(2) in blast)
    moreover have "length (filter (\<lambda>y. ro_operation_id y = oid) J) = 1"
    proof -
      have "map ro_operation_id (filter (\<lambda>y. ro_operation_id y = oid) J) = filter (\<lambda>i. i = oid) (map ro_operation_id J)"
        by (simp add: filter_map comp_def)
      then have len: "length (filter (\<lambda>y. ro_operation_id y = oid) J) = length (filter (\<lambda>i. i = oid) (map ro_operation_id J))"
        by (metis length_map)
      have one: "distinct ks \<Longrightarrow> oid \<in> set ks \<Longrightarrow> length (filter (\<lambda>i. i = oid) ks) = 1" for ks :: "string list"
        by (induction ks) (auto simp: filter_empty_conv)
      have "oid \<in> set (map ro_operation_id J)" using x(2,3) by auto
      with d have "length (filter (\<lambda>i. i = oid) (map ro_operation_id J)) = 1" by (rule one)
      with len show ?thesis by simp
    qed
    moreover have "map (\<lambda>r. if or_operation_id r = oid \<and> or_account_id r = a \<and> or_status r = status_as_str expected
        then g r else r) (map row_from_operation J) = map row_from_operation (journal_put (f x) J)"
      unfolding journal_put_def map_map
    proof (rule map_cong [OF refl])
      fix y assume y: "y \<in> set J"
      show "((\<lambda>r. if or_operation_id r = oid \<and> or_account_id r = a \<and> or_status r = status_as_str expected
          then g r else r) \<circ> row_from_operation) y =
        (row_from_operation \<circ> (\<lambda>z. if ro_operation_id z = ro_operation_id (f x) then f x else z)) y"
        using u [OF y] x(2) by (cases "ro_operation_id y = oid") (simp_all add: f)
    qed
    ultimately show ?thesis using x rows by (simp add: update_operations_def filter_map comp_def)
  next
    case False
    then have "\<forall>x\<in>set J. \<not> ?p x" using journal_find_mem [OF stores_wf [OF s]] by blast
    with none show ?thesis by (auto split: option.split dest!: journal_findD)
  qed
qed

subsection \<open>The end of an operation\<close>

lemma release_operation:
  assumes s: "stores db J" and v: "valid_id oid" and x: "journal_find oid J = Some x" "ro_account_id x = a"
    and y: "same_operation x y" "\<not> is_pending y"
  shows "stores (db\<lparr>rd_operations := map row_from_operation (journal_put y J),
      rd_guards := filter (\<lambda>g. \<not> (gr_account_id g = a \<and> gr_operation_id g = oid)) (rd_guards db)\<rparr>) (journal_put y J)"
proof -
  note w = stores_wf [OF s]
  have put: "journal_wf (journal_put y J)" using put_journal [OF w x(1) y(1)] y(2) by simp
  have yo: "ro_operation_id y = oid" using y journal_findD [OF x(1)] by (simp add: same_operation_def)
  have pend: "{z \<in> set (journal_put y J). is_pending z} = {z \<in> set J. is_pending z \<and> ro_operation_id z \<noteq> oid}"
    using y(2) yo by (auto simp: journal_put_def)
  let ?k = "\<lambda>g. (gr_account_id g, gr_operation_id g)" and ?o = "\<lambda>x. (ro_account_id x, ro_operation_id x)"
  have eq: "?k ` set (rd_guards db) = ?o ` {z \<in> set J. is_pending z}"
    using s by (simp add: stores_def guards_match_def)
  have acc: "z \<in> set J \<Longrightarrow> ro_operation_id z = oid \<Longrightarrow> ro_account_id z = a" for z
    using journal_find_mem [OF w, of z] x by auto
  have "?k ` {g \<in> set (rd_guards db). \<not> (gr_account_id g = a \<and> gr_operation_id g = oid)} = ?k ` set (rd_guards db) - {(a, oid)}"
    by auto
  also have "\<dots> = ?o ` {z \<in> set J. is_pending z \<and> ro_operation_id z \<noteq> oid}"
    unfolding eq using acc by auto
  finally have "?k ` {g \<in> set (rd_guards db). \<not> (gr_account_id g = a \<and> gr_operation_id g = oid)}
      = ?o ` {z \<in> set J. is_pending z \<and> ro_operation_id z \<noteq> oid}" .
  moreover have "distinct (map gr_account_id (filter (\<lambda>g. \<not> (gr_account_id g = a \<and> gr_operation_id g = oid)) (rd_guards db)))"
    using s by (auto simp: stores_def guards_match_def intro: distinct_map_filter)
  ultimately show ?thesis using put pend by (simp add: stores_def guards_match_def)
qed

lemma release_nothing:
  assumes s: "stores db J" and x: "journal_find oid J = Some x" "\<not> is_pending x"
  shows "filter (\<lambda>g. \<not> (gr_account_id g = a \<and> gr_operation_id g = oid)) (rd_guards db) = rd_guards db"
proof (rule filter_True, rule ballI)
  fix g assume "g \<in> set (rd_guards db)"
  then have "(gr_account_id g, gr_operation_id g) \<in> (\<lambda>x. (ro_account_id x, ro_operation_id x)) ` {z \<in> set J. is_pending z}"
    using s unfolding stores_def guards_match_def by blast
  then obtain z where z: "z \<in> set J" "is_pending z" "gr_operation_id g = ro_operation_id z" by auto
  then have "ro_operation_id z \<noteq> oid" using journal_find_mem [OF stores_wf [OF s] z(1)] x by auto
  with z show "\<not> (gr_account_id g = a \<and> gr_operation_id g = oid)" by simp
qed

text \<open>An update and the release, as one step of the journal.\<close>

lemma change_refines:
  assumes s: "stores db J" and v: "valid_id oid"
    and g: "\<And>x. g (row_from_operation x) = row_from_operation (f x)"
    and f: "\<And>x. ro_status x = expected \<Longrightarrow> same_operation x (f x) \<and> \<not> is_pending (f x)" "\<And>x. ro_operation_id (f x) = ro_operation_id x"
    and e: "expected = OpPending \<or> (\<forall>x. journal_find oid J = Some x \<longrightarrow> ro_account_id x = a \<longrightarrow> \<not> is_pending x)"
  shows "\<exists>db'. tx_bind (update_operations (\<lambda>r. or_operation_id r = oid \<and> or_account_id r = a \<and> or_status r = status_as_str expected) g)
      (release_and_report oid a) db = Inr (fst (journal_change expected f oid a J), db')
    \<and> stores db' (snd (journal_change expected f oid a J))"
proof (cases "journal_find oid J")
  case None
  then show ?thesis
    using s update_rows [OF s g f(2), where oid = oid and a = a and expected = expected]
    by (simp add: tx_bind_def release_and_report_def read_operation [OF s] tx_return_def journal_change_def)
next
  case (Some x)
  note up = update_rows [OF s g f(2), where oid = oid and a = a and expected = expected]
  show ?thesis
  proof (cases "ro_account_id x = a \<and> ro_status x = expected")
    case True
    let ?db = "db\<lparr>rd_operations := map row_from_operation (journal_put (f x) J)\<rparr>"
    have "operation_in_transaction oid ?db = Inr (Some (f x), ?db)"
      using Some f(2) [of x] journal_findD [OF Some]
      by (simp add: operation_in_transaction_def find_rows journal_find_put read_row_def tx_return_def)
    moreover have "ro_account_id (f x) = a" using f(1) [of x] True by (simp add: same_operation_def)
    ultimately show ?thesis
      using up Some True release_operation [OF s v Some, of a "f x"] f(1) [of x]
      by (simp add: tx_bind_def release_and_report_def tx_return_def journal_change_def delete_guard_def)
  next
    case False
    show ?thesis
    proof (cases "ro_account_id x = a")
      case True
      then have "\<not> is_pending x" using e False Some by auto
      then show ?thesis
        using up Some True False s release_nothing [OF s Some]
        by (simp add: tx_bind_def release_and_report_def read_operation [OF s] tx_return_def journal_change_def delete_guard_def)
    next
      case False
      then show ?thesis
        using up Some s
        by (simp add: tx_bind_def release_and_report_def read_operation [OF s] tx_return_def journal_change_def)
    qed
  qed
qed

section \<open>Both implementations refine the journal\<close>

lemma validate_cases:
  "validate_identifier n v db = (if valid_id v then Inr ((), db) else Inl (InvalidParameterName (n @ '' must be non-empty and trimmed'')))"
  "repo_validate_identifier n v db = (if valid_id v then Inr ((), db) else Inl (DbCustom (n @ '' must be non-empty and trimmed'')))"
  by (auto simp: validate_identifier_def repo_validate_identifier_def valid_id_def tx_fail_def tx_return_def)

lemmas tx_defs = tx_bind_def tx_return_def tx_fail_def validate_cases

lemma insert_guard_new:
  assumes s: "stores db J" and "journal_find oid J = None" "journal_pending a J = None"
  shows "insert_guard a oid t db =
      Inr (True, db\<lparr>rd_guards := rd_guards db @ [\<lparr>gr_account_id = a, gr_operation_id = oid, gr_created_at = t\<rparr>]\<rparr>)"
    and "repo_insert_guard a oid t db =
      Inr (True, db\<lparr>rd_guards := rd_guards db @ [\<lparr>gr_account_id = a, gr_operation_id = oid, gr_created_at = t\<rparr>]\<rparr>)"
proof -
  have g: "find_guard a db = None" using guard_of_pending [OF s, of a] assms(3) by simp
  have "\<forall>g\<in>set (rd_guards db). gr_operation_id g \<noteq> oid" using no_guard_of_new [OF s assms(2)] by blast
  with g show "insert_guard a oid t db =
      Inr (True, db\<lparr>rd_guards := rd_guards db @ [\<lparr>gr_account_id = a, gr_operation_id = oid, gr_created_at = t\<rparr>]\<rparr>)"
    "repo_insert_guard a oid t db =
      Inr (True, db\<lparr>rd_guards := rd_guards db @ [\<lparr>gr_account_id = a, gr_operation_id = oid, gr_created_at = t\<rparr>]\<rparr>)"
    by (auto simp: insert_guard_def repo_insert_guard_def list_ex_iff find_guard_def find_None_iff)
qed

lemma insert_operation_new:
  assumes "rd_operations db = map row_from_operation J" and "journal_find (ro_operation_id x) J = None"
  shows "insert_operation (row_from_operation x) db = Inr ((), db\<lparr>rd_operations := rd_operations db @ [row_from_operation x]\<rparr>)"
  using assms by (auto simp: insert_operation_def list_ex_iff journal_find_None image_iff)

text \<open>The state of a new claim, in both.\<close>

definition with_new :: "string \<Rightarrow> string \<Rightarrow> string \<Rightarrow> int \<Rightarrow> reset_db \<Rightarrow> reset_db" where
  "with_new oid a rid now db =
     db\<lparr>rd_guards := rd_guards db @ [\<lparr>gr_account_id = a, gr_operation_id = oid, gr_created_at = now\<rparr>],
        rd_operations := rd_operations db @ [row_from_operation (new_operation oid a rid now)]\<rparr>"

definition claimed_db :: "string \<Rightarrow> string \<Rightarrow> string \<Rightarrow> int \<Rightarrow> journal \<Rightarrow> reset_db \<Rightarrow> reset_db" where
  "claimed_db oid a rid now J db =
     (if journal_find oid J = None \<and> journal_pending a J = None then with_new oid a rid now db else db)"

lemma stores_claimed:
  assumes "stores db J" "valid_id oid" "valid_id a" "valid_id rid"
  shows "stores (claimed_db oid a rid now J db) (snd (journal_claim oid a rid now J))"
  using assms stores_new [OF assms, of now now]
  by (auto simp: claimed_db_def with_new_def journal_claim_def split: option.splits)

lemma claim_sqlite:
  assumes s: "stores db J" and v: "valid_id oid" "valid_id a" "valid_id rid"
  shows "claim_reset_credit_operation oid a rid now db =
    Inr (fst (journal_claim oid a rid now J), claimed_db oid a rid now J db)"
proof (cases "journal_find oid J")
  case (Some x)
  note x = journal_findD [OF Some] and p = journal_pending_mem [OF stores_wf [OF s]]
  have "claim_existing oid a x db = Inr (if ro_account_id x \<noteq> a then ClaimAccountConflict x else ClaimExisting x, db)"
    using x p [of x] by (auto simp: claim_existing_def tx_defs guard_operation [OF s] split: option.split)
  then show ?thesis
    using Some v by (simp add: claim_reset_credit_operation_def tx_defs read_operation [OF s] journal_claim_def claimed_db_def)
next
  case None
  show ?thesis
  proof (cases "journal_pending a J")
    case (Some y)
    then show ?thesis
      using None v by (simp add: claim_reset_credit_operation_def tx_defs read_operation [OF s] journal_claim_def
          claim_new_def guard_operation [OF s] claimed_db_def)
  next
    case p: None
    let ?g = "rd_guards db @ [\<lparr>gr_account_id = a, gr_operation_id = oid, gr_created_at = now\<rparr>]"
    have "insert_operation (row_from_operation (new_operation oid a rid now)) (db\<lparr>rd_guards := ?g\<rparr>)
        = Inr ((), with_new oid a rid now db)"
      using insert_operation_new [of "db\<lparr>rd_guards := ?g\<rparr>" J "new_operation oid a rid now"] s None
      by (simp add: stores_def with_new_def)
    moreover have "operation_in_transaction oid (with_new oid a rid now db)
        = Inr (Some (new_operation oid a rid now), with_new oid a rid now db)"
      using stores_new [OF s v None p, of now now] None
      by (simp add: with_new_def read_operation journal_find_append)
    ultimately show ?thesis
      using None p v by (simp add: claim_reset_credit_operation_def tx_defs read_operation [OF s] journal_claim_def
          claim_new_def guard_operation [OF s] claimed_db_def insert_guard_new [OF s])
  qed
qed

lemma claim_repo:
  assumes s: "stores db J" and v: "valid_id oid" "valid_id a" "valid_id rid"
  shows "repo_claim_once oid a rid now db =
    Inr (fst (journal_claim oid a rid now J), claimed_db oid a rid now J db)"
proof -
  have ids: "x \<in> set J \<Longrightarrow> valid_id (ro_operation_id x)" for x using s by (simp add: stores_def journal_wf_def)
  note rd = repo_read_operation [OF s] and w = stores_wf [OF s]
  show ?thesis
  proof (cases "journal_find oid J")
    case (Some x)
    note x = journal_findD [OF Some]
    have "repo_claim_existing oid a x db = Inr (if ro_account_id x \<noteq> a then ClaimAccountConflict x else ClaimExisting x, db)"
    proof (cases "ro_account_id x = a")
      case a: True
      show ?thesis
      proof (cases "journal_pending a J")
        case None
        then have "\<not> is_pending x" using x a by (auto simp: journal_pending_None)
        moreover have "find_guard a db = None" using None guard_of_pending [OF s, of a] by simp
        ultimately show ?thesis using a by (simp add: repo_claim_existing_def tx_defs repo_find_guard_def)
      next
        case (Some y)
        note y = journal_pendingD [OF Some]
        obtain g where g: "find_guard a db = Some g" "gr_operation_id g = ro_operation_id y"
          using guard_of_pending [OF s, of a] Some by auto
        have "repo_get (ro_operation_id y) db = Inr (Some y, db)"
          using rd [OF ids] y journal_find_mem [OF w, of y] by simp
        moreover have "is_pending x \<Longrightarrow> y = x" using pending_unique [OF w] x y a by blast
        ultimately show ?thesis
          using a g x y by (cases "is_pending x")
            (simp_all add: repo_claim_existing_def tx_defs repo_find_guard_def repo_other_guard_def repo_insert_guard_def)
      qed
    qed (simp add: repo_claim_existing_def tx_defs)
    then show ?thesis
      using Some v by (simp add: repo_claim_once_def tx_defs rd journal_claim_def claimed_db_def)
  next
    case None
    show ?thesis
    proof (cases "journal_pending a J")
      case (Some y)
      note y = journal_pendingD [OF Some]
      obtain g where g: "find_guard a db = Some g" "gr_operation_id g = ro_operation_id y"
        using guard_of_pending [OF s, of a] Some by auto
      have "repo_get (ro_operation_id y) db = Inr (Some y, db)"
        using rd [OF ids] y journal_find_mem [OF w, of y] by simp
      then show ?thesis
        using None Some v g y by (simp add: repo_claim_once_def tx_defs rd journal_claim_def repo_claim_new_def
            repo_find_guard_def blocking_for_def claimed_db_def Let_def)
    next
      case p: None
      have "find_guard a db = None" using guard_of_pending [OF s, of a] p by simp
      moreover have "insert_operation (row_from_operation (new_operation oid a rid now))
          (db\<lparr>rd_guards := rd_guards db @ [\<lparr>gr_account_id = a, gr_operation_id = oid, gr_created_at = now\<rparr>]\<rparr>)
        = Inr ((), with_new oid a rid now db)"
        using insert_operation_new [of _ J "new_operation oid a rid now"] s None
        by (simp add: stores_def with_new_def)
      ultimately show ?thesis
        using None p v by (simp add: repo_claim_once_def tx_defs rd journal_claim_def repo_claim_new_def
            repo_find_guard_def claimed_db_def Let_def insert_guard_new [OF s] repo_insert_new_def)
    qed
  qed
qed

lemma repo_attempts:
  assumes "repo_claim_once oid a rid now db = Inr r"
  shows "length (filter (\<lambda>l. l \<noteq> None) locks) \<le> n \<Longrightarrow>
      (\<And>e. Some e \<in> set locks \<Longrightarrow> is_retryable_lock_error e) \<Longrightarrow>
      repo_claim_attempts n locks oid a rid now db = Inr r"
    and "repo_claim_attempts n locks oid a rid now db \<in> {Inr r} \<union> range Inl"
proof -
  show "length (filter (\<lambda>l. l \<noteq> None) locks) \<le> n \<Longrightarrow>
      (\<And>e. Some e \<in> set locks \<Longrightarrow> is_retryable_lock_error e) \<Longrightarrow>
      repo_claim_attempts n locks oid a rid now db = Inr r"
    using assms by (induction n locks oid a rid now db rule: repo_claim_attempts.induct) auto
  show "repo_claim_attempts n locks oid a rid now db \<in> {Inr r} \<union> range Inl"
    using assms by (induction n locks oid a rid now db rule: repo_claim_attempts.induct) auto
qed

lemma repo_attempts_rejected:
  assumes "\<And>db. \<exists>e. repo_claim_once oid a rid now db = Inl e"
  shows "\<exists>e. repo_claim_attempts n locks oid a rid now db = Inl e"
  using assms
proof (induction n locks oid a rid now db rule: repo_claim_attempts.induct, goal_cases)
  case (1 n e locks oid a rid now db)
  then show ?case by simp
next
  case (2 n oid a rid now db)
  from 2(2) [of db] obtain e where "repo_claim_once oid a rid now db = Inl e" by blast
  with 2 show ?case by simp
next
  case (3 n va oid a rid now db)
  from 3(2) [of db] obtain e where "repo_claim_once oid a rid now db = Inl e" by blast
  with 3 show ?case by simp
qed

text \<open>The update keeps the rows readable, so both stores report and release alike.\<close>

lemma repo_get_readable:
  assumes "valid_id oid" and "\<forall>r\<in>set (rd_operations db). status_from_storage (or_status r) \<noteq> None"
  shows "repo_get oid db = operation_in_transaction oid db"
proof (cases "find (\<lambda>r. or_operation_id r = oid) (rd_operations db)")
  case (Some r)
  then have "status_from_storage (or_status r) \<noteq> None" using assms(2) by (auto simp: find_Some_iff)
  with Some assms(1) show ?thesis
    by (auto simp: repo_get_def tx_defs operation_in_transaction_def repo_read_def read_row_def repo_try_from_def
        operation_from_row_def)
qed (use assms(1) in \<open>simp add: repo_get_def tx_defs operation_in_transaction_def repo_read_def read_row_def\<close>)

lemma repo_change:
  assumes s: "stores db J" and v: "valid_id oid"
    and g: "\<And>r. status_from_storage (or_status r) \<noteq> None \<Longrightarrow> status_from_storage (or_status (g r)) \<noteq> None"
  shows "tx_bind (update_operations p g) (repo_release_and_report oid a) db = tx_bind (update_operations p g) (release_and_report oid a) db"
proof -
  let ?db = "db\<lparr>rd_operations := map (\<lambda>r. if p r then g r else r) (rd_operations db)\<rparr>"
  have "\<forall>r\<in>set (rd_operations db). status_from_storage (or_status r) \<noteq> None"
    using s by (auto simp: stores_def)
  then have "\<forall>r\<in>set (rd_operations ?db). status_from_storage (or_status r) \<noteq> None"
    using g by auto
  from repo_get_readable [OF v this] show ?thesis
    by (simp add: tx_bind_def update_operations_def repo_release_and_report_def release_and_report_def)
qed

lemma finished_simps [simp]: "ro_operation_id (finished st res err now x) = ro_operation_id x"
  "ro_operation_id (enriched body now x) = ro_operation_id x"
  by (simp_all add: finished_def enriched_def)

lemma same_finished: "is_pending x \<Longrightarrow> same_operation x (finished st res err now x)"
  by (simp add: same_operation_def finished_def)

lemma same_enriched: "same_operation x (enriched res now x)"
  by (simp add: same_operation_def enriched_def)

lemma finish_refines:
  assumes s: "stores db J" and v: "valid_id oid" "valid_id a" and st: "status \<noteq> OpPending"
  and c_def: "c = journal_change OpPending (finished status res err now) oid a J"
  shows "\<exists>db'. finish_reset_credit_operation oid a status res err now db = Inr (fst c, db')
    \<and> repo_finish oid a status res err now db = Inr (fst c, db') \<and> stores db' (snd c)"
proof -
  let ?g = "\<lambda>r. r\<lparr>or_status := status_as_str status, or_result_json := res, or_error := err, or_updated_at := now\<rparr>"
  have "?g (row_from_operation x) = row_from_operation (finished status res err now x)" for x
    by (simp add: row_from_operation_def finished_def)
  then obtain db' where "tx_bind (update_operations (\<lambda>r. or_operation_id r = oid \<and> or_account_id r = a
        \<and> or_status r = status_as_str OpPending) ?g) (release_and_report oid a) db = Inr (fst c, db')" "stores db' (snd c)"
    using change_refines [OF s v(1), of ?g "finished status res err now" OpPending a] st same_finished
    unfolding c_def by (auto simp: finished_def)
  then show ?thesis
    using v repo_change [OF s v(1), of ?g] st
    by (simp add: finish_reset_credit_operation_def repo_finish_def tx_bind_def validate_cases)
qed

lemma update_refines:
  assumes s: "stores db J" and v: "valid_id oid" "valid_id a"
    and np: "\<forall>x. journal_find oid J = Some x \<longrightarrow> ro_account_id x = a \<longrightarrow> \<not> is_pending x"
  and c_def: "c = journal_change OpCompleted (enriched res now) oid a J"
  shows "\<exists>db'. update_completed_reset_credit_operation_result oid a res now db = Inr (fst c, db')
    \<and> repo_update_completed_result oid a res now db = Inr (fst c, db') \<and> stores db' (snd c)"
proof -
  let ?g = "\<lambda>r. r\<lparr>or_result_json := Some res, or_updated_at := now\<rparr>"
  have "?g (row_from_operation x) = row_from_operation (enriched res now x)" for x
    by (simp add: row_from_operation_def enriched_def)
  then obtain db' where "tx_bind (update_operations (\<lambda>r. or_operation_id r = oid \<and> or_account_id r = a
        \<and> or_status r = status_as_str OpCompleted) ?g) (release_and_report oid a) db = Inr (fst c, db')" "stores db' (snd c)"
    using change_refines [OF s v(1), of ?g "enriched res now" OpCompleted a] np same_enriched
    unfolding c_def by (auto simp: enriched_def)
  then show ?thesis
    using v repo_change [OF s v(1), of ?g]
    by (simp add: update_completed_reset_credit_operation_result_def repo_update_completed_result_def tx_bind_def validate_cases)
qed

end
