(* ===== verification/ResetStorage.thy ===== *)
theory ResetStorage
  imports ResetJournal
begin

text \<open>
  The journal as the service reaches it (\<open>account/remote_storage.rs\<close>): by the embedded store or by
  the repository of a remote database. The locale \<open>reset_journal\<close> is the contract of either; its
  consequences are what the service rests on.
\<close>

section \<open>Dispatch\<close>

definition storage_claim ::
  "bool \<Rightarrow> store_error option list \<Rightarrow> string \<Rightarrow> string \<Rightarrow> string \<Rightarrow> int \<Rightarrow> operation_claim tx" where
  "storage_claim seaorm locks oid a rid now =
     (if \<not> seaorm then claim_reset_credit_operation oid a rid now else repo_claim locks oid a rid now)"

definition storage_complete :: "bool \<Rightarrow> string \<Rightarrow> string \<Rightarrow> string \<Rightarrow> int \<Rightarrow> operation_update tx" where
  "storage_complete seaorm oid a result_json now =
     (if \<not> seaorm then complete_reset_credit_operation oid a result_json now else repo_complete oid a result_json now)"

definition storage_fail :: "bool \<Rightarrow> string \<Rightarrow> string \<Rightarrow> string \<Rightarrow> int \<Rightarrow> operation_update tx" where
  "storage_fail seaorm oid a error now =
     (if \<not> seaorm then fail_reset_credit_operation oid a error now else repo_fail oid a error now)"

definition storage_update_result :: "bool \<Rightarrow> string \<Rightarrow> string \<Rightarrow> string \<Rightarrow> int \<Rightarrow> operation_update tx" where
  "storage_update_result seaorm oid a result_json now =
     (if \<not> seaorm then update_completed_reset_credit_operation_result oid a result_json now
      else repo_update_completed_result oid a result_json now)"

definition storage_get :: "bool \<Rightarrow> string \<Rightarrow> reset_credit_operation option tx" where
  "storage_get seaorm oid = (if \<not> seaorm then get_reset_credit_operation oid else repo_get oid)"

definition storage_find_pending :: "bool \<Rightarrow> string \<Rightarrow> reset_credit_operation option tx" where
  "storage_find_pending seaorm a =
     (if \<not> seaorm then find_pending_reset_credit_operation a else repo_find_pending a)"

section \<open>The contract\<close>

text \<open>
  An operation either fails and leaves the tables alone, or does what the journal does. The result
  of a completed operation is only asked to be changed when the operation is not pending.
\<close>

definition keeps_ids :: "(reset_credit_operation \<Rightarrow> reset_credit_operation) \<Rightarrow> bool" where
  "keeps_ids f \<longleftrightarrow> (\<forall>x. ro_operation_id (f x) = ro_operation_id x)"

locale reset_journal =
  fixes claim :: "string \<Rightarrow> string \<Rightarrow> string \<Rightarrow> int \<Rightarrow> operation_claim tx"
    and complete :: "string \<Rightarrow> string \<Rightarrow> string \<Rightarrow> int \<Rightarrow> operation_update tx"
    and fail :: "string \<Rightarrow> string \<Rightarrow> string \<Rightarrow> int \<Rightarrow> operation_update tx"
    and update_result :: "string \<Rightarrow> string \<Rightarrow> string \<Rightarrow> int \<Rightarrow> operation_update tx"
  assumes claim_law: "stores db J \<Longrightarrow> claim oid a rid now db = Inr (c, db') \<Longrightarrow>
      valid_id oid \<and> valid_id a \<and> valid_id rid \<and> c = fst (journal_claim oid a rid now J)
      \<and> stores db' (snd (journal_claim oid a rid now J))"
    and complete_law: "stores db J \<Longrightarrow> complete oid a res now db = Inr (u, db') \<Longrightarrow>
      u = fst (journal_change OpPending (finished OpCompleted (Some res) None now) oid a J)
      \<and> stores db' (snd (journal_change OpPending (finished OpCompleted (Some res) None now) oid a J))"
    and fail_law: "stores db J \<Longrightarrow> fail oid a err now db = Inr (u, db') \<Longrightarrow>
      u = fst (journal_change OpPending (finished OpFailed None (Some err) now) oid a J)
      \<and> stores db' (snd (journal_change OpPending (finished OpFailed None (Some err) now) oid a J))"
    and update_law: "stores db J \<Longrightarrow>
      (\<And>x. journal_find oid J = Some x \<Longrightarrow> ro_account_id x = a \<Longrightarrow> \<not> is_pending x) \<Longrightarrow>
      update_result oid a res now db = Inr (u, db') \<Longrightarrow>
      u = fst (journal_change OpCompleted (enriched res now) oid a J)
      \<and> stores db' (snd (journal_change OpCompleted (enriched res now) oid a J))"
begin

lemma claim_grows:
  assumes "stores db J" and "claim oid a rid now db = Inr (c, db')"
  obtains J' where "stores db' J'" "journal_le J J'"
    "c = fst (journal_claim oid a rid now J)" "J' = snd (journal_claim oid a rid now J)"
  using claim_law [OF assms] claim_journal [OF stores_wf [OF assms(1)]] by blast

lemma complete_grows:
  assumes "stores db J" and "complete oid a res now db = Inr (u, db')"
  obtains J' where "stores db' J'" "journal_le J J'"
    "J' = snd (journal_change OpPending (finished OpCompleted (Some res) None now) oid a J)"
    "u = fst (journal_change OpPending (finished OpCompleted (Some res) None now) oid a J)"
proof (rule that [OF _ _ refl])
  let ?c = "journal_change OpPending (finished OpCompleted (Some res) None now) oid a J"
  show "stores db' (snd ?c)" "u = fst ?c" using complete_law [OF assms] by simp_all
  show "journal_le J (snd ?c)"
    using change_journal [OF stores_wf [OF assms(1)], of OpPending "finished OpCompleted (Some res) None now" oid a]
      same_finished by (simp add: finished_def)
qed

lemma fail_grows:
  assumes "stores db J" and "fail oid a err now db = Inr (u, db')"
  obtains J' where "stores db' J'" "journal_le J J'"
    "J' = snd (journal_change OpPending (finished OpFailed None (Some err) now) oid a J)"
    "u = fst (journal_change OpPending (finished OpFailed None (Some err) now) oid a J)"
proof (rule that [OF _ _ refl])
  let ?c = "journal_change OpPending (finished OpFailed None (Some err) now) oid a J"
  show "stores db' (snd ?c)" "u = fst ?c" using fail_law [OF assms] by simp_all
  show "journal_le J (snd ?c)"
    using change_journal [OF stores_wf [OF assms(1)], of OpPending "finished OpFailed None (Some err) now" oid a]
      same_finished by (simp add: finished_def)
qed

lemma update_grows:
  assumes "stores db J" and "\<And>x. journal_find oid J = Some x \<Longrightarrow> ro_account_id x = a \<Longrightarrow> \<not> is_pending x"
    and "update_result oid a res now db = Inr (u, db')"
  obtains J' where "stores db' J'" "journal_le J J'"
    "J' = snd (journal_change OpCompleted (enriched res now) oid a J)"
proof (rule that [OF _ _ refl])
  let ?c = "journal_change OpCompleted (enriched res now) oid a J"
  show "stores db' (snd ?c)" using update_law [OF assms(1,2,3)] by simp
  show "journal_le J (snd ?c)"
    using change_journal [OF stores_wf [OF assms(1)], of OpCompleted "enriched res now" oid a] same_enriched
    by (simp add: enriched_def)
qed

end

lemma claim_invalid:
  assumes "\<not> (valid_id oid \<and> valid_id a \<and> valid_id rid)"
  shows "\<exists>e. claim_reset_credit_operation oid a rid now db = Inl e"
    and "\<exists>e. repo_claim_once oid a rid now db = Inl e"
  using assms by (auto simp: claim_reset_credit_operation_def repo_claim_once_def tx_defs)

lemma storage_claim_cases:
  assumes s: "stores db J"
  shows "storage_claim seaorm locks oid a rid now db \<in>
    (if valid_id oid \<and> valid_id a \<and> valid_id rid
     then {Inr (fst (journal_claim oid a rid now J), claimed_db oid a rid now J db)} else {}) \<union> range Inl"
proof (cases "valid_id oid \<and> valid_id a \<and> valid_id rid")
  case True
  then show ?thesis
    using claim_sqlite [OF s] repo_attempts(2) [OF claim_repo [OF s]]
    by (simp add: storage_claim_def repo_claim_def)
next
  case False
  have "\<exists>e. repo_claim_attempts 32 locks oid a rid now db = Inl e"
    by (rule repo_attempts_rejected) (rule claim_invalid(2) [OF False])
  then show ?thesis
    using claim_invalid(1) [OF False, of now db] False by (auto simp: storage_claim_def repo_claim_def)
qed

lemma storage_invalid:
  assumes "\<not> (valid_id oid \<and> valid_id a)"
  shows "\<exists>e. storage_complete seaorm oid a res now db = Inl e"
    and "\<exists>e. storage_fail seaorm oid a res now db = Inl e"
    and "\<exists>e. storage_update_result seaorm oid a res now db = Inl e"
  using assms
  by (auto simp: storage_complete_def storage_fail_def storage_update_result_def
      complete_reset_credit_operation_def fail_reset_credit_operation_def repo_complete_def repo_fail_def
      finish_reset_credit_operation_def repo_finish_def update_completed_reset_credit_operation_result_def
      repo_update_completed_result_def tx_defs)

lemma storage_complete_ok:
  assumes s: "stores db J" and v: "valid_id oid" "valid_id a"
  shows "\<exists>db'. \<forall>seaorm. storage_complete seaorm oid a res now db
      = Inr (fst (journal_change OpPending (finished OpCompleted (Some res) None now) oid a J), db')
    \<and> stores db' (snd (journal_change OpPending (finished OpCompleted (Some res) None now) oid a J))"
  using finish_refines [OF s v, of OpCompleted _ "Some res" None now]
  by (auto simp: storage_complete_def complete_reset_credit_operation_def repo_complete_def)

lemma storage_fail_ok:
  assumes s: "stores db J" and v: "valid_id oid" "valid_id a"
  shows "\<exists>db'. \<forall>seaorm. storage_fail seaorm oid a err now db
      = Inr (fst (journal_change OpPending (finished OpFailed None (Some err) now) oid a J), db')
    \<and> stores db' (snd (journal_change OpPending (finished OpFailed None (Some err) now) oid a J))"
  using finish_refines [OF s v, of OpFailed _ None "Some err" now]
  by (auto simp: storage_fail_def fail_reset_credit_operation_def repo_fail_def)

lemma storage_update_ok:
  assumes s: "stores db J" and v: "valid_id oid" "valid_id a"
    and "\<forall>x. journal_find oid J = Some x \<longrightarrow> ro_account_id x = a \<longrightarrow> \<not> is_pending x"
  shows "\<exists>db'. \<forall>seaorm. storage_update_result seaorm oid a res now db
      = Inr (fst (journal_change OpCompleted (enriched res now) oid a J), db')
    \<and> stores db' (snd (journal_change OpCompleted (enriched res now) oid a J))"
  using update_refines [OF s v assms(4) refl, of res now] by (auto simp: storage_update_result_def)

interpretation account_storage: reset_journal "storage_claim seaorm locks" "storage_complete seaorm"
  "storage_fail seaorm" "storage_update_result seaorm" for seaorm locks
proof
  fix db J oid a rid now c db'
  assume s: "stores db J" and c: "storage_claim seaorm locks oid a rid now db = Inr (c, db')"
  then have v: "valid_id oid \<and> valid_id a \<and> valid_id rid" "c = fst (journal_claim oid a rid now J)"
    "db' = claimed_db oid a rid now J db"
    using storage_claim_cases [OF s, of seaorm locks oid a rid now] by (auto split: if_splits)
  then show "valid_id oid \<and> valid_id a \<and> valid_id rid \<and> c = fst (journal_claim oid a rid now J)
      \<and> stores db' (snd (journal_claim oid a rid now J))"
    using stores_claimed [OF s] by simp
next
  fix db J oid a res now u db'
  assume s: "stores db J" and u: "storage_complete seaorm oid a res now db = Inr (u, db')"
  then have "valid_id oid \<and> valid_id a" using storage_invalid(1) by (metis sum.distinct(1))
  then show "u = fst (journal_change OpPending (finished OpCompleted (Some res) None now) oid a J)
      \<and> stores db' (snd (journal_change OpPending (finished OpCompleted (Some res) None now) oid a J))"
    using storage_complete_ok [OF s] u by (metis Pair_inject sum.inject(2))
next
  fix db J oid a err now u db'
  assume s: "stores db J" and u: "storage_fail seaorm oid a err now db = Inr (u, db')"
  then have "valid_id oid \<and> valid_id a" using storage_invalid(2) by (metis sum.distinct(1))
  then show "u = fst (journal_change OpPending (finished OpFailed None (Some err) now) oid a J)
      \<and> stores db' (snd (journal_change OpPending (finished OpFailed None (Some err) now) oid a J))"
    using storage_fail_ok [OF s] u by (metis Pair_inject sum.inject(2))
next
  fix db J a oid res now u db'
  assume s: "stores db J" and np: "\<And>x. journal_find oid J = Some x \<Longrightarrow> ro_account_id x = a \<Longrightarrow> \<not> is_pending x"
    and u: "storage_update_result seaorm oid a res now db = Inr (u, db')"
  then have "valid_id oid \<and> valid_id a" using storage_invalid(3) by (metis sum.distinct(1))
  then obtain db1 where "storage_update_result seaorm oid a res now db
      = Inr (fst (journal_change OpCompleted (enriched res now) oid a J), db1)"
    "stores db1 (snd (journal_change OpCompleted (enriched res now) oid a J))"
    using storage_update_ok [OF s, of oid a res now] np by blast
  with u show "u = fst (journal_change OpCompleted (enriched res now) oid a J)
      \<and> stores db' (snd (journal_change OpCompleted (enriched res now) oid a J))" by simp
qed

section \<open>Runs\<close>

datatype journal_op =
    ClaimOp string string string int
  | CompleteOp string string string int
  | FailOp string string string int
  | UpdateResultOp string string string int

text \<open>One operation of a store as a transaction; only success or failure of the result is kept.\<close>

definition store_op ::
  "bool \<Rightarrow> store_error option list \<Rightarrow> journal_op \<Rightarrow> reset_db \<Rightarrow> (operation_claim + operation_update) option \<times> reset_db" where
  "store_op seaorm locks jop db =
     (case jop of
        ClaimOp oid a rid now \<Rightarrow>
          (case run_transaction (storage_claim seaorm locks oid a rid now) db of
             (Inr c, db') \<Rightarrow> (Some (Inl c), db') | (Inl _, db') \<Rightarrow> (None, db'))
      | CompleteOp oid a res now \<Rightarrow>
          (case run_transaction (storage_complete seaorm oid a res now) db of
             (Inr u, db') \<Rightarrow> (Some (Inr u), db') | (Inl _, db') \<Rightarrow> (None, db'))
      | FailOp oid a err now \<Rightarrow>
          (case run_transaction (storage_fail seaorm oid a err now) db of
             (Inr u, db') \<Rightarrow> (Some (Inr u), db') | (Inl _, db') \<Rightarrow> (None, db'))
      | UpdateResultOp oid a res now \<Rightarrow>
          (case run_transaction (storage_update_result seaorm oid a res now) db of
             (Inr u, db') \<Rightarrow> (Some (Inr u), db') | (Inl _, db') \<Rightarrow> (None, db')))"

text \<open>The journal's answer to an operation, and when the result of an operation may be changed.\<close>

definition journal_step :: "journal_op \<Rightarrow> journal \<Rightarrow> (operation_claim + operation_update) option \<times> journal" where
  "journal_step jop J =
     (case jop of
        ClaimOp oid a rid now \<Rightarrow>
          if valid_id oid \<and> valid_id a \<and> valid_id rid
          then map_prod (Some \<circ> Inl) id (journal_claim oid a rid now J) else (None, J)
      | CompleteOp oid a res now \<Rightarrow>
          if valid_id oid \<and> valid_id a
          then map_prod (Some \<circ> Inr) id (journal_change OpPending (finished OpCompleted (Some res) None now) oid a J)
          else (None, J)
      | FailOp oid a err now \<Rightarrow>
          if valid_id oid \<and> valid_id a
          then map_prod (Some \<circ> Inr) id (journal_change OpPending (finished OpFailed None (Some err) now) oid a J)
          else (None, J)
      | UpdateResultOp oid a res now \<Rightarrow>
          if valid_id oid \<and> valid_id a
          then map_prod (Some \<circ> Inr) id (journal_change OpCompleted (enriched res now) oid a J) else (None, J))"

definition may_update :: "journal_op \<Rightarrow> journal \<Rightarrow> bool" where
  "may_update jop J \<longleftrightarrow>
     (case jop of
        UpdateResultOp oid a _ _ \<Rightarrow>
          (case journal_find oid J of Some x \<Rightarrow> ro_account_id x = a \<longrightarrow> \<not> is_pending x | None \<Rightarrow> True)
      | _ \<Rightarrow> True)"

fun run_store ::
  "bool \<Rightarrow> store_error option list \<Rightarrow> journal_op list \<Rightarrow> reset_db \<Rightarrow> (operation_claim + operation_update) option list \<times> reset_db" where
  "run_store seaorm locks [] db = ([], db)"
| "run_store seaorm locks (jop # rest) db =
     (let (r, db1) = store_op seaorm locks jop db; (rs, db2) = run_store seaorm locks rest db1 in (r # rs, db2))"

fun run_journal :: "journal_op list \<Rightarrow> journal \<Rightarrow> (operation_claim + operation_update) option list \<times> journal" where
  "run_journal [] J = ([], J)"
| "run_journal (jop # rest) J =
     (let (r, J1) = journal_step jop J; (rs, J2) = run_journal rest J1 in (r # rs, J2))"

fun updates_finished :: "journal_op list \<Rightarrow> journal \<Rightarrow> bool" where
  "updates_finished [] J \<longleftrightarrow> True"
| "updates_finished (jop # rest) J \<longleftrightarrow> may_update jop J \<and> updates_finished rest (snd (journal_step jop J))"

definition few_locks :: "store_error option list \<Rightarrow> bool" where
  "few_locks locks \<longleftrightarrow> length (filter (\<lambda>l. l \<noteq> None) locks) \<le> 32
     \<and> list_all (\<lambda>l. case l of None \<Rightarrow> True | Some e \<Rightarrow> is_retryable_lock_error e) locks"

lemma storage_claim_ok:
  assumes s: "stores db J" and f: "few_locks locks"
  shows "storage_claim seaorm locks oid a rid now db \<in>
    (if valid_id oid \<and> valid_id a \<and> valid_id rid
     then {Inr (fst (journal_claim oid a rid now J), claimed_db oid a rid now J db)} else range Inl)"
proof (cases "valid_id oid \<and> valid_id a \<and> valid_id rid")
  case True
  have "repo_claim_attempts 32 locks oid a rid now db =
      Inr (fst (journal_claim oid a rid now J), claimed_db oid a rid now J db)"
    by (rule repo_attempts(1)) (use True claim_repo [OF s] f in \<open>auto simp: few_locks_def list_all_iff\<close>)
  then show ?thesis
    using True claim_sqlite [OF s] by (simp add: storage_claim_def repo_claim_def)
next
  case False
  then show ?thesis using storage_claim_cases [OF s, of seaorm locks oid a rid now] by auto
qed

text \<open>One operation, the same in both stores.\<close>

lemma store_op_refines:
  assumes s: "stores db J" and u: "may_update jop J" and f: "few_locks locks" "few_locks locks'"
  shows "\<exists>db'. store_op True locks jop db = (fst (journal_step jop J), db')
    \<and> store_op False locks' jop db = (fst (journal_step jop J), db') \<and> stores db' (snd (journal_step jop J))"
proof (cases jop)
  case (ClaimOp oid a rid now)
  show ?thesis
  proof (cases "valid_id oid \<and> valid_id a \<and> valid_id rid")
    case True
    then show ?thesis
      using ClaimOp storage_claim_ok [OF s f(1), of True oid a rid now] storage_claim_ok [OF s f(2), of False oid a rid now]
        stores_claimed [OF s] by (simp add: store_op_def run_transaction_def journal_step_def)
  next
    case False
    then obtain e e' where "storage_claim True locks oid a rid now db = Inl e" "storage_claim False locks' oid a rid now db = Inl e'"
      using storage_claim_ok [OF s f(1), of True oid a rid now] storage_claim_ok [OF s f(2), of False oid a rid now] by auto
    with False s ClaimOp show ?thesis by (auto simp: store_op_def run_transaction_def journal_step_def)
  qed
next
  case (CompleteOp oid a res now)
  show ?thesis
  proof (cases "valid_id oid \<and> valid_id a")
    case True
    with storage_complete_ok [OF s, of oid a res now] CompleteOp show ?thesis
      by (force simp: store_op_def run_transaction_def journal_step_def)
  next
    case False
    with storage_invalid(1) [of oid a True res now db] storage_invalid(1) [of oid a False res now db] s CompleteOp
    show ?thesis by (auto simp: store_op_def run_transaction_def journal_step_def)
  qed
next
  case (FailOp oid a err now)
  show ?thesis
  proof (cases "valid_id oid \<and> valid_id a")
    case True
    with storage_fail_ok [OF s, of oid a err now] FailOp show ?thesis
      by (force simp: store_op_def run_transaction_def journal_step_def)
  next
    case False
    with storage_invalid(2) [of oid a True err now db] storage_invalid(2) [of oid a False err now db] s FailOp
    show ?thesis by (auto simp: store_op_def run_transaction_def journal_step_def)
  qed
next
  case (UpdateResultOp oid a res now)
  show ?thesis
  proof (cases "valid_id oid \<and> valid_id a")
    case True
    have "\<forall>x. journal_find oid J = Some x \<longrightarrow> ro_account_id x = a \<longrightarrow> \<not> is_pending x"
      using u UpdateResultOp by (auto simp: may_update_def)
    with True storage_update_ok [OF s, of oid a res now] UpdateResultOp show ?thesis
      by (force simp: store_op_def run_transaction_def journal_step_def)
  next
    case False
    with storage_invalid(3) [of oid a True res now db] storage_invalid(3) [of oid a False res now db] s UpdateResultOp
    show ?thesis by (auto simp: store_op_def run_transaction_def journal_step_def)
  qed
qed

lemma run_refines:
  assumes "few_locks locks" "few_locks locks'"
  shows "stores db J \<Longrightarrow> updates_finished ops J \<Longrightarrow>
    \<exists>db'. run_store True locks ops db = (fst (run_journal ops J), db')
      \<and> run_store False locks' ops db = (fst (run_journal ops J), db') \<and> stores db' (snd (run_journal ops J))"
proof (induction ops arbitrary: db J)
  case Nil
  then show ?case by simp
next
  case (Cons jop ops)
  have "may_update jop J" using Cons.prems(2) by simp
  from store_op_refines [OF Cons.prems(1) this assms] obtain db1 where
    1: "store_op True locks jop db = (fst (journal_step jop J), db1)"
    "store_op False locks' jop db = (fst (journal_step jop J), db1)" "stores db1 (snd (journal_step jop J))" by blast
  with Cons.IH [OF 1(3)] Cons.prems(2) show ?case by (auto simp: case_prod_beta Let_def)
qed

definition empty_db :: reset_db where "empty_db = \<lparr>rd_operations = [], rd_guards = []\<rparr>"

lemma stores_empty: "stores empty_db []"
  by (simp add: stores_def empty_db_def journal_wf_def guards_match_def)

lemma stores_readable:
  assumes "stores db J"
  shows "\<forall>r\<in>set (rd_operations db). \<exists>x. operation_from_row r = Inr x"
    and "g \<in> set (rd_guards db) \<Longrightarrow> \<exists>r\<in>set (rd_operations db). or_status r = ''pending''
      \<and> or_account_id r = gr_account_id g \<and> or_operation_id r = gr_operation_id g"
    and "r \<in> set (rd_operations db) \<Longrightarrow> or_status r = ''pending'' \<Longrightarrow> \<exists>g\<in>set (rd_guards db).
      gr_account_id g = or_account_id r \<and> gr_operation_id g = or_operation_id r"
    and "r \<in> set (rd_operations db) \<Longrightarrow> r' \<in> set (rd_operations db) \<Longrightarrow> or_status r = ''pending'' \<Longrightarrow>
      or_status r' = ''pending'' \<Longrightarrow> or_account_id r = or_account_id r' \<Longrightarrow> r = r'"
proof -
  have rows: "rd_operations db = map row_from_operation J" using assms by (simp add: stores_def)
  have pend: "status_as_str s = ''pending'' \<longleftrightarrow> s = OpPending" for s by (cases s) simp_all
  let ?k = "\<lambda>g. (gr_account_id g, gr_operation_id g)" and ?o = "\<lambda>x. (ro_account_id x, ro_operation_id x)"
  have eq: "?k ` set (rd_guards db) = ?o ` {z \<in> set J. is_pending z}"
    using assms by (simp add: stores_def guards_match_def)
  show "\<forall>r\<in>set (rd_operations db). \<exists>x. operation_from_row r = Inr x" by (simp add: rows)
  show "\<exists>r\<in>set (rd_operations db). or_status r = ''pending'' \<and> or_account_id r = gr_account_id g
      \<and> or_operation_id r = gr_operation_id g" if "g \<in> set (rd_guards db)"
  proof -
    have "?k g \<in> ?o ` {z \<in> set J. is_pending z}" using that unfolding eq [symmetric] by blast
    then show ?thesis by (auto simp: rows pend)
  qed
  show "\<exists>g\<in>set (rd_guards db). gr_account_id g = or_account_id r \<and> gr_operation_id g = or_operation_id r"
    if "r \<in> set (rd_operations db)" "or_status r = ''pending''"
  proof -
    from that obtain x where "x \<in> set J" "is_pending x" "r = row_from_operation x" by (auto simp: rows pend)
    then have "?o x \<in> ?k ` set (rd_guards db)" unfolding eq by blast
    with \<open>r = row_from_operation x\<close> show ?thesis by auto
  qed
  show "r = r'" if "r \<in> set (rd_operations db)" "r' \<in> set (rd_operations db)" "or_status r = ''pending''"
    "or_status r' = ''pending''" "or_account_id r = or_account_id r'"
  proof -
    from that obtain x y where "x \<in> set J" "y \<in> set J" "is_pending x" "is_pending y"
      "ro_account_id x = ro_account_id y" "r = row_from_operation x" "r' = row_from_operation y"
      by (auto simp: rows pend)
    with pending_unique [OF stores_wf [OF assms]] show ?thesis by blast
  qed
qed

section \<open>Properties\<close>



text \<open>Two operations on one account: the second waits for the first.\<close>

definition journal_ops_example :: "journal_op list" where
  "journal_ops_example =
     [ClaimOp ''o1'' ''a'' ''r1'' 1, ClaimOp ''o2'' ''a'' ''r2'' 2, CompleteOp ''o1'' ''a'' ''{}'' 3,
      UpdateResultOp ''o1'' ''a'' ''{1}'' 4, ClaimOp ''o2'' ''a'' ''r3'' 5]"

lemma trim_plain: "trim ''o1'' = ''o1''" "trim ''o2'' = ''o2''" "trim ''a'' = ''a''"
  "trim ''r1'' = ''r1''" "trim ''r2'' = ''r2''" "trim ''r3'' = ''r3''"
  by code_simp+

lemma example_updates: "updates_finished journal_ops_example []"
  by (simp add: journal_ops_example_def may_update_def journal_step_def valid_id_def trim_plain journal_claim_def
      journal_change_def journal_find_def journal_pending_def new_operation_def finished_def enriched_def journal_put_def)



text \<open>
  The condition on updates matters: a change of the result of a pending operation releases its
  guard, and a second operation on the account is recorded beside it.
\<close>

lemma pending_update_releases_guard:
  "map (\<lambda>r. (or_operation_id r, or_status r)) (rd_operations (snd (run_store False []
     [ClaimOp ''o1'' ''a'' ''r1'' 1, UpdateResultOp ''o1'' ''a'' ''{}'' 2, ClaimOp ''o2'' ''a'' ''r2'' 3] empty_db)))
   = [(''o1'', ''pending''), (''o2'', ''pending'')]"
  by code_simp

end
