(* ===== verification/ResetCredits.thy ===== *)
theory ResetCredits
  imports ResetStorage StorageData
begin

text \<open>
  Redeeming a reset credit (\<open>usage/usage_reset_credits.rs\<close>, with the errors of
  \<open>usage/usage_http.rs\<close>): the stages of a call between its waits, the call as their composition,
  and the interleaving of the calls of all processes on the shared journal, where a call may be
  dropped and a process may crash at any wait. What the network and the account store answer are
  arguments, as are printing and parsing of JSON.
\<close>

section \<open>Data\<close>

record reset_credit =
  rc_id :: "string option"
  rc_status :: "string option"
  rc_reset_type :: "string option"
  rc_granted_at :: "int option"
  rc_expires_at :: "int option"
  rc_redeemed_at :: "int option"
  rc_raw_status :: "string option"

record reset_credits_snapshot =
  rs_available_count :: "int option"
  rs_credits :: "reset_credit list"
  rs_next_expires_at :: "int option"

record consume_result =
  co_consumed :: bool
  co_usage_refreshed :: bool
  co_snapshot :: "reset_credits_snapshot option"
  co_warning :: "string option"

record usage_error =
  ue_status :: "nat option"
  ue_message :: string

definition is_unauthorized :: "usage_error \<Rightarrow> bool" where
  "is_unauthorized e \<longleftrightarrow> ue_status e = Some 401"

definition is_ambiguous_non_idempotent :: "usage_error \<Rightarrow> bool" where
  "is_ambiguous_non_idempotent e \<longleftrightarrow>
     (case ue_status e of None \<Rightarrow> True | Some status \<Rightarrow> status = 408 \<or> status = 429 \<or> status \<ge> 500)"

definition is_ascii_hexdigit :: "char \<Rightarrow> bool" where
  "is_ascii_hexdigit c \<longleftrightarrow> is_ascii_digit c \<or> (let n = (of_char (lower_char c) :: nat) in 97 \<le> n \<and> n \<le> 102)"

definition is_uuid_v4 :: "string \<Rightarrow> bool" where
  "is_uuid_v4 value \<longleftrightarrow>
     length value = 36 \<and> list_all (\<lambda>i. value ! i = CHR ''-'') [8, 13, 18, 23]
     \<and> value ! 14 = CHR ''4'' \<and> lower_char (value ! 19) \<in> {CHR ''8'', CHR ''9'', CHR ''a'', CHR ''b''}
     \<and> list_all (\<lambda>i. i \<in> {8, 13, 18, 23} \<or> is_ascii_hexdigit (value ! i)) [0..<36]"

text \<open>
  A random UUID from sixteen bytes (\<open>x & 0x0f | 0x40\<close> is \<open>x mod 16 + 64\<close>, \<open>x & 0x3f | 0x80\<close> is
  \<open>x mod 64 + 128\<close>), printed as pairs of hexadecimal digits in groups.
\<close>

definition hex_digit :: "nat \<Rightarrow> char" where
  "hex_digit n = (if n < 10 then char_of (48 + n) else char_of (87 + n))"

definition hex_byte :: "nat \<Rightarrow> string" where
  "hex_byte b = [hex_digit (b div 16), hex_digit (b mod 16)]"

definition random_uuid_v4 :: "nat list \<Rightarrow> string" where
  "random_uuid_v4 random =
     (let bytes = random[6 := random ! 6 mod 16 + 64, 8 := random ! 8 mod 64 + 128];
          group = (\<lambda>i n. concat (map hex_byte (take n (drop i bytes))))
      in group 0 4 @ ''-'' @ group 4 2 @ ''-'' @ group 6 2 @ ''-'' @ group 8 2 @ ''-'' @ group 10 6)"

section \<open>Messages\<close>

definition lock_poisoned_message :: string where
  "lock_poisoned_message = ''reset credit lock poisoned; restart CodexManager, verify the account's reset-credit balance and usage state upstream, then retry''"

definition result_unknown_message :: string where
  "result_unknown_message = ''reset credit operation result is unknown; refresh the reset-credit balance and usage state before trying again''"

definition pending_operation_prefix :: string where
  "pending_operation_prefix = ''reset_credit_pending_operation:''"

definition terminal_failure_prefix :: string where
  "terminal_failure_prefix = ''reset_credit_terminal_failure:''"

lemma hex_digit_ok: "n < 16 \<Longrightarrow> is_ascii_hexdigit (hex_digit n)"
  by (simp add: is_ascii_hexdigit_def is_ascii_digit_def hex_digit_def lower_char_def Let_def)

text \<open>Every generated id is a valid UUID of version 4.\<close>

lemma random_uuid_valid:
  assumes "length random = 16" and "\<forall>b\<in>set random. b < 256"
  shows "is_uuid_v4 (random_uuid_v4 random)"
proof -
  obtain b0 b1 b2 b3 b4 b5 b6 b7 b8 b9 b10 b11 b12 b13 b14 b15 where
    r: "random = [b0, b1, b2, b3, b4, b5, b6, b7, b8, b9, b10, b11, b12, b13, b14, b15]"
    using assms(1) by (auto simp: length_Suc_conv numeral_eq_Suc)
  have lt: "b div 16 < 16" if "b < 256" for b :: nat using that by simp
  have six: "(b6 mod 16 + 64) div 16 = 4" by simp
  have "(b8 mod 64 + 128) div 16 \<in> {8, 9, 10, 11}" by auto
  then have eight: "lower_char (hex_digit ((b8 mod 64 + 128) div 16)) \<in> {CHR ''8'', CHR ''9'', CHR ''a'', CHR ''b''}"
  proof -
    have "lower_char (hex_digit 8) = CHR ''8''" "lower_char (hex_digit 9) = CHR ''9''"
      "lower_char (hex_digit 10) = CHR ''a''" "lower_char (hex_digit 11) = CHR ''b''" by code_simp+
    then show ?thesis using \<open>(b8 mod 64 + 128) div 16 \<in> {8, 9, 10, 11}\<close> by auto
  qed
  have digits: "is_ascii_hexdigit (hex_digit (b div 16))" "is_ascii_hexdigit (hex_digit (b mod 16))" if "b < 256" for b
    using that by (auto intro!: hex_digit_ok)
  have small: "b6 mod 16 + 64 < 256" "b8 mod 64 + 128 < 256" by auto
  have four: "hex_digit 4 = CHR ''4''" by code_simp
  show ?thesis
    using assms(2) eight digits digits [OF small(1)] digits [OF small(2)]
    by (simp add: is_uuid_v4_def random_uuid_v4_def hex_byte_def r six four upt_rec list_all_iff)
qed

section \<open>The journal as the calls use it\<close>

text \<open>
  Fixed for the program: the store it uses, the text of a store error, and the JSON of a result.
\<close>

record credit_env =
  ce_seaorm :: bool
  ce_show :: "store_error \<Rightarrow> string"
  ce_print :: "consume_result \<Rightarrow> string + string"
  ce_parse :: "string \<Rightarrow> string + consume_result"

text \<open>A call of the store: when, after which locks, and whether the database fails it.\<close>

record store_call =
  sc_now :: int
  sc_locks :: "store_error option list"
  sc_fault :: "store_error option"

definition call_store :: "store_call \<Rightarrow> 'a tx \<Rightarrow> reset_db \<Rightarrow> (store_error + 'a) \<times> reset_db" where
  "call_store c m db = (case sc_fault c of Some e \<Rightarrow> (Inl e, db) | None \<Rightarrow> run_transaction m db)"

type_synonym credit_answer = "string + consume_result"

definition stored_operation_result :: "credit_env \<Rightarrow> reset_credit_operation \<Rightarrow> credit_answer" where
  "stored_operation_result env x =
     (case ro_status x of
        OpCompleted \<Rightarrow>
          (case ro_result_json x of
             None \<Rightarrow> Inl ''completed reset credit operation has no saved result''
           | Some value \<Rightarrow>
               (case ce_parse env value of
                  Inl error \<Rightarrow> Inl (''read saved reset credit result failed: '' @ error)
                | Inr result \<Rightarrow> Inr result))
      | OpFailed \<Rightarrow> Inl (terminal_failure_prefix @
          (case ro_error x of Some error \<Rightarrow> error | None \<Rightarrow> ''reset credit operation failed''))
      | OpPending \<Rightarrow> Inl (pending_operation_prefix @ ro_operation_id x @ ''; '' @ result_unknown_message))"

definition fail_operation ::
  "credit_env \<Rightarrow> store_call \<Rightarrow> string \<Rightarrow> string \<Rightarrow> string \<Rightarrow> reset_db \<Rightarrow> credit_answer \<times> reset_db" where
  "fail_operation env c oid a error db =
     (case call_store c (storage_fail (ce_seaorm env) oid a error (sc_now c)) db of
        (Inr (UpdateUpdated x), db') \<Rightarrow> (stored_operation_result env x, db')
      | (Inr (UpdateExisting x), db') \<Rightarrow> (stored_operation_result env x, db')
      | (Inr (UpdateAccountConflict _), db') \<Rightarrow>
          (Inl (terminal_failure_prefix @ error @ ''; operationId belongs to a different account''), db')
      | (Inr UpdateNotFound, db') \<Rightarrow>
          (Inl (terminal_failure_prefix @ error @ ''; reset credit operation record is missing''), db')
      | (Inl e, db') \<Rightarrow>
          (Inl (error @ ''; persist reset credit failure failed: '' @ ce_show env e @ ''; '' @ result_unknown_message), db'))"

definition complete_operation ::
  "credit_env \<Rightarrow> store_call \<Rightarrow> string \<Rightarrow> string \<Rightarrow> consume_result \<Rightarrow> reset_db \<Rightarrow> (string + unit) \<times> reset_db" where
  "complete_operation env c oid a result db =
     (case ce_print env result of
        Inl error \<Rightarrow> (Inl (''serialize reset credit result failed: '' @ error), db)
      | Inr json \<Rightarrow>
          (case call_store c (storage_complete (ce_seaorm env) oid a json (sc_now c)) db of
             (Inr (UpdateUpdated _), db') \<Rightarrow> (Inr (), db')
           | (Inr (UpdateExisting x), db') \<Rightarrow>
               (if ro_status x = OpCompleted then Inr ()
                else Inl ''reset credit operation reached an unexpected terminal state'', db')
           | (Inr (UpdateAccountConflict _), db') \<Rightarrow> (Inl ''operationId belongs to a different account'', db')
           | (Inr UpdateNotFound, db') \<Rightarrow> (Inl ''reset credit operation record is missing'', db')
           | (Inl e, db') \<Rightarrow> (Inl (''persist reset credit completion failed: '' @ ce_show env e), db')))"

definition load_token :: "string \<Rightarrow> string + token option \<Rightarrow> string + token" where
  "load_token a found =
     (case found of
        Inl error \<Rightarrow> Inl error
      | Inr None \<Rightarrow> Inl (''account has no OAuth token: '' @ a)
      | Inr (Some token) \<Rightarrow>
          if trim (tok_access_token token) = [] then Inl (''account access token is empty: '' @ a) else Inr token)"

text \<open>\<open>refreshed\<close> is what the token endpoint and the account store answer.\<close>

definition refresh_token_for_reset :: "token \<Rightarrow> string + token \<Rightarrow> string + token" where
  "refresh_token_for_reset token refreshed =
     (if trim (tok_refresh_token token) = [] then Inl ''account refresh token is empty; please sign in again''
      else refreshed)"

definition fetch_snapshot_with_retry ::
  "token \<Rightarrow> usage_error + reset_credits_snapshot \<Rightarrow> string + token \<Rightarrow> usage_error + reset_credits_snapshot
    \<Rightarrow> (string + reset_credits_snapshot) \<times> token" where
  "fetch_snapshot_with_retry token reply refreshed retry =
     (case reply of
        Inr snapshot \<Rightarrow> (Inr snapshot, token)
      | Inl error \<Rightarrow>
          if is_unauthorized error then
            (case refresh_token_for_reset token refreshed of
               Inl e \<Rightarrow> (Inl e, token)
             | Inr token' \<Rightarrow> (case retry of Inl e \<Rightarrow> (Inl (ue_message e), token') | Inr s \<Rightarrow> (Inr s, token')))
          else (Inl (ue_message error), token))"

section \<open>The stages of a call\<close>

text \<open>
  What a call works on: the journal, the mark of its account in its process that a redemption was
  cut short, and the redemptions sent upstream, with account, operation and redeem id.
\<close>

record credit_state =
  cs_db :: reset_db
  cs_interrupted :: bool
  cs_posts :: "(string \<times> string \<times> string) list"

datatype credit_stage =
    AwaitSnapshot token
  | AwaitReply token bool
  | AwaitRefresh token
  | AwaitFollowUp
  | Answered credit_answer

definition check_arguments :: "string \<Rightarrow> string \<Rightarrow> string + (string \<times> string)" where
  "check_arguments account_id operation_id =
     (if trim account_id = [] then Inl ''accountId is required''
      else if \<not> is_uuid_v4 (trim operation_id) then Inl ''operationId must be a UUID v4''
      else Inr (trim account_id, trim operation_id))"

definition answer_failed ::
  "credit_env \<Rightarrow> store_call \<Rightarrow> string \<Rightarrow> string \<Rightarrow> string \<Rightarrow> credit_state \<Rightarrow> credit_stage \<times> credit_state" where
  "answer_failed env c a oid error st =
     (let (r, db') = fail_operation env c oid a error (cs_db st) in (Answered r, st\<lparr>cs_db := db'\<rparr>))"

text \<open>The account is marked before the redemption is sent, and the mark is removed with the reply.\<close>

definition post_consume ::
  "string \<Rightarrow> string \<Rightarrow> string \<Rightarrow> token \<Rightarrow> credit_state \<Rightarrow> credit_stage \<times> credit_state" where
  "post_consume a oid rid token st =
     (AwaitReply token False, st\<lparr>cs_interrupted := True, cs_posts := cs_posts st @ [(a, oid, rid)]\<rparr>)"

definition begin_claimed ::
  "credit_env \<Rightarrow> store_call \<Rightarrow> string \<Rightarrow> string \<Rightarrow> bool \<Rightarrow> string \<Rightarrow> string + token option \<Rightarrow> credit_state
    \<Rightarrow> credit_stage \<times> credit_state" where
  "begin_claimed env c a oid is_resume rid found st =
     (if \<not> is_resume \<and> cs_interrupted st then answer_failed env c a oid lock_poisoned_message st
      else case load_token a found of
             Inl error \<Rightarrow> answer_failed env c a oid error st
           | Inr token \<Rightarrow> if is_resume then post_consume a oid rid token st else (AwaitSnapshot token, st))"

definition begin_consume ::
  "credit_env \<Rightarrow> store_call \<Rightarrow> store_call \<Rightarrow> string \<Rightarrow> string \<Rightarrow> string \<Rightarrow> string + token option \<Rightarrow> credit_state
    \<Rightarrow> string \<times> credit_stage \<times> credit_state" where
  "begin_consume env claim c a oid candidate found st =
     (case call_store claim (storage_claim (ce_seaorm env) (sc_locks claim) oid a candidate (sc_now claim)) (cs_db st) of
        (Inl e, db') \<Rightarrow>
          (candidate, Answered (Inl (''claim reset credit operation failed: '' @ ce_show env e)), st\<lparr>cs_db := db'\<rparr>)
      | (Inr (ClaimCreated _), db') \<Rightarrow>
          (candidate, begin_claimed env c a oid False candidate found (st\<lparr>cs_db := db'\<rparr>))
      | (Inr (ClaimExisting x), db') \<Rightarrow>
          if is_pending x
          then (ro_redeem_request_id x,
                begin_claimed env c a oid True (ro_redeem_request_id x) found (st\<lparr>cs_db := db'\<rparr>))
          else (candidate, Answered (stored_operation_result env x), st\<lparr>cs_db := db'\<rparr>)
      | (Inr (ClaimPendingAccount x), db') \<Rightarrow>
          (candidate, Answered (stored_operation_result env x), st\<lparr>cs_db := db'\<rparr>)
      | (Inr (ClaimAccountConflict _), db') \<Rightarrow>
          (candidate, Answered (Inl ''operationId belongs to a different account''), st\<lparr>cs_db := db'\<rparr>))"

definition take_snapshot ::
  "credit_env \<Rightarrow> store_call \<Rightarrow> string \<Rightarrow> string \<Rightarrow> string \<Rightarrow> string + reset_credits_snapshot \<Rightarrow> token \<Rightarrow> credit_state
    \<Rightarrow> credit_stage \<times> credit_state" where
  "take_snapshot env c a oid rid snapshot token st =
     (case snapshot of
        Inl error \<Rightarrow> answer_failed env c a oid error st
      | Inr before \<Rightarrow>
          if (case rs_available_count before of Some n \<Rightarrow> n | None \<Rightarrow> 0) \<le> 0
          then answer_failed env c a oid ''no reset credits are currently available'' st
          else post_consume a oid rid token st)"

definition committed_result :: consume_result where
  "committed_result =
     \<lparr>co_consumed = True, co_usage_refreshed = False, co_snapshot = None,
      co_warning = Some ''usage refresh is still pending; refresh manually if needed''\<rparr>"

text \<open>The final word of upstream; it is recorded before anything else is asked.\<close>

definition settle_consume ::
  "credit_env \<Rightarrow> store_call \<Rightarrow> string \<Rightarrow> string \<Rightarrow> usage_error + unit \<Rightarrow> credit_state \<Rightarrow> credit_stage \<times> credit_state" where
  "settle_consume env c a oid reply st =
     (let st1 = st\<lparr>cs_interrupted := False\<rparr>
      in case reply of
           Inl error \<Rightarrow>
             if is_ambiguous_non_idempotent error
             then (Answered (Inl (ue_message error @ ''; '' @ result_unknown_message)), st1)
             else answer_failed env c a oid (ue_message error) st1
         | Inr _ \<Rightarrow>
             (case complete_operation env c oid a committed_result (cs_db st1) of
                (Inl error, db') \<Rightarrow>
                  (Answered (Inl (''reset credit was accepted upstream but its local result could not be recorded; ''
                     @ error @ ''; '' @ result_unknown_message)), st1\<lparr>cs_db := db', cs_interrupted := True\<rparr>)
              | (Inr _, db') \<Rightarrow> (AwaitFollowUp, st1\<lparr>cs_db := db'\<rparr>)))"

text \<open>\<open>consume_with_retry\<close>: a redemption refused as unauthorized is sent once more.\<close>

definition take_reply ::
  "credit_env \<Rightarrow> store_call \<Rightarrow> string \<Rightarrow> string \<Rightarrow> token \<Rightarrow> bool \<Rightarrow> usage_error + unit \<Rightarrow> credit_state
    \<Rightarrow> credit_stage \<times> credit_state" where
  "take_reply env c a oid token retried reply st =
     (case reply of
        Inl error \<Rightarrow> if is_unauthorized error \<and> \<not> retried then (AwaitRefresh token, st)
                     else settle_consume env c a oid reply st
      | Inr _ \<Rightarrow> settle_consume env c a oid reply st)"

definition take_refreshed ::
  "credit_env \<Rightarrow> store_call \<Rightarrow> string \<Rightarrow> string \<Rightarrow> string \<Rightarrow> token \<Rightarrow> string + token \<Rightarrow> credit_state
    \<Rightarrow> credit_stage \<times> credit_state" where
  "take_refreshed env c a oid rid token refreshed st =
     (case refresh_token_for_reset token refreshed of
        Inl message \<Rightarrow> settle_consume env c a oid (Inl \<lparr>ue_status = Some 401, ue_message = message\<rparr>) st
      | Inr token' \<Rightarrow> (AwaitReply token' True, st\<lparr>cs_posts := cs_posts st @ [(a, oid, rid)]\<rparr>))"

definition follow_up_result :: "string option \<Rightarrow> string + reset_credits_snapshot \<Rightarrow> consume_result" where
  "follow_up_result usage_refresh_error snapshot_result =
     (let snapshot_error = (case snapshot_result of Inl e \<Rightarrow> Some e | Inr _ \<Rightarrow> None);
          warnings = List.map_filter id [usage_refresh_error, snapshot_error];
          warning = (case warnings of [] \<Rightarrow> [] | [w] \<Rightarrow> w | w # ws \<Rightarrow> w @ concat (map ((@) ''; '') ws))
      in \<lparr>co_consumed = True, co_usage_refreshed = (usage_refresh_error = None),
          co_snapshot = (case snapshot_result of Inl _ \<Rightarrow> None | Inr s \<Rightarrow> Some s),
          co_warning = (if warning = [] then None else Some warning)\<rparr>)"

definition take_follow_up ::
  "credit_env \<Rightarrow> store_call \<Rightarrow> string \<Rightarrow> string \<Rightarrow> string option \<Rightarrow> string + reset_credits_snapshot \<Rightarrow> credit_state
    \<Rightarrow> credit_stage \<times> credit_state" where
  "take_follow_up env c a oid usage_refresh_error snapshot_result st =
     (let result = follow_up_result usage_refresh_error snapshot_result
      in case ce_print env result of
           Inl error \<Rightarrow> (Answered (Inl (''serialize reset credit result failed: '' @ error)), st)
         | Inr json \<Rightarrow>
             (let (_, db') = call_store c (storage_update_result (ce_seaorm env) oid a json (sc_now c)) (cs_db st)
              in (Answered (Inr result), st\<lparr>cs_db := db'\<rparr>)))"

text \<open>What ends a wait, with the store call that may follow.\<close>

datatype credit_event =
    SnapshotArrived "string + reset_credits_snapshot" token store_call
  | ReplyArrived "usage_error + unit" store_call
  | TokenRefreshed "string + token" store_call
  | FollowUpDone "string option" "string + reset_credits_snapshot" store_call

fun advance ::
  "credit_env \<Rightarrow> string \<Rightarrow> string \<Rightarrow> string \<Rightarrow> credit_stage \<Rightarrow> credit_event \<Rightarrow> credit_state
    \<Rightarrow> (credit_stage \<times> credit_state) option" where
  "advance env a oid rid (AwaitSnapshot _) (SnapshotArrived snapshot token c) st =
     Some (take_snapshot env c a oid rid snapshot token st)"
| "advance env a oid rid (AwaitReply token retried) (ReplyArrived reply c) st =
     Some (take_reply env c a oid token retried reply st)"
| "advance env a oid rid (AwaitRefresh token) (TokenRefreshed refreshed c) st =
     Some (take_refreshed env c a oid rid token refreshed st)"
| "advance env a oid rid AwaitFollowUp (FollowUpDone usage_refresh_error snapshot_result c) st =
     Some (take_follow_up env c a oid usage_refresh_error snapshot_result st)"
| "advance env a oid rid _ _ st = None"

text \<open>A call that is alone, to the end of its events.\<close>

fun run_call ::
  "credit_env \<Rightarrow> string \<Rightarrow> string \<Rightarrow> string \<Rightarrow> credit_event list \<Rightarrow> credit_stage \<times> credit_state
    \<Rightarrow> credit_stage \<times> credit_state" where
  "run_call env a oid rid [] (stage, st) = (stage, st)"
| "run_call env a oid rid (ev # evs) (stage, st) =
     (case advance env a oid rid stage ev st of
        None \<Rightarrow> (stage, st)
      | Some x \<Rightarrow> run_call env a oid rid evs x)"

definition consume_reset_credit_async ::
  "credit_env \<Rightarrow> string \<Rightarrow> string \<Rightarrow> string \<Rightarrow> store_call \<Rightarrow> store_call \<Rightarrow> string + token option \<Rightarrow> credit_event list
    \<Rightarrow> credit_state \<Rightarrow> credit_stage \<times> credit_state" where
  "consume_reset_credit_async env account_id operation_id candidate claim c found events st =
     (case check_arguments account_id operation_id of
        Inl error \<Rightarrow> (Answered (Inl error), st)
      | Inr (a, oid) \<Rightarrow>
          (let (rid, x) = begin_consume env claim c a oid candidate found st in run_call env a oid rid events x))"

section \<open>All calls of all processes\<close>

record credit_call =
  ca_process :: nat
  ca_account :: string
  ca_operation :: string
  ca_redeem :: string
  ca_stage :: credit_stage

record credit_system =
  sy_db :: reset_db
  sy_interrupted :: "nat \<times> string \<Rightarrow> bool"
  sy_posts :: "(string \<times> string \<times> string) list"
  sy_calls :: "nat \<rightharpoonup> credit_call"
  sy_answers :: "(string \<times> string \<times> credit_answer) list"

definition enter :: "nat \<Rightarrow> string \<Rightarrow> credit_system \<Rightarrow> credit_state" where
  "enter pr a s = \<lparr>cs_db = sy_db s, cs_interrupted = sy_interrupted s (pr, a), cs_posts = sy_posts s\<rparr>"

definition leave :: "nat \<Rightarrow> string \<Rightarrow> credit_state \<Rightarrow> credit_system \<Rightarrow> credit_system" where
  "leave pr a st s =
     s\<lparr>sy_db := cs_db st, sy_interrupted := (sy_interrupted s)((pr, a) := cs_interrupted st), sy_posts := cs_posts st\<rparr>"

definition put_call :: "nat \<Rightarrow> credit_call \<Rightarrow> credit_system \<Rightarrow> credit_system" where
  "put_call t call s =
     (case ca_stage call of
        Answered r \<Rightarrow> s\<lparr>sy_calls := (sy_calls s)(t := None),
                       sy_answers := sy_answers s @ [(ca_account call, ca_operation call, r)]\<rparr>
      | _ \<Rightarrow> s\<lparr>sy_calls := (sy_calls s)(t \<mapsto> call)\<rparr>)"

text \<open>The gate of an account lets one call of a process through at a time.\<close>

definition gate_free :: "nat \<Rightarrow> string \<Rightarrow> credit_system \<Rightarrow> bool" where
  "gate_free pr a s \<longleftrightarrow> (\<forall>t call. sy_calls s t = Some call \<longrightarrow> \<not> (ca_process call = pr \<and> ca_account call = a))"

text \<open>
  A call begins with a random redeem id, which no recorded operation has, goes on when what it waits for
  arrives, or is dropped; a process may crash, and forgets its calls and its marks.
\<close>

inductive credit_step :: "credit_env \<Rightarrow> credit_system \<Rightarrow> credit_system \<Rightarrow> bool" for env where
  Begin: "check_arguments account_id operation_id = Inr (a, oid) \<Longrightarrow> sy_calls s t = None \<Longrightarrow> gate_free pr a s \<Longrightarrow>
    random_uuid_v4 bytes = candidate \<Longrightarrow>
    candidate \<notin> or_redeem_request_id ` set (rd_operations (sy_db s)) \<Longrightarrow>
    begin_consume env claim c a oid candidate found (enter pr a s) = (rid, stage, st) \<Longrightarrow>
    credit_step env s (put_call t \<lparr>ca_process = pr, ca_account = a, ca_operation = oid, ca_redeem = rid, ca_stage = stage\<rparr>
      (leave pr a st s))"
| Advance: "sy_calls s t = Some call \<Longrightarrow>
    advance env (ca_account call) (ca_operation call) (ca_redeem call) (ca_stage call) ev
      (enter (ca_process call) (ca_account call) s) = Some (stage, st) \<Longrightarrow>
    credit_step env s (put_call t (call\<lparr>ca_stage := stage\<rparr>) (leave (ca_process call) (ca_account call) st s))"
| Drop: "sy_calls s t = Some call \<Longrightarrow> credit_step env s (s\<lparr>sy_calls := (sy_calls s)(t := None)\<rparr>)"
| Crash: "credit_step env s (s\<lparr>sy_calls := (\<lambda>t. case sy_calls s t of
      Some call \<Rightarrow> if ca_process call = pr then None else Some call | None \<Rightarrow> None),
    sy_interrupted := (\<lambda>(p, a). p \<noteq> pr \<and> sy_interrupted s (p, a))\<rparr>)"

inductive credit_reachable :: "credit_env \<Rightarrow> credit_system \<Rightarrow> bool" for env where
  Start: "credit_reachable env
    \<lparr>sy_db = empty_db, sy_interrupted = (\<lambda>_. False), sy_posts = [], sy_calls = Map.empty, sy_answers = []\<rparr>"
| Step: "credit_reachable env s \<Longrightarrow> credit_step env s s' \<Longrightarrow> credit_reachable env s'"

inductive_cases credit_stepE: "credit_step env s s'"

section \<open>What the stages keep\<close>

definition recorded :: "journal \<Rightarrow> string \<Rightarrow> string \<Rightarrow> reset_credit_operation \<Rightarrow> bool" where
  "recorded J a oid x \<longleftrightarrow> journal_find oid J = Some x \<and> ro_account_id x = a"

definition completed :: "journal \<Rightarrow> string \<Rightarrow> string \<Rightarrow> bool" where
  "completed J a oid \<longleftrightarrow> (\<exists>x. recorded J a oid x \<and> ro_status x = OpCompleted)"

text \<open>A later journal of the same redeem ids, except for new operations.\<close>

definition redeem_ids :: "journal \<Rightarrow> string list" where
  "redeem_ids J = map ro_redeem_request_id J"

definition posts_ok :: "journal \<Rightarrow> (string \<times> string \<times> string) list \<Rightarrow> bool" where
  "posts_ok J posts \<longleftrightarrow> (\<forall>(a, oid, rid)\<in>set posts. \<exists>x. recorded J a oid x \<and> ro_redeem_request_id x = rid)"

fun stage_ok :: "journal \<Rightarrow> string \<Rightarrow> string \<Rightarrow> string \<Rightarrow> credit_stage \<Rightarrow> bool" where
  "stage_ok J a oid rid (Answered r) \<longleftrightarrow> (\<forall>res. r = Inr res \<longrightarrow> completed J a oid)"
| "stage_ok J a oid rid AwaitFollowUp \<longleftrightarrow> completed J a oid
     \<and> (\<exists>x. recorded J a oid x \<and> ro_redeem_request_id x = rid)"
| "stage_ok J a oid rid _ \<longleftrightarrow> (\<exists>x. recorded J a oid x \<and> ro_redeem_request_id x = rid)"

lemma recorded_later:
  assumes "journal_le J J'" and "recorded J a oid x"
  shows "\<exists>y. recorded J' a oid y \<and> same_operation x y"
proof -
  from assms(2) have "journal_find oid J = Some x" "ro_account_id x = a" by (simp_all add: recorded_def)
  with assms(1) obtain y where "journal_find oid J' = Some y" "same_operation x y"
    unfolding journal_le_def by blast
  with \<open>ro_account_id x = a\<close> show ?thesis by (auto simp: recorded_def same_operation_def)
qed

lemma completed_later:
  assumes "journal_le J J'" and "completed J a oid"
  shows "completed J' a oid"
proof -
  from assms(2) obtain x where x: "recorded J a oid x" "ro_status x = OpCompleted" by (auto simp: completed_def)
  from recorded_later [OF assms(1) x(1)] x(2) show ?thesis by (auto simp: completed_def same_operation_def)
qed

lemma redeem_later:
  assumes "journal_le J J'" and "\<exists>x. recorded J a oid x \<and> ro_redeem_request_id x = rid"
  shows "\<exists>x. recorded J' a oid x \<and> ro_redeem_request_id x = rid"
proof -
  from assms(2) obtain x where x: "recorded J a oid x" "ro_redeem_request_id x = rid" by blast
  from recorded_later [OF assms(1) x(1)] x(2) show ?thesis by (auto simp: same_operation_def)
qed

lemma posts_later:
  assumes "journal_le J J'" and "posts_ok J posts"
  shows "posts_ok J' posts"
  unfolding posts_ok_def
proof clarify
  fix a oid rid assume "(a, oid, rid) \<in> set posts"
  with assms(2) have "\<exists>x. recorded J a oid x \<and> ro_redeem_request_id x = rid" by (auto simp: posts_ok_def)
  then show "\<exists>x. recorded J' a oid x \<and> ro_redeem_request_id x = rid" by (rule redeem_later [OF assms(1)])
qed

lemma stage_later:
  assumes "journal_le J J'" and "stage_ok J a oid rid stage"
  shows "stage_ok J' a oid rid stage"
  using assms(2) completed_later [OF assms(1), of a oid] redeem_later [OF assms(1), of a oid rid]
  by (cases stage) simp_all

text \<open>How a stage may change the state, for a call of an operation with its redeem id.\<close>

definition stage_effect ::
  "string \<Rightarrow> string \<Rightarrow> string \<Rightarrow> journal \<Rightarrow> credit_state \<Rightarrow> credit_stage \<times> credit_state \<Rightarrow> bool" where
  "stage_effect a oid rid J st out \<longleftrightarrow>
     (\<exists>J'. stores (cs_db (snd out)) J' \<and> journal_le J J' \<and> redeem_ids J' = redeem_ids J
        \<and> stage_ok J' a oid rid (fst out)
        \<and> (posts_ok J (cs_posts st) \<longrightarrow> posts_ok J' (cs_posts (snd out))))"

lemma redeem_ids_change:
  assumes w: "journal_wf J" and f: "\<And>x. ro_redeem_request_id (f x) = ro_redeem_request_id x" "\<And>x. ro_operation_id (f x) = ro_operation_id x"
  shows "redeem_ids (snd (journal_change expected f oid a J)) = redeem_ids J"
proof -
  have "map ro_redeem_request_id (journal_put (f x) J) = map ro_redeem_request_id J" if "journal_find oid J = Some x" for x
  proof -
    have "z \<in> set J \<Longrightarrow> ro_operation_id z = ro_operation_id x \<Longrightarrow> z = x" for z
      using journal_find_mem [OF w, of z] journal_findD [OF that] that by auto
    then show ?thesis by (auto simp: journal_put_def f)
  qed
  then show ?thesis by (auto simp: redeem_ids_def journal_change_def split: option.split)
qed

lemma call_store_cases: "call_store c m db = (Inr x, db') \<Longrightarrow> m db = Inr (x, db')"
  "call_store c m db = (Inl e, db') \<Longrightarrow> db' = db"
  by (auto simp: call_store_def run_transaction_def split: option.splits sum.splits)

lemma stored_completed: "stored_operation_result env x = Inr res \<Longrightarrow> ro_status x = OpCompleted"
  by (auto simp: stored_operation_result_def split: operation_status.splits option.splits sum.splits)

lemma changed_operation:
  assumes "u \<in> {UpdateUpdated y, UpdateExisting y}" and "fst (journal_change expected f oid a J) = u"
    and "\<And>x. ro_operation_id (f x) = ro_operation_id x" "\<And>x. ro_account_id (f x) = ro_account_id x"
  shows "recorded (snd (journal_change expected f oid a J)) a oid y"
  using assms journal_findD [of oid J]
  by (auto simp: journal_change_def recorded_def journal_find_put split: option.splits if_splits)

lemma fail_effect:
  assumes s: "stores db J" and e: "fail_operation env c oid a error db = (r, db')"
  shows "\<exists>J'. stores db' J' \<and> journal_le J J' \<and> redeem_ids J' = redeem_ids J \<and> (\<forall>res. r = Inr res \<longrightarrow> completed J' a oid)"
proof -
  let ?m = "storage_fail (ce_seaorm env) oid a error (sc_now c)"
  obtain out db1 where call: "call_store c ?m db = (out, db1)" by fastforce
  show ?thesis
  proof (cases out)
    case (Inl err)
    then have "db1 = db" using call call_store_cases(2) by metis
    with s e call Inl show ?thesis by (auto simp: fail_operation_def intro: exI [of _ J])
  next
    case (Inr u)
    let ?c = "journal_change OpPending (finished OpFailed None (Some error) (sc_now c)) oid a J"
    have "?m db = Inr (u, db1)" using call Inr call_store_cases(1) by metis
    then obtain J' where J': "stores db1 J'" "journal_le J J'" "J' = snd ?c" "u = fst ?c"
      by (rule account_storage.fail_grows [OF s])
    have "redeem_ids J' = redeem_ids J"
      unfolding J'(3) by (rule redeem_ids_change [OF stores_wf [OF s]]) (simp_all add: finished_def)
    moreover have "r = Inr res \<Longrightarrow> completed J' a oid" for res
    proof -
      assume r: "r = Inr res"
      then obtain y where y: "u \<in> {UpdateUpdated y, UpdateExisting y}" "stored_operation_result env y = Inr res"
        using e call Inr by (cases u) (auto simp: fail_operation_def)
      have "recorded J' a oid y"
        unfolding J'(3) by (rule changed_operation [OF y(1) J'(4) [symmetric]]) (simp_all add: finished_def)
      with stored_completed [OF y(2)] show ?thesis by (auto simp: completed_def)
    qed
    moreover have "db' = db1" using e call Inr by (cases u) (auto simp: fail_operation_def)
    ultimately show ?thesis using J' by blast
  qed
qed

lemma answer_failed_effect:
  assumes s: "stores (cs_db st) J"
  shows "stage_effect a oid rid J st (answer_failed env c a oid error st)"
proof -
  obtain r db' where e: "fail_operation env c oid a error (cs_db st) = (r, db')" by fastforce
  from fail_effect [OF s e] show ?thesis by (auto simp: stage_effect_def answer_failed_def e intro: posts_later)
qed

lemma complete_effect:
  assumes s: "stores db J" and e: "complete_operation env c oid a result db = (r, db')"
  shows "\<exists>J'. stores db' J' \<and> journal_le J J' \<and> redeem_ids J' = redeem_ids J \<and> (r = Inr () \<longrightarrow> completed J' a oid)"
proof (cases "ce_print env result")
  case (Inl err)
  with s e show ?thesis by (auto simp: complete_operation_def intro: exI [of _ J])
next
  case (Inr json)
  let ?m = "storage_complete (ce_seaorm env) oid a json (sc_now c)"
  obtain out db1 where call: "call_store c ?m db = (out, db1)" by fastforce
  show ?thesis
  proof (cases out)
    case (Inl err)
    then have "db1 = db" using call call_store_cases(2) by metis
    with s e call Inl Inr show ?thesis by (auto simp: complete_operation_def intro: exI [of _ J])
  next
    case u: (Inr u)
    let ?c = "journal_change OpPending (finished OpCompleted (Some json) None (sc_now c)) oid a J"
    have "?m db = Inr (u, db1)" using call u call_store_cases(1) by metis
    then obtain J' where J': "stores db1 J'" "journal_le J J'" "J' = snd ?c" "u = fst ?c"
      by (rule account_storage.complete_grows [OF s])
    have "redeem_ids J' = redeem_ids J"
      unfolding J'(3) by (rule redeem_ids_change [OF stores_wf [OF s]]) (simp_all add: finished_def)
    moreover have "completed J' a oid" if r: "r = Inr ()"
    proof -
      from r obtain y where y: "u = UpdateUpdated y \<or> u = UpdateExisting y \<and> ro_status y = OpCompleted"
        using e call u Inr by (cases u) (auto simp: complete_operation_def split: if_splits)
      then have "recorded J' a oid y"
        unfolding J'(3) by (intro changed_operation [OF _ J'(4) [symmetric]]) (auto simp: finished_def)
      moreover have "ro_status y = OpCompleted"
        using y J'(4) by (auto simp: journal_change_def finished_def split: option.splits if_splits)
      ultimately show ?thesis by (auto simp: completed_def)
    qed
    moreover have "db' = db1" using e call u Inr by (cases u) (auto simp: complete_operation_def)
    ultimately show ?thesis using J' by blast
  qed
qed

lemma posts_ok_snoc:
  "posts_ok J posts \<Longrightarrow> \<exists>x. recorded J a oid x \<and> ro_redeem_request_id x = rid \<Longrightarrow> posts_ok J (posts @ [(a, oid, rid)])"
  by (auto simp: posts_ok_def)

lemma stage_effect_same:
  assumes "stores (cs_db st') J" and "stage_ok J a oid rid stage" and "posts_ok J (cs_posts st) \<longrightarrow> posts_ok J (cs_posts st')"
  shows "stage_effect a oid rid J st (stage, st')"
  using assms by (auto simp: stage_effect_def intro: exI [of _ J])

lemma post_effect:
  assumes "stores (cs_db st) J" and "\<exists>x. recorded J a oid x \<and> ro_redeem_request_id x = rid"
  shows "stage_effect a oid rid J st (post_consume a oid rid token st)"
  unfolding post_consume_def
  by (rule stage_effect_same) (use assms posts_ok_snoc in auto)

lemma snapshot_effect:
  assumes s: "stores (cs_db st) J" and x: "\<exists>x. recorded J a oid x \<and> ro_redeem_request_id x = rid"
  shows "stage_effect a oid rid J st (take_snapshot env c a oid rid snapshot token st)"
  using answer_failed_effect [OF s] post_effect [OF s x]
  by (simp add: take_snapshot_def split: sum.split)

lemma settle_effect:
  assumes s: "stores (cs_db st) J" and x: "\<exists>x. recorded J a oid x \<and> ro_redeem_request_id x = rid"
  shows "stage_effect a oid rid J st (settle_consume env c a oid reply st)"
proof (cases reply)
  case (Inl error)
  have "stage_effect a oid rid J (st\<lparr>cs_interrupted := False\<rparr>) out \<Longrightarrow> stage_effect a oid rid J st out" for out
    by (simp add: stage_effect_def)
  moreover have "stage_effect a oid rid J (st\<lparr>cs_interrupted := False\<rparr>)
      (answer_failed env c a oid (ue_message error) (st\<lparr>cs_interrupted := False\<rparr>))"
    using s by (intro answer_failed_effect) simp
  ultimately show ?thesis
    using Inl s by (auto simp: settle_consume_def Let_def intro!: stage_effect_same)
next
  case (Inr ok)
  obtain r db' where e: "complete_operation env c oid a committed_result (cs_db st) = (r, db')" by fastforce
  from complete_effect [OF s e] obtain J' where J': "stores db' J'" "journal_le J J'" "redeem_ids J' = redeem_ids J"
    "r = Inr () \<longrightarrow> completed J' a oid" by blast
  have x': "\<exists>x. recorded J' a oid x \<and> ro_redeem_request_id x = rid" by (rule redeem_later [OF J'(2) x])
  have p: "posts_ok J (cs_posts st) \<longrightarrow> posts_ok J' (cs_posts st)" using posts_later [OF J'(2)] by blast
  show ?thesis
    using Inr e J' x' p by (cases r) (auto simp: settle_consume_def stage_effect_def Let_def intro!: exI [of _ J'])
qed

lemma follow_up_effect:
  assumes s: "stores (cs_db st) J" and x: "completed J a oid" "\<exists>x. recorded J a oid x \<and> ro_redeem_request_id x = rid"
  shows "stage_effect a oid rid J st (take_follow_up env c a oid usage_error snapshot st)"
proof (cases "ce_print env (follow_up_result usage_error snapshot)")
  case (Inl error)
  with s show ?thesis by (auto simp: take_follow_up_def Let_def intro!: stage_effect_same)
next
  case (Inr json)
  let ?m = "storage_update_result (ce_seaorm env) oid a json (sc_now c)"
  obtain out db1 where call: "call_store c ?m (cs_db st) = (out, db1)" by fastforce
  have eq: "take_follow_up env c a oid usage_error snapshot st
      = (Answered (Inr (follow_up_result usage_error snapshot)), st\<lparr>cs_db := db1\<rparr>)"
    by (simp add: take_follow_up_def Let_def Inr call)
  show ?thesis
  proof (cases out)
    case (Inl err)
    then have "db1 = cs_db st" using call call_store_cases(2) by metis
    then show ?thesis unfolding eq using s x by (intro stage_effect_same) simp_all
  next
    case u: (Inr u)
    then have m: "?m (cs_db st) = Inr (u, db1)" using call call_store_cases(1) by metis
    have np: "journal_find oid J = Some y \<Longrightarrow> ro_account_id y = a \<Longrightarrow> \<not> is_pending y" for y
      using x(1) by (auto simp: completed_def recorded_def)
    obtain J' where J': "stores db1 J'" "journal_le J J'"
      "J' = snd (journal_change OpCompleted (enriched json (sc_now c)) oid a J)"
      by (rule account_storage.update_grows [OF s np m])
    have "redeem_ids J' = redeem_ids J"
      unfolding J'(3) by (rule redeem_ids_change [OF stores_wf [OF s]]) (simp_all add: enriched_def)
    then show ?thesis
      unfolding eq stage_effect_def using J' completed_later [OF J'(2) x(1)] posts_later [OF J'(2)]
      by (auto intro!: exI [of _ J'])
  qed
qed

lemma advance_effect:
  assumes s: "stores (cs_db st) J" and x: "\<exists>x. recorded J a oid x \<and> ro_redeem_request_id x = rid"
    and g: "stage_ok J a oid rid stage" and e: "advance env a oid rid stage ev st = Some out"
  shows "stage_effect a oid rid J st out"
proof -
  have refreshed: "stage_effect a oid rid J st (take_refreshed env c a oid rid token refreshed st)" for c token refreshed
    using settle_effect [OF s x] s x posts_ok_snoc [OF _ x]
    by (auto simp: take_refreshed_def split: sum.split intro!: stage_effect_same)
  have reply: "stage_effect a oid rid J st (take_reply env c a oid token retried reply st)" for c token retried reply
    using settle_effect [OF s x] s x by (auto simp: take_reply_def split: sum.split intro!: stage_effect_same)
  show ?thesis
  proof (cases "(env, a, oid, rid, stage, ev, st)" rule: advance.cases)
    case (1 env a oid rid t0 snapshot token c st)
    then show ?thesis using e snapshot_effect [OF s x] by auto
  next
    case (2 env a oid rid token retried reply c st)
    then show ?thesis using e reply by auto
  next
    case (3 env a oid rid token refreshed c st)
    then show ?thesis using e refreshed by auto
  next
    case (4 env a oid rid ue sr c st)
    then show ?thesis using e follow_up_effect [OF s _ x] g by auto
  qed (use e in auto)
qed

lemma begin_claimed_effect:
  assumes s: "stores (cs_db st) J" and x: "\<exists>x. recorded J a oid x \<and> ro_redeem_request_id x = rid"
  shows "stage_effect a oid rid J st (begin_claimed env c a oid resume rid found st)"
  using answer_failed_effect [OF s] post_effect [OF s x] stage_effect_same [OF s, of a oid rid "AwaitSnapshot _"] x
  by (simp add: begin_claimed_def split: sum.split)

section \<open>Every reachable state\<close>

lemma claim_outcome:
  assumes "journal_claim oid a rid now J = (c, J')"
  shows "c = ClaimCreated x \<Longrightarrow> recorded J' a oid x \<and> ro_redeem_request_id x = rid \<and> redeem_ids J' = redeem_ids J @ [rid]"
    and "c = ClaimExisting x \<Longrightarrow> recorded J' a oid x \<and> J' = J"
    and "c = ClaimPendingAccount x \<Longrightarrow> is_pending x \<and> J' = J"
    and "c = ClaimAccountConflict x \<Longrightarrow> J' = J"
  using assms
  by (auto simp: journal_claim_def recorded_def redeem_ids_def journal_find_append
      split: option.splits if_splits dest: journal_findD journal_pendingD)

definition begin_ok ::
  "string \<Rightarrow> string \<Rightarrow> journal \<Rightarrow> credit_state \<Rightarrow> string \<Rightarrow> credit_stage \<times> credit_state \<Rightarrow> bool" where
  "begin_ok a oid J st rid out \<longleftrightarrow>
     (\<exists>J'. stores (cs_db (snd out)) J' \<and> journal_le J J' \<and> distinct (redeem_ids J')
        \<and> stage_ok J' a oid rid (fst out)
        \<and> (posts_ok J (cs_posts st) \<longrightarrow> posts_ok J' (cs_posts (snd out))))"

lemma begin_after:
  assumes le: "journal_le J J1" and d: "distinct (redeem_ids J1)" and "cs_posts st1 = cs_posts st"
    and e: "stage_effect a oid rid J1 st1 out"
  shows "begin_ok a oid J st rid out"
proof -
  from e obtain J' where "stores (cs_db (snd out)) J'" "journal_le J1 J'" "redeem_ids J' = redeem_ids J1"
    "stage_ok J' a oid rid (fst out)" "posts_ok J1 (cs_posts st) \<longrightarrow> posts_ok J' (cs_posts (snd out))"
    using assms(3) by (auto simp: stage_effect_def)
  then show ?thesis
    using d le journal_le_trans posts_later [OF le] unfolding begin_ok_def by metis
qed

lemma begin_effect:
  assumes s: "stores (cs_db st) J" and d: "distinct (redeem_ids J)" and f: "cand \<notin> set (redeem_ids J)"
    and e: "begin_consume env claim c a oid cand found st = (rid, out)"
  shows "begin_ok a oid J st rid out"
proof -
  let ?m = "storage_claim (ce_seaorm env) (sc_locks claim) oid a cand (sc_now claim)"
  obtain r db1 where call: "call_store claim ?m (cs_db st) = (r, db1)" by fastforce
  let ?st = "st\<lparr>cs_db := db1\<rparr>"
  show ?thesis
  proof (cases r)
    case (Inl err)
    then have "db1 = cs_db st" using call call_store_cases(2) by metis
    with e call Inl s d show ?thesis by (auto simp: begin_consume_def begin_ok_def intro!: exI [of _ J])
  next
    case (Inr cl)
    have m: "?m (cs_db st) = Inr (cl, db1)" using call Inr call_store_cases(1) by metis
    obtain J1 where J1: "stores db1 J1" "journal_le J J1" "cl = fst (journal_claim oid a cand (sc_now claim) J)"
      "J1 = snd (journal_claim oid a cand (sc_now claim) J)"
      by (rule account_storage.claim_grows [OF s m])
    then have jc: "journal_claim oid a cand (sc_now claim) J = (cl, J1)" by simp
    note out = claim_outcome [OF jc]
    have s1: "stores (cs_db ?st) J1" using J1 by simp
    have same: "begin_ok a oid J st rid (stage, ?st)"
      if "redeem_ids J1 = redeem_ids J" "stage_ok J1 a oid rid stage" for rid stage
      using J1 that d posts_later [OF J1(2)] by (auto simp: begin_ok_def intro!: exI [of _ J1])
    show ?thesis
    proof (cases cl)
      case (ClaimCreated x)
      then have "distinct (redeem_ids J1)" "recorded J1 a oid x" "ro_redeem_request_id x = cand"
        using out(1) d f by auto
      moreover have "rid = cand" "out = begin_claimed env c a oid False cand found ?st"
        using e call Inr ClaimCreated by (auto simp: begin_consume_def)
      ultimately have "distinct (redeem_ids J1)" "\<exists>x. recorded J1 a oid x \<and> ro_redeem_request_id x = rid"
        "out = begin_claimed env c a oid False rid found ?st" by auto
      with begin_claimed_effect [OF s1 this(2)] show ?thesis by (intro begin_after [OF J1(2), of ?st]) auto
    next
      case (ClaimExisting x)
      then have x: "recorded J1 a oid x" "J1 = J" using out(2) by auto
      show ?thesis
      proof (cases "is_pending x")
        case True
        then have "rid = ro_redeem_request_id x"
          "out = begin_claimed env c a oid True (ro_redeem_request_id x) found ?st"
          using e call Inr ClaimExisting by (auto simp: begin_consume_def)
        then have "distinct (redeem_ids J1)" "\<exists>x. recorded J1 a oid x \<and> ro_redeem_request_id x = rid"
          "out = begin_claimed env c a oid True rid found ?st" using x d by auto
        with begin_claimed_effect [OF s1 this(2)] show ?thesis by (intro begin_after [OF J1(2), of ?st]) auto
      next
        case False
        then have "out = (Answered (stored_operation_result env x), ?st)"
          using e call Inr ClaimExisting by (simp add: begin_consume_def)
        moreover have "stage_ok J1 a oid rid (Answered (stored_operation_result env x))"
          using x stored_completed by (auto simp: completed_def)
        ultimately show ?thesis using same x by simp
      qed
    next
      case (ClaimPendingAccount x)
      then have "out = (Answered (stored_operation_result env x), ?st)" "is_pending x" "J1 = J"
        using e call Inr out(3) by (simp_all add: begin_consume_def)
      moreover have "stage_ok J1 a oid rid (Answered (stored_operation_result env x))"
        using calculation(2) by (auto dest: stored_completed)
      ultimately show ?thesis using same by simp
    next
      case (ClaimAccountConflict x)
      then have "out = (Answered (Inl ''operationId belongs to a different account''), ?st)" "J1 = J"
        using e call Inr out(4) by (simp_all add: begin_consume_def)
      then show ?thesis using same by simp
    qed
  qed
qed

definition credit_inv :: "journal \<Rightarrow> credit_system \<Rightarrow> bool" where
  "credit_inv J s \<longleftrightarrow> stores (sy_db s) J \<and> distinct (redeem_ids J) \<and> posts_ok J (sy_posts s)
     \<and> (\<forall>t call. sy_calls s t = Some call \<longrightarrow>
          (\<exists>x. recorded J (ca_account call) (ca_operation call) x \<and> ro_redeem_request_id x = ca_redeem call)
          \<and> stage_ok J (ca_account call) (ca_operation call) (ca_redeem call) (ca_stage call))
     \<and> (\<forall>(a, oid, r)\<in>set (sy_answers s). \<forall>res. r = Inr res \<longrightarrow> completed J a oid)"

lemma credit_inv_later:
  assumes i: "credit_inv J s" and le: "journal_le J J'" and n: "stores (cs_db st) J'" "distinct (redeem_ids J')"
    "posts_ok J (sy_posts s) \<longrightarrow> posts_ok J' (cs_posts st)"
    and g: "stage_ok J' (ca_account call) (ca_operation call) (ca_redeem call) (ca_stage call)"
  shows "credit_inv J' (put_call t call (leave pr a st s))"
proof -
  have calls: "sy_calls s t' = Some k \<Longrightarrow>
      (\<exists>x. recorded J' (ca_account k) (ca_operation k) x \<and> ro_redeem_request_id x = ca_redeem k)
      \<and> stage_ok J' (ca_account k) (ca_operation k) (ca_redeem k) (ca_stage k)" for t' k
    using i redeem_later [OF le] stage_later [OF le] unfolding credit_inv_def by blast
  have ans: "(a', o', Inr res) \<in> set (sy_answers s) \<Longrightarrow> completed J' a' o'" for a' o' res
    using i completed_later [OF le] unfolding credit_inv_def by fastforce
  have own: "(\<exists>x. recorded J' (ca_account call) (ca_operation call) x \<and> ro_redeem_request_id x = ca_redeem call)"
    if "\<And>r. ca_stage call \<noteq> Answered r" using g that by (cases "ca_stage call") auto
  have p: "posts_ok J' (cs_posts st)" using i n(3) by (simp add: credit_inv_def)
  show ?thesis
  proof (cases "\<exists>r. ca_stage call = Answered r")
    case True
    then obtain r where "ca_stage call = Answered r" by blast
    with calls ans n p g show ?thesis by (auto simp: credit_inv_def put_call_def leave_def)
  next
    case False
    then have "put_call t call (leave pr a st s) = (leave pr a st s)\<lparr>sy_calls := (sy_calls s)(t \<mapsto> call)\<rparr>"
      by (cases "ca_stage call") (auto simp: put_call_def leave_def)
    moreover have "credit_inv J' ((leave pr a st s)\<lparr>sy_calls := (sy_calls s)(t \<mapsto> call)\<rparr>)"
      using calls ans n p g own False by (auto simp: credit_inv_def leave_def)
    ultimately show ?thesis by simp
  qed
qed

lemma credit_inv_fewer:
  assumes "credit_inv J s" and "\<And>t call. calls t = Some call \<Longrightarrow> sy_calls s t = Some call"
  shows "credit_inv J (s\<lparr>sy_calls := calls, sy_interrupted := f\<rparr>)"
proof -
  have "(\<exists>x. recorded J (ca_account call) (ca_operation call) x \<and> ro_redeem_request_id x = ca_redeem call)
      \<and> stage_ok J (ca_account call) (ca_operation call) (ca_redeem call) (ca_stage call)"
    if "calls t = Some call" for t call
    using assms(1) assms(2) [OF that] unfolding credit_inv_def by blast
  with assms(1) show ?thesis by (simp add: credit_inv_def)
qed

lemma credit_step_inv:
  assumes "credit_step env s s'" and i: "credit_inv J s"
  shows "\<exists>J'. credit_inv J' s' \<and> journal_le J J'"
  using assms(1)
proof (cases rule: credit_step.cases)
  case (Begin raw_a raw_o a oid t pr bytes candidate claim c found rid stage st)
  have s: "stores (cs_db (enter pr a s)) J" and d: "distinct (redeem_ids J)"
    using i by (simp_all add: credit_inv_def enter_def)
  have "rd_operations (sy_db s) = map row_from_operation J" using i by (simp add: credit_inv_def stores_def)
  then have "candidate \<notin> set (redeem_ids J)" using Begin by (simp add: redeem_ids_def image_image)
  from begin_effect [OF s d this] Begin obtain J' where J': "stores (cs_db st) J'" "journal_le J J'"
    "distinct (redeem_ids J')" "stage_ok J' a oid rid stage" "posts_ok J (sy_posts s) \<longrightarrow> posts_ok J' (cs_posts st)"
    by (fastforce simp: begin_ok_def enter_def)
  show ?thesis
    unfolding Begin(1) by (rule exI [of _ J'], rule conjI [OF credit_inv_later [OF i J'(2,1,3,5)] J'(2)]) (use J' in simp)
next
  case (Advance t call ev stage st)
  let ?a = "ca_account call" and ?o = "ca_operation call" and ?r = "ca_redeem call" and ?p = "ca_process call"
  have s: "stores (cs_db (enter ?p ?a s)) J" using i by (simp add: credit_inv_def enter_def)
  have x: "\<exists>x. recorded J ?a ?o x \<and> ro_redeem_request_id x = ?r" "stage_ok J ?a ?o ?r (ca_stage call)"
    using i Advance(2) unfolding credit_inv_def by blast+
  from advance_effect [OF s x Advance(3)] obtain J' where J': "stores (cs_db st) J'" "journal_le J J'"
    "redeem_ids J' = redeem_ids J" "stage_ok J' ?a ?o ?r stage" "posts_ok J (sy_posts s) \<longrightarrow> posts_ok J' (cs_posts st)"
    by (auto simp: stage_effect_def enter_def)
  have "distinct (redeem_ids J')" using i J'(3) by (simp add: credit_inv_def)
  from credit_inv_later [OF i J'(2,1) this J'(5), of "call\<lparr>ca_stage := stage\<rparr>"] J'(2,4) Advance(1)
  show ?thesis by auto
next
  case (Drop t call)
  have "credit_inv J (s\<lparr>sy_calls := (sy_calls s)(t := None), sy_interrupted := sy_interrupted s\<rparr>)"
    by (rule credit_inv_fewer [OF i]) (auto split: if_splits)
  with Drop(1) show ?thesis by (intro exI [of _ J]) simp
next
  case (Crash pr)
  show ?thesis
    unfolding Crash by (rule exI [of _ J], rule conjI [OF credit_inv_fewer [OF i]])
      (auto split: option.splits if_splits)
qed

lemma credit_reachable_inv: "credit_reachable env s \<Longrightarrow> \<exists>J. credit_inv J s"
proof (induction rule: credit_reachable.induct)
  case Start
  show ?case
    by (intro exI [of _ "[]"]) (simp add: credit_inv_def stores_empty redeem_ids_def posts_ok_def)
next
  case (Step s s')
  then show ?case using credit_step_inv by blast
qed

lemma journal_of_posts:
  assumes i: "credit_inv J s" and p: "(a, oid, rid) \<in> set (sy_posts s)"
  shows "\<exists>x. journal_find oid J = Some x \<and> ro_account_id x = a \<and> ro_redeem_request_id x = rid"
proof -
  have "posts_ok J (sy_posts s)" using i by (simp add: credit_inv_def)
  with p show ?thesis by (auto simp: posts_ok_def recorded_def)
qed

lemma operation_row_of:
  assumes "stores db J" and "journal_find oid J = Some x"
  shows "operation_in_transaction oid db = Inr (Some x, db)"
  using assms by (simp add: read_operation)

text \<open>The operations of the steps that follow.\<close>

inductive credit_steps :: "credit_env \<Rightarrow> credit_system \<Rightarrow> credit_system \<Rightarrow> bool" for env where
  Same: "credit_steps env s s"
| Later: "credit_steps env s s' \<Longrightarrow> credit_step env s' s'' \<Longrightarrow> credit_steps env s s''"

lemma credit_steps_inv: "credit_steps env s s' \<Longrightarrow> credit_inv J s \<Longrightarrow> \<exists>J'. credit_inv J' s' \<and> journal_le J J'"
proof (induction rule: credit_steps.induct)
  case Same
  then show ?case by (auto intro: exI [of _ J])
next
  case (Later s s' s'')
  then show ?case using credit_step_inv journal_le_trans by metis
qed

section \<open>Properties\<close>


text \<open>
  C9: an answer is final. When a call reported a redemption as successful, the operation is recorded
  as completed, and stays so, with its account and redeem id, in every later state: no crash, replay
  or failure of another call, in this or any other process, turns it into anything else.
\<close>

theorem success_is_recorded_for_good:
  assumes "credit_reachable env s" and "(a, oid, Inr res) \<in> set (sy_answers s)" and "credit_steps env s s'"
  shows "\<exists>x y. operation_in_transaction oid (sy_db s) = Inr (Some x, sy_db s)
    \<and> operation_in_transaction oid (sy_db s') = Inr (Some y, sy_db s')
    \<and> ro_account_id x = a \<and> ro_status x = OpCompleted
    \<and> ro_account_id y = a \<and> ro_status y = OpCompleted \<and> ro_redeem_request_id y = ro_redeem_request_id x"
proof -
  obtain J where i: "credit_inv J s" using credit_reachable_inv [OF assms(1)] by blast
  obtain J' where i': "credit_inv J' s'" "journal_le J J'" using credit_steps_inv [OF assms(3) i] by blast
  have "completed J a oid" using i assms(2) unfolding credit_inv_def by blast
  then obtain x where x: "journal_find oid J = Some x" "ro_account_id x = a" "ro_status x = OpCompleted"
    by (auto simp: completed_def recorded_def)
  from i'(2) x(1) obtain y where y: "journal_find oid J' = Some y" "same_operation x y" unfolding journal_le_def by blast
  have "stores (sy_db s) J" "stores (sy_db s') J'" using i i'(1) by (simp_all add: credit_inv_def)
  with x y show ?thesis
    using operation_row_of by (auto simp: same_operation_def intro!: exI [of _ x] exI [of _ y])
qed

section \<open>Two redemptions of one account\<close>

definition demo_env :: credit_env where
  "demo_env = \<lparr>ce_seaorm = False, ce_show = (\<lambda>_. []), ce_print = (\<lambda>_. Inr ''{}''),
     ce_parse = (\<lambda>_. Inr committed_result)\<rparr>"

definition demo_store_call :: store_call where
  "demo_store_call = \<lparr>sc_now = 1, sc_locks = [], sc_fault = None\<rparr>"

definition demo_token :: token where
  "demo_token = \<lparr>tok_account_id = ''acc'', tok_id_token = [], tok_access_token = ''at'', tok_refresh_token = ''rt'',
     tok_api_key_access_token = None, tok_last_refresh = 0\<rparr>"

definition demo_snapshot :: reset_credits_snapshot where
  "demo_snapshot = \<lparr>rs_available_count = Some 2, rs_credits = [], rs_next_expires_at = None\<rparr>"

definition demo_start :: credit_system where
  "demo_start = \<lparr>sy_db = empty_db, sy_interrupted = (\<lambda>_. False), sy_posts = [], sy_calls = Map.empty, sy_answers = []\<rparr>"

definition demo_begin :: "string \<Rightarrow> nat list \<Rightarrow> credit_system \<Rightarrow> credit_system" where
  "demo_begin oid bytes s =
     (let (rid, stage, st) = begin_consume demo_env demo_store_call demo_store_call ''acc'' oid
            (random_uuid_v4 bytes) (Inr (Some demo_token)) (enter 0 ''acc'' s)
      in put_call 0 \<lparr>ca_process = 0, ca_account = ''acc'', ca_operation = oid, ca_redeem = rid, ca_stage = stage\<rparr>
           (leave 0 ''acc'' st s))"

definition demo_go :: "credit_event \<Rightarrow> credit_system \<Rightarrow> credit_system" where
  "demo_go ev s =
     (case sy_calls s 0 of
        None \<Rightarrow> s
      | Some call \<Rightarrow>
          (case advance demo_env (ca_account call) (ca_operation call) (ca_redeem call) (ca_stage call) ev
                  (enter (ca_process call) (ca_account call) s) of
             None \<Rightarrow> s
           | Some (stage, st) \<Rightarrow>
               put_call 0 (call\<lparr>ca_stage := stage\<rparr>) (leave (ca_process call) (ca_account call) st s)))"

definition demo_first :: credit_system where
  "demo_first =
     demo_go (FollowUpDone None (Inr demo_snapshot) demo_store_call)
       (demo_go (ReplyArrived (Inr ()) demo_store_call)
         (demo_go (SnapshotArrived (Inr demo_snapshot) demo_token demo_store_call)
           (demo_begin ''00000000-0000-4000-8000-000000000001'' (replicate 16 1) demo_start)))"

definition demo_second :: credit_system where
  "demo_second =
     demo_go (SnapshotArrived (Inr demo_snapshot) demo_token demo_store_call)
       (demo_begin ''00000000-0000-4000-8000-000000000002'' (replicate 16 2) demo_first)"

lemma demo_go_reachable: "credit_reachable demo_env s \<Longrightarrow> credit_reachable demo_env (demo_go ev s)"
  by (auto simp: demo_go_def split: option.split intro: credit_reachable.Step credit_step.Advance)

lemma put_call_other: "t \<noteq> t' \<Longrightarrow> sy_calls (put_call t call s) t' = sy_calls s t'"
  by (simp add: put_call_def split: credit_stage.split)

lemma leave_calls [simp]: "sy_calls (leave pr a st s) = sy_calls s"
  by (simp add: leave_def)

lemma demo_calls_other: "t \<noteq> 0 \<Longrightarrow> sy_calls (demo_go ev s) t = sy_calls s t"
  "t \<noteq> 0 \<Longrightarrow> sy_calls (demo_begin oid bytes s) t = sy_calls s t"
  by (auto simp: demo_go_def demo_begin_def put_call_other split: option.split prod.split)

lemma demo_begin_reachable:
  assumes "credit_reachable demo_env s" and "check_arguments ''acc'' oid = Inr (''acc'', oid)"
    and "\<And>t. sy_calls s t = None" and "random_uuid_v4 bytes \<notin> or_redeem_request_id ` set (rd_operations (sy_db s))"
  shows "credit_reachable demo_env (demo_begin oid bytes s)"
proof -
  obtain rid stage st where b: "begin_consume demo_env demo_store_call demo_store_call ''acc'' oid (random_uuid_v4 bytes)
      (Inr (Some demo_token)) (enter 0 ''acc'' s) = (rid, stage, st)" by (metis prod_cases3)
  have "gate_free 0 ''acc'' s" using assms(3) by (simp add: gate_free_def)
  from credit_step.Begin [OF assms(2,3) this refl assms(4) b] show ?thesis
    using credit_reachable.Step [OF assms(1)] by (simp add: demo_begin_def b)
qed

lemma demo_evaluated:
  "check_arguments ''acc'' ''00000000-0000-4000-8000-000000000001'' = Inr (''acc'', ''00000000-0000-4000-8000-000000000001'')"
  "check_arguments ''acc'' ''00000000-0000-4000-8000-000000000002'' = Inr (''acc'', ''00000000-0000-4000-8000-000000000002'')"
  "sy_calls demo_first 0 = None"
  "sy_answers demo_first = [(''acc'', ''00000000-0000-4000-8000-000000000001'',
     Inr (follow_up_result None (Inr demo_snapshot)))]"
  "random_uuid_v4 (replicate 16 2) = ''02020202-0202-4202-8202-020202020202''"
  "map or_redeem_request_id (rd_operations (sy_db demo_first)) = [''01010101-0101-4101-8101-010101010101'']"
  "sy_posts demo_second = [(''acc'', ''00000000-0000-4000-8000-000000000001'', ''01010101-0101-4101-8101-010101010101''),
     (''acc'', ''00000000-0000-4000-8000-000000000002'', ''02020202-0202-4202-8202-020202020202'')]"
  by code_simp+

lemma demo_first_reachable: "credit_reachable demo_env demo_first"
proof -
  have "credit_reachable demo_env demo_start" unfolding demo_start_def by (rule credit_reachable.Start)
  moreover have "sy_calls demo_start t = None" "rd_operations (sy_db demo_start) = []" for t
    by (simp_all add: demo_start_def empty_db_def)
  ultimately show ?thesis
    unfolding demo_first_def
    by (intro demo_go_reachable demo_begin_reachable) (simp_all add: demo_evaluated(1))
qed

lemma demo_second_reachable: "credit_reachable demo_env demo_second"
proof -
  have idle: "sy_calls demo_first t = None" for t
    using demo_evaluated(3) by (cases "t = 0") (simp_all add: demo_first_def demo_calls_other demo_start_def)
  have "random_uuid_v4 (replicate 16 2) \<notin> or_redeem_request_id ` set (rd_operations (sy_db demo_first))"
  proof -
    have "or_redeem_request_id ` set (rd_operations (sy_db demo_first)) = set [''01010101-0101-4101-8101-010101010101'']"
      unfolding demo_evaluated(6) [symmetric] by simp
    then show ?thesis by (simp add: demo_evaluated(5))
  qed
  from demo_begin_reachable [OF demo_first_reachable demo_evaluated(2) idle this] show ?thesis
    unfolding demo_second_def by (rule demo_go_reachable)
qed


theorem success_is_recorded_for_good_witness:
  "\<exists>x. operation_in_transaction ''00000000-0000-4000-8000-000000000001'' (sy_db demo_first) = Inr (Some x, sy_db demo_first)
     \<and> ro_account_id x = ''acc'' \<and> ro_status x = OpCompleted"
  using success_is_recorded_for_good [OF demo_first_reachable _ credit_steps.Same,
      of "''acc''" "''00000000-0000-4000-8000-000000000001''" "follow_up_result None (Inr demo_snapshot)"]
  by (auto simp: demo_evaluated(4))

end
