(* ===== verification/SpillRecord.thy ===== *)
theory SpillRecord
  imports SseFrames
begin

text \<open>
  The format of a record in the spill files of the request-log queue
  (\<open>core/src/request_log_spill/record.rs\<close>): a header with magic, version, length and checksum, and a
  payload with a block of metadata, the body as sent and the body. A byte is a \<open>char\<close>. The checksum
  of the crate \<open>crc32fast\<close> is a parameter; only that it has 32 bits and that hashing slice by slice
  hashes their concatenation is used. Results: a record is read back as it was written, a record cut
  short is reported as torn, and whatever is read lies inside its payload.
\<close>

section \<open>Integers as bytes\<close>

fun le_bytes :: "nat \<Rightarrow> nat \<Rightarrow> string" where
  "le_bytes 0 n = []"
| "le_bytes (Suc k) n = char_of (n mod 256) # le_bytes k (n div 256)"

fun le_value :: "string \<Rightarrow> nat" where
  "le_value [] = 0"
| "le_value (c # cs) = of_char c + 256 * le_value cs"

definition i64_bytes :: "int \<Rightarrow> string" where
  "i64_bytes x = le_bytes 8 (nat (x mod 2 ^ 64))"

definition as_i64 :: "nat \<Rightarrow> int" where
  "as_i64 n = (if n < 2 ^ 63 then int n else int n - 2 ^ 64)"

lemma length_le_bytes [simp]: "length (le_bytes k n) = k"
  by (induction k arbitrary: n) auto

lemma length_i64_bytes [simp]: "length (i64_bytes x) = 8"
  by (simp add: i64_bytes_def)

lemma le_value_le_bytes: "le_value (le_bytes k n) = n mod 256 ^ k"
  by (induction k arbitrary: n) (simp_all add: mod_mult2_eq)

lemma le_value_bytes [simp]: "n < 256 ^ k \<Longrightarrow> le_value (le_bytes k n) = n"
  by (simp add: le_value_le_bytes)

lemma le_value_less: "le_value cs < 256 ^ length cs"
proof (induction cs)
  case (Cons c cs)
  have "(of_char c :: nat) < 256" by (rule nat_of_char_less_256)
  moreover have "256 * (le_value cs + 1) \<le> 256 * 256 ^ length cs" using Cons by (intro mult_le_mono) simp_all
  ultimately have "of_char c + 256 * le_value cs < 256 * 256 ^ length cs" by (simp only: distrib_left)
  then show ?case by simp
qed simp

lemma as_i64_bytes [simp]: "in_i64 x \<Longrightarrow> as_i64 (le_value (i64_bytes x)) = x"
proof -
  assume x: "in_i64 x"
  have "nat (x mod 2 ^ 64) < 256 ^ 8" by (simp add: nat_less_iff)
  then have v: "le_value (i64_bytes x) = nat (x mod 2 ^ 64)" unfolding i64_bytes_def by (rule le_value_bytes)
  show ?thesis
  proof (cases "0 \<le> x")
    case True
    with x have "x mod 2 ^ 64 = x" "x < 2 ^ 63" by (auto simp: in_i64_def i64_max_def)
    then show ?thesis using True unfolding v as_i64_def by (simp add: nat_less_iff)
  next
    case False
    have "(x + 2 ^ 64) mod 2 ^ 64 = x + 2 ^ 64"
      using x False by (intro mod_pos_pos_trivial) (auto simp: in_i64_def i64_min_def)
    then have "x mod 2 ^ 64 = x + 2 ^ 64" by simp
    moreover have "\<not> x + 2 ^ 64 < 2 ^ 63" using x by (simp add: in_i64_def i64_min_def)
    moreover have "0 \<le> x + 2 ^ 64" using x by (simp add: in_i64_def i64_min_def)
    ultimately show ?thesis unfolding v as_i64_def by (simp add: nat_less_iff)
  qed
qed

section \<open>Records\<close>

definition record_magic :: string where "record_magic = ''CMRL''"
definition record_version :: nat where "record_version = 1"
definition record_header_len :: nat where "record_header_len = 13"
definition max_record_payload_bytes :: nat where "max_record_payload_bytes = u32_max"

unbundle bit_operations_syntax

definition flag_redact :: "8 word" where "flag_redact = 1"
definition flag_preview :: "8 word" where "flag_preview = push_bit 1 1"
definition flag_generation :: "8 word" where "flag_generation = push_bit 2 1"
definition flag_conversation :: "8 word" where "flag_conversation = push_bit 3 1"
definition flag_attempt :: "8 word" where "flag_attempt = push_bit 4 1"
definition flag_content_encoding :: "8 word" where "flag_content_encoding = push_bit 5 1"
definition flag_wire_separate :: "8 word" where "flag_wire_separate = push_bit 6 1"
definition flag_original_digests :: "8 word" where "flag_original_digests = push_bit 7 1"

lemmas flag_defs = flag_redact_def flag_preview_def flag_generation_def flag_conversation_def
  flag_attempt_def flag_content_encoding_def flag_wire_separate_def flag_original_digests_def

record spill_attempt_meta =
  sa_method :: string
  sa_url :: string
  sa_transport :: string
  sa_content_encoding :: "string option"

record spill_original_digests =
  sd_body_sha256 :: string
  sd_body_len :: nat
  sd_wire_sha256 :: "string option"

record spill_record_meta =
  sm_trace_id :: string
  sm_stage :: string
  sm_generation :: "int option"
  sm_clear_epoch :: nat
  sm_boot_id :: nat
  sm_redact :: bool
  sm_preview :: bool
  sm_conversation_key :: "string option"
  sm_attempt :: "spill_attempt_meta option"
  sm_created_at :: int
  sm_original :: "spill_original_digests option"

record spill_record =
  sr_meta :: spill_record_meta
  sr_body :: string
  sr_wire_body :: "string option"

definition wire_to_write :: "spill_record \<Rightarrow> string option" where
  "wire_to_write rec =
     (if sm_attempt (sr_meta rec) \<noteq> None \<and> sm_original (sr_meta rec) = None then sr_wire_body rec else None)"

text \<open>A value of these types in the program: its strings are UTF-8, its integers fit their width.\<close>

definition utf8_ok :: "string \<Rightarrow> bool" where
  "utf8_ok s \<longleftrightarrow> from_utf8 s = Some s"

definition u64_ok :: "nat \<Rightarrow> bool" where
  "u64_ok n \<longleftrightarrow> n \<le> u64_max"

definition attempt_meta_ok :: "spill_attempt_meta \<Rightarrow> bool" where
  "attempt_meta_ok a \<longleftrightarrow> utf8_ok (sa_method a) \<and> utf8_ok (sa_url a) \<and> utf8_ok (sa_transport a)
     \<and> pred_option utf8_ok (sa_content_encoding a)"

definition digests_ok :: "spill_original_digests \<Rightarrow> bool" where
  "digests_ok d \<longleftrightarrow> utf8_ok (sd_body_sha256 d) \<and> u64_ok (sd_body_len d) \<and> pred_option utf8_ok (sd_wire_sha256 d)"

definition meta_ok :: "spill_record_meta \<Rightarrow> bool" where
  "meta_ok m \<longleftrightarrow> utf8_ok (sm_trace_id m) \<and> utf8_ok (sm_stage m) \<and> pred_option in_i64 (sm_generation m)
     \<and> u64_ok (sm_clear_epoch m) \<and> u64_ok (sm_boot_id m) \<and> pred_option utf8_ok (sm_conversation_key m)
     \<and> pred_option attempt_meta_ok (sm_attempt m) \<and> in_i64 (sm_created_at m) \<and> pred_option digests_ok (sm_original m)"

section \<open>Encoding\<close>

record encoded_frame =
  ef_header :: string
  ef_meta :: string
  ef_frame_len :: nat

datatype record_encode_error = TooLarge

definition put_str :: "string \<Rightarrow> string" where
  "put_str value = le_bytes 4 (length value) @ value"

definition record_flags :: "spill_record \<Rightarrow> 8 word" where
  "record_flags rec =
     (let meta = sr_meta rec;
          flags = (if sm_redact meta then flag_redact else 0);
          flags = (if sm_preview meta then flags OR flag_preview else flags);
          flags = (if sm_generation meta \<noteq> None then flags OR flag_generation else flags);
          flags = (if sm_conversation_key meta \<noteq> None then flags OR flag_conversation else flags);
          flags = (case sm_attempt meta of None \<Rightarrow> flags
                   | Some attempt \<Rightarrow>
                       let flags = flags OR flag_attempt;
                           flags = (if sa_content_encoding attempt \<noteq> None then flags OR flag_content_encoding else flags)
                       in if wire_to_write rec \<noteq> None then flags OR flag_wire_separate else flags)
      in if sm_original meta \<noteq> None then flags OR flag_original_digests else flags)"

definition put_option :: "('a \<Rightarrow> string) \<Rightarrow> 'a option \<Rightarrow> string" where
  "put_option put x = (case x of None \<Rightarrow> [] | Some y \<Rightarrow> put y)"

definition put_attempt :: "spill_attempt_meta \<Rightarrow> string" where
  "put_attempt attempt = put_str (sa_method attempt) @ put_str (sa_url attempt) @ put_str (sa_transport attempt)
     @ put_option put_str (sa_content_encoding attempt)"

definition put_digests :: "spill_original_digests \<Rightarrow> string" where
  "put_digests original = put_str (sd_body_sha256 original) @ le_bytes 8 (sd_body_len original)
     @ (case sd_wire_sha256 original of Some wire_sha256 \<Rightarrow> le_bytes 1 1 @ put_str wire_sha256 | None \<Rightarrow> le_bytes 1 0)"

definition encode_meta :: "spill_record \<Rightarrow> string" where
  "encode_meta rec =
     (let meta = sr_meta rec
      in le_bytes 1 (unat (record_flags rec))
         @ i64_bytes (case sm_generation meta of None \<Rightarrow> 0 | Some generation \<Rightarrow> generation)
         @ le_bytes 8 (sm_clear_epoch meta) @ le_bytes 8 (sm_boot_id meta) @ i64_bytes (sm_created_at meta)
         @ put_str (sm_trace_id meta) @ put_str (sm_stage meta)
         @ put_option put_str (sm_conversation_key meta)
         @ put_option put_attempt (sm_attempt meta)
         @ put_option put_digests (sm_original meta)
         @ put_option (\<lambda>wire. le_bytes 8 (length wire)) (wire_to_write rec)
         @ le_bytes 8 (length (sr_body rec)))"

definition wire_bytes :: "spill_record \<Rightarrow> string" where
  "wire_bytes rec = put_option (\<lambda>wire. wire) (wire_to_write rec)"

definition encode_frame :: "(string \<Rightarrow> 32 word) \<Rightarrow> spill_record \<Rightarrow> record_encode_error + encoded_frame" where
  "encode_frame crc32 rec =
     (let out = encode_meta rec;
          payload_len = length out + length (wire_bytes rec) + length (sr_body rec)
      in if payload_len > max_record_payload_bytes then Inl TooLarge
         else Inr \<lparr>ef_header = record_magic @ le_bytes 1 record_version @ le_bytes 4 payload_len
                     @ le_bytes 4 (unat (crc32 (out @ wire_bytes rec @ sr_body rec))),
                   ef_meta = out, ef_frame_len = record_header_len + payload_len\<rparr>)"

text \<open>The bytes written, and their number; the writer's own errors end the call.\<close>

definition write_record :: "(string \<Rightarrow> 32 word) \<Rightarrow> spill_record \<Rightarrow> record_encode_error + string \<times> nat" where
  "write_record crc32 rec =
     (case encode_frame crc32 rec of Inl e \<Rightarrow> Inl e
      | Inr frame \<Rightarrow> Inr (ef_header frame @ ef_meta frame @ wire_bytes rec @ sr_body rec, ef_frame_len frame))"

section \<open>Decoding\<close>

text \<open>A cursor over the payload: a step either fails or yields a value and the next position.\<close>

type_synonym 'a decoder = "string \<Rightarrow> nat \<Rightarrow> string + 'a \<times> nat"

definition dec_return :: "'a \<Rightarrow> 'a decoder" where
  "dec_return x data pos = Inr (x, pos)"

definition dec_fail :: "string \<Rightarrow> 'a decoder" where
  "dec_fail e data pos = Inl e"

definition dec_bind :: "'a decoder \<Rightarrow> ('a \<Rightarrow> 'b decoder) \<Rightarrow> 'b decoder" where
  "dec_bind d f data pos = (case d data pos of Inl e \<Rightarrow> Inl e | Inr (x, pos') \<Rightarrow> f x data pos')"

definition cur_pos :: "nat decoder" where
  "cur_pos data pos = Inr (pos, pos)"

definition cur_take :: "nat \<Rightarrow> string decoder" where
  "cur_take len data pos =
     (let last = pos + len
      in if last > u64_max then Inl ''length overflow''
         else if last > length data then Inl ''meta truncated''
         else Inr (take len (drop pos data), last))"

definition cur_u8 :: "nat decoder" where
  "cur_u8 = dec_bind (cur_take 1) (\<lambda>bytes. dec_return (le_value bytes))"

definition cur_u64 :: "nat decoder" where
  "cur_u64 = dec_bind (cur_take 8) (\<lambda>bytes. dec_return (le_value bytes))"

definition cur_i64 :: "int decoder" where
  "cur_i64 = dec_bind cur_u64 (\<lambda>n. dec_return (as_i64 n))"

definition cur_string :: "string decoder" where
  "cur_string =
     dec_bind (cur_take 4) (\<lambda>len.
     dec_bind (cur_take (le_value len)) (\<lambda>bytes.
     case from_utf8 bytes of None \<Rightarrow> dec_fail ''meta string not utf-8'' | Some s \<Rightarrow> dec_return s))"

definition cur_option :: "bool \<Rightarrow> 'a decoder \<Rightarrow> 'a option decoder" where
  "cur_option present d = (if present then dec_bind d (\<lambda>x. dec_return (Some x)) else dec_return None)"

definition cur_attempt :: "bool \<Rightarrow> spill_attempt_meta decoder" where
  "cur_attempt content_encoding =
     dec_bind cur_string (\<lambda>method.
     dec_bind cur_string (\<lambda>url.
     dec_bind cur_string (\<lambda>transport.
     dec_bind (cur_option content_encoding cur_string) (\<lambda>encoding.
     dec_return \<lparr>sa_method = method, sa_url = url, sa_transport = transport, sa_content_encoding = encoding\<rparr>))))"

definition cur_digests :: "spill_original_digests decoder" where
  "cur_digests =
     dec_bind cur_string (\<lambda>body_sha256.
     dec_bind cur_u64 (\<lambda>body_len.
     dec_bind cur_u8 (\<lambda>flag.
     dec_bind (if flag = 0 then dec_return None
               else if flag = 1 then dec_bind cur_string (\<lambda>s. dec_return (Some s))
               else dec_fail ''bad wire digest flag'') (\<lambda>wire_sha256.
     dec_return \<lparr>sd_body_sha256 = body_sha256, sd_body_len = body_len, sd_wire_sha256 = wire_sha256\<rparr>))))"

text \<open>The flags, and everything up to and including the length of the body.\<close>

definition has_flag :: "nat \<Rightarrow> 8 word \<Rightarrow> bool" where
  "has_flag flags flag \<longleftrightarrow> word_of_nat flags AND flag \<noteq> 0"

definition decode_meta :: "(spill_record_meta \<times> nat option \<times> nat) decoder" where
  "decode_meta =
     dec_bind cur_u8 (\<lambda>flags.
     dec_bind cur_i64 (\<lambda>generation.
     dec_bind cur_u64 (\<lambda>clear_epoch.
     dec_bind cur_u64 (\<lambda>boot_id.
     dec_bind cur_i64 (\<lambda>created_at.
     dec_bind cur_string (\<lambda>trace_id.
     dec_bind cur_string (\<lambda>stage.
     dec_bind (cur_option (has_flag flags flag_conversation) cur_string) (\<lambda>conversation_key.
     dec_bind (cur_option (has_flag flags flag_attempt) (cur_attempt (has_flag flags flag_content_encoding))) (\<lambda>attempt.
     dec_bind (cur_option (has_flag flags flag_original_digests) cur_digests) (\<lambda>original.
     if original \<noteq> None \<and> has_flag flags flag_wire_separate then dec_fail ''rewritten body with a wire body''
     else
       dec_bind (cur_option (has_flag flags flag_wire_separate) cur_u64) (\<lambda>wire_len.
       dec_bind cur_u64 (\<lambda>body_len.
       dec_return
         (\<lparr>sm_trace_id = trace_id, sm_stage = stage,
           sm_generation = (if has_flag flags flag_generation then Some generation else None),
           sm_clear_epoch = clear_epoch, sm_boot_id = boot_id,
           sm_redact = has_flag flags flag_redact, sm_preview = has_flag flags flag_preview,
           sm_conversation_key = conversation_key, sm_attempt = attempt,
           sm_created_at = created_at, sm_original = original\<rparr>, wire_len, body_len)))))))))))))"

text \<open>A range is its start and its end.\<close>

record decoded_record =
  dr_meta :: spill_record_meta
  dr_payload :: string
  dr_body_range :: "nat \<times> nat"
  dr_wire_range :: "(nat \<times> nat) option"

definition slice :: "string \<Rightarrow> nat \<times> nat \<Rightarrow> string" where
  "slice data r = take (snd r - fst r) (drop (fst r) data)"

definition dr_body :: "decoded_record \<Rightarrow> string" where
  "dr_body d = slice (dr_payload d) (dr_body_range d)"

definition dr_wire_body :: "decoded_record \<Rightarrow> string option" where
  "dr_wire_body d = map_option (slice (dr_payload d)) (dr_wire_range d)"

definition cur_range :: "nat \<Rightarrow> (nat \<times> nat) decoder" where
  "cur_range len = dec_bind cur_pos (\<lambda>start. dec_bind (cur_take len) (\<lambda>_. dec_bind cur_pos (\<lambda>last. dec_return (start, last))))"

definition decode_payload :: "string \<Rightarrow> string + decoded_record" where
  "decode_payload payload =
     (case dec_bind decode_meta (\<lambda>(meta, wire_len, body_len).
           dec_bind (case wire_len of None \<Rightarrow> dec_return None
                     | Some len \<Rightarrow> dec_bind (cur_range len) (\<lambda>r. dec_return (Some r))) (\<lambda>wire_range.
           dec_bind (cur_range body_len) (\<lambda>body_range.
           dec_return \<lparr>dr_meta = meta, dr_payload = payload, dr_body_range = body_range, dr_wire_range = wire_range\<rparr>)))
         payload 0 of
        Inl e \<Rightarrow> Inl e
      | Inr (decoded, pos) \<Rightarrow> if pos \<noteq> length payload then Inl ''trailing bytes'' else Inr decoded)"

section \<open>Reading\<close>

text \<open>
  A reader yields bytes and then reports the end or an error. \<open>read_full\<close> returns what it read and
  the reader after it (an interrupted call is repeated and not visible).
\<close>

record 'e reader =
  rd_bytes :: string
  rd_error :: "'e option"

definition read_full :: "'e reader \<Rightarrow> nat \<Rightarrow> 'e + string \<times> 'e reader" where
  "read_full reader n =
     (if n \<le> length (rd_bytes reader)
      then Inr (take n (rd_bytes reader), reader\<lparr>rd_bytes := drop n (rd_bytes reader)\<rparr>)
      else case rd_error reader of Some e \<Rightarrow> Inl e
           | None \<Rightarrow> Inr (rd_bytes reader, reader\<lparr>rd_bytes := []\<rparr>))"

datatype read_outcome =
    Record decoded_record nat
  | End
  | Torn
  | Corrupt string

definition check_payload :: "(string \<Rightarrow> 32 word) \<Rightarrow> nat \<Rightarrow> string \<Rightarrow> read_outcome" where
  "check_payload crc32 crc payload =
     (if unat (crc32 payload) \<noteq> crc then Corrupt ''crc''
      else case decode_payload payload of
             Inl reason \<Rightarrow> Corrupt reason
           | Inr decoded \<Rightarrow> Record decoded (record_header_len + length payload))"

definition read_payload :: "(string \<Rightarrow> 32 word) \<Rightarrow> string \<Rightarrow> nat \<Rightarrow> 'e reader \<Rightarrow> 'e + read_outcome \<times> 'e reader" where
  "read_payload crc32 header available reader =
     (if take 4 header \<noteq> record_magic then Inr (Corrupt ''magic'', reader)
      else if of_char (header ! 4) \<noteq> record_version then Inr (Corrupt ''version'', reader)
      else
        let payload_len = le_value (take 4 (drop 5 header));
            crc = le_value (take 4 (drop 9 header))
        in if payload_len > available - record_header_len then Inr (Torn, reader)
           else case read_full reader payload_len of
                  Inl e \<Rightarrow> Inl e
                | Inr (payload, reader') \<Rightarrow>
                    if length payload < payload_len then Inr (Torn, reader')
                    else Inr (check_payload crc32 crc payload, reader'))"

definition read_record :: "(string \<Rightarrow> 32 word) \<Rightarrow> 'e reader \<Rightarrow> nat \<Rightarrow> 'e + read_outcome \<times> 'e reader" where
  "read_record crc32 reader available =
     (if available = 0 then Inr (End, reader)
      else if available < record_header_len then Inr (Torn, reader)
      else case read_full reader record_header_len of
             Inl e \<Rightarrow> Inl e
           | Inr (header, reader') \<Rightarrow>
               if header = [] then Inr (End, reader')
               else if length header < record_header_len then Inr (Torn, reader')
               else read_payload crc32 header available reader')"

section \<open>A decoder reads what was encoded\<close>

text \<open>
  \<open>decodes d bytes x\<close>: wherever the bytes stand in a payload, \<open>d\<close> consumes exactly them and yields
  \<open>x\<close>. The relation is built up along the decoders.
\<close>

definition decodes :: "'a decoder \<Rightarrow> string \<Rightarrow> 'a \<Rightarrow> bool" where
  "decodes d bytes x \<longleftrightarrow>
     (\<forall>data pos rest. pos \<le> length data \<longrightarrow> drop pos data = bytes @ rest \<longrightarrow> length data \<le> u64_max \<longrightarrow>
        d data pos = Inr (x, pos + length bytes))"

named_theorems decoding \<open>what the decoders read\<close>

lemma decodes_return [decoding]: "decodes (dec_return x) [] x"
  by (simp add: decodes_def dec_return_def)

lemma decodes_bind:
  assumes "decodes d bytes x" and "decodes (f x) bytes' y"
  shows "decodes (dec_bind d f) (bytes @ bytes') y"
  unfolding decodes_def
proof (intro allI impI)
  fix data pos rest
  assume p: "pos \<le> length data" and d: "drop pos data = (bytes @ bytes') @ rest" and l: "length data \<le> u64_max"
  have "d data pos = Inr (x, pos + length bytes)"
    using assms(1) p d l unfolding decodes_def by (metis append.assoc)
  moreover have "f x data (pos + length bytes) = Inr (y, pos + length bytes + length bytes')"
  proof -
    have "drop (pos + length bytes) data = bytes' @ rest"
      using arg_cong [OF d, of "drop (length bytes)"] by (simp add: add.commute)
    moreover have "pos + length bytes \<le> length data"
      using arg_cong [OF d, of length] p by simp
    ultimately show ?thesis using assms(2) l unfolding decodes_def by blast
  qed
  ultimately show "dec_bind d f data pos = Inr (y, pos + length (bytes @ bytes'))"
    by (simp add: dec_bind_def add.assoc)
qed

lemma decodes_take: "length bytes = n \<Longrightarrow> decodes (cur_take n) bytes bytes"
  unfolding decodes_def
proof (intro allI impI)
  fix data pos rest
  assume n: "length bytes = n" and p: "pos \<le> length data" and d: "drop pos data = bytes @ rest"
    and l: "length data \<le> u64_max"
  have "pos + n \<le> length data" using arg_cong [OF d, of length] p n by simp
  with n l d show "cur_take n data pos = Inr (bytes, pos + length bytes)"
    by (simp add: cur_take_def Let_def)
qed

lemma decodes_map: "decodes d bytes x \<Longrightarrow> y = f x \<Longrightarrow> decodes (dec_bind d (\<lambda>x. dec_return (f x))) bytes y"
  using decodes_bind [OF _ decodes_return, of d bytes x f] by simp

lemma decodes_u8 [decoding]: "n < 256 \<Longrightarrow> decodes cur_u8 (le_bytes 1 n) n"
  unfolding cur_u8_def by (rule decodes_map [OF decodes_take]) simp_all

lemma decodes_u64 [decoding]: "u64_ok n \<Longrightarrow> decodes cur_u64 (le_bytes 8 n) n"
proof -
  assume "u64_ok n"
  then have "n < 256 ^ 8" by (simp add: u64_ok_def u64_max_def)
  then show ?thesis unfolding cur_u64_def by (intro decodes_map [OF decodes_take]) simp_all
qed

lemma decodes_i64 [decoding]: "in_i64 x \<Longrightarrow> decodes cur_i64 (i64_bytes x) x"
proof -
  assume x: "in_i64 x"
  have "decodes cur_u64 (i64_bytes x) (le_value (i64_bytes x))"
    unfolding cur_u64_def by (rule decodes_map [OF decodes_take]) simp_all
  from decodes_map [OF this, of x as_i64] show ?thesis using x by (simp add: cur_i64_def)
qed

lemma decodes_string [decoding]:
  assumes "utf8_ok s" and "length s \<le> u32_max"
  shows "decodes cur_string (put_str s) s"
proof -
  have "length s < 256 ^ 4" using assms(2) by (simp add: u32_max_def)
  then have "le_value (le_bytes 4 (length s)) = length s" by (rule le_value_bytes)
  then show ?thesis
    using assms(1) unfolding cur_string_def put_str_def
    by (intro decodes_bind [OF decodes_take] decodes_bind [OF decodes_take, of s _ _ "[]" s, simplified])
      (simp_all add: utf8_ok_def decodes_return)
qed

lemma decodes_option:
  assumes "p \<longleftrightarrow> x \<noteq> None" and "\<And>y. x = Some y \<Longrightarrow> decodes d (put y) y"
  shows "decodes (cur_option p d) (put_option put x) x"
  using assms by (cases x) (auto simp: cur_option_def put_option_def decodes_return intro: decodes_map)

lemma decodes_attempt:
  assumes "attempt_meta_ok a" and "length (put_attempt a) \<le> u32_max" and "c \<longleftrightarrow> sa_content_encoding a \<noteq> None"
  shows "decodes (cur_attempt c) (put_attempt a) a"
proof -
  have len: "length (sa_method a) \<le> u32_max" "length (sa_url a) \<le> u32_max" "length (sa_transport a) \<le> u32_max"
    "\<And>s. sa_content_encoding a = Some s \<Longrightarrow> length s \<le> u32_max"
    using assms(2) by (auto simp: put_attempt_def put_str_def put_option_def)
  have enc: "decodes (cur_option c cur_string) (put_option put_str (sa_content_encoding a)) (sa_content_encoding a)"
    by (rule decodes_option) (use assms len in \<open>auto simp: attempt_meta_ok_def intro: decodes_string\<close>)
  have str: "decodes cur_string (put_str (sa_method a)) (sa_method a)" "decodes cur_string (put_str (sa_url a)) (sa_url a)"
    "decodes cur_string (put_str (sa_transport a)) (sa_transport a)"
    using assms(1) len(1-3) by (simp_all add: attempt_meta_ok_def decodes_string)
  show ?thesis
    unfolding cur_attempt_def put_attempt_def
    by (intro decodes_bind [OF str(1)] decodes_bind [OF str(2)] decodes_bind [OF str(3)] decodes_map [OF enc]) simp
qed

lemma decodes_digests:
  assumes "digests_ok d" and "length (put_digests d) \<le> u32_max"
  shows "decodes cur_digests (put_digests d) d"
proof -
  have len: "length (sd_body_sha256 d) \<le> u32_max" "\<And>s. sd_wire_sha256 d = Some s \<Longrightarrow> length s \<le> u32_max"
    using assms(2) by (auto simp: put_digests_def put_str_def split: option.splits)
  define f where "f flag = (if flag = 0 then dec_return None
      else if flag = 1 then dec_bind cur_string (\<lambda>s. dec_return (Some s))
      else dec_fail ''bad wire digest flag'')" for flag :: nat
  have "decodes (dec_bind cur_u8 f) (case sd_wire_sha256 d of Some s \<Rightarrow> le_bytes 1 1 @ put_str s | None \<Rightarrow> le_bytes 1 0) (sd_wire_sha256 d)"
  proof (cases "sd_wire_sha256 d")
    case None
    show ?thesis using decodes_bind [OF decodes_u8 [of 0], of f "[]" None] by (simp add: None f_def decodes_return)
  next
    case (Some s)
    have "decodes cur_string (put_str s) s" using Some assms(1) len(2) by (auto simp: digests_ok_def intro: decodes_string)
    then have "decodes (f 1) (put_str s) (Some s)" by (simp add: f_def decodes_map)
    from decodes_bind [where f = f, OF decodes_u8 [of 1] this] show ?thesis by (simp add: Some)
  qed
  note flag = this
  have assoc: "dec_bind (dec_bind p g) h = dec_bind p (\<lambda>x. dec_bind (g x) h)" for p :: "'x decoder" and g :: "'x \<Rightarrow> 'y decoder" and h :: "'y \<Rightarrow> 'z decoder"
    by (rule ext)+ (simp add: dec_bind_def split: sum.split)
  have str: "decodes cur_string (put_str (sd_body_sha256 d)) (sd_body_sha256 d)"
    and u64: "decodes cur_u64 (le_bytes 8 (sd_body_len d)) (sd_body_len d)"
    using assms(1) len(1) by (simp_all add: digests_ok_def decodes_string decodes_u64)
  show ?thesis
    unfolding cur_digests_def put_digests_def f_def [symmetric] assoc [symmetric]
    by (intro decodes_bind [OF str] decodes_bind [OF u64] decodes_map [OF flag]) simp
qed

lemma has_flag_unat: "has_flag (unat w) flag \<longleftrightarrow> w AND flag \<noteq> 0"
  by (simp add: has_flag_def)

lemma flag_bits:
  "w AND flag_redact \<noteq> 0 \<longleftrightarrow> bit w 0" "w AND flag_preview \<noteq> 0 \<longleftrightarrow> bit w 1"
  "w AND flag_generation \<noteq> 0 \<longleftrightarrow> bit w 2" "w AND flag_conversation \<noteq> 0 \<longleftrightarrow> bit w 3"
  "w AND flag_attempt \<noteq> 0 \<longleftrightarrow> bit w 4" "w AND flag_content_encoding \<noteq> 0 \<longleftrightarrow> bit w 5"
  "w AND flag_wire_separate \<noteq> 0 \<longleftrightarrow> bit w 6" "w AND flag_original_digests \<noteq> 0 \<longleftrightarrow> bit w 7"
  using and_exp_eq_0_iff_not_bit [of w 0] and_exp_eq_0_iff_not_bit [of w 1] and_exp_eq_0_iff_not_bit [of w 2]
    and_exp_eq_0_iff_not_bit [of w 3] and_exp_eq_0_iff_not_bit [of w 4] and_exp_eq_0_iff_not_bit [of w 5]
    and_exp_eq_0_iff_not_bit [of w 6] and_exp_eq_0_iff_not_bit [of w 7]
  by (simp_all add: flag_defs push_bit_eq_mult)

lemma flag_bit_values:
  "bit flag_redact n \<longleftrightarrow> n = 0" "bit flag_preview n \<longleftrightarrow> n = 1" "bit flag_generation n \<longleftrightarrow> n = 2"
  "bit flag_conversation n \<longleftrightarrow> n = 3" "bit flag_attempt n \<longleftrightarrow> n = 4" "bit flag_content_encoding n \<longleftrightarrow> n = 5"
  "bit flag_wire_separate n \<longleftrightarrow> n = 6" "bit flag_original_digests n \<longleftrightarrow> n = 7"
  by (simp_all only: flag_defs bit_push_bit_iff bit_1_iff) auto

lemma record_flags:
  fixes rec :: spill_record
  defines "m \<equiv> sr_meta rec" and "flags \<equiv> unat (record_flags rec)"
  shows "has_flag flags flag_redact \<longleftrightarrow> sm_redact m"
    and "has_flag flags flag_preview \<longleftrightarrow> sm_preview m"
    and "has_flag flags flag_generation \<longleftrightarrow> sm_generation m \<noteq> None"
    and "has_flag flags flag_conversation \<longleftrightarrow> sm_conversation_key m \<noteq> None"
    and "has_flag flags flag_attempt \<longleftrightarrow> sm_attempt m \<noteq> None"
    and "sm_attempt m = Some a \<Longrightarrow> has_flag flags flag_content_encoding \<longleftrightarrow> sa_content_encoding a \<noteq> None"
    and "has_flag flags flag_wire_separate \<longleftrightarrow> wire_to_write rec \<noteq> None"
    and "has_flag flags flag_original_digests \<longleftrightarrow> sm_original m \<noteq> None"
  unfolding flags_def has_flag_unat flag_bits record_flags_def m_def Let_def
  by (auto simp: bit_or_iff flag_bit_values wire_to_write_def split: option.split)

lemma put_option_length: "length (put_option put x) = (case x of None \<Rightarrow> 0 | Some y \<Rightarrow> length (put y))"
  by (simp add: put_option_def split: option.split)

lemma encode_meta_lengths:
  assumes "length (encode_meta rec) + length (wire_bytes rec) + length (sr_body rec) \<le> u32_max"
  shows "length (sm_trace_id (sr_meta rec)) \<le> u32_max" "length (sm_stage (sr_meta rec)) \<le> u32_max"
    "sm_conversation_key (sr_meta rec) = Some key \<Longrightarrow> length key \<le> u32_max"
    "sm_attempt (sr_meta rec) = Some attempt \<Longrightarrow> length (put_attempt attempt) \<le> u32_max"
    "sm_original (sr_meta rec) = Some original \<Longrightarrow> length (put_digests original) \<le> u32_max"
    "wire_to_write rec = Some wire \<Longrightarrow> length wire \<le> u32_max" "length (sr_body rec) \<le> u32_max"
  using assms by (auto simp: encode_meta_def Let_def put_str_def put_option_length wire_bytes_def split: option.splits)

lemma decodes_meta:
  assumes ok: "meta_ok (sr_meta rec)"
    and len: "length (encode_meta rec) + length (wire_bytes rec) + length (sr_body rec) \<le> u32_max"
  shows "decodes decode_meta (encode_meta rec) (sr_meta rec, map_option length (wire_to_write rec), length (sr_body rec))"
proof -
  note l = encode_meta_lengths [OF len] and f = record_flags [of rec]
  have small: "u64_ok n" if "n \<le> u32_max" for n using that by (simp add: u64_ok_def u32_max_def u64_max_def)
  have u8: "decodes cur_u8 (le_bytes 1 (unat (record_flags rec))) (unat (record_flags rec))"
    using unsigned_less [of "record_flags rec"] by (intro decodes_u8) simp
  define generation where "generation = (case sm_generation (sr_meta rec) of None \<Rightarrow> 0 | Some g \<Rightarrow> g)"
  have ints: "decodes cur_i64 (i64_bytes generation) generation"
    "decodes cur_u64 (le_bytes 8 (sm_clear_epoch (sr_meta rec))) (sm_clear_epoch (sr_meta rec))"
    "decodes cur_u64 (le_bytes 8 (sm_boot_id (sr_meta rec))) (sm_boot_id (sr_meta rec))"
    "decodes cur_i64 (i64_bytes (sm_created_at (sr_meta rec))) (sm_created_at (sr_meta rec))"
    "decodes cur_u64 (le_bytes 8 (length (sr_body rec))) (length (sr_body rec))"
    using ok small [OF l(7)]
    by (auto simp: meta_ok_def generation_def in_i64_def i64_min_def i64_max_def split: option.splits
        intro!: decodes_i64 decodes_u64)
  have strs: "decodes cur_string (put_str (sm_trace_id (sr_meta rec))) (sm_trace_id (sr_meta rec))"
    "decodes cur_string (put_str (sm_stage (sr_meta rec))) (sm_stage (sr_meta rec))"
    using ok l(1,2) by (auto simp: meta_ok_def intro!: decodes_string)
  have key: "decodes (cur_option (has_flag (unat (record_flags rec)) flag_conversation) cur_string)
      (put_option put_str (sm_conversation_key (sr_meta rec))) (sm_conversation_key (sr_meta rec))"
    by (rule decodes_option) (use ok l(3) f(4) in \<open>auto simp: meta_ok_def intro!: decodes_string\<close>)
  have attempt: "decodes (cur_option (has_flag (unat (record_flags rec)) flag_attempt)
        (cur_attempt (has_flag (unat (record_flags rec)) flag_content_encoding)))
      (put_option put_attempt (sm_attempt (sr_meta rec))) (sm_attempt (sr_meta rec))"
    by (rule decodes_option) (use ok l(4) f(5,6) in \<open>auto simp: meta_ok_def intro!: decodes_attempt\<close>)
  have original: "decodes (cur_option (has_flag (unat (record_flags rec)) flag_original_digests) cur_digests)
      (put_option put_digests (sm_original (sr_meta rec))) (sm_original (sr_meta rec))"
    by (rule decodes_option) (use ok l(5) f(8) in \<open>auto simp: meta_ok_def intro!: decodes_digests\<close>)
  have wire: "decodes (cur_option (has_flag (unat (record_flags rec)) flag_wire_separate) cur_u64)
      (put_option (le_bytes 8) (map_option length (wire_to_write rec))) (map_option length (wire_to_write rec))"
    by (rule decodes_option) (use l(6) f(7) in \<open>auto intro!: decodes_u64 small\<close>)
  have wire': "put_option (le_bytes 8) (map_option length x) = put_option (\<lambda>wire. le_bytes 8 (length wire)) x" for x :: "string option"
    by (simp add: put_option_def split: option.split)
  have tail: "decodes (dec_bind (cur_option (has_flag (unat (record_flags rec)) flag_wire_separate) cur_u64)
        (\<lambda>wire_len. dec_bind cur_u64 (\<lambda>body_len. dec_return (m, wire_len, body_len))))
      (put_option (\<lambda>wire. le_bytes 8 (length wire)) (wire_to_write rec) @ le_bytes 8 (length (sr_body rec)))
      (sr_meta rec, map_option length (wire_to_write rec), length (sr_body rec))"
    if "m = sr_meta rec" for m
    by (rule decodes_bind [OF wire [unfolded wire']], rule decodes_map [OF ints(5)]) (simp add: that)
  have sep: "\<not> (sm_original (sr_meta rec) \<noteq> None \<and> has_flag (unat (record_flags rec)) flag_wire_separate)"
    using f(7) by (auto simp: wire_to_write_def)
  show ?thesis
    unfolding decode_meta_def encode_meta_def Let_def generation_def [symmetric]
    by (intro decodes_bind [OF u8] decodes_bind [OF ints(1)] decodes_bind [OF ints(2)] decodes_bind [OF ints(3)]
        decodes_bind [OF ints(4)] decodes_bind [OF strs(1)] decodes_bind [OF strs(2)] decodes_bind [OF key]
        decodes_bind [OF attempt] decodes_bind [OF original])
      (simp only: sep if_False, rule tail, simp add: f generation_def split: option.split)
qed

section \<open>A written record is read back\<close>

lemma cur_range_inside:
  "pos + len \<le> length data \<Longrightarrow> length data \<le> u64_max \<Longrightarrow> cur_range len data pos = Inr ((pos, pos + len), pos + len)"
  by (simp add: cur_range_def dec_bind_def cur_pos_def cur_take_def dec_return_def Let_def)

lemma decode_payload_encoded:
  assumes ok: "meta_ok (sr_meta rec)"
    and len: "length (encode_meta rec) + length (wire_bytes rec) + length (sr_body rec) \<le> u32_max"
  obtains d where "decode_payload (encode_meta rec @ wire_bytes rec @ sr_body rec) = Inr d"
    and "dr_meta d = sr_meta rec" and "dr_body d = sr_body rec" and "dr_wire_body d = wire_to_write rec"
proof -
  define payload where "payload = encode_meta rec @ wire_bytes rec @ sr_body rec"
  define start where "start = length (encode_meta rec)"
  have small: "length payload \<le> u64_max" using len by (simp add: payload_def u32_max_def u64_max_def)
  have meta: "decode_meta payload 0 = Inr ((sr_meta rec, map_option length (wire_to_write rec), length (sr_body rec)), start)"
    using decodes_meta [OF assms] small unfolding decodes_def payload_def start_def by (metis add_0 drop0 le0)
  define w where "w = length (wire_bytes rec)"
  have inside: "start + w \<le> length payload" "start + w + length (sr_body rec) = length payload"
    by (simp_all add: payload_def start_def w_def)
  define wire where "wire = (case wire_to_write rec of None \<Rightarrow> None | Some _ \<Rightarrow> Some (start, start + w))"
  have range: "(case map_option length (wire_to_write rec) of None \<Rightarrow> dec_return None
      | Some len \<Rightarrow> dec_bind (cur_range len) (\<lambda>r. dec_return (Some r))) payload start = Inr (wire, start + w)"
    using cur_range_inside [OF inside(1) small]
    by (auto simp: wire_def w_def wire_bytes_def put_option_def dec_return_def dec_bind_def split: option.split)
  define d where "d = \<lparr>dr_meta = sr_meta rec, dr_payload = payload,
      dr_body_range = (start + w, start + w + length (sr_body rec)), dr_wire_range = wire\<rparr>"
  have "decode_payload payload = Inr d"
    using cur_range_inside [of "start + w" "length (sr_body rec)" payload] inside(2) small range
    by (simp only: decode_payload_def dec_bind_def meta prod.case sum.case range dec_return_def d_def) simp
  moreover have "dr_body d = sr_body rec"
    by (simp add: dr_body_def d_def slice_def payload_def start_def w_def)
  moreover have "dr_wire_body d = wire_to_write rec"
    by (simp add: dr_wire_body_def d_def wire_def slice_def payload_def start_def w_def wire_bytes_def put_option_def
        split: option.split)
  ultimately show ?thesis using that [of d] by (simp add: payload_def d_def)
qed

text \<open>The frame of a record, and its fields as the reader takes them.\<close>

lemma write_recordE:
  assumes "write_record crc32 rec = Inr (bytes, n)"
  obtains header payload where "bytes = header @ payload" "length header = record_header_len"
    and "n = record_header_len + length payload" "payload = encode_meta rec @ wire_bytes rec @ sr_body rec"
    and "length payload \<le> u32_max"
    and "take 4 header = record_magic" "of_char (header ! 4) = record_version"
    and "le_value (take 4 (drop 5 header)) = length payload" "le_value (take 4 (drop 9 header)) = unat (crc32 payload)"
proof -
  define payload where "payload = encode_meta rec @ wire_bytes rec @ sr_body rec"
  define header where "header = record_magic @ le_bytes 1 record_version @ le_bytes 4 (length payload)
    @ le_bytes 4 (unat (crc32 payload))"
  have small: "length payload \<le> u32_max" and bytes: "bytes = header @ payload" "n = record_header_len + length payload"
    using assms by (auto simp: write_record_def encode_frame_def Let_def payload_def header_def max_record_payload_bytes_def
        add.assoc split: if_splits)
  have fits: "length payload < 256 ^ 4" "unat (crc32 payload) < 256 ^ 4"
    using small unsigned_less [of "crc32 payload"] by (simp_all add: u32_max_def)
  have "length header = record_header_len" "take 4 header = record_magic" "of_char (header ! 4) = record_version"
    by (simp_all add: header_def record_header_len_def record_magic_def record_version_def nth_append)
  moreover have "le_value (take 4 (drop 5 header)) = length payload" "le_value (take 4 (drop 9 header)) = unat (crc32 payload)"
    using fits by (simp_all add: header_def record_magic_def)
  ultimately show ?thesis using that [OF bytes(1) _ bytes(2) payload_def small] by blast
qed

lemma write_record_length: "write_record crc32 rec = Inr (bytes, n) \<Longrightarrow> length bytes = n \<and> record_header_len < n"
proof -
  assume "write_record crc32 rec = Inr (bytes, n)"
  then show ?thesis by (rule write_recordE) (simp add: encode_meta_def Let_def)
qed

lemma read_written:
  assumes "meta_ok (sr_meta rec)" and w: "write_record crc32 rec = Inr (bytes, n)"
    and r: "rd_bytes reader = bytes @ rest" and "n \<le> available"
  obtains d where "read_record crc32 reader available = Inr (Record d n, reader\<lparr>rd_bytes := rest\<rparr>)"
    and "dr_meta d = sr_meta rec" and "dr_body d = sr_body rec" and "dr_wire_body d = wire_to_write rec"
proof -
  from w obtain header payload where f: "bytes = header @ payload" "length header = record_header_len"
      "n = record_header_len + length payload" "payload = encode_meta rec @ wire_bytes rec @ sr_body rec"
      "length payload \<le> u32_max" "take 4 header = record_magic" "of_char (header ! 4) = record_version"
      "le_value (take 4 (drop 5 header)) = length payload" "le_value (take 4 (drop 9 header)) = unat (crc32 payload)"
    by (rule write_recordE)
  have "length (encode_meta rec) + length (wire_bytes rec) + length (sr_body rec) \<le> u32_max" using f(4,5) by simp
  from decode_payload_encoded [OF assms(1) this] obtain d where
    d: "decode_payload payload = Inr d" "dr_meta d = sr_meta rec" "dr_body d = sr_body rec" "dr_wire_body d = wire_to_write rec"
    using f(4) by blast
  have h: "read_full reader record_header_len = Inr (header, reader\<lparr>rd_bytes := payload @ rest\<rparr>)"
    using f(2) by (simp add: read_full_def r f(1))
  have p: "read_full (reader\<lparr>rd_bytes := payload @ rest\<rparr>) (length payload) = Inr (payload, reader\<lparr>rd_bytes := rest\<rparr>)"
    by (simp add: read_full_def)
  have "read_payload crc32 header available (reader\<lparr>rd_bytes := payload @ rest\<rparr>) = Inr (Record d n, reader\<lparr>rd_bytes := rest\<rparr>)"
    using assms(4) p d(1) by (simp add: read_payload_def Let_def f(3,6,7,8,9) check_payload_def)
  then have "read_record crc32 reader available = Inr (Record d n, reader\<lparr>rd_bytes := rest\<rparr>)"
    using assms(4) h f(2) by (auto simp: read_record_def f(3) record_header_len_def)
  from that [OF this d(2-4)] show ?thesis .
qed

text \<open>A frame cut short, by the end of the file or by the limit of what may be read.\<close>

lemma read_cut:
  assumes w: "write_record crc32 rec = Inr (bytes, n)" and k: "k < n"
    and r: "rd_bytes reader = take k bytes @ rest"
    and cut: "available = k \<or> k \<le> available \<and> rest = [] \<and> rd_error reader = None"
  obtains out reader' where "read_record crc32 reader available = Inr (out, reader')" and "out = Torn \<or> out = End \<and> k = 0"
proof -
  from w obtain header payload where f: "bytes = header @ payload" "length header = record_header_len"
      "n = record_header_len + length payload" "payload = encode_meta rec @ wire_bytes rec @ sr_body rec"
      "length payload \<le> u32_max" "take 4 header = record_magic" "of_char (header ! 4) = record_version"
      "le_value (take 4 (drop 5 header)) = length payload" "le_value (take 4 (drop 9 header)) = unat (crc32 payload)"
    by (rule write_recordE)
  show ?thesis
  proof (cases "k < record_header_len")
    case True
    with f(2) have len: "length (take k bytes) = k" by (simp add: f(1))
    show ?thesis
    proof (cases "available < record_header_len")
      case lt: True
      with cut show ?thesis by (intro that [of "if available = 0 then End else Torn" reader]) (auto simp: read_record_def)
    next
      case False
      with cut True have rest: "rest = []" "rd_error reader = None" by auto
      then have "read_full reader record_header_len = Inr (take k bytes, reader\<lparr>rd_bytes := []\<rparr>)"
        using True len by (simp add: read_full_def r)
      with False True len show ?thesis
        by (intro that [of "if k = 0 then End else Torn" "reader\<lparr>rd_bytes := []\<rparr>"]) (auto simp: read_record_def record_header_len_def)
    qed
  next
    case False
    then have k13: "record_header_len \<le> k" by simp
    have bytes: "take k bytes @ rest = header @ take (k - record_header_len) payload @ rest"
      using k13 f(2) by (simp add: f(1))
    have h: "read_full reader record_header_len = Inr (header, reader\<lparr>rd_bytes := take (k - record_header_len) payload @ rest\<rparr>)"
      using f(2) by (simp add: read_full_def r bytes)
    have short: "k - record_header_len < length payload" using k k13 by (simp add: f(3))
    have "\<exists>reader'. read_payload crc32 header available (reader\<lparr>rd_bytes := take (k - record_header_len) payload @ rest\<rparr>) = Inr (Torn, reader')"
      using cut short by (auto simp: read_payload_def f(6-9) read_full_def Let_def)
    then obtain reader' where "read_payload crc32 header available (reader\<lparr>rd_bytes := take (k - record_header_len) payload @ rest\<rparr>) = Inr (Torn, reader')" ..
    with h f(2) k13 cut show ?thesis by (intro that [of Torn reader']) (auto simp: read_record_def record_header_len_def)
  qed
qed

text \<open>Whatever is read as a record lies within the limit, and is consumed.\<close>

lemma read_fullE:
  assumes "read_full reader n = Inr (bytes, reader')"
  obtains "length bytes \<le> n" "rd_bytes reader' = drop (length bytes) (rd_bytes reader)" "rd_error reader' = rd_error reader"
  using assms by (auto simp: read_full_def split: if_splits option.splits)

lemma read_record_inside:
  assumes "read_record crc32 reader available = Inr (Record d n, reader')"
  shows "n \<le> available" and "record_header_len \<le> n" and "rd_bytes reader' = drop n (rd_bytes reader)"
    and "rd_error reader' = rd_error reader"
proof -
  from assms obtain header reader1 where h: "read_full reader record_header_len = Inr (header, reader1)"
      "\<not> length header < record_header_len" "record_header_len \<le> available"
      "read_payload crc32 header available reader1 = Inr (Record d n, reader')"
    by (auto simp: read_record_def split: if_splits sum.splits)
  from read_fullE [OF h(1)] h(2) have header: "length header = record_header_len"
      "rd_bytes reader1 = drop record_header_len (rd_bytes reader)" "rd_error reader1 = rd_error reader"
    by auto
  define len where "len = le_value (take 4 (drop 5 header))"
  define crc where "crc = le_value (take 4 (drop 9 header))"
  obtain payload where p: "read_full reader1 len = Inr (payload, reader')" "\<not> length payload < len"
      "\<not> len > available - record_header_len" "check_payload crc32 crc payload = Record d n"
    using h(4) unfolding read_payload_def Let_def len_def [symmetric] crc_def [symmetric]
    by (simp split: if_splits sum.splits prod.splits)
  from read_fullE [OF p(1)] p(2) have payload: "length payload = len"
      "rd_bytes reader' = drop (length payload) (rd_bytes reader1)" "rd_error reader' = rd_error reader1"
    by auto
  have n: "n = record_header_len + length payload" using p(4) by (auto simp: check_payload_def split: if_splits sum.splits)
  show "n \<le> available" using n payload(1) p(3) h(3) by simp
  show "record_header_len \<le> n" using n by simp
  show "rd_bytes reader' = drop n (rd_bytes reader)" using payload(2) header(2) n by (simp add: add.commute)
  show "rd_error reader' = rd_error reader" using payload(3) header(3) by simp
qed
end
