(* ===== verification/SpillSegment.thy ===== *)
theory SpillSegment
  imports SpillRecord
begin

text \<open>
  The files of the spill directory (\<open>core/src/request_log_spill/segment.rs\<close>): the store appends
  records to numbered segments through a write buffer, rolls to a new one, and deletes what was
  consumed; the reader returns the records between two positions. Every call of the operating
  system that may fail takes its outcome as an argument, with the number of buffered bytes that
  reached the file before it failed.
\<close>

section \<open>Positions\<close>

datatype spill_pos = SpillPos (sp_segment: nat) (sp_offset: nat)

instantiation spill_pos :: linorder
begin

definition less_eq_spill_pos :: "spill_pos \<Rightarrow> spill_pos \<Rightarrow> bool" where
  "less_eq_spill_pos p q \<longleftrightarrow> sp_segment p < sp_segment q \<or> sp_segment p = sp_segment q \<and> sp_offset p \<le> sp_offset q"

definition less_spill_pos :: "spill_pos \<Rightarrow> spill_pos \<Rightarrow> bool" where
  "less_spill_pos p q \<longleftrightarrow> sp_segment p < sp_segment q \<or> sp_segment p = sp_segment q \<and> sp_offset p < sp_offset q"

instance
  by standard (auto simp: less_eq_spill_pos_def less_spill_pos_def intro: spill_pos.expand)

end

lemmas pos_defs = less_eq_spill_pos_def less_spill_pos_def

section \<open>File names\<close>

definition segment_prefix :: string where "segment_prefix = ''seg-''"
definition segment_suffix :: string where "segment_suffix = ''.log''"

definition pad20 :: "string \<Rightarrow> string" where
  "pad20 digits = replicate (20 - length digits) (CHR ''0'') @ digits"

definition segment_file_name :: "nat \<Rightarrow> string" where
  "segment_file_name sid = segment_prefix @ pad20 (show_nat sid) @ segment_suffix"

definition strip_suffix :: "string \<Rightarrow> string \<Rightarrow> string option" where
  "strip_suffix s suffix = (if ends_with s suffix then Some (take (length s - length suffix) s) else None)"

definition parse_segment_file_name :: "string \<Rightarrow> nat option" where
  "parse_segment_file_name name =
     (if \<not> starts_with name segment_prefix then None
      else case strip_suffix (drop (length segment_prefix) name) segment_suffix of
             None \<Rightarrow> None
           | Some digits \<Rightarrow>
               if length digits \<noteq> 20 \<or> \<not> list_all is_ascii_digit digits then None
               else parse_unsigned u64_max digits)"

section \<open>The directory\<close>

datatype dir_entry = RegularFile string | OtherEntry

type_synonym spill_dir = "(string \<times> dir_entry) list"

definition segment_bytes :: "spill_dir \<Rightarrow> nat \<Rightarrow> string option" where
  "segment_bytes dir sid =
     (case map_of dir (segment_file_name sid) of Some (RegularFile bytes) \<Rightarrow> Some bytes | _ \<Rightarrow> None)"

definition put_segment :: "nat \<Rightarrow> string \<Rightarrow> spill_dir \<Rightarrow> spill_dir" where
  "put_segment sid bytes = AList.update (segment_file_name sid) (RegularFile bytes)"

definition list_segments :: "spill_dir \<Rightarrow> (nat \<times> nat) list" where
  "list_segments dir =
     sort_key fst (List.map_filter (\<lambda>(name, entry).
       case (parse_segment_file_name name, entry) of
         (Some sid, RegularFile bytes) \<Rightarrow> Some (sid, length bytes)
       | _ \<Rightarrow> None) dir)"

text \<open>One attempt per entry of the list, true when the system refuses it; a missing file counts as removed.\<close>

definition remove_file_with_retry :: "nat \<Rightarrow> bool list \<Rightarrow> nat \<Rightarrow> spill_dir \<Rightarrow> bool \<times> spill_dir" where
  "remove_file_with_retry attempts refused sid dir =
     (if segment_bytes dir sid = None then (True, dir)
      else if list_all (\<lambda>r. r) (take (max attempts 1) refused) \<and> max attempts 1 \<le> length refused then (False, dir)
      else (True, AList.delete (segment_file_name sid) dir))"

section \<open>The store\<close>

record active_segment =
  ac_id :: nat
  ac_buffer :: string
  ac_len :: nat
  ac_flushed_len :: nat
  ac_dirty :: bool
  ac_last_sync :: int

text \<open>\<open>segments\<close> is an ordered map from the live segments to their lengths.\<close>

record spill_store =
  ss_dir :: spill_dir
  ss_segment_max :: nat
  ss_active :: "active_segment option"
  ss_segments :: "(nat \<times> nat) list"
  ss_next_id :: nat
  ss_pending_deletes :: "nat list"
  ss_replay_start :: spill_pos
  ss_committed :: spill_pos

fun segments_insert :: "nat \<Rightarrow> nat \<Rightarrow> (nat \<times> nat) list \<Rightarrow> (nat \<times> nat) list" where
  "segments_insert sid len [] = [(sid, len)]"
| "segments_insert sid len ((i, l) # rest) =
     (if sid < i then (sid, len) # (i, l) # rest
      else if sid = i then (sid, len) # rest
      else (i, l) # segments_insert sid len rest)"

definition store_open :: "nat \<Rightarrow> spill_dir \<Rightarrow> spill_store" where
  "store_open segment_max dir =
     (let existing = list_segments dir;
          next_id = (if existing = [] then 1 else fst (last existing) + 1);
          replay_start = (if existing = [] then SpillPos next_id 0 else SpillPos (fst (hd existing)) 0);
          committed = (if existing = [] then SpillPos next_id 0
                       else SpillPos (fst (last existing)) (snd (last existing)))
      in \<lparr>ss_dir = dir, ss_segment_max = max segment_max 1, ss_active = None, ss_segments = existing,
          ss_next_id = next_id, ss_pending_deletes = [], ss_replay_start = replay_start, ss_committed = committed\<rparr>)"

definition live_bytes :: "spill_store \<Rightarrow> nat" where
  "live_bytes st = sum_list (map snd (ss_segments st))"

definition write_position :: "spill_store \<Rightarrow> spill_pos option" where
  "write_position st = map_option (\<lambda>a. SpillPos (ac_id a) (ac_len a)) (ss_active st)"

definition record_survives :: "nat \<Rightarrow> nat \<Rightarrow> spill_store \<Rightarrow> bool" where
  "record_survives segment stop st =
     (case map_of (ss_segments st) segment of None \<Rightarrow> True | Some len \<Rightarrow> len \<ge> stop)"

text \<open>Bytes leave the buffer for the file.\<close>

definition extend_file :: "nat \<Rightarrow> string \<Rightarrow> spill_dir \<Rightarrow> spill_dir" where
  "extend_file sid bytes dir =
     (case segment_bytes dir sid of None \<Rightarrow> dir | Some old \<Rightarrow> put_segment sid (old @ bytes) dir)"

definition file_len :: "nat \<Rightarrow> spill_dir \<Rightarrow> nat" where
  "file_len sid dir = (case segment_bytes dir sid of None \<Rightarrow> 0 | Some bytes \<Rightarrow> length bytes)"

text \<open>
  The outcome of flushing: whether the flush, the sync and a later query of the length succeed, and
  how many bytes of the buffer reach the file when the flush fails (the flush itself and the one on
  closing the file together).
\<close>

record flush_io =
  fl_ok :: bool
  fl_moved :: nat
  fl_sync :: bool
  fl_stat :: bool

definition abandon_active :: "string \<Rightarrow> nat \<Rightarrow> bool \<Rightarrow> spill_store \<Rightarrow> spill_store" where
  "abandon_active pending moved stat st =
     (case ss_active st of None \<Rightarrow> st
      | Some active \<Rightarrow>
          let dir = extend_file (ac_id active) (take moved pending) (ss_dir st);
              st' = st\<lparr>ss_active := None, ss_dir := dir,
                ss_segments := if stat then segments_insert (ac_id active) (file_len (ac_id active) dir) (ss_segments st)
                               else ss_segments st\<rparr>
          in st'\<lparr>ss_committed := max (SpillPos (ss_next_id st) 0) (ss_committed st)\<rparr>)"

definition open_active :: "bool \<Rightarrow> int \<Rightarrow> spill_store \<Rightarrow> bool \<times> spill_store" where
  "open_active ok now st =
     (let sid = ss_next_id st
      in if \<not> ok \<or> map_of (ss_dir st) (segment_file_name sid) \<noteq> None then (False, st)
         else (True, st\<lparr>ss_dir := put_segment sid [] (ss_dir st), ss_next_id := sid + 1,
                ss_segments := segments_insert sid 0 (ss_segments st),
                ss_active := Some \<lparr>ac_id = sid, ac_buffer = [], ac_len = 0, ac_flushed_len = 0,
                                  ac_dirty = False, ac_last_sync = now\<rparr>\<rparr>))"

definition close_active :: "flush_io \<Rightarrow> spill_store \<Rightarrow> bool \<times> spill_store" where
  "close_active io st =
     (case ss_active st of None \<Rightarrow> (True, st)
      | Some active \<Rightarrow>
          let sid = ac_id active; len = ac_len active;
              dir = extend_file sid (if fl_ok io then ac_buffer active else take (fl_moved io) (ac_buffer active)) (ss_dir st);
              flush_failed = (\<not> fl_ok io);
              durable_len = (if flush_failed then (if fl_stat io then file_len sid dir else 0) else len);
              committed = max (SpillPos sid (min durable_len len)) (ss_committed st);
              committed = (if flush_failed then max (SpillPos (ss_next_id st) 0) committed else committed)
          in (fl_ok io \<and> fl_sync io,
              st\<lparr>ss_active := None, ss_dir := dir,
                 ss_segments := segments_insert sid (min durable_len len) (ss_segments st),
                 ss_committed := committed\<rparr>))"

definition store_flush :: "flush_io \<Rightarrow> spill_store \<Rightarrow> (spill_pos option) \<times> spill_store" where
  "store_flush io st =
     (case ss_active st of None \<Rightarrow> (Some (ss_committed st), st)
      | Some active \<Rightarrow>
          if ac_flushed_len active \<noteq> ac_len active \<and> \<not> fl_ok io
          then (None, abandon_active (ac_buffer active) (fl_moved io) (fl_stat io) st)
          else
            let committed = SpillPos (ac_id active) (ac_len active)
            in (Some committed,
                (if ac_flushed_len active \<noteq> ac_len active
                 then st\<lparr>ss_dir := extend_file (ac_id active) (ac_buffer active) (ss_dir st),
                         ss_active := Some (active\<lparr>ac_buffer := [], ac_flushed_len := ac_len active\<rparr>)\<rparr>
                 else st)\<lparr>ss_committed := committed\<rparr>))"

definition spill_sync_interval :: int where "spill_sync_interval = 1000000000"

definition maybe_sync :: "int \<Rightarrow> flush_io \<Rightarrow> spill_store \<Rightarrow> bool \<times> spill_store" where
  "maybe_sync now io st =
     (case ss_active st of None \<Rightarrow> (True, st)
      | Some active \<Rightarrow>
          if ac_dirty active \<and> max 0 (now - ac_last_sync active) \<ge> spill_sync_interval then
            if \<not> fl_ok io then (False, abandon_active (ac_buffer active) (fl_moved io) (fl_stat io) st)
            else
              let active' = active\<lparr>ac_buffer := [], ac_flushed_len := ac_len active\<rparr>;
                  st' = st\<lparr>ss_dir := extend_file (ac_id active) (ac_buffer active) (ss_dir st), ss_active := Some active'\<rparr>
              in if \<not> fl_sync io then (False, st')
                 else (True, st'\<lparr>ss_active := Some (active'\<lparr>ac_dirty := False, ac_last_sync := now\<rparr>),
                                ss_committed := SpillPos (ac_id active) (ac_len active)\<rparr>)
          else (True, st))"

text \<open>
  The outcome of an append: that of closing a full segment, of opening the next, and of the writes.
  A write moves bytes from the buffer to the file; when one fails, \<open>ap_moved\<close> counts what reached
  the file by the time the segment is closed.
\<close>

record append_io =
  ap_close :: flush_io
  ap_open :: bool
  ap_write :: bool
  ap_moved :: nat
  ap_stat :: bool

definition write_frame :: "append_io \<Rightarrow> string \<Rightarrow> nat \<Rightarrow> spill_store \<Rightarrow> nat option \<times> spill_store" where
  "write_frame io bytes frame_len st =
     (case ss_active st of None \<Rightarrow> (None, st)
      | Some active \<Rightarrow>
          let pending = ac_buffer active @ bytes
          in if \<not> ap_write io then (None, abandon_active pending (ap_moved io) (ap_stat io) st)
             else
               let len = ac_len active + frame_len
               in (Some frame_len,
                   st\<lparr>ss_dir := extend_file (ac_id active) (take (ap_moved io) pending) (ss_dir st),
                      ss_active := Some (active\<lparr>ac_buffer := drop (ap_moved io) pending, ac_len := len, ac_dirty := True\<rparr>),
                      ss_segments := segments_insert (ac_id active) len (ss_segments st)\<rparr>))"

definition store_append ::
  "(string \<Rightarrow> 32 word) \<Rightarrow> int \<Rightarrow> append_io \<Rightarrow> spill_record \<Rightarrow> spill_store \<Rightarrow> nat option \<times> spill_store" where
  "store_append crc32 now io rec st =
     (case write_record crc32 rec of Inl _ \<Rightarrow> (None, st)
      | Inr (bytes, frame_len) \<Rightarrow>
          let full = (case ss_active st of None \<Rightarrow> False
                      | Some active \<Rightarrow> ac_len active > 0 \<and> ac_len active + frame_len > ss_segment_max st);
              (closed, st) = (if full then close_active (ap_close io) st else (True, st))
          in if \<not> closed then (None, st)
             else
               let (opened, st) = (if ss_active st = None then open_active (ap_open io) now st else (True, st))
               in if \<not> opened then (None, st) else write_frame io bytes frame_len st)"

text \<open>Deleting files. The list of refusals belongs to the file of each segment.\<close>

definition delete_attempts :: nat where "delete_attempts = 4"

definition delete_segment :: "(nat \<Rightarrow> bool list) \<Rightarrow> nat \<Rightarrow> spill_store \<Rightarrow> spill_store" where
  "delete_segment refused sid st =
     (if \<exists>active \<in> set_option (ss_active st). ac_id active = sid then st
      else let (removed, dir) = remove_file_with_retry delete_attempts (refused sid) sid (ss_dir st)
           in if removed
              then st\<lparr>ss_dir := dir, ss_segments := filter (\<lambda>s. fst s \<noteq> sid) (ss_segments st),
                      ss_pending_deletes := filter (\<lambda>p. p \<noteq> sid) (ss_pending_deletes st)\<rparr>
              else if sid \<in> set (ss_pending_deletes st) then st
              else st\<lparr>ss_pending_deletes := ss_pending_deletes st @ [sid]\<rparr>)"

definition delete_segments :: "(nat \<Rightarrow> bool list) \<Rightarrow> nat list \<Rightarrow> spill_store \<Rightarrow> spill_store" where
  "delete_segments refused sids st = fold (delete_segment refused) sids st"

definition release_consumed :: "flush_io \<Rightarrow> (nat \<Rightarrow> bool list) \<Rightarrow> spill_pos \<Rightarrow> spill_store \<Rightarrow> nat \<times> spill_store" where
  "release_consumed io refused consumed st =
     (let doomed = filter (\<lambda>sid. sid < sp_segment consumed) (map fst (ss_segments st));
          (doomed, st') =
            (if consumed \<ge> ss_committed st then
               (case ss_active st of
                  Some active \<Rightarrow>
                    if ac_len active = ac_flushed_len active \<and> ac_id active \<le> sp_segment consumed
                    then (doomed @ [ac_id active], snd (close_active io st)) else (doomed, st)
                | None \<Rightarrow>
                    if map_of (ss_segments st) (sp_segment consumed) \<noteq> None
                    then (doomed @ [sp_segment consumed], st) else (doomed, st))
             else (doomed, st));
          before = length (ss_segments st');
          st'' = delete_segments refused doomed st'
      in (before - length (ss_segments st''), st''))"

definition purge_all :: "flush_io \<Rightarrow> (nat \<Rightarrow> bool list) \<Rightarrow> spill_store \<Rightarrow> spill_pos \<times> spill_store" where
  "purge_all io refused st =
     (let st = snd (close_active io st);
          st = delete_segments refused (map fst (ss_segments st)) st;
          position = SpillPos (ss_next_id st) 0
      in (position, st\<lparr>ss_committed := position, ss_replay_start := position\<rparr>))"

definition store_roll :: "flush_io \<Rightarrow> spill_store \<Rightarrow> spill_pos \<times> spill_store" where
  "store_roll io st =
     (let st = snd (close_active io st);
          boundary = SpillPos (ss_next_id st) 0
      in (boundary, st\<lparr>ss_committed := max (ss_committed st) boundary\<rparr>))"

definition purge_before :: "(nat \<Rightarrow> bool list) \<Rightarrow> spill_pos \<Rightarrow> spill_store \<Rightarrow> nat \<times> spill_store" where
  "purge_before refused boundary st =
     (let sids = filter (\<lambda>sid. sid < sp_segment boundary) (map fst (ss_segments st));
          st' = delete_segments refused sids st
      in (length (ss_segments st) - length (ss_segments st'),
          st'\<lparr>ss_replay_start := max (ss_replay_start st') boundary,
              ss_committed := max (ss_committed st') boundary\<rparr>))"

definition retry_pending_deletes :: "(nat \<Rightarrow> bool list) \<Rightarrow> spill_store \<Rightarrow> nat \<times> spill_store" where
  "retry_pending_deletes refused st =
     (let st' = delete_segments refused (ss_pending_deletes st) (st\<lparr>ss_pending_deletes := []\<rparr>)
      in (length (ss_pending_deletes st'), st'))"

section \<open>The reader\<close>

record read_batch =
  rb_records :: "decoded_record list"
  rb_next :: spill_pos
  rb_torn :: nat
  rb_corrupt :: nat
  rb_bytes :: nat

text \<open>
  What opening the file of a segment gives: nothing, an error, or its length and a reader of its
  bytes. The directory does not change during a read.
\<close>

datatype 'e open_outcome = NotFound | Unreadable 'e | Opened nat "'e reader"

definition batch_full :: "nat \<Rightarrow> nat \<Rightarrow> read_batch \<Rightarrow> bool" where
  "batch_full max_records max_bytes batch \<longleftrightarrow>
     length (rb_records batch) \<ge> max max_records 1 \<or> rb_records batch \<noteq> [] \<and> rb_bytes batch \<ge> max_bytes"

definition skip_target :: "spill_pos \<Rightarrow> nat \<Rightarrow> spill_pos" where
  "skip_target committed segment =
     (if segment < sp_segment committed then SpillPos (segment + 1) 0 else committed)"

text \<open>
  The inner loop, from an offset of a segment to its limit: the batch, and whether it is complete.
  An error of the file ends the call.
\<close>

function read_segment ::
  "(string \<Rightarrow> 32 word) \<Rightarrow> nat \<Rightarrow> nat \<Rightarrow> spill_pos \<Rightarrow> nat \<Rightarrow> nat \<Rightarrow> nat \<Rightarrow> 'e reader \<Rightarrow> read_batch
     \<Rightarrow> 'e + bool \<times> read_batch" where
  "read_segment crc32 max_records max_bytes committed segment limit offset reader batch =
     (if batch_full max_records max_bytes batch then Inr (True, batch\<lparr>rb_next := SpillPos segment offset\<rparr>)
      else case read_record crc32 reader (limit - offset) of
             Inl e \<Rightarrow> Inl e
           | Inr (outcome, reader') \<Rightarrow>
               (case outcome of
                  Record decoded frame_len \<Rightarrow>
                    let offset' = offset + frame_len;
                        batch' = batch\<lparr>rb_bytes := rb_bytes batch + frame_len, rb_records := rb_records batch @ [decoded]\<rparr>
                    in if offset' \<ge> limit
                       then Inr (False, batch'\<lparr>rb_next :=
                              if segment < sp_segment committed then SpillPos (segment + 1) 0 else SpillPos segment offset'\<rparr>)
                       else read_segment crc32 max_records max_bytes committed segment limit offset' reader' batch'
                | End \<Rightarrow> Inr (False, batch\<lparr>rb_next := skip_target committed segment\<rparr>)
                | Torn \<Rightarrow> Inr (False, batch\<lparr>rb_torn := rb_torn batch + 1, rb_next := skip_target committed segment\<rparr>)
                | Corrupt _ \<Rightarrow> Inr (False, batch\<lparr>rb_corrupt := rb_corrupt batch + 1, rb_next := skip_target committed segment\<rparr>)))"
  by pat_completeness auto
termination
proof (relation "measure (\<lambda>(_, _, _, _, _, limit, offset, _, _). limit - offset)", goal_cases)
  case (2 crc32 max_records max_bytes committed segment limit offset reader batch out outcome reader' decoded n)
  then have "record_header_len \<le> n" by (metis read_record_inside(2) surjective_pairing prod.collapse)
  with 2 show ?case by (simp add: record_header_len_def)
qed simp

declare read_segment.simps [simp del]

lemma read_segment_next:
  assumes "read_segment crc32 max_records max_bytes committed segment limit offset reader batch = Inr (False, batch')"
  shows "rb_next batch' = skip_target committed segment
    \<or> \<not> segment < sp_segment committed \<and> (\<exists>offset'. limit \<le> offset' \<and> rb_next batch' = SpillPos segment offset')"
  using assms
proof (induction crc32 max_records max_bytes committed segment limit offset reader batch rule: read_segment.induct)
  case (1 crc32 max_records max_bytes committed segment limit offset reader batch)
  from 1(2) show ?case
    by (subst (asm) read_segment.simps)
      (auto simp: skip_target_def Let_def split: if_splits sum.splits prod.splits read_outcome.splits dest!: 1(1))
qed

definition segment_limit :: "(nat \<Rightarrow> 'e open_outcome) \<Rightarrow> spill_pos \<Rightarrow> nat \<Rightarrow> nat" where
  "segment_limit files committed segment =
     (case files segment of
        Opened len _ \<Rightarrow> if segment = sp_segment committed then min (sp_offset committed) len else len
      | _ \<Rightarrow> 0)"

text \<open>Every round of the outer loop moves to a later segment, past the limit of the last one, or to the end.\<close>

definition read_left :: "(nat \<Rightarrow> 'e open_outcome) \<Rightarrow> spill_pos \<Rightarrow> spill_pos \<Rightarrow> nat" where
  "read_left files committed p =
     (if p < committed
      then 1 + 2 * (sp_segment committed - sp_segment p)
             + (if sp_offset p < segment_limit files committed (sp_segment p) then 1 else 0)
      else 0)"

lemma read_left_skip:
  "p < committed \<Longrightarrow> read_left files committed (skip_target committed (sp_segment p)) < read_left files committed p"
  by (auto simp: read_left_def skip_target_def pos_defs)

function read_loop ::
  "(string \<Rightarrow> 32 word) \<Rightarrow> (nat \<Rightarrow> 'e open_outcome) \<Rightarrow> spill_pos \<Rightarrow> nat \<Rightarrow> nat \<Rightarrow> read_batch \<Rightarrow> 'e + read_batch" where
  "read_loop crc32 files committed max_records max_bytes batch =
     (if \<not> (rb_next batch < committed \<and> \<not> batch_full max_records max_bytes batch) then Inr batch
      else
        let segment = sp_segment (rb_next batch); offset = sp_offset (rb_next batch);
            skipped = batch\<lparr>rb_next := skip_target committed segment\<rparr>
        in case files segment of
             NotFound \<Rightarrow> read_loop crc32 files committed max_records max_bytes skipped
           | Unreadable e \<Rightarrow> Inl e
           | Opened len reader \<Rightarrow>
               (let limit = segment_limit files committed segment
                in if offset \<ge> limit then read_loop crc32 files committed max_records max_bytes skipped
                   else case read_segment crc32 max_records max_bytes committed segment limit offset
                               (reader\<lparr>rd_bytes := drop offset (rd_bytes reader)\<rparr>) batch of
                          Inl e \<Rightarrow> Inl e
                        | Inr (complete, batch') \<Rightarrow>
                            if complete then Inr batch' else read_loop crc32 files committed max_records max_bytes batch'))"
  by pat_completeness auto
termination
proof (relation "measure (\<lambda>(_, files, committed, _, _, batch). read_left files committed (rb_next batch))", goal_cases)
  case (2 crc32 files committed max_records max_bytes batch segment offset skipped)
  then show ?case by (simp add: read_left_skip)
next
  case (3 crc32 files committed max_records max_bytes batch segment offset skipped len reader limit)
  then show ?case by (simp add: read_left_skip)
next
  case (4 crc32 files committed max_records max_bytes batch segment offset skipped len reader limit out complete batch')
  then have p: "rb_next batch < committed" and o: "sp_offset (rb_next batch) < segment_limit files committed (sp_segment (rb_next batch))"
    and r: "read_segment crc32 max_records max_bytes committed segment limit offset
        (reader\<lparr>rd_bytes := drop offset (rd_bytes reader)\<rparr>) batch = Inr (False, batch')"
    by auto
  from read_segment_next [OF r] have "read_left files committed (rb_next batch') < read_left files committed (rb_next batch)"
  proof (elim disjE conjE exE)
    assume "rb_next batch' = skip_target committed segment"
    then show ?thesis using read_left_skip [OF p, of files] 4 by simp
  next
    fix offset' assume "\<not> segment < sp_segment committed" "limit \<le> offset'" "rb_next batch' = SpillPos segment offset'"
    then show ?thesis using p o 4 by (auto simp: read_left_def pos_defs)
  qed
  then show ?case by simp
qed simp

declare read_loop.simps [simp del]

definition spill_read ::
  "(string \<Rightarrow> 32 word) \<Rightarrow> (nat \<Rightarrow> 'e open_outcome) \<Rightarrow> spill_pos \<Rightarrow> spill_pos \<Rightarrow> nat \<Rightarrow> nat \<Rightarrow> 'e + read_batch" where
  "spill_read crc32 files from_pos committed max_records max_bytes =
     read_loop crc32 files committed max_records max_bytes
       \<lparr>rb_records = [], rb_next = from_pos, rb_torn = 0, rb_corrupt = 0, rb_bytes = 0\<rparr>"

text \<open>Opening: the directory may be impossible to create, locked by another process, or unreadable.\<close>

datatype lock_outcome = LockTaken | LockWouldBlock | LockFailed string

datatype spill_open_error = Locked | OpenIo string

definition spill_open ::
  "string option \<Rightarrow> lock_outcome \<Rightarrow> string option \<Rightarrow> nat \<Rightarrow> spill_dir \<Rightarrow> spill_open_error + spill_store" where
  "spill_open prepare_error lock listing_error segment_max dir =
     (case prepare_error of Some e \<Rightarrow> Inl (OpenIo e)
      | None \<Rightarrow>
          (case lock of LockWouldBlock \<Rightarrow> Inl Locked | LockFailed e \<Rightarrow> Inl (OpenIo e)
           | LockTaken \<Rightarrow>
               (case listing_error of Some e \<Rightarrow> Inl (OpenIo e) | None \<Rightarrow> Inr (store_open segment_max dir))))"

definition dir_files :: "spill_dir \<Rightarrow> nat \<Rightarrow> 'e open_outcome" where
  "dir_files dir sid =
     (case segment_bytes dir sid of None \<Rightarrow> NotFound
      | Some bytes \<Rightarrow> Opened (length bytes) \<lparr>rd_bytes = bytes, rd_error = None\<rparr>)"

section \<open>Names and files\<close>

lemma digits_value_append: "digits_value (s @ [c]) = 10 * digits_value s + (of_char c - 48)"
  by (simp add: digits_value_def)

lemma digits_value_show_nat: "digits_value (show_nat n) = n"
proof (induction n rule: show_nat.induct)
  case (1 n)
  show ?case
  proof (cases "n < 10")
    case True
    then show ?thesis by (subst show_nat.simps) (simp add: digits_value_def)
  next
    case False
    with 1 show ?thesis by (subst show_nat.simps) (simp add: digits_value_append)
  qed
qed

lemma digits_value_zeros: "digits_value (replicate k (CHR ''0'') @ s) = digits_value s"
proof -
  have "foldl (\<lambda>acc c. 10 * acc + ((of_char c :: nat) - 48)) 0 (replicate k (CHR ''0'')) = 0" by (induction k) simp_all
  then show ?thesis by (simp add: digits_value_def)
qed

lemma show_nat_digits: "list_all is_ascii_digit (show_nat n)"
proof (induction n rule: show_nat.induct)
  case (1 n)
  have d: "is_ascii_digit (char_of (48 + m))" if "m < 10" for m :: nat using that by (simp add: is_ascii_digit_def)
  show ?case
  proof (cases "n < 10")
    case True
    then show ?thesis using d by (subst show_nat.simps) simp
  next
    case False
    then show ?thesis using d [of "n mod 10"] 1 by (subst show_nat.simps) simp
  qed
qed

lemma length_show_nat: "n < 10 ^ k \<Longrightarrow> 0 < k \<Longrightarrow> length (show_nat n) \<le> k"
proof (induction n arbitrary: k rule: show_nat.induct)
  case (1 n)
  show ?case
  proof (cases "n < 10")
    case True
    with 1(3) show ?thesis by (subst show_nat.simps) simp
  next
    case False
    with 1(2) obtain j where k: "k = Suc j" "0 < j" by (cases k; cases "k = 1") auto
    then have "n div 10 < 10 ^ j" using 1(2) by (simp add: less_mult_imp_div_less)
    from 1(1) [OF False this k(2)] False show ?thesis by (subst show_nat.simps) (simp add: k)
  qed
qed

lemma segment_name_inject [simp]: "segment_file_name a = segment_file_name b \<longleftrightarrow> a = b"
proof
  assume "segment_file_name a = segment_file_name b"
  then have "pad20 (show_nat a) = pad20 (show_nat b)" by (simp add: segment_file_name_def)
  then have "digits_value (pad20 (show_nat a)) = digits_value (pad20 (show_nat b))" by simp
  then show "a = b" by (simp add: pad20_def digits_value_zeros digits_value_show_nat)
qed simp

lemma parse_segment_name: "n \<le> u64_max \<Longrightarrow> parse_segment_file_name (segment_file_name n) = Some n"
proof -
  assume n: "n \<le> u64_max"
  then have "length (show_nat n) \<le> 20" by (intro length_show_nat) (simp_all add: u64_max_def)
  then have len: "length (pad20 (show_nat n)) = 20" by (simp add: pad20_def)
  have dig: "list_all is_ascii_digit (pad20 (show_nat n))"
    using show_nat_digits [of n] by (auto simp: pad20_def list_all_iff is_ascii_digit_def)
  have val: "digits_value (pad20 (show_nat n)) = n" by (simp add: pad20_def digits_value_zeros digits_value_show_nat)
  have strip: "strip_suffix (pad20 (show_nat n) @ segment_suffix) segment_suffix = Some (pad20 (show_nat n))"
    by (simp add: strip_suffix_def ends_with_def)
  have "parse_unsigned u64_max (pad20 (show_nat n)) = Some n"
  proof -
    obtain c cs where c: "pad20 (show_nat n) = c # cs" using len by (cases "pad20 (show_nat n)") auto
    then have "c \<noteq> CHR ''+''" using dig by (auto simp: is_ascii_digit_def)
    then show ?thesis using c dig val n by (simp add: parse_unsigned_def)
  qed
  then show ?thesis
    by (simp add: parse_segment_file_name_def segment_file_name_def strip len dig)
qed

lemma last_digit: "10 * m + x = 10 * n + y \<Longrightarrow> x < 10 \<Longrightarrow> y < 10 \<Longrightarrow> m = n \<and> x = y" for m n x y :: nat
  by presburger

lemma digits_value_inject:
  assumes "length a = length b" and "list_all is_ascii_digit a" and "list_all is_ascii_digit b"
    and "digits_value a = digits_value b"
  shows "a = b"
  using assms
proof (induction a arbitrary: b rule: rev_induct)
  case Nil
  then show ?case by simp
next
  case (snoc c a)
  from snoc(2) obtain b' d where b: "b = b' @ [d]" "length a = length b'" by (metis length_append_singleton length_Suc_conv_rev)
  have digit: "is_ascii_digit c" "is_ascii_digit d" using snoc(3,4) b by simp_all
  then have "(of_char c :: nat) - 48 < 10" "(of_char d :: nat) - 48 < 10" unfolding is_ascii_digit_def by linarith+
  with last_digit [OF snoc(5) [unfolded b digits_value_append]]
  have eq: "digits_value a = digits_value b'" "(of_char c :: nat) - 48 = of_char d - 48" by blast+
  from eq(2) digit have "(of_char c :: nat) = of_char d" unfolding is_ascii_digit_def by linarith
  then have "c = d" by (simp only: of_char_eq_iff)
  moreover have "a = b'" using snoc(1) [OF b(2) _ _ eq(1)] snoc(3,4) b by simp
  ultimately show ?case by (simp add: b)
qed

lemma strip_suffixD: "strip_suffix s suffix = Some r \<Longrightarrow> s = r @ suffix"
proof -
  assume s: "strip_suffix s suffix = Some r"
  then have e: "take (length suffix) (rev s) = rev suffix" "r = take (length s - length suffix) s"
    by (auto simp: strip_suffix_def ends_with_def starts_with_def split: if_splits)
  then have "rev (drop (length s - length suffix) s) = rev suffix" by (simp add: take_rev)
  then have "drop (length s - length suffix) s = suffix" by simp
  with e(2) show ?thesis by (metis append_take_drop_id)
qed

lemma parse_segment_nameD: "parse_segment_file_name name = Some n \<Longrightarrow> name = segment_file_name n \<and> n \<le> u64_max"
proof -
  assume p: "parse_segment_file_name name = Some n"
  then obtain digits where d: "starts_with name segment_prefix"
      "strip_suffix (drop (length segment_prefix) name) segment_suffix = Some digits"
      "length digits = 20" "list_all is_ascii_digit digits" "parse_unsigned u64_max digits = Some n"
    by (auto simp: parse_segment_file_name_def split: if_splits option.splits)
  obtain c cs where c: "digits = c # cs" using d(3) by (cases digits) auto
  with d(4) have "c \<noteq> CHR ''+''" by (auto simp: is_ascii_digit_def)
  with d(4,5) c have n: "digits_value digits = n" "n \<le> u64_max" by (auto simp: parse_unsigned_def Let_def split: if_splits)
  have "drop (length segment_prefix) name = digits @ segment_suffix"
    by (rule strip_suffixD [OF d(2)])
  then have name: "name = segment_prefix @ digits @ segment_suffix"
    using d(1) append_take_drop_id [of "length segment_prefix" name] by (simp add: starts_with_def)
  have "length (show_nat n) \<le> 20" using n(2) by (intro length_show_nat) (simp_all add: u64_max_def)
  then have "pad20 (show_nat n) = digits"
    using show_nat_digits [of n] d(3,4) n(1)
    by (intro digits_value_inject) (auto simp: pad20_def list_all_iff is_ascii_digit_def digits_value_zeros digits_value_show_nat)
  with name n(2) show ?thesis by (simp add: segment_file_name_def)
qed

end
