(* ===== verification/SpillReplay.thy ===== *)
theory SpillReplay
  imports SpillSegment
begin

text \<open>
  What the reader finds in the files the store wrote. The files of the segments are described by the
  records appended to them, which the store itself does not keep: a closed file is the
  concatenation of their frames, perhaps cut short; the active one lacks what is in the buffer.
\<close>

section \<open>Frames\<close>

definition frame :: "(string \<Rightarrow> 32 word) \<Rightarrow> spill_record \<Rightarrow> string" where
  "frame crc32 rec = (case write_record crc32 rec of Inl _ \<Rightarrow> [] | Inr (bytes, _) \<Rightarrow> bytes)"

definition frames :: "(string \<Rightarrow> 32 word) \<Rightarrow> spill_record list \<Rightarrow> string" where
  "frames crc32 recs = concat (map (frame crc32) recs)"

definition writable :: "(string \<Rightarrow> 32 word) \<Rightarrow> spill_record \<Rightarrow> bool" where
  "writable crc32 rec \<longleftrightarrow> meta_ok (sr_meta rec) \<and> write_record crc32 rec \<in> range Inr"

definition matches :: "decoded_record \<Rightarrow> spill_record \<Rightarrow> bool" where
  "matches d rec \<longleftrightarrow> dr_meta d = sr_meta rec \<and> dr_body d = sr_body rec \<and> dr_wire_body d = wire_to_write rec"

text \<open>The records whose frames lie within so many bytes, and those that begin at an offset or later.\<close>

fun fit :: "(string \<Rightarrow> 32 word) \<Rightarrow> nat \<Rightarrow> spill_record list \<Rightarrow> spill_record list" where
  "fit crc32 n [] = []"
| "fit crc32 n (rec # recs) =
     (if length (frame crc32 rec) \<le> n then rec # fit crc32 (n - length (frame crc32 rec)) recs else [])"

fun from_offset :: "(string \<Rightarrow> 32 word) \<Rightarrow> nat \<Rightarrow> spill_record list \<Rightarrow> spill_record list" where
  "from_offset crc32 n [] = []"
| "from_offset crc32 n (rec # recs) =
     (if n = 0 then rec # recs else from_offset crc32 (n - length (frame crc32 rec)) recs)"

lemma frames_simps [simp]: "frames crc32 [] = []" "frames crc32 (rec # recs) = frame crc32 rec @ frames crc32 recs"
  "frames crc32 (xs @ ys) = frames crc32 xs @ frames crc32 ys"
  by (simp_all add: frames_def)

lemma writable_frame:
  assumes "writable crc32 rec"
  shows "write_record crc32 rec = Inr (frame crc32 rec, length (frame crc32 rec))"
    and "record_header_len < length (frame crc32 rec)"
proof -
  from assms obtain bytes n where w: "write_record crc32 rec = Inr (bytes, n)" by (auto simp: writable_def)
  with write_record_length [OF w] show "write_record crc32 rec = Inr (frame crc32 rec, length (frame crc32 rec))"
    "record_header_len < length (frame crc32 rec)" by (auto simp: frame_def)
qed

lemma fit_prefix: "fit crc32 n recs = take (length (fit crc32 n recs)) recs"
  by (induction crc32 n recs rule: fit.induct) auto

lemma fit_frames: "length (frames crc32 (fit crc32 n recs)) \<le> n"
  by (induction crc32 n recs rule: fit.induct) auto

lemma fit_all: "length (frames crc32 recs) \<le> n \<Longrightarrow> fit crc32 n recs = recs"
  by (induction recs arbitrary: n) auto

lemma fit_append: "length (frames crc32 xs) \<le> n \<Longrightarrow> fit crc32 n (xs @ ys) = xs @ fit crc32 (n - length (frames crc32 xs)) ys"
  by (induction xs arbitrary: n) (auto simp: algebra_simps)

lemma fit_take: "k \<le> length (fit crc32 n recs) \<Longrightarrow> length (frames crc32 (take k recs)) \<le> n"
proof (induction crc32 n recs arbitrary: k rule: fit.induct)
  case (2 crc32 n rec recs)
  then show ?case by (cases k) (fastforce split: if_splits)+
qed simp

lemma from_offset_0 [simp]: "from_offset crc32 0 recs = recs"
  by (cases recs) auto

lemma from_offset_frames:
  "\<forall>rec\<in>set xs. writable crc32 rec \<Longrightarrow> from_offset crc32 (length (frames crc32 xs)) (xs @ ys) = ys"
proof (induction xs)
  case (Cons x xs)
  then show ?case using writable_frame(2) [of crc32 x] by (auto simp: record_header_len_def)
qed simp

section \<open>Reading a segment\<close>

lemma batch_full_next [simp]: "batch_full max_records max_bytes (batch\<lparr>rb_next := p\<rparr>) = batch_full max_records max_bytes batch"
  by (simp add: batch_full_def)

lemma read_segment_full:
  "batch_full max_records max_bytes batch \<Longrightarrow>
   read_segment crc32 max_records max_bytes committed segment limit offset reader batch
     = Inr (True, batch\<lparr>rb_next := SpillPos segment offset\<rparr>)"
  by (subst read_segment.simps) simp

lemma read_segment_record:
  assumes "\<not> batch_full max_records max_bytes batch" and "read_record crc32 reader (limit - offset) = Inr (Record d n, reader')"
    and "batch1 = batch\<lparr>rb_bytes := rb_bytes batch + n, rb_records := rb_records batch @ [d]\<rparr>"
  shows "read_segment crc32 max_records max_bytes committed segment limit offset reader batch =
    (if offset + n \<ge> limit
     then Inr (False, batch1\<lparr>rb_next := if segment < sp_segment committed then SpillPos (segment + 1) 0 else SpillPos segment (offset + n)\<rparr>)
     else read_segment crc32 max_records max_bytes committed segment limit (offset + n) reader' batch1)"
  using assms by (subst read_segment.simps) (simp add: Let_def)

lemma read_segment_stop:
  assumes "\<not> batch_full max_records max_bytes batch" and "read_record crc32 reader (limit - offset) = Inr (out, reader')"
    and "out = Torn \<or> out = End"
  obtains batch' where "read_segment crc32 max_records max_bytes committed segment limit offset reader batch = Inr (False, batch')"
    and "rb_records batch' = rb_records batch" and "rb_next batch' = skip_target committed segment"
proof (rule that)
  show "read_segment crc32 max_records max_bytes committed segment limit offset reader batch
    = Inr (False, (if out = Torn then batch\<lparr>rb_torn := rb_torn batch + 1\<rparr> else batch)\<lparr>rb_next := skip_target committed segment\<rparr>)"
    using assms by (subst read_segment.simps) auto
qed simp_all

lemma read_segment_spec:
  assumes "\<forall>rec\<in>set (recs @ [x]). writable crc32 rec" and "rd_error reader = None"
    and "rd_bytes reader = take j (frames crc32 (recs @ [x]))" and "j < length (frames crc32 (recs @ [x]))"
    and "limit - offset \<le> j" and "offset < limit"
  shows "\<exists>complete batch' ds. read_segment crc32 max_records max_bytes committed segment limit offset reader batch = Inr (complete, batch')
    \<and> rb_records batch' = rb_records batch @ ds
    \<and> list_all2 matches ds (take (length ds) recs) \<and> length ds \<le> length (fit crc32 (limit - offset) recs)
    \<and> (if complete then batch_full max_records max_bytes batch' \<and> rb_next batch' = SpillPos segment (offset + length (frames crc32 (take (length ds) recs)))
       else length ds = length (fit crc32 (limit - offset) recs)
         \<and> rb_next batch' = (if segment < sp_segment committed \<or> offset + length (frames crc32 (fit crc32 (limit - offset) recs)) < limit
                             then skip_target committed segment else SpillPos segment limit))"
  using assms
proof (induction recs arbitrary: reader offset batch j)
  case Nil
  have k: "limit - offset < length (frame crc32 x)" and w: "writable crc32 x" using Nil by simp_all
  have bytes: "rd_bytes reader = take (limit - offset) (frame crc32 x) @ drop (limit - offset) (rd_bytes reader)"
    using Nil by (metis append_take_drop_id frames_simps(1,2) append_Nil append_Nil2 take_take min.absorb1)
  obtain out reader' where "read_record crc32 reader (limit - offset) = Inr (out, reader')" "out = Torn \<or> out = End"
    using read_cut [OF writable_frame(1) [OF w] k bytes, of "limit - offset"] by blast
  note r = this
  show ?case
  proof (cases "batch_full max_records max_bytes batch")
    case True
    then show ?thesis by (intro exI [of _ True]) (simp add: read_segment_full)
  next
    case False
    from read_segment_stop [OF this r] obtain batch' where
      "read_segment crc32 max_records max_bytes committed segment limit offset reader batch = Inr (False, batch')"
      "rb_records batch' = rb_records batch" "rb_next batch' = skip_target committed segment" by blast
    with Nil(6) show ?thesis by (intro exI [of _ False]) simp
  qed
next
  case (Cons rec recs)
  have w: "writable crc32 rec" using Cons.prems(1) by simp
  let ?n = "length (frame crc32 rec)"
  show ?case
  proof (cases "batch_full max_records max_bytes batch")
    case True
    then show ?thesis by (intro exI [of _ True]) (simp add: read_segment_full)
  next
    case not_full: False
    show ?thesis
    proof (cases "?n \<le> limit - offset")
      case False
      then have k: "limit - offset < ?n" by simp
      have bytes: "rd_bytes reader = take (limit - offset) (frame crc32 rec) @ drop (limit - offset) (rd_bytes reader)"
        using Cons.prems(3,5) k append_take_drop_id [of "limit - offset" "rd_bytes reader"] by simp
      obtain out reader' where "read_record crc32 reader (limit - offset) = Inr (out, reader')" "out = Torn \<or> out = End"
        using read_cut [OF writable_frame(1) [OF w] k bytes, of "limit - offset"] by blast
      from read_segment_stop [OF not_full this] obtain batch' where
        "read_segment crc32 max_records max_bytes committed segment limit offset reader batch = Inr (False, batch')"
        "rb_records batch' = rb_records batch" "rb_next batch' = skip_target committed segment" by blast
      with False Cons.prems(6) show ?thesis by (intro exI [of _ False]) simp
    next
      case True
      define rest where "rest = take (j - ?n) (frames crc32 (recs @ [x]))"
      have bytes: "rd_bytes reader = frame crc32 rec @ rest"
        using Cons.prems(3,5) True by (simp add: rest_def)
      from read_written [OF _ writable_frame(1) [OF w] bytes True] w obtain d where
        d: "read_record crc32 reader (limit - offset) = Inr (Record d ?n, reader\<lparr>rd_bytes := rest\<rparr>)" "matches d rec"
        unfolding writable_def matches_def by blast
      define batch1 where "batch1 = batch\<lparr>rb_bytes := rb_bytes batch + ?n, rb_records := rb_records batch @ [d]\<rparr>"
      show ?thesis
      proof (cases "offset + ?n \<ge> limit")
        case end_reached: True
        with True have eq: "offset + ?n = limit" "limit - offset = ?n" using Cons.prems(6) by auto
        have none: "fit crc32 0 recs = []" using Cons.prems(1) writable_frame(2) by (cases recs) fastforce+
        have "read_segment crc32 max_records max_bytes committed segment limit offset reader batch
          = Inr (False, batch1\<lparr>rb_next := if segment < sp_segment committed then SpillPos (segment + 1) 0 else SpillPos segment limit\<rparr>)"
          using read_segment_record [OF not_full d(1) batch1_def] end_reached eq by simp
        with d(2) eq none show ?thesis
          by (intro exI [of _ False]) (simp add: batch1_def skip_target_def)
      next
        case False
        have "j - ?n < length (frames crc32 (recs @ [x]))" using Cons.prems(4,5) True by simp
        moreover have "limit - (offset + ?n) \<le> j - ?n" using Cons.prems(5) by simp
        ultimately obtain complete batch' ds where
          r: "read_segment crc32 max_records max_bytes committed segment limit (offset + ?n) (reader\<lparr>rd_bytes := rest\<rparr>) batch1 = Inr (complete, batch')"
            "rb_records batch' = rb_records batch1 @ ds" "list_all2 matches ds (take (length ds) recs)"
            "length ds \<le> length (fit crc32 (limit - (offset + ?n)) recs)"
            "if complete then batch_full max_records max_bytes batch' \<and> rb_next batch' = SpillPos segment (offset + ?n + length (frames crc32 (take (length ds) recs)))
             else length ds = length (fit crc32 (limit - (offset + ?n)) recs)
               \<and> rb_next batch' = (if segment < sp_segment committed \<or> offset + ?n + length (frames crc32 (fit crc32 (limit - (offset + ?n)) recs)) < limit
                                   then skip_target committed segment else SpillPos segment limit)"
          using Cons.IH [of "reader\<lparr>rd_bytes := rest\<rparr>" "j - ?n" "offset + ?n" batch1] Cons.prems(1,2) False
          by (auto simp: rest_def)
        have "read_segment crc32 max_records max_bytes committed segment limit offset reader batch = Inr (complete, batch')"
          using read_segment_record [OF not_full d(1) batch1_def] False r(1) by simp
        then show ?thesis
          using r(2-5) d(2) True
          by (intro exI [of _ complete] exI [of _ batch'] exI [of _ "d # ds"])
            (simp add: batch1_def diff_diff_eq add.assoc split: if_splits)
      qed
    qed
  qed
qed

section \<open>Reading between two positions\<close>

text \<open>
  \<open>A\<close> gives the records appended to each segment. \<open>pending\<close> is what a reader at one position has yet to
  return before the other: the records that begin there or later and are complete in their files.
\<close>

definition seg_pending ::
  "(string \<Rightarrow> 32 word) \<Rightarrow> spill_dir \<Rightarrow> (nat \<Rightarrow> spill_record list) \<Rightarrow> spill_pos \<Rightarrow> nat \<Rightarrow> nat \<Rightarrow> spill_record list" where
  "seg_pending crc32 dir A c sid offset =
     (case segment_bytes dir sid of None \<Rightarrow> []
      | Some bytes \<Rightarrow>
          fit crc32 ((if sid = sp_segment c then min (sp_offset c) (length bytes) else length bytes) - offset)
            (from_offset crc32 offset (A sid)))"

definition pending ::
  "(string \<Rightarrow> 32 word) \<Rightarrow> spill_dir \<Rightarrow> (nat \<Rightarrow> spill_record list) \<Rightarrow> spill_pos \<Rightarrow> spill_pos \<Rightarrow> spill_record list" where
  "pending crc32 dir A p c =
     (if p < c
      then seg_pending crc32 dir A c (sp_segment p) (sp_offset p)
             @ concat (map (\<lambda>sid. seg_pending crc32 dir A c sid 0) [Suc (sp_segment p)..<Suc (sp_segment c)])
      else [])"

definition files_ok :: "(string \<Rightarrow> 32 word) \<Rightarrow> spill_dir \<Rightarrow> (nat \<Rightarrow> spill_record list) \<Rightarrow> bool" where
  "files_ok crc32 dir A \<longleftrightarrow>
     (\<forall>sid rec. rec \<in> set (A sid) \<longrightarrow> writable crc32 rec)
     \<and> (\<forall>sid bytes. segment_bytes dir sid = Some bytes \<longrightarrow>
          (\<exists>x. writable crc32 x \<and> bytes = take (length bytes) (frames crc32 (A sid @ [x]))
             \<and> length bytes < length (frames crc32 (A sid @ [x]))))"

definition starts_ok :: "(string \<Rightarrow> 32 word) \<Rightarrow> spill_dir \<Rightarrow> (nat \<Rightarrow> spill_record list) \<Rightarrow> spill_pos \<Rightarrow> bool" where
  "starts_ok crc32 dir A p \<longleftrightarrow>
     (\<forall>bytes. segment_bytes dir (sp_segment p) = Some bytes \<longrightarrow> sp_offset p < length bytes \<longrightarrow>
        (\<exists>i. sp_offset p = length (frames crc32 (take i (A (sp_segment p))))))"

lemma fit_0: "\<forall>rec\<in>set recs. writable crc32 rec \<Longrightarrow> fit crc32 0 recs = []"
  using writable_frame(2) by (cases recs) fastforce+

lemma set_from_offset: "set (from_offset crc32 n recs) \<subseteq> set recs"
  by (induction crc32 n recs rule: from_offset.induct) auto

lemma seg_pending_past:
  assumes "files_ok crc32 dir A"
    and "\<And>bytes. segment_bytes dir sid = Some bytes \<Longrightarrow> length bytes \<le> offset \<or> sid = sp_segment c \<and> sp_offset c \<le> offset"
  shows "seg_pending crc32 dir A c sid offset = []"
proof (cases "segment_bytes dir sid")
  case (Some bytes)
  have "fit crc32 0 (from_offset crc32 offset (A sid)) = []"
    using assms(1) set_from_offset by (intro fit_0) (fastforce simp: files_ok_def)
  with Some assms(2) show ?thesis by (auto simp: seg_pending_def min_def)
qed (simp add: seg_pending_def)

lemma pending_le:
  assumes "files_ok crc32 dir A" and "p \<le> c"
  shows "pending crc32 dir A p c = seg_pending crc32 dir A c (sp_segment p) (sp_offset p)
    @ concat (map (\<lambda>sid. seg_pending crc32 dir A c sid 0) [Suc (sp_segment p)..<Suc (sp_segment c)])"
proof (cases "p < c")
  case False
  with assms(2) have "p = c" by simp
  then show ?thesis using seg_pending_past [OF assms(1), of "sp_segment c" "sp_offset c" c] by (simp add: pending_def)
qed (simp add: pending_def)

lemma skip_target_le: "p < c \<Longrightarrow> p < skip_target c (sp_segment p) \<and> skip_target c (sp_segment p) \<le> c"
  by (auto simp: skip_target_def pos_defs)

lemma pending_skip:
  assumes f: "files_ok crc32 dir A" and "p < c"
  shows "pending crc32 dir A p c = seg_pending crc32 dir A c (sp_segment p) (sp_offset p)
    @ pending crc32 dir A (skip_target c (sp_segment p)) c"
proof (cases "sp_segment p < sp_segment c")
  case True
  then have "[Suc (sp_segment p)..<Suc (sp_segment c)] = Suc (sp_segment p) # [Suc (Suc (sp_segment p))..<Suc (sp_segment c)]"
    by (simp add: upt_conv_Cons)
  moreover have "SpillPos (Suc (sp_segment p)) 0 \<le> c" using True by (auto simp: pos_defs)
  ultimately show ?thesis using assms(2) True pending_le [OF f, of "SpillPos (Suc (sp_segment p)) 0" c]
    by (simp add: pending_def skip_target_def)
next
  case False
  then have "sp_segment p = sp_segment c" using assms(2) by (auto simp: pos_defs)
  then show ?thesis using assms(2) by (simp add: pending_def skip_target_def)
qed

lemma starts_ok_start: "starts_ok crc32 dir A (SpillPos sid 0)"
  by (auto simp: starts_ok_def intro: exI [of _ 0])

lemma starts_ok_skip: "starts_ok crc32 dir A c \<Longrightarrow> starts_ok crc32 dir A (skip_target c sid)"
  by (simp add: skip_target_def starts_ok_start)

lemma dir_files_limit:
  "segment_limit (dir_files dir) c sid = (case segment_bytes dir sid of None \<Rightarrow> 0
     | Some bytes \<Rightarrow> if sid = sp_segment c then min (sp_offset c) (length bytes) else length bytes)"
  by (simp add: segment_limit_def dir_files_def split: option.split)

text \<open>One segment as the outer loop reads it.\<close>

lemma read_segment_pending:
  assumes f: "files_ok crc32 dir A" and p: "starts_ok crc32 dir A p" "p < c" and c: "starts_ok crc32 dir A c"
    and b: "segment_bytes dir (sp_segment p) = Some bytes"
    and l: "limit = (if sp_segment p = sp_segment c then min (sp_offset c) (length bytes) else length bytes)"
    and o': "sp_offset p < limit"
  obtains complete batch' ds rs where
    "read_segment crc32 max_records max_bytes c (sp_segment p) limit (sp_offset p)
       \<lparr>rd_bytes = drop (sp_offset p) bytes, rd_error = None\<rparr> batch = (Inr (complete, batch') :: 'e + _)"
    and "rb_records batch' = rb_records batch @ ds" "list_all2 matches ds rs"
    and "pending crc32 dir A p c = rs @ pending crc32 dir A (rb_next batch') c"
    and "starts_ok crc32 dir A (rb_next batch')" "p \<le> rb_next batch'" "rb_next batch' \<le> c"
    and "complete \<Longrightarrow> batch_full max_records max_bytes batch'"
proof -
  define sid where "sid = sp_segment p"
  have limit_def: "limit = (if sid = sp_segment c then min (sp_offset c) (length bytes) else length bytes)"
    using l by (simp add: sid_def)
  have ll: "limit \<le> length bytes" by (simp add: limit_def)
  from f b obtain x where x: "writable crc32 x" "bytes = take (length bytes) (frames crc32 (A sid @ [x]))"
      "length bytes < length (frames crc32 (A sid @ [x]))" and w: "\<forall>rec\<in>set (A sid). writable crc32 rec"
    unfolding files_ok_def sid_def by blast
  from p(1) b o' ll obtain i where i: "sp_offset p = length (frames crc32 (take i (A sid)))"
    unfolding starts_ok_def sid_def by (metis order_less_le_trans)
  define recs where "recs = drop i (A sid)"
  have split: "A sid = take i (A sid) @ recs" by (simp add: recs_def)
  have from_p: "from_offset crc32 (sp_offset p) (A sid) = recs"
    using from_offset_frames [of "take i (A sid)" crc32 recs] w in_set_takeD unfolding i split [symmetric] by fast
  define j where "j = length bytes - sp_offset p"
  have "frames crc32 (A sid @ [x]) = frames crc32 (take i (A sid)) @ frames crc32 (recs @ [x])"
    by (metis append.assoc frames_simps(3) split)
  then have dropped: "drop (sp_offset p) bytes = take j (frames crc32 (recs @ [x]))" "j < length (frames crc32 (recs @ [x]))"
    using x(2,3) o' ll by (simp_all add: i j_def drop_take) (metis append_eq_conv_conj drop_take)
  have wr: "\<forall>rec\<in>set (recs @ [x]). writable crc32 rec" using w x(1) by (auto simp: recs_def dest: in_set_dropD)
  define reader :: "'e reader" where "reader = \<lparr>rd_bytes = drop (sp_offset p) bytes, rd_error = None\<rparr>"
  have reader: "rd_error reader = None" "rd_bytes reader = take j (frames crc32 (recs @ [x]))"
    using dropped(1) by (simp_all add: reader_def)
  have avail: "limit - sp_offset p \<le> j" using ll by (simp add: j_def)
  from read_segment_spec [OF wr reader dropped(2) avail o', of max_records max_bytes c sid batch]
  obtain complete batch' ds where r:
      "read_segment crc32 max_records max_bytes c sid limit (sp_offset p) \<lparr>rd_bytes = drop (sp_offset p) bytes, rd_error = None\<rparr> batch
        = (Inr (complete, batch') :: 'e + _)"
      "rb_records batch' = rb_records batch @ ds" "list_all2 matches ds (take (length ds) recs)"
      "length ds \<le> length (fit crc32 (limit - sp_offset p) recs)"
      "if complete then batch_full max_records max_bytes batch' \<and> rb_next batch' = SpillPos sid (sp_offset p + length (frames crc32 (take (length ds) recs)))
       else length ds = length (fit crc32 (limit - sp_offset p) recs)
         \<and> rb_next batch' = (if sid < sp_segment c \<or> sp_offset p + length (frames crc32 (fit crc32 (limit - sp_offset p) recs)) < limit
                             then skip_target c sid else SpillPos sid limit)"
    unfolding reader_def by blast
  define q where "q = SpillPos sid (sp_offset p + length (frames crc32 (take (length ds) recs)))"
  have inside: "sp_offset q \<le> limit" using fit_take [OF r(4)] o' by (simp add: q_def)
  have q_le: "q \<le> c"
    using inside p(2) by (auto simp: q_def pos_defs limit_def sid_def split: if_splits)
  have q_i: "sp_offset q = length (frames crc32 (take (i + length ds) (A sid)))"
    by (simp add: q_def i recs_def take_add)
  then have q_ok: "starts_ok crc32 dir A q" unfolding starts_ok_def by (auto simp: q_def)
  have seg: "seg_pending crc32 dir A c sid (sp_offset p) = take (length ds) recs @ seg_pending crc32 dir A c sid (sp_offset q)"
  proof -
    have "from_offset crc32 (sp_offset q) (A sid) = drop (length ds) recs"
      using from_offset_frames [of "take (i + length ds) (A sid)" crc32 "drop (i + length ds) (A sid)"] w
      unfolding q_i by (auto simp: recs_def add.commute dest: in_set_takeD)
    moreover have "fit crc32 (limit - sp_offset p) recs = take (length ds) recs @ fit crc32 (limit - sp_offset q) (drop (length ds) recs)"
      using fit_append [of crc32 "take (length ds) recs" "limit - sp_offset p" "drop (length ds) recs"] fit_take [OF r(4)]
      by (simp add: q_def)
    ultimately show ?thesis using b by (simp add: seg_pending_def sid_def [symmetric] limit_def [symmetric] from_p)
  qed
  have pend: "pending crc32 dir A p c = take (length ds) recs @ pending crc32 dir A q c"
    using seg p(2) pending_le [OF f q_le] by (simp add: pending_def q_def sid_def)
  show ?thesis
  proof (cases complete)
    case True
    with r(5) have n: "rb_next batch' = q" "batch_full max_records max_bytes batch'" by (simp_all add: q_def)
    have "p \<le> q" by (simp add: q_def sid_def pos_defs)
    with that [OF r(1) [unfolded sid_def] r(2,3)] pend q_ok q_le n show ?thesis by (simp add: sid_def)
  next
    case False
    with r(5) have all: "take (length ds) recs = fit crc32 (limit - sp_offset p) recs"
      using fit_prefix [of crc32 "limit - sp_offset p" recs] by simp
    show ?thesis
    proof (cases "sid < sp_segment c \<or> sp_offset p + length (frames crc32 (fit crc32 (limit - sp_offset p) recs)) < limit")
      case True
      with False r(5) have n: "rb_next batch' = skip_target c sid" by simp
      have "seg_pending crc32 dir A c sid (sp_offset p) = take (length ds) recs"
        using b from_p all by (simp add: seg_pending_def sid_def [symmetric] limit_def [symmetric])
      then have "pending crc32 dir A p c = take (length ds) recs @ pending crc32 dir A (rb_next batch') c"
        using pending_skip [OF f p(2)] by (simp add: n sid_def)
      moreover have "p \<le> rb_next batch'" "rb_next batch' \<le> c" "starts_ok crc32 dir A (rb_next batch')"
        using skip_target_le [OF p(2)] starts_ok_skip [OF c] by (auto simp: n sid_def)
      ultimately show ?thesis using that [OF r(1) [unfolded sid_def] r(2,3)] False by (simp add: sid_def)
    next
      case at_end: False
      have "sp_offset p + length (frames crc32 (fit crc32 (limit - sp_offset p) recs)) \<le> limit"
        using fit_frames [of crc32 "limit - sp_offset p" recs] o' by simp
      with at_end False r(5) all have n: "rb_next batch' = q" by (simp add: q_def)
      have "p \<le> q" by (simp add: q_def sid_def pos_defs)
      with that [OF r(1) [unfolded sid_def] r(2,3)] pend q_ok q_le n False show ?thesis by (simp add: sid_def)
    qed
  qed
qed

lemma read_loop_pending:
  fixes batch :: read_batch
  assumes f: "files_ok crc32 dir A" and c: "starts_ok crc32 dir A c"
    and "starts_ok crc32 dir A (rb_next batch)" and "rb_next batch \<le> c"
  shows "\<exists>batch' ds rs. read_loop crc32 (dir_files dir) c max_records max_bytes batch = (Inr batch' :: 'e + read_batch)
    \<and> rb_records batch' = rb_records batch @ ds \<and> list_all2 matches ds rs
    \<and> pending crc32 dir A (rb_next batch) c = rs @ pending crc32 dir A (rb_next batch') c
    \<and> starts_ok crc32 dir A (rb_next batch') \<and> rb_next batch \<le> rb_next batch' \<and> rb_next batch' \<le> c
    \<and> (rb_next batch' < c \<longrightarrow> batch_full max_records max_bytes batch')"
  using assms(3,4)
proof (induction "read_left (dir_files dir :: nat \<Rightarrow> 'e open_outcome) c (rb_next batch)" arbitrary: batch rule: less_induct)
  case less
  let ?files = "dir_files dir :: nat \<Rightarrow> 'e open_outcome"
  let ?p = "rb_next batch"
  show ?case
  proof (cases "?p < c \<and> \<not> batch_full max_records max_bytes batch")
    case False
    then show ?thesis using less.prems
      by (intro exI [of _ batch] exI [of _ "[]"]) (subst read_loop.simps, auto)
  next
    case True
    then have p: "?p < c" and nf: "\<not> batch_full max_records max_bytes batch" by auto
    define skipped where "skipped = batch\<lparr>rb_next := skip_target c (sp_segment ?p)\<rparr>"
    have skip: "?thesis" if e: "read_loop crc32 ?files c max_records max_bytes batch = read_loop crc32 ?files c max_records max_bytes skipped"
      and n: "seg_pending crc32 dir A c (sp_segment ?p) (sp_offset ?p) = []"
    proof -
      have "read_left ?files c (rb_next skipped) < read_left ?files c ?p" by (simp add: skipped_def read_left_skip p)
      from less.hyps [OF this] skip_target_le [OF p] starts_ok_skip [OF c] obtain batch' ds rs where
        "read_loop crc32 ?files c max_records max_bytes skipped = Inr batch'"
        "rb_records batch' = rb_records skipped @ ds" "list_all2 matches ds rs"
        "pending crc32 dir A (rb_next skipped) c = rs @ pending crc32 dir A (rb_next batch') c"
        "starts_ok crc32 dir A (rb_next batch')" "rb_next skipped \<le> rb_next batch'" "rb_next batch' \<le> c"
        "rb_next batch' < c \<longrightarrow> batch_full max_records max_bytes batch'"
        by (auto simp: skipped_def)
      then show ?thesis using e n pending_skip [OF f p] skip_target_le [OF p]
        by (intro exI [of _ batch'] exI [of _ ds] exI [of _ rs]) (auto simp: skipped_def)
    qed
    show ?thesis
    proof (cases "segment_bytes dir (sp_segment ?p)")
      case None
      have "read_loop crc32 ?files c max_records max_bytes batch = read_loop crc32 ?files c max_records max_bytes skipped"
        using p nf None by (subst read_loop.simps) (simp add: dir_files_def skipped_def Let_def)
      then show ?thesis by (rule skip) (simp add: seg_pending_def None)
    next
      case (Some bytes)
      define limit where "limit = (if sp_segment ?p = sp_segment c then min (sp_offset c) (length bytes) else length bytes)"
      have lim: "segment_limit ?files c (sp_segment ?p) = limit" by (simp add: dir_files_limit Some limit_def)
      have opened: "?files (sp_segment ?p) = Opened (length bytes) \<lparr>rd_bytes = bytes, rd_error = None\<rparr>"
        by (simp add: dir_files_def Some)
      show ?thesis
      proof (cases "sp_offset ?p < limit")
        case False
        have "read_loop crc32 ?files c max_records max_bytes batch = read_loop crc32 ?files c max_records max_bytes skipped"
          using p nf False by (subst read_loop.simps) (simp add: opened lim skipped_def Let_def)
        moreover have "seg_pending crc32 dir A c (sp_segment ?p) (sp_offset ?p) = []"
          using False Some by (intro seg_pending_past [OF f]) (auto simp: limit_def split: if_splits)
        ultimately show ?thesis by (rule skip)
      next
        case o: True
        from read_segment_pending [OF f less.prems(1) p c Some limit_def o] obtain complete batch1 ds rs where r:
          "read_segment crc32 max_records max_bytes c (sp_segment ?p) limit (sp_offset ?p)
             \<lparr>rd_bytes = drop (sp_offset ?p) bytes, rd_error = None\<rparr> batch = (Inr (complete, batch1) :: 'e + _)"
          "rb_records batch1 = rb_records batch @ ds" "list_all2 matches ds rs"
          "pending crc32 dir A ?p c = rs @ pending crc32 dir A (rb_next batch1) c"
          "starts_ok crc32 dir A (rb_next batch1)" "?p \<le> rb_next batch1" "rb_next batch1 \<le> c"
          "complete \<Longrightarrow> batch_full max_records max_bytes batch1" by blast
        have step: "read_loop crc32 ?files c max_records max_bytes batch
          = (if complete then Inr batch1 else read_loop crc32 ?files c max_records max_bytes batch1)"
          using p nf o r(1) by (subst read_loop.simps) (simp add: opened lim Let_def)
        show ?thesis
        proof (cases complete)
          case True
          with step r show ?thesis by (intro exI [of _ batch1] exI [of _ ds] exI [of _ rs]) simp
        next
          case False
          have left: "read_left ?files c (rb_next batch1) < read_left ?files c ?p"
            using read_segment_next [OF r(1) [unfolded False [THEN eq_False [THEN iffD2]]]] p o lim
            by (elim disjE) (simp add: read_left_skip, auto simp: read_left_def pos_defs)
          from less.hyps [OF left r(5) r(7)] obtain batch' ds' rs' where r':
            "read_loop crc32 ?files c max_records max_bytes batch1 = Inr batch'"
            "rb_records batch' = rb_records batch1 @ ds'" "list_all2 matches ds' rs'"
            "pending crc32 dir A (rb_next batch1) c = rs' @ pending crc32 dir A (rb_next batch') c"
            "starts_ok crc32 dir A (rb_next batch')" "rb_next batch1 \<le> rb_next batch'" "rb_next batch' \<le> c"
            "rb_next batch' < c \<longrightarrow> batch_full max_records max_bytes batch'" by blast
          have "list_all2 matches (ds @ ds') (rs @ rs')" by (rule list_all2_appendI [OF r(3) r'(3)])
          with step False r r' show ?thesis
            by (intro exI [of _ batch'] exI [of _ "ds @ ds'"] exI [of _ "rs @ rs'"]) simp
        qed
      qed
    qed
  qed
qed

text \<open>A call of the reader: the next records in order, and a position from which the rest is still to be read.\<close>

lemma spill_read_pending:
  assumes "files_ok crc32 dir A" and "starts_ok crc32 dir A c" and "starts_ok crc32 dir A p" and "p \<le> c"
  obtains batch rs where "spill_read crc32 (dir_files dir) p c max_records max_bytes = (Inr batch :: 'e + read_batch)"
    and "list_all2 matches (rb_records batch) rs"
    and "pending crc32 dir A p c = rs @ pending crc32 dir A (rb_next batch) c"
    and "starts_ok crc32 dir A (rb_next batch)" "p \<le> rb_next batch" "rb_next batch \<le> c"
    and "rb_records batch = [] \<Longrightarrow> rb_next batch = c"
proof -
  from read_loop_pending [OF assms(1,2), where batch = "\<lparr>rb_records = [], rb_next = p, rb_torn = 0, rb_corrupt = 0, rb_bytes = 0\<rparr>"
      and max_records = max_records and max_bytes = max_bytes and 'e = 'e] assms(3,4)
  obtain batch ds rs where r: "spill_read crc32 (dir_files dir) p c max_records max_bytes = (Inr batch :: 'e + read_batch)"
    "rb_records batch = ds" "list_all2 matches ds rs" "pending crc32 dir A p c = rs @ pending crc32 dir A (rb_next batch) c"
    "starts_ok crc32 dir A (rb_next batch)" "p \<le> rb_next batch" "rb_next batch \<le> c"
    "rb_next batch < c \<longrightarrow> batch_full max_records max_bytes batch"
    unfolding spill_read_def by auto
  have "rb_next batch = c" if "rb_records batch = []"
  proof (rule ccontr)
    assume "rb_next batch \<noteq> c"
    with r(7,8) have "batch_full max_records max_bytes batch" by simp
    with that show False by (simp add: batch_full_def)
  qed
  with that r show ?thesis by blast
qed

end
