(* ===== verification/SpillStore.thy ===== *)
theory SpillStore
  imports SpillReplay "HOL-Library.Sublist"
begin

text \<open>
  The store and the records appended to it: an invariant that every operation keeps, whatever fails,
  and that survives a crash and the next start. From it follow the contract of the reader on a
  store as it is used, what a successful flush promises, and when a file may be deleted.
\<close>

section \<open>Files\<close>

lemma segment_bytes_put [simp]:
  "segment_bytes (put_segment sid bytes dir) t = (if t = sid then Some bytes else segment_bytes dir t)"
  by (simp add: segment_bytes_def put_segment_def update_conv')

lemma segment_bytes_extend:
  "segment_bytes (extend_file sid bytes dir) t
     = (if t = sid then map_option (\<lambda>old. old @ bytes) (segment_bytes dir sid) else segment_bytes dir t)"
  by (simp add: extend_file_def split: option.split)

lemma segment_bytes_delete [simp]:
  "segment_bytes (AList.delete (segment_file_name sid) dir) t = (if t = sid then None else segment_bytes dir t)"
  by (simp add: segment_bytes_def delete_conv')

lemma segment_bytes_remove:
  "remove_file_with_retry n refused sid dir = (removed, dir') \<Longrightarrow>
     segment_bytes dir' t = (if t = sid \<and> removed then None else segment_bytes dir t)"
  by (auto simp: remove_file_with_retry_def split: if_splits)

definition names_ok :: "spill_dir \<Rightarrow> bool" where
  "names_ok dir \<longleftrightarrow> distinct (map fst dir)"

lemma names_ok_put [simp]: "names_ok dir \<Longrightarrow> names_ok (put_segment sid bytes dir)"
  by (simp add: names_ok_def put_segment_def distinct_update)

lemma names_ok_extend [simp]: "names_ok dir \<Longrightarrow> names_ok (extend_file sid bytes dir)"
  by (simp add: extend_file_def split: option.split)

lemma names_ok_remove: "remove_file_with_retry n refused sid dir = (removed, dir') \<Longrightarrow> names_ok dir \<Longrightarrow> names_ok dir'"
  by (auto simp: remove_file_with_retry_def names_ok_def distinct_delete split: if_splits)

text \<open>The listing of a directory.\<close>

lemma set_list_segments:
  assumes "names_ok dir"
  shows "(sid, len) \<in> set (list_segments dir) \<longleftrightarrow> sid \<le> u64_max \<and> (\<exists>bytes. segment_bytes dir sid = Some bytes \<and> len = length bytes)"
    (is "?l \<longleftrightarrow> ?r")
proof
  assume ?l
  then obtain name entry where e: "(name, entry) \<in> set dir"
      "(case (parse_segment_file_name name, entry) of (Some sid, RegularFile bytes) \<Rightarrow> Some (sid, length bytes) | _ \<Rightarrow> None) = Some (sid, len)"
    by (auto simp: list_segments_def map_filter_def)
  then obtain bytes where b: "parse_segment_file_name name = Some sid" "entry = RegularFile bytes" "len = length bytes"
    by (auto split: option.splits dir_entry.splits)
  from parse_segment_nameD [OF b(1)] e(1) b(2) assms have "map_of dir (segment_file_name sid) = Some (RegularFile bytes)" "sid \<le> u64_max"
    by (auto simp: names_ok_def)
  with b(3) show ?r by (simp add: segment_bytes_def)
next
  assume ?r
  then obtain bytes where b: "sid \<le> u64_max" "map_of dir (segment_file_name sid) = Some (RegularFile bytes)" "len = length bytes"
    by (auto simp: segment_bytes_def split: option.splits dir_entry.splits)
  from map_of_SomeD [OF b(2)] parse_segment_name [OF b(1)] b(3) show ?l
    by (force simp: list_segments_def map_filter_def)
qed

lemma sorted_list_segments: "sorted (map fst (list_segments dir))"
  by (simp add: list_segments_def)

section \<open>The invariant\<close>

text \<open>A record that can always be written; any would do.\<close>

definition small_record :: spill_record where
  "small_record =
     \<lparr>sr_meta = \<lparr>sm_trace_id = [], sm_stage = [], sm_generation = None, sm_clear_epoch = 0, sm_boot_id = 0,
        sm_redact = False, sm_preview = False, sm_conversation_key = None, sm_attempt = None, sm_created_at = 0,
        sm_original = None\<rparr>, sr_body = [], sr_wire_body = None\<rparr>"

lemma small_record_writable: "writable crc32 small_record"
proof -
  have "utf8_ok []" by (simp add: utf8_ok_def from_utf8_def utf8_chunks.simps)
  then have "meta_ok (sr_meta small_record)"
    by (simp add: meta_ok_def small_record_def u64_ok_def u64_max_def in_i64_def i64_min_def i64_max_def)
  moreover have "length (encode_meta small_record) = 49"
    by (simp add: encode_meta_def small_record_def Let_def put_str_def put_option_def wire_to_write_def)
  then have "write_record crc32 small_record \<in> range Inr"
    by (simp add: write_record_def encode_frame_def Let_def max_record_payload_bytes_def u32_max_def
        wire_bytes_def wire_to_write_def put_option_def small_record_def)
  ultimately show ?thesis by (simp add: writable_def)
qed

lemma small_frame_length: "length (frame crc32 small_record) = 62"
proof -
  have "length (encode_meta small_record) = 49"
    by (simp add: encode_meta_def small_record_def Let_def put_str_def put_option_def wire_to_write_def)
  then show ?thesis
    by (simp add: frame_def write_record_def encode_frame_def Let_def max_record_payload_bytes_def u32_max_def
        wire_bytes_def wire_to_write_def put_option_def small_record_def record_magic_def)
qed

lemma small_frame: "0 < length (frame crc32 small_record)"
  by (rule le_less_trans [OF _ writable_frame(2) [OF small_record_writable]]) simp

text \<open>
  \<open>A\<close> are the records appended so far, by segment. A file outside the active segment is never behind
  the committed position.
\<close>

definition active_ok :: "(string \<Rightarrow> 32 word) \<Rightarrow> spill_store \<Rightarrow> (nat \<Rightarrow> spill_record list) \<Rightarrow> active_segment \<Rightarrow> bool" where
  "active_ok crc32 st A a \<longleftrightarrow>
     Suc (ac_id a) = ss_next_id st
     \<and> (\<exists>bytes. segment_bytes (ss_dir st) (ac_id a) = Some bytes \<and> bytes @ ac_buffer a = frames crc32 (A (ac_id a))
          \<and> ac_flushed_len a \<le> length bytes)
     \<and> ac_len a = length (frames crc32 (A (ac_id a)))
     \<and> (\<exists>i. ac_flushed_len a = length (frames crc32 (take i (A (ac_id a)))))
     \<and> ss_committed st \<le> SpillPos (ac_id a) (ac_flushed_len a)"

definition store_ok :: "(string \<Rightarrow> 32 word) \<Rightarrow> spill_store \<Rightarrow> (nat \<Rightarrow> spill_record list) \<Rightarrow> bool" where
  "store_ok crc32 st A \<longleftrightarrow>
     names_ok (ss_dir st) \<and> files_ok crc32 (ss_dir st) A \<and> starts_ok crc32 (ss_dir st) A (ss_committed st)
     \<and> ss_committed st \<le> SpillPos (ss_next_id st) 0
     \<and> (\<forall>sid bytes. segment_bytes (ss_dir st) sid = Some bytes \<longrightarrow> sid < ss_next_id st)
     \<and> (\<forall>sid. ss_next_id st \<le> sid \<longrightarrow> A sid = [])
     \<and> (\<forall>sid bytes. segment_bytes (ss_dir st) sid = Some bytes \<longrightarrow>
          (\<forall>a. ss_active st = Some a \<longrightarrow> ac_id a \<noteq> sid) \<longrightarrow> SpillPos sid (length bytes) \<le> ss_committed st)
     \<and> (\<forall>a. ss_active st = Some a \<longrightarrow> active_ok crc32 st A a)"

lemma store_okD:
  assumes "store_ok crc32 st A"
  shows "names_ok (ss_dir st)" "files_ok crc32 (ss_dir st) A" "starts_ok crc32 (ss_dir st) A (ss_committed st)"
    "ss_committed st \<le> SpillPos (ss_next_id st) 0"
    "segment_bytes (ss_dir st) sid = Some bytes \<Longrightarrow> sid < ss_next_id st"
    "ss_next_id st \<le> sid \<Longrightarrow> A sid = []"
    "segment_bytes (ss_dir st) sid = Some bytes \<Longrightarrow> (\<And>a. ss_active st = Some a \<Longrightarrow> ac_id a \<noteq> sid) \<Longrightarrow>
       SpillPos sid (length bytes) \<le> ss_committed st"
    "ss_active st = Some a \<Longrightarrow> active_ok crc32 st A a"
  using assms unfolding store_ok_def by blast+

lemma pos_max_eq [simp]: "max (SpillPos s o1) (SpillPos s o2) = SpillPos s (max o1 o2)"
  by (auto simp: max_def pos_defs)

text \<open>The active segment is closed: its file holds the appended records, or a part of them and of one more.\<close>

lemma store_ok_closed:
  assumes ok: "store_ok crc32 st A" and a: "ss_active st = Some a" and x: "writable crc32 x"
    and b: "segment_bytes (ss_dir st) (ac_id a) = Some bytes"
    and new: "bytes @ new = take (length bytes + length new) (frames crc32 (A (ac_id a) @ [x]))"
      "length bytes + length new < length (frames crc32 (A (ac_id a) @ [x]))"
    and st': "ss_dir st' = extend_file (ac_id a) new (ss_dir st) \<or> new = [] \<and> ss_dir st' = ss_dir st" "ss_active st' = None" "ss_next_id st' = ss_next_id st"
      "ss_committed st' = SpillPos (ss_next_id st) 0 \<or> ss_committed st' = SpillPos (ac_id a) (length bytes + length new)"
  shows "store_ok crc32 st' A"
proof -
  note d = store_okD [OF ok]
  have nxt: "Suc (ac_id a) = ss_next_id st" using d(8) [OF a] by (simp add: active_ok_def)
  have seg: "segment_bytes (ss_dir st') sid = (if sid = ac_id a then Some (bytes @ new) else segment_bytes (ss_dir st) sid)" for sid
    using b st'(1) by (auto simp: segment_bytes_extend)
  have files: "files_ok crc32 (ss_dir st') A"
    unfolding files_ok_def
  proof (intro conjI allI impI)
    fix sid rec assume "rec \<in> set (A sid)"
    then show "writable crc32 rec" using d(2) unfolding files_ok_def by blast
  next
    fix sid content assume f: "segment_bytes (ss_dir st') sid = Some content"
    show "\<exists>x. writable crc32 x \<and> content = take (length content) (frames crc32 (A sid @ [x])) \<and> length content < length (frames crc32 (A sid @ [x]))"
    proof (cases "sid = ac_id a")
      case True
      with f have c: "content = bytes @ new" by (simp add: seg)
      then have l: "length content = length bytes + length new" by simp
      show ?thesis
      proof (intro exI [of _ x] conjI)
        show "content = take (length content) (frames crc32 (A sid @ [x]))" unfolding l True using c new(1) by (rule trans)
        show "length content < length (frames crc32 (A sid @ [x]))" unfolding l True by (rule new(2))
      qed (rule x)
    next
      case False
      with f have "segment_bytes (ss_dir st) sid = Some content" by (simp add: seg)
      with d(2) show ?thesis unfolding files_ok_def by blast
    qed
  qed
  have starts: "starts_ok crc32 (ss_dir st') A (ss_committed st')"
    using st'(4) seg by (auto simp: starts_ok_def intro: exI [of _ 0])
  have ids: "sid \<le> ac_id a" if "segment_bytes (ss_dir st') sid = Some content" for sid content
    using that d(5) [of sid] nxt by (auto simp: seg split: if_splits)
  have behind: "SpillPos sid (length content) \<le> ss_committed st'" if f: "segment_bytes (ss_dir st') sid = Some content" for sid content
  proof (cases "sid = ac_id a")
    case True
    with f have "length content = length bytes + length new" by (auto simp: seg)
    with True nxt st'(4) show ?thesis by (auto simp: pos_defs)
  next
    case False
    with ids [OF f] have "sid < ac_id a" by simp
    with nxt st'(4) show ?thesis by (auto simp: pos_defs)
  qed
  have bound: "ss_committed st' \<le> SpillPos (ss_next_id st') 0" using st'(3,4) nxt by (auto simp: pos_defs)
  have old: "\<And>sid content. segment_bytes (ss_dir st') sid = Some content \<Longrightarrow> sid < ss_next_id st'"
    using ids nxt st'(3) by (simp add: less_Suc_eq_le [symmetric])
  have names: "names_ok (ss_dir st')" using d(1) st'(1) by auto
  have none: "\<And>sid. ss_next_id st' \<le> sid \<Longrightarrow> A sid = []" using d(6) st'(3) by simp
  show ?thesis unfolding store_ok_def using names files starts bound old none behind st'(2) by simp
qed

lemma files_active:
  assumes "store_ok crc32 st A" and "ss_active st = Some a"
  obtains bytes where "segment_bytes (ss_dir st) (ac_id a) = Some bytes" "bytes @ ac_buffer a = frames crc32 (A (ac_id a))"
    "ac_flushed_len a \<le> length bytes" "ac_len a = length bytes + length (ac_buffer a)"
proof -
  from store_okD(8) [OF assms] obtain bytes where b: "segment_bytes (ss_dir st) (ac_id a) = Some bytes"
      "bytes @ ac_buffer a = frames crc32 (A (ac_id a))" "ac_flushed_len a \<le> length bytes"
      "ac_len a = length (frames crc32 (A (ac_id a)))"
    unfolding active_ok_def by blast
  have "ac_len a = length bytes + length (ac_buffer a)" unfolding b(4) b(2) [symmetric] by simp
  with that b show ?thesis by blast
qed

lemma store_ok_abandon:
  assumes ok: "store_ok crc32 st A" and a: "ss_active st = Some a"
    and p: "pend = ac_buffer a @ part" "part = take (length part) (frame crc32 x)" "writable crc32 x"
    and short: "length part < length (frame crc32 x)"
  shows "store_ok crc32 (abandon_active pend k stat st) A"
proof -
  from files_active [OF ok a] obtain bytes where b: "segment_bytes (ss_dir st) (ac_id a) = Some bytes"
      "bytes @ ac_buffer a = frames crc32 (A (ac_id a))" by blast
  have "Suc (ac_id a) = ss_next_id st" "ss_committed st \<le> SpillPos (ac_id a) (ac_flushed_len a)"
    using store_okD(8) [OF ok a] by (simp_all add: active_ok_def)
  then have c: "max (SpillPos (ss_next_id st) 0) (ss_committed st) = SpillPos (ss_next_id st) 0"
    by (auto simp: max_def pos_defs)
  define new where "new = take k pend"
  have whole: "bytes @ pend = take (length bytes + length pend) (frames crc32 (A (ac_id a) @ [x]))"
  proof -
    have "frames crc32 (A (ac_id a) @ [x]) = (bytes @ ac_buffer a) @ frame crc32 x" by (simp add: b(2))
    then show ?thesis using p(2) by (simp add: p(1))
  qed
  have len: "length bytes + length pend < length (frames crc32 (A (ac_id a) @ [x]))"
    using short arg_cong [OF b(2), of length] by (simp add: p(1))
  have "bytes @ new = take (length bytes + length new) (bytes @ pend)" by (simp add: new_def min_def)
  then have "bytes @ new = take (length bytes + length new) (frames crc32 (A (ac_id a) @ [x]))"
    by (metis whole take_take min_def new_def length_take min.cobounded1 add_le_cancel_left)
  moreover have "length bytes + length new < length (frames crc32 (A (ac_id a) @ [x]))" using len by (simp add: new_def)
  ultimately show ?thesis
    by (rule store_ok_closed [OF ok a p(3) b(1)]) (simp_all add: abandon_active_def Let_def a new_def c)
qed

lemma store_ok_abandon_buffer:
  assumes "store_ok crc32 st A" and "ss_active st = Some a"
  shows "store_ok crc32 (abandon_active (ac_buffer a) k stat st) A"
proof (rule store_ok_abandon [OF assms, of _ "[]"])
  show "writable crc32 small_record" by (rule small_record_writable)
  show "length [] < length (frame crc32 small_record)" using small_frame by simp
qed simp_all

lemma store_ok_close:
  assumes ok: "store_ok crc32 st A" and c: "close_active io st = (r, st')"
  shows "store_ok crc32 st' A" and "ss_active st' = None" and "ss_next_id st' = ss_next_id st"
proof -
  have "store_ok crc32 st' A \<and> ss_active st' = None \<and> ss_next_id st' = ss_next_id st"
  proof (cases "ss_active st")
    case None
    with ok c show ?thesis by (simp add: close_active_def)
  next
    case (Some a)
    from files_active [OF ok Some] obtain bytes where b: "segment_bytes (ss_dir st) (ac_id a) = Some bytes"
        "bytes @ ac_buffer a = frames crc32 (A (ac_id a))" "ac_flushed_len a \<le> length bytes"
        "ac_len a = length bytes + length (ac_buffer a)" by blast
    have ids: "Suc (ac_id a) = ss_next_id st" "ss_committed st \<le> SpillPos (ac_id a) (ac_flushed_len a)"
      using store_okD(8) [OF ok Some] by (simp_all add: active_ok_def)
    define new where "new = (if fl_ok io then ac_buffer a else take (fl_moved io) (ac_buffer a))"
    obtain k where k: "new = take k (ac_buffer a)" unfolding new_def by (metis take_all order_refl)
    have x: "0 < length (frame crc32 small_record)" by (rule small_frame)
    have bn: "bytes @ new = take (length bytes + length new) (frames crc32 (A (ac_id a) @ [small_record]))"
      using k by (simp add: b(2) [symmetric] take_append min_def)
    have ln: "length bytes + length new < length (frames crc32 (A (ac_id a) @ [small_record]))"
      using x k arg_cong [OF b(2), of length] by (auto simp: min_def)
    have "ss_committed st' = (if fl_ok io then SpillPos (ac_id a) (length bytes + length new) else SpillPos (ss_next_id st) 0)"
    proof (cases "fl_ok io")
      case True
      then have "ss_committed st' = max (SpillPos (ac_id a) (ac_len a)) (ss_committed st)"
        using c Some by (auto simp: close_active_def Let_def)
      moreover have "ss_committed st \<le> SpillPos (ac_id a) (ac_len a)"
        using ids(2) b(3,4) by (auto simp: pos_defs)
      ultimately show ?thesis using True b(4) by (simp add: new_def max_absorb1)
    next
      case False
      then have "ss_committed st' = max (SpillPos (ss_next_id st) 0) (max (SpillPos (ac_id a) (min (if fl_stat io then file_len (ac_id a) (extend_file (ac_id a) new (ss_dir st)) else 0) (ac_len a))) (ss_committed st))"
        using c Some by (auto simp: close_active_def Let_def new_def)
      moreover have "ss_committed st \<le> SpillPos (ss_next_id st) 0" by (rule store_okD(4) [OF ok])
      moreover have "SpillPos (ac_id a) n \<le> SpillPos (ss_next_id st) 0" for n using ids(1) by (auto simp: pos_defs)
      ultimately show ?thesis using False by (simp add: max_absorb1)
    qed
    moreover have "ss_dir st' = extend_file (ac_id a) new (ss_dir st)" "ss_active st' = None" "ss_next_id st' = ss_next_id st"
      using c Some by (auto simp: close_active_def Let_def new_def)
    ultimately show ?thesis using store_ok_closed [OF ok Some small_record_writable b(1) bn ln, of st'] by (cases "fl_ok io") simp_all
  qed
  then show "store_ok crc32 st' A" "ss_active st' = None" "ss_next_id st' = ss_next_id st" by simp_all
qed

lemma store_ok_open:
  assumes ok: "store_ok crc32 st A" and a: "ss_active st = None" and o: "open_active ready now st = (r, st')"
  shows "store_ok crc32 st' A" and "r \<Longrightarrow> ss_active st' \<noteq> None" and "\<not> r \<Longrightarrow> st' = st"
proof -
  note d = store_okD [OF ok]
  show "store_ok crc32 st' A"
  proof (cases r)
    case False
    with o ok show ?thesis by (auto simp: open_active_def Let_def split: if_splits)
  next
    case True
    define sid where "sid = ss_next_id st"
    define new where "new = \<lparr>ac_id = sid, ac_buffer = [], ac_len = 0, ac_flushed_len = 0, ac_dirty = False, ac_last_sync = now\<rparr>"
    have st': "ss_dir st' = put_segment sid [] (ss_dir st)" "ss_active st' = Some new" "ss_next_id st' = Suc sid" "ss_committed st' = ss_committed st"
      using o True by (auto simp: open_active_def Let_def sid_def new_def split: if_splits)
    have none: "A sid = []" by (rule d(6)) (simp add: sid_def)
    have fresh: "segment_bytes (ss_dir st) sid = None" using d(5) [of sid] unfolding sid_def by (cases "segment_bytes (ss_dir st) (ss_next_id st)") auto
    have files: "files_ok crc32 (ss_dir st') A"
      unfolding files_ok_def
    proof (intro conjI allI impI)
      fix t rec assume "rec \<in> set (A t)"
      then show "writable crc32 rec" using d(2) unfolding files_ok_def by blast
    next
      fix t content assume f: "segment_bytes (ss_dir st') t = Some content"
      show "\<exists>x. writable crc32 x \<and> content = take (length content) (frames crc32 (A t @ [x])) \<and> length content < length (frames crc32 (A t @ [x]))"
      proof (cases "t = sid")
        case True
        with f have "content = []" by (simp add: st')
        then show ?thesis using small_record_writable small_frame [of crc32] by (intro exI [of _ small_record]) simp
      next
        case False
        with f have "segment_bytes (ss_dir st) t = Some content" by (simp add: st')
        with d(2) show ?thesis unfolding files_ok_def by blast
      qed
    qed
    have starts: "starts_ok crc32 (ss_dir st') A (ss_committed st')"
      using d(3) none by (auto simp: starts_ok_def st')
    have act: "active_ok crc32 st' A new"
      using d(4) none by (auto simp: active_ok_def st' new_def sid_def)
    have behind: "SpillPos t (length content) \<le> ss_committed st'"
      if "segment_bytes (ss_dir st') t = Some content" "t \<noteq> sid" for t content
      using that d(7) [of t content] a by (simp add: st')
    have bound: "ss_committed st' \<le> SpillPos (ss_next_id st') 0" using d(4) by (auto simp: st' sid_def pos_defs)
    have old: "t < ss_next_id st'" if "segment_bytes (ss_dir st') t = Some content" for t content
    proof (cases "t = sid")
      case False
      with that d(5) [of t content] show ?thesis by (simp add: st' sid_def)
    qed (simp add: st')
    have later: "A t = []" if "ss_next_id st' \<le> t" for t using that d(6) [of t] by (simp add: st' sid_def)
    have names: "names_ok (ss_dir st')" using d(1) st'(1) by simp
    have behind': "\<forall>sida bytes. segment_bytes (ss_dir st') sida = Some bytes \<longrightarrow> (\<forall>a. ss_active st' = Some a \<longrightarrow> ac_id a \<noteq> sida)
        \<longrightarrow> SpillPos sida (length bytes) \<le> ss_committed st'"
      using behind by (auto simp: st'(2) new_def)
    show ?thesis unfolding store_ok_def using names files starts bound old later behind' act st'(2) by simp
  qed
  show "r \<Longrightarrow> ss_active st' \<noteq> None" "\<not> r \<Longrightarrow> st' = st" using o by (auto simp: open_active_def Let_def split: if_splits)
qed

text \<open>The active segment goes on: bytes move from the buffer to the file, records are added behind it.\<close>

lemma store_ok_active:
  assumes ok: "store_ok crc32 st A" and a: "ss_active st = Some a"
    and w: "\<forall>rec\<in>set recs. writable crc32 rec" and A': "A' = A(ac_id a := A (ac_id a) @ recs)"
    and st': "ss_dir st' = extend_file (ac_id a) new (ss_dir st) \<or> new = [] \<and> ss_dir st' = ss_dir st" "ss_active st' = Some a'" "ss_next_id st' = ss_next_id st"
    and a': "ac_id a' = ac_id a" "new @ ac_buffer a' = ac_buffer a @ frames crc32 recs"
      "ac_len a' = ac_len a + length (frames crc32 recs)"
      "ac_flushed_len a' = ac_flushed_len a \<or> ac_buffer a' = [] \<and> ac_flushed_len a' = ac_len a'"
    and c: "ss_committed st' = ss_committed st \<or> ss_committed st' = SpillPos (ac_id a) (ac_flushed_len a')"
  shows "store_ok crc32 st' A'"
proof -
  note d = store_okD [OF ok]
  from files_active [OF ok a] obtain bytes where b: "segment_bytes (ss_dir st) (ac_id a) = Some bytes"
      "bytes @ ac_buffer a = frames crc32 (A (ac_id a))" "ac_flushed_len a \<le> length bytes"
      "ac_len a = length bytes + length (ac_buffer a)" by blast
  have act: "Suc (ac_id a) = ss_next_id st" "ss_committed st \<le> SpillPos (ac_id a) (ac_flushed_len a)"
      "ac_len a = length (frames crc32 (A (ac_id a)))" "\<exists>i. ac_flushed_len a = length (frames crc32 (take i (A (ac_id a))))"
    using d(8) [OF a] by (simp_all add: active_ok_def)
  have seg: "segment_bytes (ss_dir st') sid = (if sid = ac_id a then Some (bytes @ new) else segment_bytes (ss_dir st) sid)" for sid
    using b(1) st'(1) by (auto simp: segment_bytes_extend)
  have whole: "(bytes @ new) @ ac_buffer a' = frames crc32 (A' (ac_id a))"
    using a'(2) b(2) by (simp add: A')
  have files: "files_ok crc32 (ss_dir st') A'"
    unfolding files_ok_def
  proof (intro conjI allI impI)
    fix t rec assume "rec \<in> set (A' t)"
    then show "writable crc32 rec" using d(2) w unfolding files_ok_def A' by (cases "t = ac_id a") auto
  next
    fix t content assume f: "segment_bytes (ss_dir st') t = Some content"
    show "\<exists>x. writable crc32 x \<and> content = take (length content) (frames crc32 (A' t @ [x])) \<and> length content < length (frames crc32 (A' t @ [x]))"
    proof (cases "t = ac_id a")
      case True
      with f have "content = bytes @ new" by (simp add: seg)
      with whole True have "frames crc32 (A' t @ [small_record]) = content @ ac_buffer a' @ frame crc32 small_record" by simp
      then show ?thesis using small_record_writable small_frame [of crc32]
        by (intro exI [of _ small_record] conjI) simp_all
    next
      case False
      with f have "segment_bytes (ss_dir st) t = Some content" "A' t = A t" by (simp_all add: seg A')
      with d(2) show ?thesis unfolding files_ok_def by auto
    qed
  qed
  have boundary: "\<exists>i. n = length (frames crc32 (take i (A' (ac_id a))))" if "\<exists>i. n = length (frames crc32 (take i (A (ac_id a))))" for n
  proof -
    from that obtain i where "n = length (frames crc32 (take i (A (ac_id a))))" by blast
    moreover have "take i (A (ac_id a)) = take (min i (length (A (ac_id a)))) (A' (ac_id a))" by (simp add: A' min_def)
    ultimately show ?thesis by metis
  qed
  have len': "ac_len a' = length (frames crc32 (A' (ac_id a)))" using a'(3) act(3) by (simp add: A')
  have fl: "\<exists>i. ac_flushed_len a' = length (frames crc32 (take i (A' (ac_id a))))"
    using a'(4)
  proof
    assume "ac_flushed_len a' = ac_flushed_len a"
    with boundary [OF act(4)] show ?thesis by simp
  next
    assume "ac_buffer a' = [] \<and> ac_flushed_len a' = ac_len a'"
    with len' show ?thesis by (intro exI [of _ "length (A' (ac_id a))"]) simp
  qed
  have grows: "ac_flushed_len a \<le> ac_flushed_len a'" using a'(3,4) b(3,4) by auto
  have inside: "ac_flushed_len a' \<le> length (bytes @ new)"
    using a'(4)
  proof
    assume "ac_buffer a' = [] \<and> ac_flushed_len a' = ac_len a'"
    then show ?thesis using whole len' by simp
  next
    assume "ac_flushed_len a' = ac_flushed_len a"
    then show ?thesis using b(3) by simp
  qed
  have old_start: "starts_ok crc32 (ss_dir st') A' (ss_committed st)"
  proof (cases "sp_segment (ss_committed st) = ac_id a")
    case False
    with d(3) show ?thesis by (simp add: starts_ok_def seg A')
  next
    case True
    then have "sp_offset (ss_committed st) \<le> ac_flushed_len a" using act(2) by (auto simp: pos_defs)
    then consider "sp_offset (ss_committed st) < length bytes" | "sp_offset (ss_committed st) = ac_flushed_len a" using b(3) by linarith
    then have "\<exists>i. sp_offset (ss_committed st) = length (frames crc32 (take i (A (ac_id a))))"
    proof cases
      case 1
      with d(3) True b(1) show ?thesis by (simp add: starts_ok_def)
    qed (use act(4) in simp)
    from boundary [OF this] True show ?thesis by (simp add: starts_ok_def)
  qed
  have starts: "starts_ok crc32 (ss_dir st') A' (ss_committed st')"
    using c old_start fl by (auto simp: starts_ok_def)
  have committed: "ss_committed st' \<le> SpillPos (ac_id a) (ac_flushed_len a')" "ss_committed st \<le> ss_committed st'"
    using c act(2) grows by (auto simp: pos_defs)
  have bound: "ss_committed st' \<le> SpillPos (ss_next_id st') 0"
    by (rule order_trans [OF committed(1)]) (use act(1) st'(3) in \<open>auto simp: pos_defs\<close>)
  have old: "t < ss_next_id st'" if "segment_bytes (ss_dir st') t = Some content" for t content
    using that d(5) [of t content] act(1) by (auto simp: seg st'(3) split: if_splits)
  have later: "A' t = []" if "ss_next_id st' \<le> t" for t using that d(6) [of t] act(1) st'(3) by (simp add: A')
  have behind: "\<forall>t content. segment_bytes (ss_dir st') t = Some content \<longrightarrow> (\<forall>x. ss_active st' = Some x \<longrightarrow> ac_id x \<noteq> t)
      \<longrightarrow> SpillPos t (length content) \<le> ss_committed st'"
  proof (intro allI impI)
    fix t content assume f: "segment_bytes (ss_dir st') t = Some content" and "\<forall>x. ss_active st' = Some x \<longrightarrow> ac_id x \<noteq> t"
    then have "t \<noteq> ac_id a" using st'(2) a'(1) by auto
    with f d(7) [of t content] a have "SpillPos t (length content) \<le> ss_committed st" by (simp add: seg)
    with committed(2) show "SpillPos t (length content) \<le> ss_committed st'" by simp
  qed
  have "active_ok crc32 st' A' a'"
    unfolding active_ok_def a'(1) using act(1) st'(3) seg whole inside len' fl committed(1) by auto
  moreover have "names_ok (ss_dir st')" using d(1) st'(1) by auto
  ultimately show ?thesis unfolding store_ok_def using files starts bound old later behind st'(2) by simp
qed

lemma store_ok_flush:
  assumes ok: "store_ok crc32 st A" and f: "store_flush io st = (r, st')"
  shows "store_ok crc32 st' A"
proof (cases "ss_active st")
  case None
  with ok f show ?thesis by (simp add: store_flush_def)
next
  case (Some a)
  from files_active [OF ok Some] have len: "ac_flushed_len a = ac_len a \<Longrightarrow> ac_buffer a = []" by force
  show ?thesis
  proof (cases "ac_flushed_len a \<noteq> ac_len a \<and> \<not> fl_ok io")
    case True
    with f Some have "st' = abandon_active (ac_buffer a) (fl_moved io) (fl_stat io) st" by (simp add: store_flush_def)
    with store_ok_abandon_buffer [OF ok Some] show ?thesis by simp
  next
    case False
    define a' where "a' = (if ac_flushed_len a \<noteq> ac_len a then a\<lparr>ac_buffer := [], ac_flushed_len := ac_len a\<rparr> else a)"
    have a': "ac_id a' = ac_id a" "ac_buffer a' = []" "ac_len a' = ac_len a" "ac_flushed_len a' = ac_len a"
      using len by (auto simp: a'_def)
    show ?thesis
    proof (cases "ac_flushed_len a = ac_len a")
      case False
      with f Some \<open>\<not> (ac_flushed_len a \<noteq> ac_len a \<and> \<not> fl_ok io)\<close>
      have st': "ss_dir st' = extend_file (ac_id a) (ac_buffer a) (ss_dir st)" "ss_active st' = Some a'"
        "ss_next_id st' = ss_next_id st" "ss_committed st' = SpillPos (ac_id a) (ac_len a)"
        by (auto simp: store_flush_def Let_def a'_def)
      show ?thesis by (rule store_ok_active [OF ok Some, of "[]" _ _ "ac_buffer a" a']) (use a' st' in simp_all)
    next
      case True
      with f Some have st': "st' = st\<lparr>ss_committed := SpillPos (ac_id a) (ac_len a)\<rparr>" by (simp add: store_flush_def Let_def)
      show ?thesis by (rule store_ok_active [OF ok Some, of "[]" _ _ "[]" a]) (use st' Some True len in simp_all)
    qed
  qed
qed

lemma store_ok_sync:
  assumes ok: "store_ok crc32 st A" and f: "maybe_sync now io st = (r, st')"
  shows "store_ok crc32 st' A"
proof (cases "ss_active st")
  case None
  with ok f show ?thesis by (simp add: maybe_sync_def)
next
  case (Some a)
  show ?thesis
  proof (cases "ac_dirty a \<and> max 0 (now - ac_last_sync a) \<ge> spill_sync_interval")
    case False
    with f Some have "st' = st" unfolding maybe_sync_def by (simp split: if_splits)
    with ok show ?thesis by simp
  next
    case True
    then have due: "ac_dirty a" "max 0 (now - ac_last_sync a) \<ge> spill_sync_interval" by simp_all
    define a' where "a' = a\<lparr>ac_buffer := [], ac_flushed_len := ac_len a\<rparr>"
    consider "\<not> fl_ok io" | "fl_ok io" "\<not> fl_sync io" | "fl_ok io" "fl_sync io" by blast
    then show ?thesis
    proof cases
      case 1
      then have "st' = abandon_active (ac_buffer a) (fl_moved io) (fl_stat io) st"
        using f Some due by (simp add: maybe_sync_def)
      with store_ok_abandon_buffer [OF ok Some] show ?thesis by simp
    next
      case 2
      then have st': "st' = st\<lparr>ss_dir := extend_file (ac_id a) (ac_buffer a) (ss_dir st), ss_active := Some a'\<rparr>"
        using f Some due by (simp add: maybe_sync_def a'_def Let_def)
      show ?thesis by (rule store_ok_active [OF ok Some, of "[]" _ _ "ac_buffer a" a']) (use st' in \<open>simp_all add: a'_def\<close>)
    next
      case 3
      then have st': "st' = st\<lparr>ss_dir := extend_file (ac_id a) (ac_buffer a) (ss_dir st),
          ss_active := Some (a'\<lparr>ac_dirty := False, ac_last_sync := now\<rparr>), ss_committed := SpillPos (ac_id a) (ac_len a)\<rparr>"
        using f Some due by (simp add: maybe_sync_def a'_def Let_def)
      show ?thesis
        by (rule store_ok_active [OF ok Some, of "[]" _ _ "ac_buffer a" "a'\<lparr>ac_dirty := False, ac_last_sync := now\<rparr>"])
          (use st' in \<open>simp_all add: a'_def\<close>)
    qed
  qed
qed

lemma store_ok_delete:
  assumes ok: "store_ok crc32 st A"
  shows "store_ok crc32 (delete_segment refused sid st) A"
proof (cases "\<exists>active \<in> set_option (ss_active st). ac_id active = sid")
  case True
  with ok show ?thesis by (simp add: delete_segment_def)
next
  case False
  note d = store_okD [OF ok]
  obtain removed dir where r: "remove_file_with_retry delete_attempts (refused sid) sid (ss_dir st) = (removed, dir)" by fastforce
  let ?st = "delete_segment refused sid st"
  have same: "ss_active ?st = ss_active st" "ss_next_id ?st = ss_next_id st" "ss_committed ?st = ss_committed st"
    using False r by (simp_all add: delete_segment_def)
  have seg: "segment_bytes (ss_dir ?st) t = (if t = sid \<and> removed then None else segment_bytes (ss_dir st) t)" for t
    using False r segment_bytes_remove [OF r] by (simp add: delete_segment_def)
  have sub: "segment_bytes (ss_dir st) t = Some content" if "segment_bytes (ss_dir ?st) t = Some content" for t content
    using that seg by (auto split: if_splits)
  have names: "names_ok (ss_dir ?st)" using False r names_ok_remove [OF r d(1)] d(1) by (simp add: delete_segment_def)
  have files: "files_ok crc32 (ss_dir ?st) A" using d(2) sub unfolding files_ok_def by blast
  have starts: "starts_ok crc32 (ss_dir ?st) A (ss_committed ?st)" using d(3) sub unfolding starts_ok_def same by blast
  have act: "active_ok crc32 ?st A a" if "ss_active st = Some a" for a
  proof -
    have "ac_id a \<noteq> sid" using False that by simp
    then show ?thesis using d(8) [OF that] by (simp add: active_ok_def same seg)
  qed
  have old: "\<And>t content. segment_bytes (ss_dir ?st) t = Some content \<Longrightarrow> t < ss_next_id st" using d(5) sub by blast
  have behind: "\<forall>t content. segment_bytes (ss_dir ?st) t = Some content \<longrightarrow> (\<forall>x. ss_active st = Some x \<longrightarrow> ac_id x \<noteq> t)
      \<longrightarrow> SpillPos t (length content) \<le> ss_committed st"
    using d(7) sub by blast
  show ?thesis unfolding store_ok_def same using names files starts d(4,6) old behind act same by simp
qed

lemma store_ok_deletes: "store_ok crc32 st A \<Longrightarrow> store_ok crc32 (delete_segments refused sids st) A"
  unfolding delete_segments_def by (induction sids arbitrary: st) (simp_all add: store_ok_delete)

lemma delete_segment_same [simp]:
  "ss_active (delete_segment refused sid st) = ss_active st" "ss_next_id (delete_segment refused sid st) = ss_next_id st"
  "ss_committed (delete_segment refused sid st) = ss_committed st" "ss_replay_start (delete_segment refused sid st) = ss_replay_start st"
  by (auto simp: delete_segment_def split: prod.split)

lemma delete_segments_same [simp]:
  "ss_active (delete_segments refused sids st) = ss_active st" "ss_next_id (delete_segments refused sids st) = ss_next_id st"
  "ss_committed (delete_segments refused sids st) = ss_committed st" "ss_replay_start (delete_segments refused sids st) = ss_replay_start st"
  unfolding delete_segments_def by (induction sids arbitrary: st) simp_all

lemma store_ok_fields: "store_ok crc32 (st\<lparr>ss_segments := s, ss_pending_deletes := p, ss_replay_start := r\<rparr>) A = store_ok crc32 st A"
  by (simp add: store_ok_def active_ok_def)

lemma store_ok_closing: "store_ok crc32 st A \<Longrightarrow> store_ok crc32 (snd (close_active io st)) A"
  by (metis prod.collapse store_ok_close(1))

lemma close_next_id [simp]: "ss_next_id (snd (close_active io st)) = ss_next_id st" "ss_active (snd (close_active io st)) = None"
  by (auto simp: close_active_def Let_def split: option.split)

lemma store_ok_release:
  "store_ok crc32 st A \<Longrightarrow> store_ok crc32 (snd (release_consumed io refused consumed st)) A"
  by (auto simp: release_consumed_def Let_def intro!: store_ok_deletes store_ok_closing split: option.split)

text \<open>The committed position moves to the boundary of a roll, which no active segment is before.\<close>

definition roll_boundary :: "spill_store \<Rightarrow> spill_pos \<Rightarrow> bool" where
  "roll_boundary st b \<longleftrightarrow> sp_offset b = 0 \<and>
     (case ss_active st of None \<Rightarrow> sp_segment b \<le> ss_next_id st | Some a \<Rightarrow> sp_segment b \<le> ac_id a)"

lemma store_ok_boundary:
  assumes ok: "store_ok crc32 st A" and b: "roll_boundary st b"
    and st': "ss_dir st' = ss_dir st" "ss_active st' = ss_active st" "ss_next_id st' = ss_next_id st"
      "ss_committed st' = max (ss_committed st) b"
  shows "store_ok crc32 st' A"
proof -
  note d = store_okD [OF ok]
  let ?c = "max (ss_committed st) b"
  have "b = SpillPos (sp_segment b) 0" using b by (simp add: roll_boundary_def spill_pos.expand)
  then have starts: "starts_ok crc32 (ss_dir st) A ?c" using d(3) starts_ok_start [of crc32 "ss_dir st" A "sp_segment b"]
    by (simp add: max_def)
  have "b \<le> SpillPos (ss_next_id st) 0"
    using b d(8) by (cases "ss_active st") (auto simp: roll_boundary_def active_ok_def pos_defs)
  then have bound: "?c \<le> SpillPos (ss_next_id st) 0" using d(4) by simp
  have act: "?c \<le> SpillPos (ac_id a) (ac_flushed_len a)" if "ss_active st = Some a" for a
    using b d(8) [OF that] that by (auto simp: roll_boundary_def active_ok_def pos_defs)
  show ?thesis
    unfolding store_ok_def st' using d starts bound act st'
    by (auto simp: active_ok_def le_max_iff_disj)
qed

lemma store_ok_purge_before:
  assumes "store_ok crc32 st A" and "roll_boundary st b"
  shows "store_ok crc32 (snd (purge_before refused b st)) A"
proof -
  let ?st = "delete_segments refused (filter (\<lambda>sid. sid < sp_segment b) (map fst (ss_segments st))) st"
  have "store_ok crc32 ?st A" by (rule store_ok_deletes [OF assms(1)])
  moreover have "roll_boundary ?st b" using assms(2) by (simp add: roll_boundary_def split: option.splits)
  ultimately show ?thesis by (rule store_ok_boundary) (simp_all add: purge_before_def Let_def)
qed

lemma store_ok_roll:
  assumes "store_ok crc32 st A"
  shows "store_ok crc32 (snd (store_roll io st)) A"
proof -
  have "roll_boundary (snd (close_active io st)) (SpillPos (ss_next_id st) 0)" by (simp add: roll_boundary_def)
  from store_ok_boundary [OF store_ok_closing [OF assms] this] show ?thesis by (simp add: store_roll_def Let_def)
qed

lemma store_ok_purge_all:
  assumes "store_ok crc32 st A"
  shows "store_ok crc32 (snd (purge_all io refused st)) A"
proof -
  define st1 where "st1 = delete_segments refused (map fst (ss_segments (snd (close_active io st)))) (snd (close_active io st))"
  have ok: "store_ok crc32 st1 A" unfolding st1_def by (intro store_ok_deletes store_ok_closing assms)
  have next': "ss_next_id st1 = ss_next_id st" "ss_active st1 = None" by (simp_all add: st1_def)
  have "roll_boundary st1 (SpillPos (ss_next_id st) 0)" using next' by (simp add: roll_boundary_def)
  from store_ok_boundary [OF ok this] show ?thesis
    using store_okD(4) [OF ok] next' by (simp add: purge_all_def Let_def st1_def [symmetric] max_def)
qed

lemma store_ok_retry:
  assumes "store_ok crc32 st A"
  shows "store_ok crc32 (snd (retry_pending_deletes refused st)) A"
proof -
  have "store_ok crc32 (st\<lparr>ss_pending_deletes := []\<rparr>) A" using assms by (simp add: store_ok_def active_ok_def)
  then show ?thesis by (simp add: retry_pending_deletes_def Let_def store_ok_deletes)
qed

text \<open>
  A record is appended when the call says so, or when the call failed although the whole frame got
  into the file.
\<close>

definition append_log ::
  "(string \<Rightarrow> 32 word) \<Rightarrow> spill_record \<Rightarrow> nat option \<times> spill_store \<Rightarrow> (nat \<Rightarrow> spill_record list) \<Rightarrow> nat \<Rightarrow> spill_record list" where
  "append_log crc32 rec result A =
     (let sid = ss_next_id (snd result) - 1
      in if fst result \<noteq> None \<or> segment_bytes (ss_dir (snd result)) sid = Some (frames crc32 (A sid @ [rec]))
         then A(sid := A sid @ [rec]) else A)"

lemma store_ok_added:
  assumes ok: "store_ok crc32 st A" and none: "ss_active st = None" and w: "writable crc32 rec"
    and f: "segment_bytes (ss_dir st) sid = Some (frames crc32 (A sid @ [rec]))"
  shows "store_ok crc32 st (A(sid := A sid @ [rec]))"
proof -
  note d = store_okD [OF ok]
  let ?A = "A(sid := A sid @ [rec])"
  have "files_ok crc32 (ss_dir st) ?A"
    unfolding files_ok_def
  proof (intro conjI allI impI)
    fix t x assume "x \<in> set (?A t)"
    then show "writable crc32 x" using d(2) w unfolding files_ok_def by (cases "t = sid") auto
  next
    fix t content assume c: "segment_bytes (ss_dir st) t = Some content"
    show "\<exists>x. writable crc32 x \<and> content = take (length content) (frames crc32 (?A t @ [x])) \<and> length content < length (frames crc32 (?A t @ [x]))"
    proof (cases "t = sid")
      case True
      with c f have "frames crc32 (?A t @ [small_record]) = content @ frame crc32 small_record" by simp
      then show ?thesis using small_record_writable small_frame [of crc32] by (intro exI [of _ small_record] conjI) simp_all
    next
      case False
      with c d(2) show ?thesis unfolding files_ok_def by auto
    qed
  qed
  moreover have "starts_ok crc32 (ss_dir st) ?A (ss_committed st)"
  proof (cases "sp_segment (ss_committed st) = sid")
    case True
    have "SpillPos sid (length (frames crc32 (A sid @ [rec]))) \<le> ss_committed st" using d(7) [OF f] none by simp
    with True f show ?thesis by (auto simp: starts_ok_def pos_defs)
  next
    case False
    with d(3) show ?thesis by (simp add: starts_ok_def)
  qed
  moreover have "sid < ss_next_id st" by (rule d(5) [OF f])
  ultimately show ?thesis using d none by (simp add: store_ok_def)
qed

lemma store_ok_write:
  assumes ok: "store_ok crc32 st A" and a: "ss_active st = Some a" and w: "writable crc32 rec"
    and f: "write_frame io (frame crc32 rec) (length (frame crc32 rec)) st = (r, st')"
  shows "store_ok crc32 st' (append_log crc32 rec (r, st') A)"
proof (cases "ap_write io")
  case True
  define whole where "whole = ac_buffer a @ frame crc32 rec"
  define a' where "a' = a\<lparr>ac_buffer := drop (ap_moved io) whole, ac_len := ac_len a + length (frame crc32 rec), ac_dirty := True\<rparr>"
  have st': "r \<noteq> None" "ss_dir st' = extend_file (ac_id a) (take (ap_moved io) whole) (ss_dir st)" "ss_active st' = Some a'"
    "ss_next_id st' = ss_next_id st" "ss_committed st' = ss_committed st"
    using f a True by (auto simp: write_frame_def Let_def whole_def a'_def)
  have nid: "ss_next_id st' - 1 = ac_id a" using store_okD(8) [OF ok a] st'(4) by (auto simp: active_ok_def)
  have "store_ok crc32 st' (A(ac_id a := A (ac_id a) @ [rec]))"
    by (rule store_ok_active [OF ok a, of "[rec]" _ _ "take (ap_moved io) whole" a'])
      (use w st' in \<open>simp_all add: a'_def\<close>, simp add: whole_def)
  then show ?thesis using st'(1) nid by (simp add: append_log_def Let_def)
next
  case False
  define whole where "whole = ac_buffer a @ frame crc32 rec"
  have r: "r = None" "st' = abandon_active whole (ap_moved io) (ap_stat io) st"
    using f a False by (auto simp: write_frame_def Let_def whole_def)
  have cut: "st' = abandon_active (take (ap_moved io) whole) (ap_moved io) (ap_stat io) st"
    using r(2) a by (simp add: abandon_active_def Let_def)
  have none: "ss_active st' = None" using r(2) a by (simp add: abandon_active_def Let_def)
  have added: "store_ok crc32 st' A \<Longrightarrow> ?thesis"
    using store_ok_added [OF _ none w] r(1) by (simp add: append_log_def Let_def)
  show ?thesis
  proof (cases "ap_moved io < length whole")
    case True
    show ?thesis
    proof (cases "ap_moved io \<le> length (ac_buffer a)")
      case True
      then have "st' = abandon_active (ac_buffer a) (ap_moved io) (ap_stat io) st"
        using r(2) a by (simp add: abandon_active_def whole_def Let_def)
      then show ?thesis using store_ok_abandon_buffer [OF ok a] added by simp
    next
      case False
      define part where "part = take (ap_moved io - length (ac_buffer a)) (frame crc32 rec)"
      have "take (ap_moved io) whole = ac_buffer a @ part" using False by (simp add: whole_def part_def)
      moreover have "part = take (length part) (frame crc32 rec)" by (simp add: part_def min_def)
      moreover have "length part < length (frame crc32 rec)" using True False by (simp add: part_def whole_def)
      ultimately have "store_ok crc32 st' A" unfolding cut using store_ok_abandon [OF ok a _ _ w] by blast
      then show ?thesis by (rule added)
    qed
  next
    case False
    then have moved: "take (ap_moved io) whole = whole" by simp
    \<comment> \<open>the whole frame reached the file: as if it had been appended, and the segment then closed\<close>
    define a' where "a' = a\<lparr>ac_buffer := [], ac_len := ac_len a + length (frame crc32 rec), ac_flushed_len := ac_len a + length (frame crc32 rec)\<rparr>"
    define st1 where "st1 = st\<lparr>ss_dir := extend_file (ac_id a) whole (ss_dir st), ss_active := Some a'\<rparr>"
    let ?A = "A(ac_id a := A (ac_id a) @ [rec])"
    have ok1: "store_ok crc32 st1 ?A"
      by (rule store_ok_active [OF ok a, of "[rec]" _ _ whole a']) (use w in \<open>simp_all add: st1_def a'_def whole_def\<close>)
    have a1: "ss_active st1 = Some a'" by (simp add: st1_def)
    from files_active [OF ok a] obtain bytes where b: "segment_bytes (ss_dir st) (ac_id a) = Some bytes"
        "bytes @ ac_buffer a = frames crc32 (A (ac_id a))" by blast
    have nid: "ss_next_id st' - 1 = ac_id a"
      using store_okD(8) [OF ok a] r(2) a by (auto simp: active_ok_def abandon_active_def Let_def)
    have "segment_bytes (ss_dir st') (ac_id a) = Some (bytes @ whole)"
      using r(2) a b(1) by (simp add: abandon_active_def Let_def moved segment_bytes_extend)
    moreover have "bytes @ whole = frames crc32 (A (ac_id a) @ [rec])" using b(2) by (simp add: whole_def)
    ultimately have log: "append_log crc32 rec (r, st') A = ?A" using nid by (simp add: append_log_def Let_def)
    have c: "ss_committed st' = SpillPos (ss_next_id st1) 0"
    proof -
      have "ss_committed st \<le> SpillPos (ss_next_id st) 0" by (rule store_okD(4) [OF ok])
      then show ?thesis using r(2) a by (simp add: abandon_active_def Let_def st1_def max_def)
    qed
    from files_active [OF ok1 a1] obtain content where content: "segment_bytes (ss_dir st1) (ac_id a') = Some content"
        "content = frames crc32 (?A (ac_id a'))" by (auto simp: a'_def)
    have "store_ok crc32 st' ?A"
      by (rule store_ok_closed [OF ok1 a1 small_record_writable content(1), of "[]"])
        (use content(2) small_frame c r(2) a in \<open>simp_all add: abandon_active_def Let_def st1_def a'_def moved\<close>)
    then show ?thesis by (simp only: log)
  qed
qed

lemma store_ok_append:
  assumes ok: "store_ok crc32 st A" and w: "writable crc32 rec"
    and f: "store_append crc32 now io rec st = (r, st')"
  shows "store_ok crc32 st' (append_log crc32 rec (r, st') A)"
proof -
  have failed: "store_ok crc32 st' (append_log crc32 rec (None, st') A)" if "store_ok crc32 st' A" "ss_active st' = None"
    using that store_ok_added [OF that w] by (simp add: append_log_def Let_def)
  define full where "full = (case ss_active st of None \<Rightarrow> False
      | Some active \<Rightarrow> ac_len active > 0 \<and> ac_len active + length (frame crc32 rec) > ss_segment_max st)"
  obtain closed st1 where c: "(if full then close_active (ap_close io) st else (True, st)) = (closed, st1)" by fastforce
  have ok1: "store_ok crc32 st1 A" using c ok store_ok_close(1) by (auto split: if_splits)
  have closed1: "ss_active st1 = None" if "\<not> closed" using c that store_ok_close(2) [OF ok] by (auto split: if_splits)
  obtain opened st2 where o: "(if ss_active st1 = None then open_active (ap_open io) now st1 else (True, st1)) = (opened, st2)" by fastforce
  have ok2: "store_ok crc32 st2 A" using o ok1 store_ok_open(1) [OF ok1] by (auto split: if_splits)
  have open2: "opened \<Longrightarrow> ss_active st2 \<noteq> None" "\<not> opened \<Longrightarrow> ss_active st2 = None"
    using o store_ok_open(2,3) [OF ok1, of "ap_open io" now opened st2] by (auto split: if_splits)
  have step: "(r, st') = (if \<not> closed then (None, st1) else if \<not> opened then (None, st2)
      else write_frame io (frame crc32 rec) (length (frame crc32 rec)) st2)"
    using f [symmetric] unfolding store_append_def writable_frame(1) [OF w] sum.case prod.case full_def [symmetric] Let_def c o
    by (simp split: if_splits)
  consider "\<not> closed" | "closed" "\<not> opened" | "closed" "opened" by blast
  then show ?thesis
  proof cases
    case 1
    with step failed ok1 closed1 show ?thesis by simp
  next
    case 2
    with step failed ok2 open2 show ?thesis by simp
  next
    case 3
    with open2 obtain a where "ss_active st2 = Some a" by blast
    moreover have "write_frame io (frame crc32 rec) (length (frame crc32 rec)) st2 = (r, st')" using step 3 by (metis)
    ultimately show ?thesis by (rule store_ok_write [OF ok2 _ w])
  qed
qed

section \<open>A crash and the next start\<close>

text \<open>What is in the buffer is lost, but for a part that still reached the file.\<close>

definition crashed :: "nat \<Rightarrow> spill_store \<Rightarrow> spill_dir" where
  "crashed k st =
     (case ss_active st of None \<Rightarrow> ss_dir st
      | Some a \<Rightarrow> extend_file (ac_id a) (take k (ac_buffer a)) (ss_dir st))"

definition existing :: "spill_dir \<Rightarrow> (nat \<Rightarrow> spill_record list) \<Rightarrow> nat \<Rightarrow> spill_record list" where
  "existing dir A sid = (if segment_bytes dir sid = None then [] else A sid)"

lemma store_ok_reopen:
  assumes names: "names_ok dir" and files: "files_ok crc32 dir A"
    and small: "\<forall>sid. segment_bytes dir sid \<noteq> None \<longrightarrow> sid \<le> u64_max"
  shows "store_ok crc32 (store_open m dir) (existing dir A)"
proof -
  let ?st = "store_open m dir"
  define L where "L = list_segments dir"
  have mem: "(sid, len) \<in> set L \<longleftrightarrow> (\<exists>content. segment_bytes dir sid = Some content \<and> len = length content)" for sid len
    using set_list_segments [OF names, of sid len] small by (auto simp: L_def)
  have srt: "sorted (map fst L)" by (simp add: L_def sorted_list_segments)
  have st: "ss_dir ?st = dir" "ss_active ?st = None" "ss_next_id ?st = (if L = [] then 1 else fst (last L) + 1)"
    "ss_committed ?st = (if L = [] then SpillPos 1 0 else SpillPos (fst (last L)) (snd (last L)))"
    by (simp_all add: store_open_def Let_def L_def)
  have le_last: "sid \<le> fst (last L)" if "(sid, len) \<in> set L" for sid len
  proof -
    from that obtain i where i: "i < length L" "L ! i = (sid, len)" by (metis in_set_conv_nth)
    then have "fst (L ! i) \<le> fst (L ! (length L - 1))" using sorted_nth_mono [OF srt, of i "length L - 1"] by simp
    then show ?thesis using i by (cases L rule: rev_cases) (auto simp: nth_append)
  qed
  have lst: "\<exists>content. segment_bytes dir (fst (last L)) = Some content \<and> snd (last L) = length content" if "L \<noteq> []"
    using mem [of "fst (last L)" "snd (last L)"] last_in_set [OF that] by simp
  have in_L: "(sid, length content) \<in> set L" if "segment_bytes dir sid = Some content" for sid content
    using mem that by blast
  have f: "files_ok crc32 dir (existing dir A)"
    using files unfolding files_ok_def existing_def by auto
  have starts: "starts_ok crc32 dir (existing dir A) (ss_committed ?st)"
  proof (cases "L = []")
    case True
    then show ?thesis by (simp add: st starts_ok_start)
  next
    case False
    with lst show ?thesis by (auto simp: st starts_ok_def)
  qed
  have old: "sid < ss_next_id ?st" if "segment_bytes dir sid = Some content" for sid content
    using le_last [OF in_L [OF that]] in_L [OF that] by (auto simp: st)
  have later: "existing dir A sid = []" if "ss_next_id ?st \<le> sid" for sid
    using old [of sid] that by (cases "segment_bytes dir sid") (auto simp: existing_def)
  have behind: "SpillPos sid (length content) \<le> ss_committed ?st" if s: "segment_bytes dir sid = Some content" for sid content
  proof -
    from in_L [OF s] have ne: "L \<noteq> []" by auto
    from lst [OF this] le_last [OF in_L [OF s]] s ne show ?thesis by (cases "sid = fst (last L)") (auto simp: st pos_defs)
  qed
  have "ss_committed ?st \<le> SpillPos (ss_next_id ?st) 0" by (auto simp: st pos_defs)
  then show ?thesis unfolding store_ok_def using names f starts old later behind by (simp add: st(1,2))
qed

lemma store_ok_crash:
  assumes ok: "store_ok crc32 st A"
  shows "names_ok (crashed k st)" "files_ok crc32 (crashed k st) A"
    "segment_bytes (crashed k st) sid \<noteq> None \<longleftrightarrow> segment_bytes (ss_dir st) sid \<noteq> None"
proof -
  have "store_ok crc32 (abandon_active (ac_buffer a) k True st) A \<and> ss_dir (abandon_active (ac_buffer a) k True st) = crashed k st"
    if "ss_active st = Some a" for a
    using store_ok_abandon_buffer [OF ok that, of k True] that by (simp add: crashed_def abandon_active_def Let_def)
  moreover have "ss_dir st = crashed k st" if "ss_active st = None" using that by (simp add: crashed_def)
  ultimately show "names_ok (crashed k st)" "files_ok crc32 (crashed k st) A"
    using store_okD(1,2) [OF ok] store_okD(1,2) by (cases "ss_active st"; metis)+
  show "segment_bytes (crashed k st) sid \<noteq> None \<longleftrightarrow> segment_bytes (ss_dir st) sid \<noteq> None"
    by (auto simp: crashed_def segment_bytes_extend split: option.split)
qed

section \<open>Runs of the store\<close>

text \<open>
  The operations in any order, with any failures, and restarts after a crash. With \<open>syncs\<close> the
  system's sync calls do not fail. The records handed to the store are such that they can be
  encoded; any other is refused and changes nothing.
\<close>

inductive spill_step ::
  "(string \<Rightarrow> 32 word) \<Rightarrow> bool \<Rightarrow> spill_store \<times> (nat \<Rightarrow> spill_record list) \<Rightarrow> spill_store \<times> (nat \<Rightarrow> spill_record list) \<Rightarrow> bool"
  for crc32 :: "string \<Rightarrow> 32 word" and syncs :: bool where
  Append: "writable crc32 rec \<Longrightarrow> spill_step crc32 syncs (st, A)
     (snd (store_append crc32 now io rec st), append_log crc32 rec (store_append crc32 now io rec st) A)"
| Flush: "spill_step crc32 syncs (st, A) (snd (store_flush io st), A)"
| Sync: "(syncs \<Longrightarrow> fl_sync io) \<Longrightarrow> spill_step crc32 syncs (st, A) (snd (maybe_sync now io st), A)"
| Close: "spill_step crc32 syncs (st, A) (snd (close_active io st), A)"
| Release: "spill_step crc32 syncs (st, A) (snd (release_consumed io refused consumed st), A)"
| Roll: "spill_step crc32 syncs (st, A) (snd (store_roll io st), A)"
| PurgeBefore: "roll_boundary st b \<Longrightarrow> spill_step crc32 syncs (st, A) (snd (purge_before refused b st), A)"
| PurgeAll: "spill_step crc32 syncs (st, A) (snd (purge_all io refused st), A)"
| Retry: "spill_step crc32 syncs (st, A) (snd (retry_pending_deletes refused st), A)"
| Restart: "\<forall>sid. segment_bytes (ss_dir st) sid \<noteq> None \<longrightarrow> sid \<le> u64_max \<Longrightarrow>
     spill_step crc32 syncs (st, A) (store_open m (crashed k st), existing (crashed k st) A)"

inductive spill_reachable :: "(string \<Rightarrow> 32 word) \<Rightarrow> bool \<Rightarrow> spill_store \<times> (nat \<Rightarrow> spill_record list) \<Rightarrow> bool"
  for crc32 :: "string \<Rightarrow> 32 word" and syncs :: bool where
  Start: "spill_reachable crc32 syncs (store_open m [], \<lambda>_. [])"
| Step: "spill_reachable crc32 syncs s \<Longrightarrow> spill_step crc32 syncs s s' \<Longrightarrow> spill_reachable crc32 syncs s'"

lemma store_ok_step: "spill_step crc32 syncs s s' \<Longrightarrow> store_ok crc32 (fst s) (snd s) \<Longrightarrow> store_ok crc32 (fst s') (snd s')"
proof (induction rule: spill_step.induct)
  case (Append rec st A now io)
  then show ?case using store_ok_append [of crc32 st A rec now io "fst (store_append crc32 now io rec st)" "snd (store_append crc32 now io rec st)"]
    by simp
next
  case (Flush st A io)
  then show ?case using store_ok_flush [of crc32 st A io "fst (store_flush io st)" "snd (store_flush io st)"] by simp
next
  case (Sync io st A now)
  then show ?case using store_ok_sync [of crc32 st A now io "fst (maybe_sync now io st)" "snd (maybe_sync now io st)"] by simp
next
  case (Restart st A m k)
  from Restart(2) have ok: "store_ok crc32 st A" by simp
  have "\<forall>sid. segment_bytes (crashed k st) sid \<noteq> None \<longrightarrow> sid \<le> u64_max"
    using Restart(1) unfolding store_ok_crash(3) [OF ok] .
  from store_ok_reopen [OF store_ok_crash(1,2) [OF ok] this] show ?case by simp
qed (simp_all add: store_ok_closing store_ok_release store_ok_roll store_ok_purge_before store_ok_purge_all store_ok_retry)

lemma store_ok_start: "store_ok crc32 (store_open m []) (\<lambda>_. [])"
proof -
  have "segment_bytes [] sid = None" for sid by (simp add: segment_bytes_def)
  moreover from this have "existing [] (\<lambda>_. []) = (\<lambda>_. [])" by (intro ext) (simp add: existing_def)
  ultimately show ?thesis using store_ok_reopen [of "[]" crc32 "\<lambda>_. []" m] by (simp add: names_ok_def files_ok_def)
qed

lemma store_ok_reachable: "spill_reachable crc32 syncs s \<Longrightarrow> store_ok crc32 (fst s) (snd s)"
  by (induction rule: spill_reachable.induct) (simp_all add: store_ok_start store_ok_step)

text \<open>The first position to read is a position where a record may start.\<close>

lemma replay_start_ok: "starts_ok crc32 dir A (ss_replay_start (store_open m dir))"
  by (auto simp: store_open_def Let_def starts_ok_start)

section \<open>What was flushed stays\<close>

text \<open>
  An operation may delete the file of a segment or add to it, and never takes back what it committed.
\<close>

definition kept :: "nat \<Rightarrow> spill_store \<Rightarrow> spill_store \<Rightarrow> bool" where
  "kept sid st st' \<longleftrightarrow>
     (\<forall>new. segment_bytes (ss_dir st') sid = Some new \<longrightarrow> (\<exists>old. segment_bytes (ss_dir st) sid = Some old \<and> prefix old new))
     \<and> ss_committed st \<le> ss_committed st'"

lemma kept_refl: "kept sid st st"
  by (simp add: kept_def)

lemma kept_trans: "kept sid st1 st2 \<Longrightarrow> kept sid st2 st3 \<Longrightarrow> kept sid st1 st3"
  unfolding kept_def by (meson order_trans prefix_order.order_trans)

lemma kept_extend:
  assumes "ss_dir st' = extend_file t new (ss_dir st)" and "ss_committed st \<le> ss_committed st'"
  shows "kept sid st st'"
  using assms by (auto simp: kept_def segment_bytes_extend split: if_splits)

lemma kept_same: "ss_dir st' = ss_dir st \<Longrightarrow> ss_committed st \<le> ss_committed st' \<Longrightarrow> kept sid st st'"
  by (simp add: kept_def)

lemma kept_abandon: "kept sid st (abandon_active pend k stat st)"
proof (cases "ss_active st")
  case (Some a)
  show ?thesis
    by (rule kept_extend [of _ "ac_id a" "take k pend"]) (simp_all add: abandon_active_def Let_def Some)
qed (simp add: abandon_active_def kept_refl)

lemma kept_close: "kept sid st (snd (close_active io st))"
proof (cases "ss_active st")
  case (Some a)
  show ?thesis
    by (rule kept_extend [of _ "ac_id a" "if fl_ok io then ac_buffer a else take (fl_moved io) (ac_buffer a)"])
      (simp_all add: close_active_def Let_def Some le_max_iff_disj)
qed (simp add: close_active_def kept_refl)

lemma active_committed:
  assumes "store_ok crc32 st A" and "ss_active st = Some a"
  shows "ss_committed st \<le> SpillPos (ac_id a) (ac_len a)"
  using store_okD(8) [OF assms] files_active [OF assms] by (force simp: active_ok_def pos_defs)

lemma kept_flush:
  assumes "store_ok crc32 st A"
  shows "kept sid st (snd (store_flush io st))"
proof (cases "ss_active st")
  case (Some a)
  note c = active_committed [OF assms Some]
  show ?thesis
  proof (cases "ac_flushed_len a \<noteq> ac_len a \<and> \<not> fl_ok io")
    case True
    then have "snd (store_flush io st) = abandon_active (ac_buffer a) (fl_moved io) (fl_stat io) st"
      using Some by (simp add: store_flush_def)
    then show ?thesis by (simp only: kept_abandon)
  next
    case False
    with c Some show ?thesis
      by (cases "ac_flushed_len a = ac_len a")
        (auto simp: store_flush_def Let_def intro: kept_extend [of _ "ac_id a" "ac_buffer a"] kept_same)
  qed
qed (simp add: store_flush_def kept_refl)

lemma kept_sync:
  assumes "store_ok crc32 st A"
  shows "kept sid st (snd (maybe_sync now io st))"
proof (cases "ss_active st")
  case (Some a)
  note c = active_committed [OF assms Some]
  show ?thesis
  proof (cases "ac_dirty a \<and> max 0 (now - ac_last_sync a) \<ge> spill_sync_interval")
    case due: True
    show ?thesis
    proof (cases "fl_ok io")
      case True
      with due Some c show ?thesis
        by (intro kept_extend [of _ "ac_id a" "ac_buffer a"]) (simp_all add: maybe_sync_def Let_def)
    qed (use due Some in \<open>simp add: maybe_sync_def kept_abandon\<close>)
  next
    case False
    with Some have "snd (maybe_sync now io st) = st" unfolding maybe_sync_def by (simp only: if_False option.case snd_conv)
    then show ?thesis by (simp add: kept_refl)
  qed
qed (simp add: maybe_sync_def kept_refl)

lemma kept_delete: "kept sid st (delete_segment refused t st)"
proof (cases "\<exists>active \<in> set_option (ss_active st). ac_id active = t")
  case False
  obtain removed dir where r: "remove_file_with_retry delete_attempts (refused t) t (ss_dir st) = (removed, dir)" by fastforce
  show ?thesis using False r segment_bytes_remove [OF r] by (auto simp: kept_def delete_segment_def)
qed (simp add: delete_segment_def kept_refl)

lemma kept_deletes: "kept sid st (delete_segments refused ts st)"
  unfolding delete_segments_def
  by (induction ts arbitrary: st) (auto simp: kept_refl intro: kept_trans [OF kept_delete])

lemma kept_release: "kept sid st (snd (release_consumed io refused consumed st))"
  by (auto simp: release_consumed_def Let_def intro: kept_deletes kept_trans [OF kept_close kept_deletes] split: option.split)

lemma kept_committed: "kept sid st st1 \<Longrightarrow> ss_dir st' = ss_dir st1 \<Longrightarrow> ss_committed st1 \<le> ss_committed st' \<Longrightarrow> kept sid st st'"
  by (blast intro: kept_trans kept_same)

lemma kept_purges:
  "kept sid st (snd (store_roll io st))" "kept sid st (snd (purge_before refused b st))" "kept sid st (snd (retry_pending_deletes refused st))"
proof -
  show "kept sid st (snd (store_roll io st))"
    by (rule kept_committed [OF kept_close [of sid st io]]) (simp_all add: store_roll_def Let_def)
  show "kept sid st (snd (purge_before refused b st))"
    by (rule kept_committed [OF kept_deletes]) (simp_all add: purge_before_def Let_def)
  have "kept sid st (st\<lparr>ss_pending_deletes := []\<rparr>)" by (simp add: kept_same)
  then show "kept sid st (snd (retry_pending_deletes refused st))"
    by (simp add: retry_pending_deletes_def Let_def kept_trans [OF _ kept_deletes])
qed

lemma kept_purge_all:
  assumes "store_ok crc32 st A"
  shows "kept sid st (snd (purge_all io refused st))"
proof -
  define st1 where "st1 = delete_segments refused (map fst (ss_segments (snd (close_active io st)))) (snd (close_active io st))"
  have k: "kept sid st st1" unfolding st1_def by (intro kept_trans [OF kept_close kept_deletes])
  have "store_ok crc32 st1 A" unfolding st1_def by (intro store_ok_deletes store_ok_closing assms)
  from store_okD(4) [OF this] show ?thesis
    by (intro kept_committed [OF k]) (simp_all add: purge_all_def Let_def st1_def)
qed

lemma kept_open: "sid < ss_next_id st \<Longrightarrow> kept sid st (snd (open_active ready now st))"
  by (auto simp: open_active_def Let_def kept_def)

lemma kept_write: "kept sid st (snd (write_frame io bytes n st))"
proof (cases "ss_active st")
  case (Some a)
  show ?thesis
  proof (cases "ap_write io")
    case True
    show ?thesis
      by (rule kept_extend [of _ "ac_id a" "take (ap_moved io) (ac_buffer a @ bytes)"])
        (simp_all add: write_frame_def Let_def Some True)
  qed (simp add: write_frame_def Some kept_abandon Let_def)
qed (simp add: write_frame_def kept_refl)

lemma kept_append:
  assumes "sid < ss_next_id st"
  shows "kept sid st (snd (store_append crc32 now io rec st))"
proof (cases "write_record crc32 rec")
  case (Inl e)
  then show ?thesis by (simp add: store_append_def kept_refl)
next
  case (Inr w)
  define full where "full = (case ss_active st of None \<Rightarrow> False
      | Some active \<Rightarrow> ac_len active > 0 \<and> ac_len active + snd w > ss_segment_max st)"
  define r1 where "r1 = (if full then close_active (ap_close io) st else (True, st))"
  define r2 where "r2 = (if ss_active (snd r1) = None then open_active (ap_open io) now (snd r1) else (True, snd r1))"
  have k1: "kept sid st (snd r1)" "ss_next_id (snd r1) = ss_next_id st" by (simp_all add: r1_def kept_close kept_refl)
  have "kept sid (snd r1) (snd r2)" using k1(2) assms by (simp add: r2_def kept_open kept_refl)
  with k1(1) have k2: "kept sid st (snd r2)" by (rule kept_trans)
  have k3: "kept sid st (snd (write_frame io (fst w) (snd w) (snd r2)))" by (rule kept_trans [OF k2 kept_write])
  have "snd (store_append crc32 now io rec st) \<in> {snd r1, snd r2, snd (write_frame io (fst w) (snd w) (snd r2))}"
    unfolding store_append_def Inr sum.case case_prod_unfold full_def [symmetric] Let_def r1_def [symmetric] r2_def [symmetric]
    by simp
  then show ?thesis using k1 k2 k3 by auto
qed

lemma append_log_prefix: "prefix (A sid) (append_log crc32 rec r A sid)"
  by (simp add: append_log_def Let_def)

text \<open>
  Records are safe in a segment: its file begins with them, the log of the segment does, and they
  are behind the committed position.
\<close>

definition safe_in :: "(string \<Rightarrow> 32 word) \<Rightarrow> nat \<Rightarrow> spill_record list \<Rightarrow> spill_store \<times> (nat \<Rightarrow> spill_record list) \<Rightarrow> bool" where
  "safe_in crc32 sid recs s \<longleftrightarrow>
     (\<exists>bytes. segment_bytes (ss_dir (fst s)) sid = Some bytes \<and> prefix (frames crc32 recs) bytes)
     \<and> prefix recs (snd s sid) \<and> SpillPos sid (length (frames crc32 recs)) \<le> ss_committed (fst s)"

lemma safe_kept:
  assumes "safe_in crc32 sid recs (st, A)" and "kept sid st st'" and "segment_bytes (ss_dir st') sid \<noteq> None"
    and "prefix (A sid) (A' sid)"
  shows "safe_in crc32 sid recs (st', A')"
proof -
  from assms(3) obtain new where n: "segment_bytes (ss_dir st') sid = Some new" by blast
  with assms(2) obtain old where o: "segment_bytes (ss_dir st) sid = Some old" "prefix old new" by (auto simp: kept_def)
  with assms(1) have "prefix (frames crc32 recs) new" by (auto simp: safe_in_def intro: prefix_order.order_trans)
  moreover have "prefix recs (A' sid)" using assms(1,4) by (auto simp: safe_in_def intro: prefix_order.order_trans)
  moreover have "SpillPos sid (length (frames crc32 recs)) \<le> ss_committed st'"
    using assms(1,2) by (auto simp: safe_in_def kept_def intro: order_trans)
  ultimately show ?thesis using n by (simp add: safe_in_def)
qed

lemma safe_restart:
  assumes ok: "store_ok crc32 st A" and s: "safe_in crc32 sid recs (st, A)"
    and small: "\<forall>sid. segment_bytes (ss_dir st) sid \<noteq> None \<longrightarrow> sid \<le> u64_max"
  shows "safe_in crc32 sid recs (store_open m (crashed k st), existing (crashed k st) A)"
proof -
  have "\<forall>sid. segment_bytes (crashed k st) sid \<noteq> None \<longrightarrow> sid \<le> u64_max"
    using small unfolding store_ok_crash(3) [OF ok] .
  from store_ok_reopen [OF store_ok_crash(1,2) [OF ok] this]
  have ok': "store_ok crc32 (store_open m (crashed k st)) (existing (crashed k st) A)" .
  have st': "ss_dir (store_open m (crashed k st)) = crashed k st" "ss_active (store_open m (crashed k st)) = None"
    by (simp_all add: store_open_def Let_def)
  from s obtain old where o: "segment_bytes (ss_dir st) sid = Some old" "prefix (frames crc32 recs) old" "prefix recs (A sid)"
    by (auto simp: safe_in_def)
  obtain new where n: "segment_bytes (crashed k st) sid = Some new" "prefix old new"
  proof (cases "ss_active st")
    case None
    with o(1) that [of old] show ?thesis by (simp add: crashed_def)
  next
    case (Some a)
    show ?thesis
      by (rule that [of "if sid = ac_id a then old @ take k (ac_buffer a) else old"])
        (use o(1) Some in \<open>auto simp: crashed_def segment_bytes_extend\<close>)
  qed
  with o(2) have p: "prefix (frames crc32 recs) new" by (blast intro: prefix_order.order_trans)
  have "SpillPos sid (length new) \<le> ss_committed (store_open m (crashed k st))"
    using store_okD(7) [OF ok', of sid new] st' n(1) by simp
  moreover have "SpillPos sid (length (frames crc32 recs)) \<le> SpillPos sid (length new)"
    using prefix_length_le [OF p] by (simp add: pos_defs)
  ultimately have "SpillPos sid (length (frames crc32 recs)) \<le> ss_committed (store_open m (crashed k st))" by (rule order_trans [rotated])
  with n(1) p o(3) st'(1) show ?thesis by (simp add: safe_in_def existing_def)
qed

lemma safe_step:
  assumes "spill_step crc32 syncs s s'" and "store_ok crc32 (fst s) (snd s)" and "safe_in crc32 sid recs s"
    and "segment_bytes (ss_dir (fst s')) sid \<noteq> None"
  shows "safe_in crc32 sid recs s'"
  using assms
proof (induction rule: spill_step.induct)
  case (Append rec st A now io)
  then have "sid < ss_next_id st" by (auto simp: safe_in_def dest: store_okD(5))
  then show ?case using Append by (intro safe_kept [OF _ kept_append _ append_log_prefix]) simp_all
next
  case (Restart st A m k)
  then show ?case by (simp add: safe_restart)
qed (simp_all add: safe_kept [OF _ kept_flush] safe_kept [OF _ kept_sync] safe_kept [OF _ kept_close] safe_kept [OF _ kept_release]
    safe_kept [OF _ kept_purges(1)] safe_kept [OF _ kept_purges(2)] safe_kept [OF _ kept_purges(3)] safe_kept [OF _ kept_purge_all])

text \<open>A run during which the file of a segment is there.\<close>

inductive spill_run ::
  "(string \<Rightarrow> 32 word) \<Rightarrow> nat \<Rightarrow> spill_store \<times> (nat \<Rightarrow> spill_record list) \<Rightarrow> spill_store \<times> (nat \<Rightarrow> spill_record list) \<Rightarrow> bool"
  for crc32 :: "string \<Rightarrow> 32 word" and sid :: nat and s :: "spill_store \<times> (nat \<Rightarrow> spill_record list)" where
  Here: "spill_run crc32 sid s s"
| Then: "spill_run crc32 sid s s' \<Longrightarrow> spill_step crc32 False s' s'' \<Longrightarrow> segment_bytes (ss_dir (fst s'')) sid \<noteq> None
    \<Longrightarrow> spill_run crc32 sid s s''"

lemma safe_run:
  assumes "spill_run crc32 sid s s'" and "store_ok crc32 (fst s) (snd s)" and "safe_in crc32 sid recs s"
  shows "store_ok crc32 (fst s') (snd s') \<and> safe_in crc32 sid recs s'"
  using assms
proof (induction rule: spill_run.induct)
  case (Then s' s'')
  then show ?case using store_ok_step [OF Then(2)] safe_step [OF Then(2) _ _ Then(3)] by blast
qed simp

text \<open>What is safe is what a reader of the segment gets.\<close>

lemma fit_frames_prefix: "prefix recs (fit crc32 (length (frames crc32 recs) + k) (recs @ ys))"
  by (simp add: fit_append)

lemma safe_pending:
  assumes ok: "store_ok crc32 st A" and s: "safe_in crc32 sid recs (st, A)"
  shows "prefix recs (pending crc32 (ss_dir st) A (SpillPos sid 0) (ss_committed st))"
proof -
  from s obtain bytes where b: "segment_bytes (ss_dir st) sid = Some bytes" "prefix (frames crc32 recs) bytes" "prefix recs (A sid)"
      "SpillPos sid (length (frames crc32 recs)) \<le> ss_committed st" by (auto simp: safe_in_def)
  from b(3) obtain ys where ys: "A sid = recs @ ys" by (auto simp: prefix_def)
  define n where "n = (if sid = sp_segment (ss_committed st) then min (sp_offset (ss_committed st)) (length bytes) else length bytes)"
  have n: "length (frames crc32 recs) \<le> n" using b(4) prefix_length_le [OF b(2)] by (auto simp: n_def pos_defs)
  have first: "SpillPos sid 0 \<le> ss_committed st" by (rule order_trans [OF _ b(4)]) (simp add: pos_defs)
  have "prefix recs (fit crc32 n (A sid))"
    using fit_frames_prefix [of recs crc32 "n - length (frames crc32 recs)" ys] n by (simp add: ys)
  moreover have "seg_pending crc32 (ss_dir st) A (ss_committed st) sid 0 = fit crc32 n (A sid)"
    by (simp add: seg_pending_def b(1) n_def)
  ultimately show ?thesis using pending_le [OF store_okD(2) [OF ok] first] by (simp add: prefix_order.order_trans)
qed

lemma flushed_safe:
  assumes ok: "store_ok crc32 st A" and a: "ss_active st = Some a" and f: "store_flush io st = (Some c, st')"
  shows "safe_in crc32 (ac_id a) (A (ac_id a)) (st', A)"
proof -
  from files_active [OF ok a] obtain bytes where b: "segment_bytes (ss_dir st) (ac_id a) = Some bytes"
    "bytes @ ac_buffer a = frames crc32 (A (ac_id a))" "ac_flushed_len a \<le> length bytes" "ac_len a = length bytes + length (ac_buffer a)" .
  have len: "ac_len a = length (frames crc32 (A (ac_id a)))" by (simp add: b(4) b(2) [symmetric])
  have empty: "ac_flushed_len a = ac_len a \<Longrightarrow> ac_buffer a = []" using b(3,4) by simp
  have "segment_bytes (ss_dir st') (ac_id a) = Some (bytes @ ac_buffer a) \<and> ss_committed st' = SpillPos (ac_id a) (ac_len a)"
    using f a b(1) empty by (auto simp: store_flush_def Let_def segment_bytes_extend split: if_splits)
  then show ?thesis by (simp add: safe_in_def b(2) len)
qed

section \<open>When a file may be deleted\<close>

text \<open>When syncs do not fail, what is flushed is committed.\<close>

definition synced :: "spill_store \<Rightarrow> bool" where
  "synced st \<longleftrightarrow>
     (\<forall>a. ss_active st = Some a \<longrightarrow> ac_flushed_len a = 0 \<or> SpillPos (ac_id a) (ac_flushed_len a) \<le> ss_committed st)"

lemma synced_closed: "ss_active st = None \<Longrightarrow> synced st"
  by (simp add: synced_def)

lemma synced_committed: "synced st1 \<Longrightarrow> ss_active st' = ss_active st1 \<Longrightarrow> ss_committed st1 \<le> ss_committed st' \<Longrightarrow> synced st'"
  unfolding synced_def by (metis order_trans)

lemma abandon_closed [simp]: "ss_active (abandon_active pend k stat st) = None"
  by (simp add: abandon_active_def Let_def split: option.split)

lemma synced_flush: "synced (snd (store_flush io st))" if "synced st"
proof (cases "ss_active st")
  case (Some a)
  show ?thesis
  proof (cases "ac_flushed_len a = ac_len a")
    case False
    with Some show ?thesis by (cases "fl_ok io") (simp_all add: store_flush_def Let_def synced_def)
  qed (use Some in \<open>simp add: store_flush_def Let_def synced_def\<close>)
qed (use that in \<open>simp add: store_flush_def\<close>)

lemma synced_sync: "synced (snd (maybe_sync now io st))" if "synced st" and "fl_sync io"
proof (cases "ss_active st")
  case (Some a)
  show ?thesis
  proof (cases "ac_dirty a \<and> max 0 (now - ac_last_sync a) \<ge> spill_sync_interval")
    case True
    with Some that(2) show ?thesis by (cases "fl_ok io") (simp_all add: maybe_sync_def Let_def synced_def)
  next
    case False
    with Some have "snd (maybe_sync now io st) = st" unfolding maybe_sync_def by (simp only: if_False option.case snd_conv)
    with that show ?thesis by simp
  qed
qed (use that in \<open>simp add: maybe_sync_def\<close>)

lemma synced_open: "synced st \<Longrightarrow> synced (snd (open_active ready now st))"
  by (auto simp: open_active_def Let_def synced_def)

lemma synced_write: "synced st \<Longrightarrow> synced (snd (write_frame io bytes n st))"
  by (auto simp: write_frame_def Let_def synced_def split: option.split)

lemma synced_append:
  assumes "synced st"
  shows "synced (snd (store_append crc32 now io rec st))"
proof (cases "write_record crc32 rec")
  case (Inl e)
  with assms show ?thesis by (simp add: store_append_def)
next
  case (Inr w)
  define full where "full = (case ss_active st of None \<Rightarrow> False
      | Some active \<Rightarrow> ac_len active > 0 \<and> ac_len active + snd w > ss_segment_max st)"
  define r1 where "r1 = (if full then close_active (ap_close io) st else (True, st))"
  define r2 where "r2 = (if ss_active (snd r1) = None then open_active (ap_open io) now (snd r1) else (True, snd r1))"
  have k1: "synced (snd r1)" using assms by (simp add: r1_def synced_closed)
  have k2: "synced (snd r2)" using k1 by (simp add: r2_def synced_open)
  have k3: "synced (snd (write_frame io (fst w) (snd w) (snd r2)))" by (rule synced_write [OF k2])
  have "snd (store_append crc32 now io rec st) \<in> {snd r1, snd r2, snd (write_frame io (fst w) (snd w) (snd r2))}"
    unfolding store_append_def Inr sum.case case_prod_unfold full_def [symmetric] Let_def r1_def [symmetric] r2_def [symmetric]
    by simp
  then show ?thesis using k1 k2 k3 by auto
qed

lemma synced_deletes: "synced st \<Longrightarrow> synced (delete_segments refused ts st)"
  by (erule synced_committed) simp_all

lemma release_shape:
  "\<exists>ts st1. snd (release_consumed io refused consumed st) = delete_segments refused ts st1
     \<and> (st1 = st \<or> st1 = snd (close_active io st) \<and> (\<exists>a. ss_active st = Some a \<and> ac_len a = ac_flushed_len a))"
  by (auto simp: release_consumed_def Let_def split: option.split)

lemma synced_release: "synced st \<Longrightarrow> synced (snd (release_consumed io refused consumed st))"
  using release_shape [of io refused consumed st] synced_deletes synced_closed [of "snd (close_active io st)"] by fastforce

lemma synced_purges:
  "synced (snd (store_roll io st))" "synced (snd (purge_all io refused st))"
  "synced st \<Longrightarrow> synced (snd (purge_before refused b st))" "synced st \<Longrightarrow> synced (snd (retry_pending_deletes refused st))"
proof -
  show "synced (snd (store_roll io st))" by (rule synced_closed) (simp add: store_roll_def Let_def)
  show "synced (snd (purge_all io refused st))" by (rule synced_closed) (simp add: purge_all_def Let_def)
  show "synced (snd (purge_before refused b st))" if "synced st"
    by (rule synced_committed [OF that]) (simp_all add: purge_before_def Let_def)
  show "synced (snd (retry_pending_deletes refused st))" if "synced st"
    by (rule synced_committed [OF that]) (simp_all add: retry_pending_deletes_def Let_def)
qed

lemma synced_step: "spill_step crc32 True s s' \<Longrightarrow> synced (fst s) \<Longrightarrow> synced (fst s')"
  by (induction rule: spill_step.induct)
    (simp_all add: synced_append synced_flush synced_sync synced_closed synced_release synced_purges store_open_def Let_def)

lemma synced_reachable: "spill_reachable crc32 True s \<Longrightarrow> synced (fst s)"
  by (induction rule: spill_reachable.induct) (auto simp: synced_step synced_closed store_open_def Let_def)

text \<open>Closing the active segment once all of it is in its file changes nothing for a reader.\<close>

lemma segment_bytes_deletes:
  assumes "segment_bytes (ss_dir st) t = Some bytes" and "t \<notin> set ts"
  shows "segment_bytes (ss_dir (delete_segments refused ts st)) t = Some bytes"
  using assms unfolding delete_segments_def
proof (induction ts arbitrary: st)
  case (Cons u ts)
  have "segment_bytes (ss_dir (delete_segment refused u st)) t = Some bytes"
    using Cons(2,3) segment_bytes_remove by (fastforce simp: delete_segment_def split: prod.split)
  with Cons show ?case by simp
qed simp

lemma segment_bytes_deletes_sub:
  "segment_bytes (ss_dir (delete_segments refused ts st)) t = Some bytes \<Longrightarrow> segment_bytes (ss_dir st) t = Some bytes"
  unfolding delete_segments_def
proof (induction ts arbitrary: st)
  case (Cons u ts)
  then have "segment_bytes (ss_dir (delete_segment refused u st)) t = Some bytes" by simp
  then show ?case using segment_bytes_remove by (auto simp: delete_segment_def split: prod.splits if_splits)
qed simp

lemma close_flushed:
  assumes "store_ok crc32 st A" and "ss_active st = Some a" and "ac_len a = ac_flushed_len a"
  shows "segment_bytes (ss_dir (snd (close_active io st))) t = segment_bytes (ss_dir st) t"
proof -
  have "ac_buffer a = []" using files_active [OF assms(1,2)] assms(3) by force
  then show ?thesis
    by (cases "segment_bytes (ss_dir st) (ac_id a)") (auto simp: close_active_def Let_def assms(2) segment_bytes_extend)
qed

lemma released_sub:
  assumes "store_ok crc32 st A" and "segment_bytes (ss_dir (snd (release_consumed io refused consumed st))) t = Some bytes"
  shows "segment_bytes (ss_dir st) t = Some bytes"
proof -
  from release_shape [of io refused consumed st] obtain ts st1 where
    r: "snd (release_consumed io refused consumed st) = delete_segments refused ts st1"
      "st1 = st \<or> st1 = snd (close_active io st) \<and> (\<exists>a. ss_active st = Some a \<and> ac_len a = ac_flushed_len a)" by blast
  from assms(2) have "segment_bytes (ss_dir st1) t = Some bytes" unfolding r(1) by (rule segment_bytes_deletes_sub)
  with r(2) close_flushed [OF assms(1)] show ?thesis by auto
qed

text \<open>A file goes only when nothing in it is at the consumed position or behind it.\<close>

lemma released_read:
  assumes ok: "store_ok crc32 st A" and sync: "synced st"
    and b: "segment_bytes (ss_dir st) t = Some bytes" and r: "segment_bytes (ss_dir (snd (release_consumed io refused consumed st))) t \<noteq> Some bytes"
  shows "t < sp_segment consumed \<or> t = sp_segment consumed \<and> length bytes \<le> sp_offset consumed \<or> length bytes = 0"
proof (rule ccontr)
  assume contra: "\<not> ?thesis"
  define doomed where "doomed = filter (\<lambda>sid. sid < sp_segment consumed) (map fst (ss_segments st))"
  have t: "t \<notin> set doomed" "bytes \<noteq> []" using contra by (auto simp: doomed_def)
  show False
  proof (cases "\<exists>a. ss_active st = Some a \<and> consumed \<ge> ss_committed st \<and> ac_len a = ac_flushed_len a \<and> ac_id a \<le> sp_segment consumed")
    case True
    then obtain a where a: "ss_active st = Some a" "consumed \<ge> ss_committed st" "ac_len a = ac_flushed_len a" "ac_id a \<le> sp_segment consumed"
      by blast
    have st': "snd (release_consumed io refused consumed st) = delete_segments refused (doomed @ [ac_id a]) (snd (close_active io st))"
      using a by (simp add: release_consumed_def Let_def doomed_def)
    have "t \<noteq> ac_id a"
    proof
      assume "t = ac_id a"
      with files_active [OF ok a(1)] b a(3) have "length bytes = ac_flushed_len a" by force
      moreover from this t(2) sync a(1) have "SpillPos (ac_id a) (ac_flushed_len a) \<le> ss_committed st" by (auto simp: synced_def)
      ultimately have "SpillPos t (length bytes) \<le> consumed" using a(2) \<open>t = ac_id a\<close> by simp
      with contra show False by (auto simp: pos_defs)
    qed
    with t(1) have "t \<notin> set (doomed @ [ac_id a])" by simp
    from segment_bytes_deletes [OF _ this] b close_flushed [OF ok a(1,3)] r show False unfolding st' by metis
  next
    case False
    have "\<exists>ts. t \<notin> set ts \<and> snd (release_consumed io refused consumed st) = delete_segments refused ts st"
    proof (cases "ss_active st = None \<and> consumed \<ge> ss_committed st \<and> map_of (ss_segments st) (sp_segment consumed) \<noteq> None")
      case True
      have "SpillPos t (length bytes) \<le> consumed" using store_okD(7) [OF ok b] True by force
      with contra have "t \<noteq> sp_segment consumed" by (auto simp: pos_defs)
      with t(1) True show ?thesis
        by (intro exI [of _ "doomed @ [sp_segment consumed]"]) (simp add: release_consumed_def Let_def doomed_def)
    next
      case none: False
      with False t(1) show ?thesis
        by (intro exI [of _ doomed]) (auto simp: release_consumed_def Let_def doomed_def split: option.split)
    qed
    with segment_bytes_deletes [OF b] r show False by metis
  qed
qed

lemma release_unread:
  assumes ok: "store_ok crc32 st A" and sync: "synced st"
  shows "pending crc32 (ss_dir (snd (release_consumed io refused consumed st))) A consumed c = pending crc32 (ss_dir st) A consumed c"
proof -
  define dir' where "dir' = ss_dir (snd (release_consumed io refused consumed st))"
  have f: "files_ok crc32 (ss_dir st) A" "files_ok crc32 dir' A"
    using store_okD(2) [OF ok] store_okD(2) [OF store_ok_release [OF ok]] by (simp_all add: dir'_def)
  have same: "seg_pending crc32 dir' A c t k = seg_pending crc32 (ss_dir st) A c t k"
    if "sp_segment consumed \<le> t" "k = (if t = sp_segment consumed then sp_offset consumed else 0)" for t k
  proof (cases "segment_bytes dir' t = segment_bytes (ss_dir st) t")
    case True
    then show ?thesis by (simp add: seg_pending_def)
  next
    case False
    with released_sub [OF ok] have gone: "segment_bytes dir' t = None" by (cases "segment_bytes dir' t") (auto simp: dir'_def)
    with False obtain old where old: "segment_bytes (ss_dir st) t = Some old" by (cases "segment_bytes (ss_dir st) t") auto
    have "t < sp_segment consumed \<or> t = sp_segment consumed \<and> length old \<le> sp_offset consumed \<or> length old = 0"
      by (rule released_read [OF ok sync old, of io refused]) (use gone in \<open>simp add: dir'_def\<close>)
    with that have "length old \<le> k" by auto
    with old have "seg_pending crc32 (ss_dir st) A c t k = []" by (intro seg_pending_past [OF f(1)]) simp
    with gone show ?thesis by (simp add: seg_pending_def)
  qed
  show ?thesis
  proof (cases "consumed < c")
    case True
    have "map (\<lambda>sid. seg_pending crc32 dir' A c sid 0) [Suc (sp_segment consumed)..<Suc (sp_segment c)]
      = map (\<lambda>sid. seg_pending crc32 (ss_dir st) A c sid 0) [Suc (sp_segment consumed)..<Suc (sp_segment c)]"
      by (intro map_cong refl same) auto
    then show ?thesis using True same [of "sp_segment consumed" "sp_offset consumed"] unfolding pending_def dir'_def
      by (simp only: if_True order_refl refl)
  qed (simp add: pending_def)
qed

section \<open>A store at work\<close>

text \<open>Appending to a new store when nothing fails.\<close>

definition fine_io :: flush_io where
  "fine_io = \<lparr>fl_ok = True, fl_moved = 0, fl_sync = True, fl_stat = True\<rparr>"

definition write_io :: append_io where
  "write_io = \<lparr>ap_close = fine_io, ap_open = True, ap_write = True, ap_moved = 0, ap_stat = True\<rparr>"

definition started :: "(string \<Rightarrow> 32 word) \<Rightarrow> int \<Rightarrow> spill_record \<Rightarrow> nat \<Rightarrow> spill_store" where
  "started crc32 now rec m =
     \<lparr>ss_dir = [(segment_file_name 1, RegularFile [])], ss_segment_max = max m 1,
      ss_active = Some \<lparr>ac_id = 1, ac_buffer = frame crc32 rec, ac_len = length (frame crc32 rec), ac_flushed_len = 0,
        ac_dirty = True, ac_last_sync = now\<rparr>,
      ss_segments = [(1, length (frame crc32 rec))], ss_next_id = 2, ss_pending_deletes = [], ss_replay_start = SpillPos 1 0,
      ss_committed = SpillPos 1 0\<rparr>"

lemma list_segments_Nil [simp]: "list_segments [] = []"
  by (simp add: list_segments_def map_filter_def)

lemma append_first:
  assumes "writable crc32 rec"
  shows "store_append crc32 now write_io rec (store_open m []) = (Some (length (frame crc32 rec)), started crc32 now rec m)"
  by (simp add: store_append_def writable_frame(1) [OF assms] store_open_def open_active_def write_io_def write_frame_def
      started_def put_segment_def extend_file_def segment_bytes_def Let_def)

lemma reachable_first:
  assumes "writable crc32 rec"
  shows "spill_reachable crc32 syncs (started crc32 now rec m, (\<lambda>_. [])(1 := [rec]))"
proof -
  have "spill_reachable crc32 syncs (store_open m [], \<lambda>_. [])" by (rule spill_reachable.Start)
  from spill_reachable.Step [OF this spill_step.Append [OF assms, where now = now and io = write_io]] show ?thesis by (simp add: append_first [OF assms] append_log_def Let_def started_def)
qed

text \<open>Deletions that the system does not refuse.\<close>

lemma deleted_gone:
  assumes "ss_active st = None" and "t \<in> set ts"
  shows "segment_bytes (ss_dir (delete_segments (\<lambda>_. []) ts st)) t = None
    \<and> map_of (ss_segments (delete_segments (\<lambda>_. []) ts st)) t = None"
  using assms
proof (induction ts arbitrary: st)
  case (Cons u ts)
  define st' where "st' = delete_segment (\<lambda>_. []) u st"
  have gone: "segment_bytes (ss_dir st') u = None" "map_of (ss_segments st') u = None"
    using Cons(2) by (simp_all add: st'_def delete_segment_def remove_file_with_retry_def delete_attempts_def map_of_eq_None_iff image_iff)
  have stays: "segment_bytes (ss_dir (delete_segments (\<lambda>_. []) vs s)) u = None
      \<and> map_of (ss_segments (delete_segments (\<lambda>_. []) vs s)) u = None"
    if "ss_active s = None" "segment_bytes (ss_dir s) u = None" "map_of (ss_segments s) u = None" for vs s
    using that
  proof (induction vs arbitrary: s)
    case (Cons v vs)
    have "segment_bytes (ss_dir (delete_segment (\<lambda>_. []) v s)) u = None" "map_of (ss_segments (delete_segment (\<lambda>_. []) v s)) u = None"
      using Cons(2-4) by (auto simp: delete_segment_def remove_file_with_retry_def delete_attempts_def map_of_eq_None_iff image_iff)
    with Cons show ?case by (simp add: delete_segments_def)
  qed (simp add: delete_segments_def)
  have a: "ss_active st' = None" using Cons(2) by (simp add: st'_def)
  have step: "delete_segments (\<lambda>_. []) (u # ts) st = delete_segments (\<lambda>_. []) ts st'" by (simp add: delete_segments_def st'_def)
  show ?case unfolding step using Cons(1) [OF a] Cons(3) stays [OF a gone] by auto
qed simp

text \<open>A segment flushed past the committed position has records to read there.\<close>

lemma behind_pending:
  assumes ok: "store_ok crc32 st A" and a: "ss_active st = Some a" and f: "ac_buffer a = []"
    and c: "ss_committed st < SpillPos (ac_id a) (ac_len a)" "sp_segment (ss_committed st) = ac_id a"
  shows "pending crc32 (ss_dir st) A (ss_committed st) (SpillPos (ac_id a) (ac_len a)) \<noteq> []"
proof -
  let ?recs = "A (ac_id a)" and ?o = "sp_offset (ss_committed st)"
  from files_active [OF ok a] f have b: "segment_bytes (ss_dir st) (ac_id a) = Some (frames crc32 ?recs)"
    "ac_len a = length (frames crc32 ?recs)" by auto
  have o: "?o < length (frames crc32 ?recs)" using c b(2) by (auto simp: pos_defs)
  with store_okD(3) [OF ok] c(2) b(1) obtain i where i: "?o = length (frames crc32 (take i ?recs))" by (auto simp: starts_ok_def)
  with o have less: "i < length ?recs" by (cases "i < length ?recs") simp_all
  have split: "frames crc32 ?recs = frames crc32 (take i ?recs) @ frames crc32 (drop i ?recs)"
    by (metis append_take_drop_id frames_simps(3))
  have w: "\<forall>rec\<in>set ?recs. writable crc32 rec" using store_okD(2) [OF ok] by (simp add: files_ok_def)
  have "from_offset crc32 ?o ?recs = drop i ?recs" 
    using w from_offset_frames [of "take i ?recs" crc32 "drop i ?recs"] set_take_subset [of i ?recs] unfolding i by auto
  then have "seg_pending crc32 (ss_dir st) A (SpillPos (ac_id a) (ac_len a)) (ac_id a) ?o = drop i ?recs"
    using i by (simp add: seg_pending_def b split fit_all)
  with less c show ?thesis by (simp add: pending_def)
qed

section \<open>Properties\<close>

text \<open>
  C13: What is written of a record is read back: the reader returns the record, all of its metadata
  included, and goes on behind its frame. When the file ends inside the frame, wherever it was cut, the
  reader reports a torn tail, or the end of the file when nothing of it is there, and never a record.
\<close>

theorem record_read_back:
  assumes "writable crc32 rec" and "length (frame crc32 rec) \<le> available" and "k < length (frame crc32 rec)"
  shows "(\<exists>d. read_record crc32 \<lparr>rd_bytes = frame crc32 rec @ rest, rd_error = e\<rparr> available
        = Inr (Record d (length (frame crc32 rec)), \<lparr>rd_bytes = rest, rd_error = e\<rparr>) \<and> matches d rec)
    \<and> (\<exists>out reader'. read_record crc32 \<lparr>rd_bytes = take k (frame crc32 rec), rd_error = None :: string option\<rparr> available = Inr (out, reader')
        \<and> (out = Torn \<or> out = End \<and> k = 0))"
proof (intro conjI)
  note w = writable_frame(1) [OF assms(1)]
  from assms(1) have m: "meta_ok (sr_meta rec)" by (simp add: writable_def)
  show "\<exists>d. read_record crc32 \<lparr>rd_bytes = frame crc32 rec @ rest, rd_error = e\<rparr> available
      = Inr (Record d (length (frame crc32 rec)), \<lparr>rd_bytes = rest, rd_error = e\<rparr>) \<and> matches d rec"
    by (rule read_written [OF m w _ assms(2), of "\<lparr>rd_bytes = frame crc32 rec @ rest, rd_error = e\<rparr>" rest]) (auto simp: matches_def)
  show "\<exists>out reader'. read_record crc32 \<lparr>rd_bytes = take k (frame crc32 rec), rd_error = None :: string option\<rparr> available = Inr (out, reader')
      \<and> (out = Torn \<or> out = End \<and> k = 0)"
    by (rule read_cut [OF w assms(3), of "\<lparr>rd_bytes = take k (frame crc32 rec), rd_error = None\<rparr>" "[]" available])
      (use assms(2,3) in auto)
qed

theorem record_read_back_witness:
  "\<exists>d. read_record (\<lambda>_. 7) \<lparr>rd_bytes = frame (\<lambda>_. 7) small_record @ ''rest'', rd_error = None :: string option\<rparr> 1000000
     = Inr (Record d (length (frame (\<lambda>_. 7) small_record)), \<lparr>rd_bytes = ''rest'', rd_error = None\<rparr>) \<and> matches d small_record"
proof -
  have "length (frame (\<lambda>_. 7) small_record) \<le> 1000000" using small_frame_length by simp
  from record_read_back [OF small_record_writable this small_frame] show ?thesis by blast
qed

text \<open>
  C7: In any state the store can reach, whatever fails and however often the process crashes, a call of
  the reader succeeds and returns the next records that are pending before the committed position, as
  they were appended and in their order; the position it ends at is one to go on from, with the rest
  pending, and is the committed position when nothing was left to return.
\<close>

theorem reader_returns_pending_in_order:
  assumes "spill_reachable crc32 syncs (st, A)" and "starts_ok crc32 (ss_dir st) A p" and "p \<le> ss_committed st"
  shows "\<exists>batch recs. spill_read crc32 (dir_files (ss_dir st)) p (ss_committed st) max_records max_bytes = (Inr batch :: string + read_batch)
    \<and> list_all2 matches (rb_records batch) recs
    \<and> pending crc32 (ss_dir st) A p (ss_committed st) = recs @ pending crc32 (ss_dir st) A (rb_next batch) (ss_committed st)
    \<and> starts_ok crc32 (ss_dir st) A (rb_next batch) \<and> p \<le> rb_next batch \<and> rb_next batch \<le> ss_committed st
    \<and> (rb_records batch = [] \<longrightarrow> rb_next batch = ss_committed st)"
proof -
  from store_ok_reachable [OF assms(1)] have "store_ok crc32 st A" by simp
  from spill_read_pending [OF store_okD(2,3) [OF this] assms(2,3), of max_records max_bytes] show ?thesis by metis
qed

theorem reader_returns_pending_in_order_witness:
  "\<exists>batch recs. spill_read (\<lambda>_. 7) (dir_files (ss_dir (started (\<lambda>_. 7) 0 small_record 100))) (SpillPos 1 0) (SpillPos 1 0) 10 10
     = (Inr batch :: string + read_batch) \<and> list_all2 matches (rb_records batch) recs"
proof -
  have "SpillPos 1 0 \<le> ss_committed (started (\<lambda>_. 7) 0 small_record 100)" by (simp add: started_def)
  from reader_returns_pending_in_order [OF reachable_first [OF small_record_writable] starts_ok_start this] show ?thesis
    by (fastforce simp: started_def)
qed

text \<open>
  C6: Once a flush of the active segment has succeeded, the records appended to the segment are safe:
  in every state reached from there while its file is not deleted, through any operations with any
  failures and through crashes and restarts, a reader of the segment gets them first and in order.
\<close>

theorem flushed_records_survive:
  assumes "spill_reachable crc32 False (st, A)" and "ss_active st = Some a" and "store_flush io st = (Some c, st')"
    and "spill_run crc32 (ac_id a) (st', A) (st'', A'')"
  shows "prefix (A (ac_id a)) (pending crc32 (ss_dir st'') A'' (SpillPos (ac_id a) 0) (ss_committed st''))"
proof -
  from store_ok_reachable [OF assms(1)] have ok: "store_ok crc32 st A" by simp
  have "store_ok crc32 st' A" by (rule store_ok_flush [OF ok assms(3)])
  with safe_run [OF assms(4)] flushed_safe [OF ok assms(2,3)] show ?thesis by (simp add: safe_pending)
qed

theorem flushed_records_survive_witness:
  "prefix [small_record] (pending (\<lambda>_. 7) (ss_dir (snd (store_flush fine_io (started (\<lambda>_. 7) 0 small_record 100))))
     ((\<lambda>_. [])(1 := [small_record])) (SpillPos 1 0) (SpillPos 1 (length (frame (\<lambda>_. 7) small_record))))"
proof -
  let ?st = "started (\<lambda>_. 7) 0 small_record 100"
  let ?c = "SpillPos 1 (length (frame (\<lambda>_. 7) small_record))"
  obtain a where a: "ss_active ?st = Some a" "ac_id a = 1" by (simp add: started_def)
  have f: "store_flush fine_io ?st = (Some ?c, snd (store_flush fine_io ?st))" "ss_committed (snd (store_flush fine_io ?st)) = ?c"
    using small_frame [of "\<lambda>_. 7"] by (auto simp: store_flush_def started_def fine_io_def Let_def)
  from flushed_records_survive [OF reachable_first [OF small_record_writable] a(1) f(1) spill_run.Here] a(2) f(2)
  show ?thesis by simp
qed

text \<open>
  C14: While syncs do not fail, releasing a consumed position takes no record from the reader: whatever
  end it reads to, what is pending from the consumed position on is the same before and after, whatever
  files were closed and deleted.
\<close>

theorem release_keeps_unread:
  assumes "spill_reachable crc32 True (st, A)"
  shows "pending crc32 (ss_dir (snd (release_consumed io refused consumed st))) A consumed c = pending crc32 (ss_dir st) A consumed c"
  using release_unread [OF store_ok_reachable [OF assms, unfolded fst_conv snd_conv] synced_reachable [OF assms, unfolded fst_conv]] .

theorem release_keeps_unread_witness:
  "pending (\<lambda>_. 7) (ss_dir (snd (release_consumed fine_io (\<lambda>_. []) (SpillPos 1 0) (started (\<lambda>_. 7) 0 small_record 100))))
     ((\<lambda>_. [])(1 := [small_record])) (SpillPos 1 0) (SpillPos 9 0)
   = pending (\<lambda>_. 7) (ss_dir (started (\<lambda>_. 7) 0 small_record 100)) ((\<lambda>_. [])(1 := [small_record])) (SpillPos 1 0) (SpillPos 9 0)"
  by (rule release_keeps_unread [OF reachable_first [OF small_record_writable]])

text \<open>
  C15: A sync that fails after the flush leaves the segment with records past the committed position that
  a reader has not got. When what was committed before is then released as consumed, their file is deleted,
  and each of them still counts as one that survived.
\<close>

theorem failed_sync_loses_records:
  assumes "spill_reachable crc32 False (st, A)" and "ss_active st = Some a" and "ss_committed st < SpillPos (ac_id a) (ac_len a)"
    and "sp_segment (ss_committed st) = ac_id a" and "ac_dirty a" and "now - ac_last_sync a \<ge> spill_sync_interval"
    and "maybe_sync now \<lparr>fl_ok = True, fl_moved = 0, fl_sync = False, fl_stat = True\<rparr> st = (r, st1)"
    and "release_consumed io (\<lambda>_. []) (ss_committed st) st1 = (n, st2)"
  shows "\<not> r \<and> pending crc32 (ss_dir st1) A (ss_committed st) (SpillPos (ac_id a) (ac_len a)) \<noteq> []
    \<and> segment_bytes (ss_dir st2) (ac_id a) = None \<and> record_survives (ac_id a) (ac_len a) st2"
proof -
  from store_ok_reachable [OF assms(1)] have ok: "store_ok crc32 st A" by simp
  have ok1: "store_ok crc32 st1 A" by (rule store_ok_sync [OF ok assms(7)])
  define a1 where "a1 = a\<lparr>ac_buffer := [], ac_flushed_len := ac_len a\<rparr>"
  have due: "ac_dirty a \<longleftrightarrow> True" "max 0 (now - ac_last_sync a) \<ge> spill_sync_interval \<longleftrightarrow> True" using assms(5,6) by simp_all
  have s1: "\<not> r" "ss_active st1 = Some a1" "ss_committed st1 = ss_committed st"
    using assms(7) unfolding maybe_sync_def assms(2) option.case due simp_thms if_True by (auto simp: a1_def Let_def)
  have "snd (release_consumed io (\<lambda>_. []) (ss_committed st) st1)
    = delete_segments (\<lambda>_. []) (filter (\<lambda>sid. sid < ac_id a) (map fst (ss_segments st1)) @ [ac_id a]) (snd (close_active io st1))"
    using s1(2,3) assms(4) by (simp add: release_consumed_def Let_def a1_def)
  with assms(8) have st2: "st2 = delete_segments (\<lambda>_. []) (filter (\<lambda>sid. sid < ac_id a) (map fst (ss_segments st1)) @ [ac_id a]) (snd (close_active io st1))"
    by simp
  have "segment_bytes (ss_dir st2) (ac_id a) = None \<and> map_of (ss_segments st2) (ac_id a) = None"
    unfolding st2 by (rule deleted_gone) simp_all
  moreover have "pending crc32 (ss_dir st1) A (ss_committed st) (SpillPos (ac_id a) (ac_len a)) \<noteq> []"
    using behind_pending [OF ok1 s1(2)] assms(3,4) s1(3) by (simp add: a1_def)
  ultimately show ?thesis using s1(1) by (simp add: record_survives_def)
qed

theorem failed_sync_loses_records_witness:
  "\<exists>r st1 n st2. maybe_sync 1000000000 \<lparr>fl_ok = True, fl_moved = 0, fl_sync = False, fl_stat = True\<rparr>
       (started (\<lambda>_. 7) 0 small_record 100) = (r, st1)
     \<and> release_consumed fine_io (\<lambda>_. []) (SpillPos 1 0) st1 = (n, st2) \<and> segment_bytes (ss_dir st2) 1 = None
     \<and> pending (\<lambda>_. 7) (ss_dir st1) ((\<lambda>_. [])(1 := [small_record])) (SpillPos 1 0) (SpillPos 1 (length (frame (\<lambda>_. 7) small_record))) \<noteq> []"
proof -
  let ?st = "started (\<lambda>_. 7) 0 small_record 100"
  obtain a where a: "ss_active ?st = Some a" "ac_id a = 1" "ac_len a = length (frame (\<lambda>_. 7) small_record)" "ac_dirty a" "ac_last_sync a = 0"
    by (simp add: started_def)
  have c: "ss_committed ?st = SpillPos 1 0" by (simp add: started_def)
  obtain r st1 where s1: "maybe_sync 1000000000 \<lparr>fl_ok = True, fl_moved = 0, fl_sync = False, fl_stat = True\<rparr> ?st = (r, st1)" by fastforce
  obtain n st2 where s2: "release_consumed fine_io (\<lambda>_. []) (ss_committed ?st) st1 = (n, st2)" by fastforce
  have "ss_committed ?st < SpillPos (ac_id a) (ac_len a)" "sp_segment (ss_committed ?st) = ac_id a"
      "1000000000 - ac_last_sync a \<ge> spill_sync_interval"
    using small_frame [of "\<lambda>_. 7"] a by (simp_all add: c pos_defs spill_sync_interval_def)
  from failed_sync_loses_records [OF reachable_first [OF small_record_writable] a(1) this(1,2) a(4) this(3) s1 s2] s1 s2 a(2,3) c
  show ?thesis by auto
qed


end
