(* ===== verification/Spec2Isabelle.thy ===== *)
theory Spec2Isabelle
  imports RequestGate RequestSetup CandidateSafety ResetCredits SpillStore
begin

text \<open>
  A verification library of the account gateway of Codex-Manager (the Rust crates
  \<open>crates/service\<close> and \<open>crates/core\<close> under \<open>src/\<close>).

  The program keeps a pool of ChatGPT accounts and proxies model requests to an upstream
  through one of them. A request passes a gate per key, path and model (\<open>RequestGate\<close>); the
  accounts that may serve it are collected (\<open>QuotaGuard\<close>), those known not to support the model
  are left out (\<open>ModelSupport\<close>), and the rest is brought into an order: by the account the
  conversation is bound to (\<open>BindingStore\<close>, \<open>ConversationRouting\<close>) or by the strategy of the
  gateway (\<open>RouteHint\<close>, with the health scores of \<open>RouteQuality\<close>). \<open>RequestSetup\<close> composes these.
  Then the candidates are tried one after the other (\<open>CandidateLoop\<close>). A candidate that cools or
  is busy is skipped (\<open>Cooldown\<close>, \<open>Inflight\<close>); for the others the body is prepared
  (\<open>CandidateState\<close>) and an attempt is made (\<open>AttemptFlow\<close>, \<open>PostRetry\<close>). It ends with a
  response, an error or a move to the next account, and feeds the cooldown table and the queue of
  usage refreshes. The beginning of a response is read before it is handed on
  (\<open>StreamPreflight\<close>); its end decides on the row of the request log, on the status of the account
  (\<open>AccountStatus\<close>) and on what is remembered of its models (\<open>ResponseFinalize\<close>).

  Which theory models what (paths under \<open>src/crates/service/src/\<close> unless they begin with
  \<open>core\<close>):
  \<^item> \<open>Prelude\<close>: strings as UTF-8 bytes with the operations of the standard library the code
    uses, fixed-width arithmetic with saturation and wrap-around written out, maps and slices.
  \<^item> \<open>SweptStore\<close>: two locales. \<open>swept_store\<close> is a table whose sweep does not change what a
    reader sees; \<open>keyed_store\<close> adds operations that touch one key only. Both are interpreted
    on the tables of \<open>Cooldown\<close> and \<open>RouteQuality\<close>.
  \<^item> \<open>Cooldown\<close>: \<open>gateway/routing/cooldown.rs\<close>, the cooldown intervals and the ladder of
    rate-limit offences.
  \<^item> \<open>RouteQuality\<close>: \<open>gateway/routing/route_quality.rs\<close>, the health scores.
  \<^item> \<open>RouteState\<close>, \<open>RouteHint\<close>: \<open>gateway/routing/route_hint.rs\<close>, expiring bounded tables,
    cursors and the ordering of candidates. The locale \<open>reordering\<close> is what the caller of a
    strategy relies on; it is interpreted on the strategies.
  \<^item> \<open>RequestGate\<close>: \<open>gateway/routing/request_gate.rs\<close>, the locks of concurrent requests as an
    inductive step relation over tasks.
  \<^item> \<open>StorageData\<close>: rows of \<open>core/src/storage/mod.rs\<close>.
  \<^item> \<open>Json\<close>, \<open>UsageLimits\<close>: \<open>core/src/usage/mod.rs\<close>, the rate-limit buckets of a usage
    payload as JSON values.
  \<^item> \<open>AccountMeta\<close>: \<open>usage/usage_account_meta.rs\<close>, the identity of an account.
  \<^item> \<open>QuotaGuard\<close>: \<open>account/account_availability.rs\<close>, \<open>gateway/routing/failover.rs\<close>,
    \<open>gateway/routing/selection.rs\<close> and the query of \<open>core/src/storage/usage.rs\<close>.
  \<^item> \<open>UpstreamPolicy\<close>: \<open>gateway/upstream/config.rs\<close> and, of \<open>gateway/upstream/support/\<close>,
    \<open>deadline.rs\<close>, \<open>backoff.rs\<close>, \<open>failover_policy.rs\<close> and \<open>outcome.rs\<close>.
  \<^item> \<open>Exchange\<close>, \<open>FallbackBranch\<close>, \<open>AttemptFlow\<close>, \<open>PostRetry\<close>: \<open>gateway/upstream/attempt_flow/\<close>,
    \<open>support/retry.rs\<close> and \<open>gateway/upstream/executor/\<close>, one attempt on one account with all its
    retries; \<open>AttemptSafety\<close> proves its contract stage by stage.
  \<^item> \<open>BindingStore\<close>: \<open>core/src/storage/conversation_bindings.rs\<close>, the table of bindings;
    \<open>ConversationRouting\<close>: \<open>gateway/routing/conversation_binding.rs\<close>;
    \<open>ConversationSafety\<close> proves that conversations return to their account and thread.
  \<^item> \<open>ModelSupport\<close>: \<open>account/account_model_support.rs\<close>, the learned rejections.
  \<^item> \<open>Inflight\<close>: \<open>gateway/observability/metrics.rs\<close> (the guards of requests in flight) and the
    skip policy of \<open>gateway/upstream/support/candidates.rs\<close>.
  \<^item> \<open>AccountStatus\<close>: \<open>account/account_status.rs\<close> over the queries of
    \<open>core/src/storage/accounts.rs\<close> and \<open>events.rs\<close>.
  \<^item> \<open>ByteStream\<close>, \<open>SseFrames\<close>, \<open>StreamPreflight\<close>: \<open>gateway/upstream/response.rs\<close> and, of
    \<open>gateway/upstream/proxy_pipeline/\<close>, \<open>stream_preflight.rs\<close>: bodies as timed streams of
    chunks, the server-sent events in them, and the decision taken on their beginning.
  \<^item> \<open>CandidateState\<close>: \<open>candidate_state.rs\<close> and \<open>support/payload_rewrite.rs\<close>, the bodies of the
    attempts; \<open>RequestSetup\<close>: \<open>request_setup.rs\<close>.
  \<^item> \<open>ResponseFinalize\<close>: \<open>response_finalize.rs\<close> and \<open>execution_context.rs\<close>; the state of the
    gateway as a whole (\<open>gateway_state\<close>) and the frame \<open>only_touches\<close>, which says for which
    accounts it may change.
  \<^item> \<open>CandidateLoop\<close>: \<open>candidate_executor.rs\<close> and \<open>candidate_attempt.rs\<close>, the loop over the
    candidates as one function per stage; \<open>CandidateSafety\<close> proves, again stage by stage, that a
    request is answered once, within bounds, and leaves an account only for a reason.
  \<^item> \<open>ResetCreditStore\<close>: \<open>core/src/storage/reset_credit_operations.rs\<close>, the journal of reset-credit
    operations in the embedded database; \<open>ResetCreditRepo\<close>: the same journal in
    \<open>crates/storage-seaorm/src/reset_credit_operations.rs\<close>, with its retries on a locked database;
    \<open>ResetJournal\<close>: what both promise, an abstract journal, and the simulation;
    \<open>ResetStorage\<close>: \<open>account/remote_storage.rs\<close>, which chooses between them;
    \<open>ResetCredits\<close>: \<open>usage/usage_reset_credits.rs\<close>, the redemption of a credit as one function per
    stage and as interleaved steps of several clients.
  \<^item> \<open>SpillRecord\<close>, \<open>SpillSegment\<close>: \<open>record.rs\<close> and \<open>segment.rs\<close> of
    \<open>core/src/request_log_spill/\<close>, the files that hold the payloads of the request log while memory
    is short: the frame of a record, the store that appends to numbered segments, its reader;
    \<open>SpillReplay\<close>: what the reader gets from files of whole and cut frames; \<open>SpillStore\<close>: the
    invariant of the store through failures, crashes and restarts.

  State and operations. A table guarded by a mutex is a record; an operation takes the
  record and the reading of the clock and returns the record updated. Maps are partial
  functions. Errors and early returns are values of a sum, an option or a datatype with
  the constructors of the code. Time stamps of 64 bits are integers, instants and durations
  are nanoseconds, floats are exact rationals with infinities and NaN (a divergence from
  rounding that the thresholds, small decimals, do not meet).

  What the lemmas show. Each component has an invariant that every operation keeps, the
  behaviour of its operations on every branch, and the facts its callers use: that a mark
  takes exactly its account out of rotation, that a strategy only reorders, that a cursor
  visits every candidate in turn, that the database query agrees with the predicate in
  memory, that the cache never serves an outdated pool, that the preflight loses no byte and
  does not depend on how a body is cut into chunks, that both databases refine one journal of
  reset credits (the locale \<open>reset_journal\<close>, interpreted on the dispatch between them), so that an
  operation redeems one credit only, however often and from however many clients it is retried.
  That what is spilled can be read back: \<open>store_ok\<close> relates the files and the buffer of the store
  to the records appended to each segment (\<open>spill_reachable\<close> adds crashes and restarts to the
  operations), and \<open>pending\<close> is what a reader has still to get.
  On top of them stand the two contracts:
  \<open>attempt_ok\<close>, by which one attempt sends a bounded number of requests and fails over only from
  an account that cools, and \<open>sequence_ok\<close>, by which a request ends with exactly one answer.

  Hypotheses. The wall clock does not run backwards (\<open>wall_monotone\<close>). An attempt dropped because
  the client went away leaves a state that an attempt may leave, at an instant not before the
  cancellation (\<open>loop_ok\<close>). In the
  steps of \<open>credit_step\<close> a transaction of a database is one step, undone when it fails, and a new
  redeem identifier, which is random, is not one of those recorded. A record handed to the spill
  files is one that can be encoded (\<open>writable\<close>: strings of valid UTF-8, less than 4 GiB); with
  \<open>spill_reachable crc32 True\<close> the sync calls of the system succeed. All are met by the concrete
  environments of the witnesses.

  Bounds. No operation needs fuel: the loops of the code run over finite lists or are
  bounded by a shrinking argument (a termination proof each). One attempt sends at most six
  requests, one candidate, with the retry after a failover and the retry of a rejected body,
  at most eighteen. An addition of a timeout to an instant beyond the range of the clock, which
  panics in the code, is not modelled.

  Not modelled: HTTP and its transport, header and body construction, the translation between
  protocols and the bridge that copies a response to the client (its result is an argument), the
  token counts and timings of a log row, the web, desktop and start-up crates, plugins, JWT
  decoding, SQL beyond the queries named above, and the mutexes themselves (each operation is
  atomic; only the request gate, whose purpose is concurrency, is modelled as interleaved steps).
  What such code returns is an argument of the definitions that use it.
\<close>

end
